(* ===== verification/Prelude.thy ===== *)
theory Prelude
  imports Main "HOL-Library.Word"
begin

text \<open>
  Shared vocabulary of the development: the C integer types, the error numbers of
  \<^verbatim>\<open>include/linux/errno.h\<close>, the page constants of \<^verbatim>\<open>include/linux/gfp.h\<close>, and the generic
  lemmas on words, buddies and lists that several components use.  A C function that
  returns \<open>0\<close>, a count or \<open>-Exxx\<close> returns an \<open>int\<close> here; a pointer is a \<open>64 word\<close>,
  and a pointer that may be \<open>NULL\<close> on return is an option.
\<close>

unbundle bit_operations_syntax

named_theorems frame_simps \<open>fields an operation leaves alone\<close>

type_synonym u64 = "64 word"
type_synonym u32 = "32 word"

subsection \<open>Error numbers\<close>

abbreviation (input) EPERM :: int where "EPERM \<equiv> 1"
abbreviation (input) ENOENT :: int where "ENOENT \<equiv> 2"
abbreviation (input) ESRCH :: int where "ESRCH \<equiv> 3"
abbreviation (input) EINTR :: int where "EINTR \<equiv> 4"
abbreviation (input) ENXIO :: int where "ENXIO \<equiv> 6"
abbreviation (input) E2BIG :: int where "E2BIG \<equiv> 7"
abbreviation (input) ENOEXEC :: int where "ENOEXEC \<equiv> 8"
abbreviation (input) EBADF :: int where "EBADF \<equiv> 9"
abbreviation (input) ECHILD :: int where "ECHILD \<equiv> 10"
abbreviation (input) EAGAIN :: int where "EAGAIN \<equiv> 11"
abbreviation (input) ENOMEM :: int where "ENOMEM \<equiv> 12"
abbreviation (input) EACCES :: int where "EACCES \<equiv> 13"
abbreviation (input) EFAULT :: int where "EFAULT \<equiv> 14"
abbreviation (input) EBUSY :: int where "EBUSY \<equiv> 16"
abbreviation (input) EEXIST :: int where "EEXIST \<equiv> 17"
abbreviation (input) EXDEV :: int where "EXDEV \<equiv> 18"
abbreviation (input) ENODEV :: int where "ENODEV \<equiv> 19"
abbreviation (input) ENOTDIR :: int where "ENOTDIR \<equiv> 20"
abbreviation (input) EISDIR :: int where "EISDIR \<equiv> 21"
abbreviation (input) EINVAL :: int where "EINVAL \<equiv> 22"
abbreviation (input) EMFILE :: int where "EMFILE \<equiv> 24"
abbreviation (input) ENOTTY :: int where "ENOTTY \<equiv> 25"
abbreviation (input) ESPIPE :: int where "ESPIPE \<equiv> 29"
abbreviation (input) EPIPE :: int where "EPIPE \<equiv> 32"
abbreviation (input) ERANGE :: int where "ERANGE \<equiv> 34"
abbreviation (input) ENAMETOOLONG :: int where "ENAMETOOLONG \<equiv> 36"
abbreviation (input) ENOSYS :: int where "ENOSYS \<equiv> 38"
abbreviation (input) ENOTEMPTY :: int where "ENOTEMPTY \<equiv> 39"
abbreviation (input) ERESTARTSYS :: int where "ERESTARTSYS \<equiv> 512"

subsection \<open>Pages\<close>

abbreviation (input) PAGE_SHIFT :: nat where "PAGE_SHIFT \<equiv> 12"
abbreviation (input) PAGE_SIZE :: u64 where "PAGE_SIZE \<equiv> 4096"

text \<open>The linear map of \<^verbatim>\<open>include/asm/memory.h\<close>.\<close>

abbreviation (input) PHYS_VIRT_OFFSET :: u64 where "PHYS_VIRT_OFFSET \<equiv> 0xffff800040000000"

definition phys_to_virt :: "u64 \<Rightarrow> u64" where
  "phys_to_virt pa = pa + PHYS_VIRT_OFFSET"

definition virt_to_phys :: "u64 \<Rightarrow> u64" where
  "virt_to_phys va = va - PHYS_VIRT_OFFSET"

text \<open>The idiom \<open>(x + PAGE_SIZE - 1) & ~(PAGE_SIZE - 1)\<close>, which wraps at the top.\<close>

definition page_align_up :: "u64 \<Rightarrow> u64" where
  "page_align_up x = (x + (PAGE_SIZE - 1)) AND NOT (PAGE_SIZE - 1)"

definition page_align_down :: "u64 \<Rightarrow> u64" where
  "page_align_down x = x AND NOT (PAGE_SIZE - 1)"

subsection \<open>Powers of two and XOR\<close>

lemma nat_xor_pow2:
  "(p::nat) XOR 2 ^ k = (if bit p k then p - 2 ^ k else p + 2 ^ k)"
proof -
  have "p XOR 2 ^ k = flip_bit k p"
    by (simp add: flip_bit_eq_xor push_bit_eq_mult)
  also have "\<dots> = (if bit p k then p - 2 ^ k else p + 2 ^ k)"
  proof (cases "bit p k")
    case True
    then have "set_bit k (unset_bit k p) = p"
      by (intro bit_eqI) (auto simp: bit_set_bit_iff bit_unset_bit_iff)
    then have "unset_bit k p + 2 ^ k = p"
      by (simp add: set_bit_eq bit_unset_bit_iff)
    then have "unset_bit k p = p - 2 ^ k" by linarith
    with True show ?thesis by (simp add: flip_bit_eq_if)
  qed (simp add: flip_bit_eq_if set_bit_eq)
  finally show ?thesis .
qed

lemma bit_dvd_pow2_iff:
  assumes "2 ^ k dvd (p::nat)"
  shows "bit p k \<longleftrightarrow> \<not> 2 ^ Suc k dvd p"
proof -
  obtain m where m: "p = 2 ^ k * m" using assms by (auto elim: dvdE)
  show ?thesis
    by (simp add: m bit_iff_odd mult.commute [of 2] del: power_Suc) (simp add: mult.commute)
qed

lemma xor_pow2_aligned:
  assumes "2 ^ Suc k dvd (p::nat)"
  shows "p XOR 2 ^ k = p + 2 ^ k"
proof -
  have "2 ^ k dvd p" using assms by (metis power_le_dvd le_SucI order_refl)
  then show ?thesis using assms bit_dvd_pow2_iff [of k p] by (simp add: nat_xor_pow2)
qed

text \<open>The two halves of an aligned block of the next size are each other's XOR image.\<close>

lemma xor_pow2_pair:
  assumes "2 ^ k dvd (p::nat)"
  defines "b \<equiv> p XOR 2 ^ k"
  defines "q \<equiv> (if b < p then b else p)"
  shows "2 ^ Suc k dvd q" and "p = q \<and> b = q + 2 ^ k \<or> b = q \<and> p = q + 2 ^ k"
proof -
  obtain m where m: "p = 2 ^ k * m" using assms(1) by (auto elim: dvdE)
  have "2 ^ Suc k dvd q \<and> (p = q \<and> b = q + 2 ^ k \<or> b = q \<and> p = q + 2 ^ k)"
  proof (cases "bit p k")
    case True
    then have "odd m" using m by (simp add: bit_iff_odd)
    then obtain j where j: "m = 2 * j + 1" by (auto elim: oddE)
    have p: "p = 2 ^ Suc k * j + 2 ^ k" by (simp add: m j algebra_simps)
    have b: "b = 2 ^ Suc k * j" using True p by (simp add: b_def nat_xor_pow2)
    have "b < p" using p b by simp
    then show ?thesis using p b by (simp add: q_def)
  next
    case False
    then have "2 ^ Suc k dvd p" using bit_dvd_pow2_iff [OF assms(1)] by simp
    moreover have "b = p + 2 ^ k" using False by (simp add: b_def nat_xor_pow2)
    ultimately show ?thesis by (simp add: q_def)
  qed
  then show "2 ^ Suc k dvd q" and "p = q \<and> b = q + 2 ^ k \<or> b = q \<and> p = q + 2 ^ k" by auto
qed

lemma aligned_less_imp_block:
  assumes "2 ^ k dvd (p::nat)" and "p < 2 ^ n" and "k \<le> n"
  shows "p + 2 ^ k \<le> 2 ^ n"
proof -
  obtain m where m: "p = 2 ^ k * m" using assms(1) by (auto elim: dvdE)
  have n: "(2::nat) ^ n = 2 ^ k * 2 ^ (n - k)" using assms(3) by (simp flip: power_add)
  then have "m < 2 ^ (n - k)" using assms(2) m by simp
  then have "m + 1 \<le> 2 ^ (n - k)" by simp
  then have "2 ^ k * (m + 1) \<le> 2 ^ k * (2::nat) ^ (n - k)" by (rule mult_le_mono2)
  then show ?thesis by (simp add: m n)
qed

subsection \<open>Words as natural numbers\<close>

lemma unat_of_nat_less: "n < 2 ^ 64 \<Longrightarrow> unat (of_nat n :: u64) = n"
  by (simp add: unat_of_nat)

lemma unat_pow2: "n < 64 \<Longrightarrow> unat (2 ^ n :: u64) = 2 ^ n"
proof -
  assume "n < 64"
  then have "(2::nat) ^ n < 2 ^ 64" by (intro power_strict_increasing) auto
  then show ?thesis using unat_of_nat_less [of "2 ^ n"] by simp
qed

lemma and_mask_zero_iff: "(a::u64) AND (2 ^ n - 1) = 0 \<longleftrightarrow> 2 ^ n dvd unat a"
proof -
  have "a AND (2 ^ n - 1) = take_bit n a" by (simp add: take_bit_eq_mask mask_eq_exp_minus_1)
  then have "a AND (2 ^ n - 1) = 0 \<longleftrightarrow> unat (take_bit n a) = 0" by (simp add: unat_eq_zero)
  also have "\<dots> \<longleftrightarrow> 2 ^ n dvd unat a" by (simp add: unsigned_take_bit_eq take_bit_eq_0_iff)
  finally show ?thesis .
qed

subsection \<open>Page alignment\<close>

lemma page_align_down_eq: "page_align_down x = push_bit 12 (drop_bit 12 x)"
proof -
  have m: "(4096::u64) - 1 = mask 12" by (simp add: mask_eq_exp_minus_1)
  show ?thesis
    unfolding page_align_down_def m by (intro bit_eqI) (auto simp: bit_simps)
qed

lemma unat_page_align_down: "unat (page_align_down x) = unat x div 4096 * 4096"
proof -
  have "unat x div 4096 * 4096 < 2 ^ 64"
    using unsigned_less [of x, where 'a = nat] by simp
  then show ?thesis
    unfolding page_align_down_eq unsigned_push_bit_eq unat_drop_bit_eq
    by (simp add: drop_bit_eq_div push_bit_eq_mult take_bit_nat_eq_self)
qed

lemma page_align_up_down: "page_align_up x = page_align_down (x + 4095)"
  by (simp add: page_align_up_def page_align_down_def)

lemma unat_page_align_up:
  "unat x + 4095 < 2 ^ 64 \<Longrightarrow> unat (page_align_up x) = (unat x + 4095) div 4096 * 4096"
  unfolding page_align_up_down unat_page_align_down
  by (subst unat_add_lem [THEN iffD1]) simp_all

end
