(* ===== verification/Page_Alloc.thy ===== *)
theory Page_Alloc
  imports Prelude
begin

text \<open>
  The physical page allocator of \<^verbatim>\<open>mm/page_alloc.c\<close>.  The static variables of the file are
  the fields of one record.  A free list, linked in C through the first word of each free
  block, is the list of the page frame numbers (pfn) it links, head first; the entry of
  \<^verbatim>\<open>mem_map\<close> is the reference count of the page, a mathematical integer (each reference is a
  page-table entry or an owner, so 31 bits are never exhausted in 128 MiB), and a
  \<^verbatim>\<open>struct page *\<close> is the index of its entry.  Addresses keep their 64 bits.
\<close>

subsection \<open>State and operations\<close>

abbreviation MAX_PAGES :: nat where "MAX_PAGES \<equiv> 32768"
abbreviation KERNEL_VIRT_BASE :: u64 where "KERNEL_VIRT_BASE \<equiv> 0xffff800080000000"
abbreviation VIRT_MEM_END :: u64 where "VIRT_MEM_END \<equiv> 0xffff800088000000"

record buddy =
  free_area :: "nat \<Rightarrow> nat list"
  mem_start :: u64
  mem_size :: u64
  max_order :: nat
  pool_pages :: nat
  block_order :: "nat \<Rightarrow> int"
  mem_map :: "nat \<Rightarrow> int"

definition addr_to_pfn :: "buddy \<Rightarrow> u64 \<Rightarrow> nat" where
  "addr_to_pfn s addr = unat (drop_bit PAGE_SHIFT (addr - mem_start s))"

definition pfn_to_addr :: "buddy \<Rightarrow> nat \<Rightarrow> u64" where
  "pfn_to_addr s pfn = mem_start s + push_bit PAGE_SHIFT (of_nat pfn)"

definition order_valid :: "buddy \<Rightarrow> int \<Rightarrow> bool" where
  "order_valid s order \<longleftrightarrow> 0 \<le> order \<and> order \<le> int (max_order s)"

definition addr_in_pool :: "buddy \<Rightarrow> u64 \<Rightarrow> nat \<Rightarrow> bool" where
  "addr_in_pool s addr order =
     (let size = push_bit order PAGE_SIZE; end = mem_start s + mem_size s in
      if addr < mem_start s \<or> addr + size > end then False
      else if addr AND (size - 1) \<noteq> 0 then False
      else True)"

definition pfn_in_pool :: "buddy \<Rightarrow> nat \<Rightarrow> bool" where
  "pfn_in_pool s pfn \<longleftrightarrow> pfn < pool_pages s"

definition free_list_add :: "nat \<Rightarrow> nat \<Rightarrow> buddy \<Rightarrow> buddy" where
  "free_list_add pfn order s =
     s\<lparr>free_area := (free_area s)(order := pfn # free_area s order),
       block_order := (block_order s)(pfn := int order)\<rparr>"

definition free_list_remove :: "nat \<Rightarrow> nat \<Rightarrow> buddy \<Rightarrow> buddy" where
  "free_list_remove pfn order s =
     (if pfn \<in> set (free_area s order)
      then s\<lparr>free_area := (free_area s)(order := remove1 pfn (free_area s order)),
             block_order := (block_order s)(pfn := - 1)\<rparr>
      else s)"

definition free_list_pop :: "nat \<Rightarrow> buddy \<Rightarrow> nat \<times> buddy" where
  "free_list_pop order s =
     (case free_area s order of
        [] \<Rightarrow> (MAX_PAGES, s)
      | pfn # rest \<Rightarrow> (pfn, s\<lparr>free_area := (free_area s)(order := rest),
                                block_order := (block_order s)(pfn := - 1)\<rparr>))"

fun split_block :: "nat \<Rightarrow> nat \<Rightarrow> nat \<Rightarrow> buddy \<Rightarrow> buddy" where
  "split_block pfn from_order to_order s =
     (if from_order > to_order
      then split_block pfn (from_order - 1) to_order
             (free_list_add (pfn XOR 2 ^ (from_order - 1)) (from_order - 1) s)
      else s)"

declare split_block.simps [simp del]

lemma max_order_list_ops [simp]:
  "max_order (free_list_add p k s) = max_order s"
  "max_order (free_list_remove p k s) = max_order s"
  by (simp_all add: free_list_add_def free_list_remove_def)

function buddy_free :: "nat \<Rightarrow> nat \<Rightarrow> buddy \<Rightarrow> buddy" where
  "buddy_free pfn k s =
     (if k < max_order s then
        let buddy_pfn = pfn XOR 2 ^ k in
        if buddy_pfn \<ge> pool_pages s then free_list_add pfn k s
        else if block_order s buddy_pfn \<noteq> int k then free_list_add pfn k s
        else buddy_free (if buddy_pfn < pfn then buddy_pfn else pfn) (Suc k)
               (free_list_remove buddy_pfn k s)
      else free_list_add pfn k s)"
  by pat_completeness auto
termination
  by (relation "measure (\<lambda>(pfn, k, s). max_order s - k)") auto

declare buddy_free.simps [simp del]

text \<open>\<open>63 - __builtin_clzl(n)\<close> for \<open>n > 0\<close>: the index of the highest set bit.\<close>

fun ilog2 :: "nat \<Rightarrow> nat" where
  "ilog2 n = (if n \<le> 1 then 0 else Suc (ilog2 (n div 2)))"

declare ilog2.simps [simp del]

text \<open>The statics are zero before initialisation; \<open>alloc_start\<close> is the linker's symbol.\<close>

definition page_alloc_init :: "u64 \<Rightarrow> buddy" where
  "page_alloc_init alloc_start =
     (let start = page_align_up alloc_start;
          s0 = \<lparr>free_area = (\<lambda>_. []), mem_start = start, mem_size = 0, max_order = 0,
                pool_pages = 0, block_order = (\<lambda>_. - 1), mem_map = (\<lambda>_. 0)\<rparr> in
      if start \<ge> VIRT_MEM_END then s0
      else
        let npages = unat ((VIRT_MEM_END - start) div PAGE_SIZE) in
        if npages = 0 then s0
        else
          let mo = ilog2 npages; pool = 2 ^ mo in
          free_list_add 0 mo
            (s0\<lparr>max_order := mo, pool_pages := pool,
                mem_size := push_bit PAGE_SHIFT (of_nat pool)\<rparr>))"

definition virt_to_page :: "buddy \<Rightarrow> u64 \<Rightarrow> nat option" where
  "virt_to_page s addr =
     (if addr = 0 \<or> \<not> addr_in_pool s addr 0 then None
      else let pfn = addr_to_pfn s addr in
        if \<not> pfn_in_pool s pfn then None else Some pfn)"

definition page_address :: "buddy \<Rightarrow> nat option \<Rightarrow> u64 option" where
  "page_address s page =
     (case page of None \<Rightarrow> None
      | Some pfn \<Rightarrow> if \<not> pfn_in_pool s pfn then None else Some (pfn_to_addr s pfn))"

function alloc_scan :: "nat \<Rightarrow> nat \<Rightarrow> buddy \<Rightarrow> u64 option \<times> buddy" where
  "alloc_scan order k s =
     (if k \<le> max_order s then
        if free_area s k = [] then alloc_scan order (Suc k) s
        else
          let (pfn, s1) = free_list_pop k s in
          if pfn \<ge> pool_pages s then (None, s1)
          else
            let s2 = split_block pfn k order s1 in
            (Some (pfn_to_addr s pfn),
             s2\<lparr>block_order := (block_order s2)(pfn := - 1),
                mem_map := (mem_map s2)(pfn := 1)\<rparr>)
      else (None, s))"
  by pat_completeness auto
termination
  by (relation "measure (\<lambda>(order, k, s). Suc (max_order s) - k)") auto

declare alloc_scan.simps [simp del]

definition alloc_pages :: "int \<Rightarrow> buddy \<Rightarrow> u64 option \<times> buddy" where
  "alloc_pages order s =
     (if \<not> order_valid s order then (None, s)
      else alloc_scan (nat order) (nat order) s)"

definition free_pages :: "u64 \<Rightarrow> int \<Rightarrow> buddy \<Rightarrow> buddy" where
  "free_pages addr order s =
     (if addr = 0 \<or> \<not> order_valid s order then s
      else
        let pfn = addr_to_pfn s addr in
        if \<not> pfn_in_pool s pfn \<or> \<not> addr_in_pool s addr (nat order) then s
        else if block_order s pfn \<ge> 0 then s
        else if mem_map s pfn > 1 then s
        else buddy_free pfn (nat order) (s\<lparr>mem_map := (mem_map s)(pfn := 0)\<rparr>))"

definition get_page :: "nat option \<Rightarrow> buddy \<Rightarrow> buddy" where
  "get_page page s =
     (case page of None \<Rightarrow> s
      | Some pfn \<Rightarrow> s\<lparr>mem_map := (mem_map s)(pfn := mem_map s pfn + 1)\<rparr>)"

definition put_page :: "nat option \<Rightarrow> buddy \<Rightarrow> buddy" where
  "put_page page s =
     (case page of None \<Rightarrow> s
      | Some pfn \<Rightarrow>
          let s1 = s\<lparr>mem_map := (mem_map s)(pfn := mem_map s pfn - 1)\<rparr> in
          if mem_map s1 pfn \<noteq> 0 then s1
          else if \<not> pfn_in_pool s1 pfn then s1
          else buddy_free pfn 0 s1)"

definition page_count :: "nat option \<Rightarrow> buddy \<Rightarrow> int" where
  "page_count page s = (case page of None \<Rightarrow> 0 | Some pfn \<Rightarrow> mem_map s pfn)"

subsection \<open>The invariant and the frames it accounts for\<close>

definition frames :: "nat \<Rightarrow> nat \<Rightarrow> nat set" where
  "frames p k = {p ..< p + 2 ^ k}"

definition free_frames :: "buddy \<Rightarrow> nat set" where
  "free_frames s = (\<Union>k. \<Union>p\<in>set (free_area s k). frames p k)"

definition block_ok :: "buddy \<Rightarrow> nat \<Rightarrow> nat \<Rightarrow> bool" where
  "block_ok s p k \<longleftrightarrow> k \<le> max_order s \<and> 2 ^ k dvd p \<and> p + 2 ^ k \<le> pool_pages s"

definition lists_ok :: "buddy \<Rightarrow> bool" where
  "lists_ok s \<longleftrightarrow>
     (\<forall>k. distinct (free_area s k)) \<and>
     (\<forall>k p. p \<in> set (free_area s k) \<longrightarrow> block_ok s p k) \<and>
     (\<forall>k p. p \<in> set (free_area s k) \<longleftrightarrow> block_order s p = int k)"

definition blocks_disjoint :: "buddy \<Rightarrow> bool" where
  "blocks_disjoint s \<longleftrightarrow>
     (\<forall>k p k' p'. p \<in> set (free_area s k) \<longrightarrow> p' \<in> set (free_area s k') \<longrightarrow>
        (p, k) \<noteq> (p', k') \<longrightarrow> frames p k \<inter> frames p' k' = {})"

definition buddy_inv :: "buddy \<Rightarrow> bool" where
  "buddy_inv s \<longleftrightarrow>
     pool_pages s = 2 ^ max_order s \<and> lists_ok s \<and> blocks_disjoint s"

lemma mem_frames [simp]: "x \<in> frames p k \<longleftrightarrow> p \<le> x \<and> x < p + 2 ^ k"
  by (simp add: frames_def)

lemma frames_first [simp]: "p \<in> frames p k"
  by simp

lemma frames_Suc: "frames p (Suc k) = frames p k \<union> frames (p + 2 ^ k) k"
  by (auto simp: set_eq_iff)

lemma frames_halves_disjoint: "frames p k \<inter> frames (p + 2 ^ k) k = {}"
  by auto

lemma frames_low_disjoint:
  assumes "j \<le> m"
  shows "frames p j \<inter> frames (p + 2 ^ m) m = {}"
proof -
  have "(2::nat) ^ j \<le> 2 ^ m" using assms by (intro power_increasing) auto
  then show ?thesis
    by (simp only: frames_def disjoint_iff atLeastLessThan_iff) linarith
qed

lemma free_frames_iff:
  "x \<in> free_frames s \<longleftrightarrow> (\<exists>k p. p \<in> set (free_area s k) \<and> x \<in> frames p k)"
  by (auto simp: free_frames_def)

lemma block_ok_less: "block_ok s p k \<Longrightarrow> p < pool_pages s"
  unfolding block_ok_def using zero_less_power [of "2::nat" k] by linarith

lemma buddy_inv_block_ok: "buddy_inv s \<Longrightarrow> p \<in> set (free_area s k) \<Longrightarrow> block_ok s p k"
  by (simp add: buddy_inv_def lists_ok_def)

lemma buddy_inv_mem_map [simp]:
  "buddy_inv (s\<lparr>mem_map := m\<rparr>) = buddy_inv s"
  "free_frames (s\<lparr>mem_map := m\<rparr>) = free_frames s"
  "block_ok (s\<lparr>mem_map := m\<rparr>) = block_ok s"
  by (simp_all add: buddy_inv_def lists_ok_def blocks_disjoint_def free_frames_def
      block_ok_def [abs_def])

lemma buddy_inv_unmark:
  assumes "buddy_inv s" and "p \<notin> free_frames s"
  shows "buddy_inv (s\<lparr>block_order := (block_order s)(p := - 1)\<rparr>)"
proof -
  have "p \<notin> set (free_area s k)" for k
    using assms(2) frames_first [of p k] unfolding free_frames_def by blast
  then show ?thesis
    using assms(1) by (auto simp: buddy_inv_def lists_ok_def blocks_disjoint_def block_ok_def)
qed

lemma free_frames_block_order [simp]:
  "free_frames (s\<lparr>block_order := f\<rparr>) = free_frames s"
  by (simp add: free_frames_def)

lemma free_frames_bound: "buddy_inv s \<Longrightarrow> x \<in> free_frames s \<Longrightarrow> x < pool_pages s"
  by (force simp: free_frames_iff buddy_inv_def lists_ok_def block_ok_def)

lemma list_head_free: "p \<in> set (free_area s k) \<Longrightarrow> frames p k \<subseteq> free_frames s"
  unfolding free_frames_def by blast

lemma free_list_add_fields [simp]:
  "free_area (free_list_add p k s) = (free_area s)(k := p # free_area s k)"
  "block_order (free_list_add p k s) = (block_order s)(p := int k)"
  "pool_pages (free_list_add p k s) = pool_pages s"
  "mem_start (free_list_add p k s) = mem_start s"
  "mem_size (free_list_add p k s) = mem_size s"
  "mem_map (free_list_add p k s) = mem_map s"
  by (simp_all add: free_list_add_def)

lemma free_list_remove_fields [simp]:
  "pool_pages (free_list_remove p k s) = pool_pages s"
  "mem_start (free_list_remove p k s) = mem_start s"
  "mem_size (free_list_remove p k s) = mem_size s"
  "mem_map (free_list_remove p k s) = mem_map s"
  by (simp_all add: free_list_remove_def)

lemma free_frames_add: "free_frames (free_list_add p k s) = free_frames s \<union> frames p k"
  by (auto simp: free_frames_iff set_eq_iff)

lemma free_list_add_inv:
  assumes inv: "buddy_inv s" and ok: "block_ok s p k"
    and disj: "frames p k \<inter> free_frames s = {}"
  shows "buddy_inv (free_list_add p k s)"
proof -
  have fresh: "p \<notin> set (free_area s k')" for k'
    using disj list_head_free [of p s k'] frames_first by blast
  then have bo: "block_order s p \<noteq> int k'" for k'
    using inv by (auto simp: buddy_inv_def lists_ok_def)
  have apart: "frames p k \<inter> frames q j = {}" if "q \<in> set (free_area s j)" for q j
    using list_head_free [OF that] disj by blast
  have "lists_ok (free_list_add p k s)"
    using inv ok fresh bo
    by (auto simp: buddy_inv_def lists_ok_def block_ok_def)
  moreover have "blocks_disjoint (free_list_add p k s)"
    using inv apart unfolding buddy_inv_def blocks_disjoint_def
    by (simp split: if_splits) (metis Int_commute)
  ultimately show ?thesis using inv by (simp add: buddy_inv_def)
qed

lemma free_list_remove_inv:
  assumes inv: "buddy_inv s" and mem: "p \<in> set (free_area s k)"
  shows "buddy_inv (free_list_remove p k s)"
    and "free_frames (free_list_remove p k s) = free_frames s - frames p k"
proof -
  let ?s = "free_list_remove p k s"
  have dist: "distinct (free_area s k)" using inv by (simp add: buddy_inv_def lists_ok_def)
  have area: "set (free_area ?s j) = (if j = k then set (free_area s k) - {p} else set (free_area s j))" for j
    using mem dist by (simp add: free_list_remove_def)
  have only: "p \<notin> set (free_area s j)" if "j \<noteq> k" for j
    using that mem inv by (auto simp: buddy_inv_def lists_ok_def)
  have bo: "block_order ?s = (block_order s)(p := - 1)"
    using mem by (simp add: free_list_remove_def)
  have "distinct (free_area ?s j)" for j
    using inv by (simp add: free_list_remove_def buddy_inv_def lists_ok_def)
  then have "lists_ok ?s"
    using inv area bo only by (auto simp: buddy_inv_def lists_ok_def block_ok_def split: if_splits)
  moreover have sub: "q \<in> set (free_area s j)" if "q \<in> set (free_area ?s j)" for q j
    using that area by (auto split: if_splits)
  then have "blocks_disjoint ?s"
    using inv unfolding buddy_inv_def blocks_disjoint_def by meson
  ultimately show "buddy_inv ?s" using inv by (simp add: buddy_inv_def)
  have apart: "frames q j \<inter> frames p k = {}" if "q \<in> set (free_area ?s j)" for q j
  proof -
    have "(q, j) \<noteq> (p, k)" using that area by (auto split: if_splits)
    then show ?thesis using sub [OF that] mem inv unfolding buddy_inv_def blocks_disjoint_def by meson
  qed
  show "free_frames ?s = free_frames s - frames p k"
  proof (intro set_eqI iffI)
    fix x assume "x \<in> free_frames ?s"
    then obtain j q where q: "q \<in> set (free_area ?s j)" "x \<in> frames q j"
      unfolding free_frames_iff by blast
    then have "x \<in> free_frames s" using list_head_free [OF sub] by blast
    moreover have "x \<notin> frames p k" using apart [OF q(1)] q(2) by blast
    ultimately show "x \<in> free_frames s - frames p k" by blast
  next
    fix x assume x: "x \<in> free_frames s - frames p k"
    then obtain j q where q: "q \<in> set (free_area s j)" "x \<in> frames q j"
      unfolding Diff_iff free_frames_iff by blast
    with x have "\<not> (q = p \<and> j = k)" by blast
    then have "q \<in> set (free_area ?s j)" using q area by (auto split: if_splits)
    then show "x \<in> free_frames ?s" using q(2) list_head_free by blast
  qed
qed

subsection \<open>Splitting, allocating\<close>

lemma free_list_pop_remove:
  "free_area s k = p # rest \<Longrightarrow> free_list_pop k s = (p, free_list_remove p k s)"
  by (simp add: free_list_pop_def free_list_remove_def)

lemma split_block_fields [simp]:
  "pool_pages (split_block p i j s) = pool_pages s"
  "mem_start (split_block p i j s) = mem_start s"
  "mem_size (split_block p i j s) = mem_size s"
  "mem_map (split_block p i j s) = mem_map s"
  "max_order (split_block p i j s) = max_order s"
  by (induction p i j s rule: split_block.induct; subst split_block.simps; simp)+

lemma split_block_inv:
  assumes "buddy_inv s" and "block_ok s p i" and "j \<le> i"
    and "frames p i \<inter> free_frames s = {}"
  shows "buddy_inv (split_block p i j s) \<and>
     free_frames (split_block p i j s) = free_frames s \<union> (frames p i - frames p j) \<and>
     p \<notin> free_frames (split_block p i j s)"
  using assms
proof (induction p i j s rule: split_block.induct)
  case (1 p i j s)
  show ?case
  proof (cases "j < i")
    case False
    then have "i = j" using "1.prems" by simp
    then show ?thesis using "1.prems" by (subst (1 2 3) split_block.simps) (auto simp: disjoint_iff)
  next
    case True
    then obtain m where m: "i = Suc m" by (cases i) auto
    let ?s = "free_list_add (p XOR 2 ^ m) m s"
    have xor: "p XOR 2 ^ m = p + 2 ^ m"
      using "1.prems"(2) m by (intro xor_pow2_aligned) (simp add: block_ok_def)
    have dvd: "2 ^ m dvd p" using "1.prems"(2) m by (metis block_ok_def power_le_dvd le_SucI order_refl)
    have ok: "block_ok s (p + 2 ^ m) m" "block_ok s p m"
      using "1.prems"(2) m dvd by (auto simp: block_ok_def)
    have halves: "frames p m \<inter> free_frames s = {}" "frames (p + 2 ^ m) m \<inter> free_frames s = {}"
      using "1.prems"(4) m frames_Suc [of p m] by blast+
    have inv: "buddy_inv ?s" using "1.prems"(1) ok halves xor free_list_add_inv by metis
    have ff: "free_frames ?s = free_frames s \<union> frames (p + 2 ^ m) m"
      by (simp add: free_frames_add xor)
    have disj: "frames p m \<inter> free_frames ?s = {}"
      using ff halves frames_halves_disjoint by blast
    have ok': "block_ok ?s p m" using ok by (simp add: block_ok_def)
    have step: "split_block p i j s = split_block p m j ?s"
      using True m by (subst split_block.simps) simp
    have "buddy_inv (split_block p m j ?s) \<and>
        free_frames (split_block p m j ?s) = free_frames ?s \<union> (frames p m - frames p j) \<and>
        p \<notin> free_frames (split_block p m j ?s)"
      by (rule "1.IH" [unfolded m diff_Suc_1, OF _ inv ok' _ disj]) (use True m in simp_all)
    moreover have "frames p j \<inter> frames (p + 2 ^ m) m = {}"
      using True m by (intro frames_low_disjoint) simp
    ultimately show ?thesis unfolding step using ff m frames_Suc [of p m] by blast
  qed
qed

text \<open>The lists at and above an order: what \<open>alloc_pages\<close> scans.\<close>

lemma alloc_scan_None:
  assumes "\<And>j. k \<le> j \<Longrightarrow> j \<le> max_order s \<Longrightarrow> free_area s j = []"
  shows "alloc_scan order k s = (None, s)"
  using assms
proof (induction order k s rule: alloc_scan.induct)
  case (1 order k s)
  show ?case
  proof (cases "k \<le> max_order s")
    case True
    then have "free_area s k = []" using "1.prems" by blast
    moreover from this have "alloc_scan order (Suc k) s = (None, s)"
      using True "1.IH" "1.prems" by (meson Suc_leD)
    ultimately show ?thesis using True by (simp add: alloc_scan.simps [of order k])
  qed (simp add: alloc_scan.simps [of order k])
qed

definition taken :: "nat \<Rightarrow> nat \<Rightarrow> nat \<Rightarrow> buddy \<Rightarrow> buddy" where
  "taken p i order s =
     (let s2 = split_block p i order (free_list_remove p i s) in
      s2\<lparr>block_order := (block_order s2)(p := - 1), mem_map := (mem_map s2)(p := 1)\<rparr>)"

lemma alloc_scan_head:
  assumes "buddy_inv s" and "k \<le> max_order s" and p: "free_area s k = p # rest"
  shows "alloc_scan order k s = (Some (pfn_to_addr s p), taken p k order s)"
proof -
  have "block_ok s p k" using assms by (simp add: buddy_inv_def lists_ok_def)
  then have "p < pool_pages s" by (rule block_ok_less)
  then show ?thesis
    using assms by (simp add: alloc_scan.simps [of order k] free_list_pop_remove taken_def Let_def)
qed

lemma alloc_scan_hit:
  assumes "buddy_inv s" and "k \<le> j" and "j \<le> max_order s" and "free_area s j \<noteq> []"
  shows "\<exists>i p. k \<le> i \<and> i \<le> max_order s \<and> p \<in> set (free_area s i) \<and>
     alloc_scan order k s = (Some (pfn_to_addr s p), taken p i order s)"
  using assms
proof (induction order k s rule: alloc_scan.induct)
  case (1 order k s)
  show ?case
  proof (cases "free_area s k")
    case Nil
    with "1.prems" have j: "Suc k \<le> j" by (cases "k = j") auto
    have k: "k \<le> max_order s" using "1.prems" by auto
    from "1.IH" [OF k Nil "1.prems"(1) j "1.prems"(3,4)] obtain i p where
      "Suc k \<le> i" "i \<le> max_order s" "p \<in> set (free_area s i)"
      "alloc_scan order (Suc k) s = (Some (pfn_to_addr s p), taken p i order s)" by blast
    moreover have "alloc_scan order k s = alloc_scan order (Suc k) s"
      using Nil k by (simp add: alloc_scan.simps [of order k])
    ultimately show ?thesis by (metis Suc_leD)
  next
    case (Cons p rest)
    then show ?thesis using alloc_scan_head [OF "1.prems"(1) _ Cons] "1.prems"
      by (metis order_refl order_trans list.set_intros(1))
  qed
qed

lemma taken_fields [simp]:
  "mem_start (taken p i k s) = mem_start s" "mem_size (taken p i k s) = mem_size s"
  "max_order (taken p i k s) = max_order s" "pool_pages (taken p i k s) = pool_pages s"
  "mem_map (taken p i k s) = (mem_map s)(p := 1)"
  by (simp_all add: taken_def Let_def)

lemma taken_inv:
  assumes inv: "buddy_inv s" and mem: "p \<in> set (free_area s i)" and le: "k \<le> i"
  shows "buddy_inv (taken p i k s)"
    and "free_frames (taken p i k s) = free_frames s - frames p k"
    and "frames p k \<subseteq> free_frames s"
    and "block_ok s p k"
proof -
  let ?r = "free_list_remove p i s"
  have ok: "block_ok s p i" using inv mem by (rule buddy_inv_block_ok)
  then have ok': "block_ok ?r p i" by (simp add: block_ok_def)
  have r: "buddy_inv ?r" "free_frames ?r = free_frames s - frames p i"
    using free_list_remove_inv [OF inv mem] by auto
  have pow: "(2::nat) ^ k \<le> 2 ^ i" using le by (intro power_increasing) auto
  then have sub: "frames p k \<subseteq> frames p i" by (auto simp only: mem_frames)
  have all: "frames p i \<subseteq> free_frames s" using mem by (rule list_head_free)
  have sp: "buddy_inv (split_block p i k ?r) \<and>
      free_frames (split_block p i k ?r) = free_frames ?r \<union> (frames p i - frames p k) \<and>
      p \<notin> free_frames (split_block p i k ?r)"
    using r ok' le by (intro split_block_inv) auto
  then show "buddy_inv (taken p i k s)"
    unfolding taken_def Let_def buddy_inv_mem_map by (blast intro: buddy_inv_unmark)
  show "free_frames (taken p i k s) = free_frames s - frames p k"
    using sp r(2) sub all by (auto simp only: taken_def Let_def free_frames_block_order buddy_inv_mem_map)
  show "frames p k \<subseteq> free_frames s" using sub all by blast
  have "2 ^ k dvd p" using ok le unfolding block_ok_def by (meson power_le_dvd)
  then show "block_ok s p k" using ok le pow unfolding block_ok_def by linarith
qed

subsection \<open>Coalescing\<close>

lemma buddy_free_fields [simp]:
  "pool_pages (buddy_free p k s) = pool_pages s"
  "mem_start (buddy_free p k s) = mem_start s"
  "mem_size (buddy_free p k s) = mem_size s"
  "max_order (buddy_free p k s) = max_order s"
  "mem_map (buddy_free p k s) = mem_map s"
  by (induction p k s rule: buddy_free.induct; subst buddy_free.simps; simp add: Let_def)+

lemma buddy_free_merge:
  assumes "k < max_order s" and "b = p XOR 2 ^ k" and "b < pool_pages s" and "block_order s b = int k"
  shows "buddy_free p k s =
    buddy_free (if b < p then b else p) (Suc k) (free_list_remove b k s)"
  using assms by (subst buddy_free.simps) (simp add: Let_def)

lemma buddy_free_inv:
  assumes "buddy_inv s" and "block_ok s p k" and "frames p k \<inter> free_frames s = {}"
  shows "buddy_inv (buddy_free p k s) \<and>
     free_frames (buddy_free p k s) = free_frames s \<union> frames p k"
  using assms
proof (induction p k s rule: buddy_free.induct)
  case (1 p k s)
  define b where "b = p XOR 2 ^ k"
  define q where "q = (if b < p then b else p)"
  show ?case
  proof (cases "k < max_order s \<and> b < pool_pages s \<and> block_order s b = int k")
    case False
    then have "buddy_free p k s = free_list_add p k s"
      by (subst buddy_free.simps) (auto simp: Let_def b_def)
    then show ?thesis using free_list_add_inv [OF "1.prems"] free_frames_add by simp
  next
    case True
    let ?r = "free_list_remove b k s"
    have step: "buddy_free p k s = buddy_free q (Suc k) ?r"
      using True buddy_free_merge [OF _ b_def] by (simp add: q_def)
    have mem: "b \<in> set (free_area s k)"
      using True "1.prems"(1) by (simp add: buddy_inv_def lists_ok_def)
    have r: "buddy_inv ?r" "free_frames ?r = free_frames s - frames b k"
      using free_list_remove_inv [OF "1.prems"(1) mem] by auto
    have dvd: "2 ^ k dvd p" using "1.prems"(2) by (simp add: block_ok_def)
    have q_dvd: "2 ^ Suc k dvd q" and "p = q \<and> b = q + 2 ^ k \<or> b = q \<and> p = q + 2 ^ k"
      unfolding q_def b_def by (fact xor_pow2_pair [OF dvd])+
    then have whole: "frames q (Suc k) = frames p k \<union> frames b k"
      by (elim disjE conjE) (simp_all add: frames_Suc Un_commute)
    have pool: "pool_pages s = 2 ^ max_order s" using "1.prems"(1) by (simp add: buddy_inv_def)
    have "q < 2 ^ max_order s"
      using True block_ok_less [OF "1.prems"(2)] pool by (simp add: q_def)
    then have "q + 2 ^ Suc k \<le> 2 ^ max_order s"
      using True by (intro aligned_less_imp_block q_dvd) auto
    then have ok: "block_ok ?r q (Suc k)"
      using q_dvd True pool by (simp add: block_ok_def)
    have disj: "frames q (Suc k) \<inter> free_frames ?r = {}"
      unfolding whole r(2) using "1.prems"(3) by blast
    have "buddy_inv (buddy_free q (Suc k) ?r) \<and>
        free_frames (buddy_free q (Suc k) ?r) = free_frames ?r \<union> frames q (Suc k)"
      using "1.IH" [OF _ b_def] True r(1) ok disj unfolding q_def by simp
    moreover have "frames b k \<subseteq> free_frames s" using mem by (rule list_head_free)
    ultimately show ?thesis unfolding step whole r(2) by blast
  qed
qed

subsection \<open>Coalescing is maximal\<close>

definition coalesced :: "buddy \<Rightarrow> bool" where
  "coalesced s \<longleftrightarrow>
     (\<forall>k p. k < max_order s \<longrightarrow> p \<in> set (free_area s k) \<longrightarrow> p XOR 2 ^ k \<notin> set (free_area s k))"

lemma coalesced_mem_map [simp]:
  "coalesced (s\<lparr>mem_map := m\<rparr>) = coalesced s"
  "coalesced (s\<lparr>block_order := f\<rparr>) = coalesced s"
  by (simp_all add: coalesced_def)

lemma coalesced_add:
  assumes "coalesced s" and "k < max_order s \<Longrightarrow> p XOR 2 ^ k \<notin> set (free_area s k)"
  shows "coalesced (free_list_add p k s)"
proof -
  have "(p XOR 2 ^ k) XOR 2 ^ k = p" for p :: nat by (simp add: xor.assoc)
  moreover have "p XOR 2 ^ k \<noteq> p"
  proof
    assume "p XOR 2 ^ k = p"
    then have "p XOR (p XOR 2 ^ k) = 0" by simp
    then show False by (simp flip: xor.assoc)
  qed
  ultimately show ?thesis using assms unfolding coalesced_def by (auto split: if_splits)
qed

lemma coalesced_remove: "coalesced s \<Longrightarrow> coalesced (free_list_remove p k s)"
  unfolding coalesced_def free_list_remove_def by (auto dest: notin_set_remove1)

lemma coalesced_split:
  assumes "coalesced s" and "2 ^ i dvd p" and "frames p i \<inter> free_frames s = {}" and "i \<le> max_order s"
  shows "coalesced (split_block p i j s)"
  using assms
proof (induction p i j s rule: split_block.induct)
  case (1 p i j s)
  show ?case
  proof (cases "j < i")
    case False
    then show ?thesis using "1.prems" by (subst split_block.simps) simp
  next
    case True
    then obtain m where m: "i = Suc m" by (cases i) auto
    let ?s = "free_list_add (p XOR 2 ^ m) m s"
    have xor: "p XOR 2 ^ m = p + 2 ^ m" using "1.prems"(2) m by (intro xor_pow2_aligned) simp
    have "p \<notin> set (free_area s m)"
      using "1.prems"(3) m list_head_free [of p s m] frames_first [of p] by blast
    then have co: "coalesced ?s"
      using "1.prems"(1) by (intro coalesced_add) (simp_all add: xor.assoc)
    have dvd: "2 ^ m dvd p" using "1.prems"(2) m by (metis power_le_dvd le_SucI order_refl)
    have "frames p m \<inter> free_frames ?s = {}"
      using "1.prems"(3) m frames_Suc [of p m] frames_halves_disjoint [of p m]
      unfolding free_frames_add xor by blast
    then have "coalesced (split_block p m j ?s)"
      using "1.IH" [unfolded m diff_Suc_1, OF _ co dvd] True m "1.prems"(4) by simp
    then show ?thesis using True unfolding m by (simp add: split_block.simps [of p "Suc m" j s])
  qed
qed

lemma coalesced_taken:
  assumes "buddy_inv s" and "coalesced s" and mem: "p \<in> set (free_area s i)"
  shows "coalesced (taken p i k s)"
proof -
  have "block_ok s p i" using assms(1) mem by (rule buddy_inv_block_ok)
  then have "coalesced (split_block p i k (free_list_remove p i s))"
    using assms free_list_remove_inv [OF assms(1) mem] coalesced_remove
    by (intro coalesced_split) (auto simp: block_ok_def)
  then show ?thesis by (simp add: taken_def Let_def)
qed

lemma coalesced_buddy_free:
  assumes "buddy_inv s" and "coalesced s" and "block_ok s p k"
  shows "coalesced (buddy_free p k s)"
  using assms
proof (induction p k s rule: buddy_free.induct)
  case (1 p k s)
  define b where "b = p XOR 2 ^ k"
  show ?case
  proof (cases "k < max_order s \<and> b < pool_pages s \<and> block_order s b = int k")
    case False
    then have eq: "buddy_free p k s = free_list_add p k s"
      by (subst buddy_free.simps) (auto simp: Let_def b_def)
    have "b \<notin> set (free_area s k)" if "k < max_order s"
      using that False "1.prems"(1) block_ok_less [of s b k]
      by (auto simp: buddy_inv_def lists_ok_def)
    then show ?thesis unfolding eq using "1.prems"(2) by (intro coalesced_add) (auto simp: b_def)
  next
    case True
    define q where "q = (if b < p then b else p)"
    have mem: "b \<in> set (free_area s k)"
      using True "1.prems"(1) by (simp add: buddy_inv_def lists_ok_def)
    have dvd: "2 ^ k dvd p" using "1.prems"(3) by (simp add: block_ok_def)
    have q_dvd: "2 ^ Suc k dvd q"
      unfolding q_def b_def by (fact xor_pow2_pair [OF dvd])
    have "q < 2 ^ max_order s"
      using True block_ok_less [OF "1.prems"(3)] "1.prems"(1) by (simp add: q_def buddy_inv_def)
    then have "q + 2 ^ Suc k \<le> 2 ^ max_order s"
      using True by (intro aligned_less_imp_block q_dvd) auto
    then have ok: "block_ok (free_list_remove b k s) q (Suc k)"
      using q_dvd True "1.prems"(1) by (simp add: block_ok_def buddy_inv_def)
    have "coalesced (buddy_free q (Suc k) (free_list_remove b k s))"
      using "1.IH" [OF _ b_def] True free_list_remove_inv(1) [OF "1.prems"(1) mem]
        coalesced_remove [OF "1.prems"(2)] ok
      unfolding q_def by simp
    then show ?thesis using True buddy_free_merge [OF _ b_def] by (simp add: q_def)
  qed
qed

end
