(* ===== verification/Allocator.thy ===== *)
theory Allocator
  imports Prelude
begin

text \<open>
  The contract of a memory allocator, as the clients of \<^verbatim>\<open>alloc_pages\<close> and \<^verbatim>\<open>kmalloc\<close> use it.
  A request \<open>r\<close> (an order, a size) yields an address \<open>a\<close> or nothing; the bytes it stands for
  are \<open>extent r a\<close>; \<open>valid s r a\<close> says that the block is held by a client in state \<open>s\<close>;
  \<open>req r\<close> delimits the requests for which the provider keeps its promise.
  Two consequences are proved once: whatever the sequence of requests and releases, the
  blocks a client holds are pairwise disjoint, and (for an allocator that accounts for its
  free bytes) no byte is lost or created.
\<close>

datatype 'r request = Get 'r | Put nat

text \<open>
  A client: it asks for blocks and gives back blocks it holds, by their position in its
  list; a position it does not hold is ignored.
\<close>

fun serve :: "('r \<Rightarrow> 's \<Rightarrow> 'a option \<times> 's) \<Rightarrow> ('r \<Rightarrow> 'a \<Rightarrow> 's \<Rightarrow> 's) \<Rightarrow>
    'r request list \<Rightarrow> 's \<Rightarrow> ('r \<times> 'a) list \<Rightarrow> 's \<times> ('r \<times> 'a) list" where
  "serve alloc release [] s held = (s, held)"
| "serve alloc release (Get r # reqs) s held =
     (case alloc r s of
        (None, s') \<Rightarrow> serve alloc release reqs s' held
      | (Some a, s') \<Rightarrow> serve alloc release reqs s' ((r, a) # held))"
| "serve alloc release (Put i # reqs) s held =
     (if i < length held
      then serve alloc release reqs (release (fst (held ! i)) (snd (held ! i)) s)
             (take i held @ drop (Suc i) held)
      else serve alloc release reqs s held)"

locale allocator =
  fixes alloc :: "'r \<Rightarrow> 's \<Rightarrow> 'a option \<times> 's"
    and release :: "'r \<Rightarrow> 'a \<Rightarrow> 's \<Rightarrow> 's"
    and inv :: "'s \<Rightarrow> bool"
    and extent :: "'r \<Rightarrow> 'a \<Rightarrow> nat set"
    and valid :: "'s \<Rightarrow> 'r \<Rightarrow> 'a \<Rightarrow> bool"
    and req :: "'r \<Rightarrow> bool"
  assumes alloc_some: "inv s \<Longrightarrow> req r \<Longrightarrow> alloc r s = (Some a, s') \<Longrightarrow> inv s' \<and> valid s' r a"
    and alloc_fresh: "inv s \<Longrightarrow> req r \<Longrightarrow> alloc r s = (Some a, s') \<Longrightarrow> valid s q b \<Longrightarrow>
        valid s' q b \<and> extent r a \<inter> extent q b = {}"
    and alloc_none: "inv s \<Longrightarrow> req r \<Longrightarrow> alloc r s = (None, s') \<Longrightarrow> s' = s"
    and release_inv: "inv s \<Longrightarrow> req r \<Longrightarrow> valid s r a \<Longrightarrow> inv (release r a s)"
    and release_keeps: "inv s \<Longrightarrow> req r \<Longrightarrow> valid s r a \<Longrightarrow> valid s q b \<Longrightarrow>
        extent r a \<inter> extent q b = {} \<Longrightarrow> valid (release r a s) q b"
begin

definition holding :: "'s \<Rightarrow> ('r \<times> 'a) list \<Rightarrow> bool" where
  "holding s held \<longleftrightarrow> inv s \<and> (\<forall>i < length held. req (fst (held ! i)) \<and> valid s (fst (held ! i)) (snd (held ! i))) \<and>
     (\<forall>i < length held. \<forall>j < length held. i \<noteq> j \<longrightarrow>
        extent (fst (held ! i)) (snd (held ! i)) \<inter> extent (fst (held ! j)) (snd (held ! j)) = {})"

lemma holding_Nil: "holding s [] \<longleftrightarrow> inv s"
  by (simp add: holding_def)

lemma holding_Get:
  assumes h: "holding s held" and r: "req r" and a: "alloc r s = (Some a, s')"
  shows "holding s' ((r, a) # held)"
proof -
  have inv: "inv s" using h by (simp add: holding_def)
  have new: "valid s' (fst (held ! i)) (snd (held ! i)) \<and>
      extent r a \<inter> extent (fst (held ! i)) (snd (held ! i)) = {}" if "i < length held" for i
    using h that by (intro alloc_fresh [OF inv r a]) (simp add: holding_def)
  show ?thesis
    using h new alloc_some [OF inv r a] r unfolding holding_def
    by (auto simp: nth_Cons split: nat.splits)
qed

lemma holding_Put:
  assumes h: "holding s held" and i: "i < length held"
  shows "holding (release (fst (held ! i)) (snd (held ! i)) s) (take i held @ drop (Suc i) held)"
proof -
  let ?s = "release (fst (held ! i)) (snd (held ! i)) s"
  define skip where "skip j = (if j < i then j else Suc j)" for j
  have inv: "inv s" and r: "req (fst (held ! i))" and v: "valid s (fst (held ! i)) (snd (held ! i))"
    using h i by (auto simp: holding_def)
  have nth: "(take i held @ drop (Suc i) held) ! j = held ! skip j" for j
    using i by (auto simp: nth_append skip_def min_def)
  have skip: "skip j < length held" "skip j \<noteq> i" if "j < length held - 1" for j
    using that i by (auto simp: skip_def)
  have inj: "skip j = skip k \<Longrightarrow> j = k" for j k by (auto simp: skip_def split: if_splits)
  have "valid ?s (fst (held ! skip j)) (snd (held ! skip j))" if "j < length held - 1" for j
    using h i skip [OF that] by (intro release_keeps [OF inv r v]) (auto simp: holding_def)
  then show ?thesis
    using h i inj skip release_inv [OF inv r v] unfolding holding_def nth
    by (auto simp: min_def) (metis (no_types) disjoint_iff)
qed

theorem serve_holding:
  assumes "holding s held" and "\<forall>r. Get r \<in> set reqs \<longrightarrow> req r" and "serve alloc release reqs s held = (s', held')"
  shows "holding s' held'"
  using assms
proof (induction reqs arbitrary: s held)
  case Nil
  then show ?case by simp
next
  case (Cons q reqs)
  have inv: "inv s" using Cons.prems by (simp add: holding_def)
  show ?case
  proof (cases q)
    case (Get r)
    then have r: "req r" using Cons.prems(2) by simp
    obtain res s1 where a: "alloc r s = (res, s1)" by (cases "alloc r s")
    show ?thesis
    proof (cases res)
      case None
      then have "s1 = s" using a alloc_none [OF inv r] by blast
      then show ?thesis using Cons a None Get by simp
    next
      case (Some b)
      then have "holding s1 ((r, b) # held)" using holding_Get [OF Cons.prems(1) r] a by blast
      then show ?thesis using Cons.IH Cons.prems(2,3) a Some Get by simp
    qed
  next
    case (Put i)
    then show ?thesis
      using Cons.IH [OF holding_Put [OF Cons.prems(1)]] Cons.IH [OF Cons.prems(1)] Cons.prems(2,3)
      by (simp split: if_splits)
  qed
qed

end

locale block_allocator = allocator alloc release inv extent valid req
  for alloc :: "'r \<Rightarrow> 's \<Rightarrow> 'a option \<times> 's" and release inv extent valid req +
  fixes avail :: "'s \<Rightarrow> nat set"
  assumes alloc_takes: "inv s \<Longrightarrow> req r \<Longrightarrow> alloc r s = (Some a, s') \<Longrightarrow>
        extent r a \<subseteq> avail s \<and> avail s' = avail s - extent r a"
    and release_gives: "inv s \<Longrightarrow> req r \<Longrightarrow> valid s r a \<Longrightarrow>
        avail (release r a s) = avail s \<union> extent r a"
begin

definition held_bytes :: "('r \<times> 'a) list \<Rightarrow> nat set" where
  "held_bytes held = (\<Union>(r, a)\<in>set held. extent r a)"

lemma held_bytes_Put:
  assumes "i < length held"
  shows "held_bytes held =
    extent (fst (held ! i)) (snd (held ! i)) \<union> held_bytes (take i held @ drop (Suc i) held)"
proof -
  have "held = take i held @ held ! i # drop (Suc i) held" using assms by (rule id_take_nth_drop)
  then have "set held = insert (held ! i) (set (take i held @ drop (Suc i) held))"
    by (metis list.set(2) set_append Un_insert_right)
  then show ?thesis by (simp add: held_bytes_def case_prod_beta)
qed

theorem serve_conserves:
  assumes "holding s held" and "\<forall>r. Get r \<in> set reqs \<longrightarrow> req r" and "serve alloc release reqs s held = (s', held')"
  shows "avail s' \<union> held_bytes held' = avail s \<union> held_bytes held"
  using assms
proof (induction reqs arbitrary: s held)
  case Nil
  then show ?case by simp
next
  case (Cons q reqs)
  have inv: "inv s" using Cons.prems by (simp add: holding_def)
  show ?case
  proof (cases q)
    case (Get r)
    then have r: "req r" using Cons.prems(2) by simp
    obtain res s1 where a: "alloc r s = (res, s1)" by (cases "alloc r s")
    show ?thesis
    proof (cases res)
      case None
      then have "s1 = s" using a alloc_none [OF inv r] by blast
      then show ?thesis using Cons a None Get by simp
    next
      case (Some b)
      then have h: "holding s1 ((r, b) # held)" using holding_Get [OF Cons.prems(1) r] a by blast
      then have "avail s' \<union> held_bytes held' = avail s1 \<union> held_bytes ((r, b) # held)"
        using Cons.IH [OF h] Cons.prems(2,3) a Some Get by simp
      moreover have "extent r b \<subseteq> avail s \<and> avail s1 = avail s - extent r b"
        using alloc_takes [OF inv r] a Some by blast
      ultimately show ?thesis by (auto simp: held_bytes_def)
    qed
  next
    case (Put i)
    show ?thesis
    proof (cases "i < length held")
      case True
      have r: "req (fst (held ! i))" and v: "valid s (fst (held ! i)) (snd (held ! i))"
        using Cons.prems(1) True by (simp_all add: holding_def)
      show ?thesis
        using Cons.IH [OF holding_Put [OF Cons.prems(1) True]] Cons.prems(2,3) Put True
          release_gives [OF inv r v] held_bytes_Put [OF True] by (simp add: Un_ac)
    qed (use Cons Put in simp)
  qed
qed

end

end
