(* ===== verification/Page_Alloc_Correct.thy ===== *)
theory Page_Alloc_Correct
  imports Page_Alloc Allocator
begin

text \<open>
  Correctness of the page allocator: the geometry of the pool and the translation between
  addresses and frame numbers, the canonical form of a fully coalesced free list, and the
  contract of \<open>alloc_pages\<close>, \<open>free_pages\<close>, \<open>get_page\<close> and \<open>put_page\<close>.  The contract is
  stated once as a locale (\<open>block_allocator\<close>), with the consequences a client relies on
  proved inside it, and interpreted on the buddy allocator.
\<close>

subsection \<open>Aligned blocks nest\<close>

lemma frames_div_iff:
  assumes "2 ^ k dvd p"
  shows "x \<in> frames p k \<longleftrightarrow> x div 2 ^ k = p div 2 ^ k"
proof -
  obtain m where m: "p = 2 ^ k * m" using assms by (auto elim: dvdE)
  have d: "(2::nat) ^ k > 0" by simp
  have "x div 2 ^ k = m \<longleftrightarrow> 2 ^ k * m \<le> x \<and> x < 2 ^ k * m + 2 ^ k"
  proof
    assume "x div 2 ^ k = m"
    then show "2 ^ k * m \<le> x \<and> x < 2 ^ k * m + 2 ^ k"
      using times_div_less_eq_dividend [of "2 ^ k" x] dividend_less_times_div [OF d, of x] by auto
  next
    assume "2 ^ k * m \<le> x \<and> x < 2 ^ k * m + 2 ^ k"
    then show "x div 2 ^ k = m" by (intro div_nat_eqI) (auto simp: mult.commute)
  qed
  then show ?thesis by (simp add: m)
qed

lemma frames_nested:
  assumes p: "2 ^ i dvd p" and q: "2 ^ j dvd q" and le: "i \<le> j"
    and x: "x \<in> frames p i" "x \<in> frames q j"
  shows "frames p i \<subseteq> frames q j"
proof
  fix y assume "y \<in> frames p i"
  then have "y div 2 ^ i = x div 2 ^ i" using x(1) frames_div_iff [OF p] by simp
  then have "y div 2 ^ i div 2 ^ (j - i) = x div 2 ^ i div 2 ^ (j - i)" by simp
  then have "y div 2 ^ j = x div 2 ^ j"
    using le by (simp flip: div_mult2_eq power_add)
  then show "y \<in> frames q j" using x(2) frames_div_iff [OF q] by simp
qed

lemma frames_aligned_eq:
  assumes "2 ^ k dvd p" and "2 ^ k dvd q" and "p \<in> frames q k"
  shows "p = q"
proof -
  have "p div 2 ^ k = q div 2 ^ k" using frames_div_iff [OF assms(2)] assms(3) by blast
  then show ?thesis using assms(1,2) by (metis dvd_mult_div_cancel)
qed

subsection \<open>The canonical form of the free lists\<close>

lemma free_block_contains:
  assumes inv: "buddy_inv s" and co: "coalesced s"
    and "block_ok s p k" and "frames p k \<subseteq> free_frames s"
  shows "\<exists>j q. k \<le> j \<and> q \<in> set (free_area s j) \<and> frames p k \<subseteq> frames q j"
  using assms(3,4)
proof (induction k arbitrary: p)
  case 0
  have "p \<in> free_frames s" using "0.prems"(2) frames_first [of p 0] by blast
  then obtain j q where q: "q \<in> set (free_area s j)" "p \<in> frames q j"
    unfolding free_frames_iff by blast
  have "2 ^ j dvd q" using buddy_inv_block_ok [OF inv q(1)] by (simp add: block_ok_def)
  then have "frames p 0 \<subseteq> frames q j"
    using q(2) by (intro frames_nested [where x = p]) auto
  then show ?case using q by blast
next
  case (Suc k)
  have dvd: "2 ^ k dvd p" using Suc.prems(1) by (metis block_ok_def power_le_dvd le_SucI order_refl)
  have oks: "block_ok s p k" "block_ok s (p + 2 ^ k) k"
    using Suc.prems(1) dvd by (auto simp: block_ok_def)
  have halves: "frames p (Suc k) = frames p k \<union> frames (p + 2 ^ k) k" by (rule frames_Suc)
  from Suc.IH [OF oks(1)] Suc.prems(2) halves obtain j q where
    q: "k \<le> j" "q \<in> set (free_area s j)" "frames p k \<subseteq> frames q j" by blast
  from Suc.IH [OF oks(2)] Suc.prems(2) halves obtain j' q' where
    q': "k \<le> j'" "q' \<in> set (free_area s j')" "frames (p + 2 ^ k) k \<subseteq> frames q' j'" by blast
  have big: "frames p (Suc k) \<subseteq> frames r i"
    if r: "r \<in> set (free_area s i)" and "Suc k \<le> i" and "x \<in> frames p (Suc k)" "x \<in> frames r i" for r i x
  proof -
    have "2 ^ i dvd r" "2 ^ Suc k dvd p"
      using buddy_inv_block_ok [OF inv r] Suc.prems(1) by (auto simp: block_ok_def)
    then show ?thesis using that by (intro frames_nested) auto
  qed
  show ?case
  proof (cases "j = k \<and> j' = k")
    case False
    then consider "Suc k \<le> j" | "Suc k \<le> j'" using q(1) q'(1) by linarith
    then show ?thesis
    proof cases
      case 1
      then show ?thesis using big [OF q(2) 1, of p] q(2,3) frames_first [of p] by blast
    next
      case 2
      then show ?thesis
        using big [OF q'(2) 2, of "p + 2 ^ k"] q'(2,3) frames_first [of "p + 2 ^ k" k] halves by blast
    qed
  next
    case True
    have "2 ^ k dvd q" "2 ^ k dvd q'"
      using buddy_inv_block_ok [OF inv q(2)] buddy_inv_block_ok [OF inv q'(2)] True
      by (auto simp: block_ok_def)
    moreover have "p \<in> frames q k" "p + 2 ^ k \<in> frames q' k"
      using True q(3) q'(3) frames_first by blast+
    ultimately have "q = p" "q' = p + 2 ^ k"
      using frames_aligned_eq [OF dvd] frames_aligned_eq [of k "p + 2 ^ k" q'] dvd by auto
    moreover have "p XOR 2 ^ k = p + 2 ^ k"
      using Suc.prems(1) by (intro xor_pow2_aligned) (simp add: block_ok_def)
    moreover have "k < max_order s" using Suc.prems(1) by (simp add: block_ok_def)
    ultimately have False using co q(2) q'(2) True unfolding coalesced_def by metis
    then show ?thesis ..
  qed
qed

text \<open>
  A coalesced allocator lists exactly the maximal free aligned blocks, so its free lists
  are determined (up to their order) by the set of free frames.
\<close>

lemma free_list_canonical:
  assumes inv: "buddy_inv s" and co: "coalesced s"
  shows "p \<in> set (free_area s k) \<longleftrightarrow>
     block_ok s p k \<and> frames p k \<subseteq> free_frames s \<and>
     (\<forall>j q. k < j \<longrightarrow> block_ok s q j \<longrightarrow> p \<in> frames q j \<longrightarrow> \<not> frames q j \<subseteq> free_frames s)"
    (is "?L \<longleftrightarrow> ?R")
proof
  assume L: ?L
  have ok: "block_ok s p k" using inv L by (rule buddy_inv_block_ok)
  have "\<not> frames q j \<subseteq> free_frames s" if "k < j" "block_ok s q j" "p \<in> frames q j" for j q
  proof
    assume "frames q j \<subseteq> free_frames s"
    from free_block_contains [OF inv co that(2) this] obtain i r where
      r: "j \<le> i" "r \<in> set (free_area s i)" "frames q j \<subseteq> frames r i" by blast
    then have "p \<in> frames r i" using that(3) by blast
    moreover have "(p, k) \<noteq> (r, i)" using that(1) r(1) by auto
    ultimately show False
      using inv L r(2) frames_first [of p k] unfolding buddy_inv_def blocks_disjoint_def
      by (meson disjoint_iff)
  qed
  then show ?R using ok list_head_free [OF L] by blast
next
  assume R: ?R
  then obtain j q where q: "k \<le> j" "q \<in> set (free_area s j)" "frames p k \<subseteq> frames q j"
    using free_block_contains [OF inv co, of p k] by blast
  have okq: "block_ok s q j" using inv q(2) by (rule buddy_inv_block_ok)
  have pq: "p \<in> frames q j" using q(3) frames_first by blast
  have "j = k"
  proof (rule ccontr)
    assume "j \<noteq> k"
    then have "k < j" using q(1) by simp
    then show False using R okq pq list_head_free [OF q(2)] by blast
  qed
  then show ?L using frames_aligned_eq [of k p q] R okq pq q(2) by (simp add: block_ok_def)
qed

lemma canonical_unique:
  assumes "buddy_inv s" "coalesced s" "buddy_inv t" "coalesced t"
    and "max_order s = max_order t" "free_frames s = free_frames t"
  shows "set (free_area s k) = set (free_area t k)"
proof -
  have "block_ok s = block_ok t"
    using assms(1,3,5) by (simp add: block_ok_def [abs_def] buddy_inv_def)
  then show ?thesis
    using free_list_canonical [OF assms(1,2)] free_list_canonical [OF assms(3,4)] assms(6)
    by (simp add: set_eq_iff)
qed

subsection \<open>Addresses\<close>

definition pool_ok :: "buddy \<Rightarrow> bool" where
  "pool_ok s \<longleftrightarrow> max_order s \<le> 15 \<and> mem_start s \<noteq> 0 \<and> 4096 dvd unat (mem_start s) \<and>
     unat (mem_start s) + 4096 * (pool_pages s + 2 ^ 15) < 2 ^ 64 \<and>
     mem_size s = push_bit PAGE_SHIFT (of_nat (pool_pages s))"

lemma unat_push_page: "4096 * p < 2 ^ 64 \<Longrightarrow> unat (push_bit 12 (of_nat p :: u64)) = 4096 * p"
  using unat_of_nat_less [of "4096 * p"] by (simp add: push_bit_eq_mult mult.commute)

lemma unat_pfn_to_addr:
  assumes "pool_ok s" and "p \<le> pool_pages s"
  shows "unat (pfn_to_addr s p) = unat (mem_start s) + 4096 * p"
proof -
  have lt: "unat (mem_start s) + 4096 * p < 2 ^ 64"
    using assms by (auto simp: pool_ok_def)
  then have "unat (push_bit 12 (of_nat p :: u64)) = 4096 * p"
    by (intro unat_push_page) simp
  then show ?thesis
    using lt by (simp add: pfn_to_addr_def unat_add_lem [THEN iffD1])
qed

lemma addr_to_pfn_inverse:
  assumes "pool_ok s" and "p \<le> pool_pages s"
  shows "addr_to_pfn s (pfn_to_addr s p) = p"
proof -
  have "4096 * p < 2 ^ 64" using assms by (auto simp: pool_ok_def)
  then have "unat (push_bit 12 (of_nat p :: u64)) = 4096 * p" by (rule unat_push_page)
  then have "unat (drop_bit 12 (push_bit 12 (of_nat p :: u64))) = p"
    unfolding unat_drop_bit_eq by (simp add: drop_bit_eq_div)
  then show ?thesis by (simp add: addr_to_pfn_def pfn_to_addr_def)
qed

lemma pfn_to_addr_nonzero: "pool_ok s \<Longrightarrow> p \<le> pool_pages s \<Longrightarrow> pfn_to_addr s p \<noteq> 0"
  using unat_pfn_to_addr [of s p] unat_eq_zero [of "mem_start s"] by (auto simp: pool_ok_def)

lemma addr_in_pool_iff:
  assumes ok: "pool_ok s" and p: "p < pool_pages s" and k: "k \<le> 15"
  shows "addr_in_pool s (pfn_to_addr s p) k \<longleftrightarrow>
     p + 2 ^ k \<le> pool_pages s \<and> 2 ^ (12 + k) dvd unat (mem_start s) + 4096 * p"
proof -
  let ?a = "pfn_to_addr s p"
  have a: "unat ?a = unat (mem_start s) + 4096 * p"
    using ok p by (intro unat_pfn_to_addr) auto
  have pow: "(2::nat) ^ k \<le> 2 ^ 15" using k by (intro power_increasing) auto
  have size: "push_bit k (4096::u64) = 2 ^ (12 + k)" by (simp add: push_bit_eq_mult power_add)
  have us: "unat (2 ^ (12 + k) :: u64) = 4096 * 2 ^ k"
    using k by (subst unat_pow2) (simp_all add: power_add)
  have sum: "unat (?a + 2 ^ (12 + k)) = unat (mem_start s) + 4096 * p + 4096 * 2 ^ k"
    using ok p pow by (subst unat_add_lem [THEN iffD1]) (auto simp: a us pool_ok_def)
  have e: "mem_start s + mem_size s = pfn_to_addr s (pool_pages s)"
    using ok by (simp add: pool_ok_def pfn_to_addr_def)
  have ue: "unat (mem_start s + mem_size s) = unat (mem_start s) + 4096 * pool_pages s"
    unfolding e using ok by (intro unat_pfn_to_addr) auto
  have "\<not> ?a < mem_start s" by (simp add: word_less_nat_alt a)
  moreover have "?a + 2 ^ (12 + k) > mem_start s + mem_size s \<longleftrightarrow> \<not> p + 2 ^ k \<le> pool_pages s"
    by (simp add: word_less_nat_alt sum ue) linarith
  ultimately show ?thesis
    unfolding addr_in_pool_def Let_def size and_mask_zero_iff by (simp add: a)
qed

subsection \<open>The operations on addresses\<close>

lemma alloc_pages_cases:
  assumes "buddy_inv s"
  obtains (none) "alloc_pages order s = (None, s)"
      "\<not> order_valid s order \<or> (\<forall>j. nat order \<le> j \<longrightarrow> j \<le> max_order s \<longrightarrow> free_area s j = [])"
    | (some) i p where "order_valid s order" "nat order \<le> i" "i \<le> max_order s"
      "p \<in> set (free_area s i)"
      "alloc_pages order s = (Some (pfn_to_addr s p), taken p i (nat order) s)"
proof (cases "order_valid s order \<and> (\<exists>j. nat order \<le> j \<and> j \<le> max_order s \<and> free_area s j \<noteq> [])")
  case False
  then have "alloc_pages order s = (None, s)"
    unfolding alloc_pages_def by (auto intro!: alloc_scan_None)
  with False none show ?thesis by blast
next
  case True
  then obtain j where "nat order \<le> j" "j \<le> max_order s" "free_area s j \<noteq> []" by blast
  from alloc_scan_hit [OF assms this] True some show ?thesis unfolding alloc_pages_def by metis
qed

lemma taken_pool_ok: "pool_ok s \<Longrightarrow> pool_ok (taken p i k s)"
  by (simp add: pool_ok_def)

lemma pfn_to_addr_taken: "pfn_to_addr (taken p i k s) = pfn_to_addr s"
  by (simp add: pfn_to_addr_def [abs_def])

definition size_aligned :: "buddy \<Rightarrow> nat \<Rightarrow> bool" where
  "size_aligned s k \<longleftrightarrow> 2 ^ (12 + k) dvd unat (mem_start s)"

lemma size_aligned_0: "pool_ok s \<Longrightarrow> size_aligned s 0"
  by (simp add: size_aligned_def pool_ok_def)

lemma aligned_sum_iff:
  assumes "2 ^ k dvd p"
  shows "2 ^ (12 + k) dvd m + 4096 * p \<longleftrightarrow> 2 ^ (12 + k) dvd (m::nat)"
proof -
  have "2 ^ (12 + k) dvd 4096 * p" using assms by (simp add: power_add mult_dvd_mono)
  then show ?thesis by (metis dvd_add_left_iff)
qed

lemma free_pages_eq:
  assumes inv: "buddy_inv s" and pool: "pool_ok s" and ok: "block_ok s p k"
    and out: "p \<notin> free_frames s" and cnt: "mem_map s p \<le> 1"
  shows "free_pages (pfn_to_addr s p) (int k) s =
     (if size_aligned s k then buddy_free p k (s\<lparr>mem_map := (mem_map s)(p := 0)\<rparr>) else s)"
proof -
  have lt: "p < pool_pages s" and k: "k \<le> 15" "k \<le> max_order s"
    using block_ok_less [OF ok] ok pool by (auto simp: block_ok_def pool_ok_def)
  have "p \<notin> set (free_area s j)" for j using out list_head_free frames_first by blast
  then have "block_order s p \<noteq> int j" for j
    using inv by (auto simp: buddy_inv_def lists_ok_def)
  then have mark: "\<not> 0 \<le> block_order s p" by (metis nonneg_int_cases)
  have pfn: "addr_to_pfn s (pfn_to_addr s p) = p" "pfn_to_addr s p \<noteq> 0"
    using pool lt by (simp_all add: addr_to_pfn_inverse pfn_to_addr_nonzero)
  have al: "addr_in_pool s (pfn_to_addr s p) k \<longleftrightarrow> size_aligned s k"
    using ok by (simp add: addr_in_pool_iff [OF pool lt k(1)] size_aligned_def block_ok_def aligned_sum_iff)
  show ?thesis
    using k lt cnt by (simp add: free_pages_def Let_def pfn al mark order_valid_def pfn_in_pool_def)
qed

subsection \<open>Byte extents\<close>

definition bytes_of :: "buddy \<Rightarrow> nat set \<Rightarrow> nat set" where
  "bytes_of s F = {x. unat (mem_start s) \<le> x \<and> (x - unat (mem_start s)) div 4096 \<in> F}"

definition block_extent :: "nat \<Rightarrow> u64 \<Rightarrow> nat set" where
  "block_extent k a = {unat a ..< unat a + 4096 * 2 ^ k}"

lemma bytes_of_set_ops:
  "bytes_of s (F \<union> G) = bytes_of s F \<union> bytes_of s G"
  "bytes_of s (F - G) = bytes_of s F - bytes_of s G"
  "bytes_of s (F \<inter> G) = bytes_of s F \<inter> bytes_of s G"
  "bytes_of s {} = {}"
  "F \<subseteq> G \<Longrightarrow> bytes_of s F \<subseteq> bytes_of s G"
  by (auto simp: bytes_of_def)

lemma bytes_of_cong: "mem_start s = mem_start t \<Longrightarrow> bytes_of s F = bytes_of t F"
  by (simp add: bytes_of_def)

lemma block_extent_frames:
  assumes "pool_ok s" and "p \<le> pool_pages s"
  shows "block_extent k (pfn_to_addr s p) = bytes_of s (frames p k)"
proof -
  have "(x - m) div 4096 < p + 2 ^ k \<longleftrightarrow> x < m + 4096 * p + 4096 * 2 ^ k" if "m \<le> x" for x m :: nat
    using that by (simp add: div_less_iff_less_mult algebra_simps) arith
  moreover have "p \<le> (x - m) div 4096 \<longleftrightarrow> m + 4096 * p \<le> x" if "m \<le> x" for x m :: nat
    using that by (simp add: less_eq_div_iff_mult_less_eq) arith
  ultimately show ?thesis
    by (auto simp: block_extent_def bytes_of_def unat_pfn_to_addr [OF assms])
qed

lemma bytes_of_empty_iff: "bytes_of s F = {} \<longleftrightarrow> F = {}"
proof
  assume e: "bytes_of s F = {}"
  have "unat (mem_start s) + 4096 * x \<in> bytes_of s F" if "x \<in> F" for x
    using that by (simp add: bytes_of_def)
  with e show "F = {}" by blast
qed (simp add: bytes_of_set_ops)

subsection \<open>The allocator contract\<close>

definition page_inv :: "buddy \<Rightarrow> bool" where
  "page_inv s \<longleftrightarrow> buddy_inv s \<and> coalesced s \<and> pool_ok s"

definition block_valid :: "buddy \<Rightarrow> nat \<Rightarrow> u64 \<Rightarrow> bool" where
  "block_valid s k a \<longleftrightarrow> (\<exists>p. a = pfn_to_addr s p \<and> block_ok s p k \<and>
     frames p k \<inter> free_frames s = {} \<and> mem_map s p = 1)"

lemma alloc_block:
  assumes inv: "page_inv s" and a: "alloc_pages (int k) s = (Some a, s')"
  obtains p i where "a = pfn_to_addr s p" "block_ok s p k" "frames p k \<subseteq> free_frames s"
    "s' = taken p i k s" "page_inv s'" "free_frames s' = free_frames s - frames p k"
proof -
  have b: "buddy_inv s" "coalesced s" "pool_ok s" using inv by (auto simp: page_inv_def)
  from b(1) show ?thesis
  proof (cases rule: alloc_pages_cases [where order = "int k"])
    case none
    then show ?thesis using a by simp
  next
    case (some i p)
    then have eq: "a = pfn_to_addr s p" "s' = taken p i k s" using a by auto
    have le: "k \<le> i" using some(2) by simp
    note t = taken_inv [OF b(1) some(4) le]
    have "page_inv s'"
      unfolding page_inv_def eq using t(1) coalesced_taken [OF b(1,2) some(4)] taken_pool_ok [OF b(3)]
      by blast
    then show ?thesis using that eq t by blast
  qed
qed

lemma alloc_block_valid:
  assumes "page_inv s" and "alloc_pages (int k) s = (Some a, s')"
  shows "page_inv s' \<and> block_valid s' k a \<and> mem_start s' = mem_start s \<and> max_order s' = max_order s"
  using assms
proof (rule alloc_block)
  fix p i
  assume "a = pfn_to_addr s p" "block_ok s p k" "s' = taken p i k s" "page_inv s'"
    "free_frames s' = free_frames s - frames p k"
  then show ?thesis
    by (auto simp: block_valid_def pfn_to_addr_taken block_ok_def intro!: exI [of _ p])
qed

lemma block_extent_bytes:
  assumes "pool_ok s" and "block_ok s p k"
  shows "block_extent k (pfn_to_addr s p) = bytes_of s (frames p k)"
  using assms block_ok_less [OF assms(2)] by (simp add: block_extent_frames)

lemma alloc_block_fresh:
  assumes inv: "page_inv s" and a: "alloc_pages (int k) s = (Some a, s')" and v: "block_valid s j b"
  shows "block_valid s' j b \<and> block_extent k a \<inter> block_extent j b = {}"
  using inv a
proof (rule alloc_block)
  fix p i
  assume p: "a = pfn_to_addr s p" "block_ok s p k" "frames p k \<subseteq> free_frames s"
    "s' = taken p i k s" "free_frames s' = free_frames s - frames p k"
  from v obtain q where q: "b = pfn_to_addr s q" "block_ok s q j"
    "frames q j \<inter> free_frames s = {}" "mem_map s q = 1" by (auto simp: block_valid_def)
  have "frames p k \<inter> frames q j = {}" using p(3) q(3) by blast
  then have "block_extent k a \<inter> block_extent j b = {}"
    using inv p q by (simp add: page_inv_def block_extent_bytes bytes_of_empty_iff flip: bytes_of_set_ops(3))
  moreover have "block_valid s' j b"
    unfolding block_valid_def
    using p(4,5) q by (intro exI [of _ q]) (auto simp: pfn_to_addr_taken block_ok_def)
  ultimately show ?thesis by blast
qed

lemma release_block:
  assumes inv: "page_inv s" and v: "block_valid s k a" and al: "size_aligned s k"
  obtains p where "a = pfn_to_addr s p" "block_ok s p k"
    "free_pages a (int k) s = buddy_free p k (s\<lparr>mem_map := (mem_map s)(p := 0)\<rparr>)"
    "page_inv (free_pages a (int k) s)"
    "free_frames (free_pages a (int k) s) = free_frames s \<union> frames p k"
proof -
  have b: "buddy_inv s" "coalesced s" "pool_ok s" using inv by (auto simp: page_inv_def)
  from v obtain p where p: "a = pfn_to_addr s p" "block_ok s p k"
    "frames p k \<inter> free_frames s = {}" "mem_map s p = 1" by (auto simp: block_valid_def)
  let ?s = "s\<lparr>mem_map := (mem_map s)(p := 0)\<rparr>"
  have out: "p \<notin> free_frames s" using p(3) frames_first [of p k] by blast
  have eq: "free_pages a (int k) s = buddy_free p k ?s"
    using free_pages_eq [OF b(1,3) p(2) out] p(1,4) al by simp
  have "buddy_inv (buddy_free p k ?s) \<and> free_frames (buddy_free p k ?s) = free_frames ?s \<union> frames p k"
    using b(1) p by (intro buddy_free_inv) auto
  moreover have "coalesced (buddy_free p k ?s)"
    using b p by (intro coalesced_buddy_free) auto
  ultimately show ?thesis using that p(1,2) eq b(3) by (simp add: page_inv_def pool_ok_def)
qed

lemma release_block_keeps:
  assumes inv: "page_inv s" and v: "block_valid s k a" and al: "size_aligned s k"
    and w: "block_valid s j b" and dis: "block_extent k a \<inter> block_extent j b = {}"
  shows "block_valid (free_pages a (int k) s) j b"
  using inv v al
proof (rule release_block)
  fix p
  assume p: "a = pfn_to_addr s p" "block_ok s p k"
    "free_pages a (int k) s = buddy_free p k (s\<lparr>mem_map := (mem_map s)(p := 0)\<rparr>)"
    "free_frames (free_pages a (int k) s) = free_frames s \<union> frames p k"
  from w obtain q where q: "b = pfn_to_addr s q" "block_ok s q j"
    "frames q j \<inter> free_frames s = {}" "mem_map s q = 1" by (auto simp: block_valid_def)
  have "frames p k \<inter> frames q j = {}"
    using inv dis p q by (simp add: page_inv_def block_extent_bytes bytes_of_empty_iff flip: bytes_of_set_ops(3))
  moreover from this have "q \<noteq> p" using frames_first [of p k] frames_first [of q j] by blast
  ultimately show ?thesis
    unfolding block_valid_def using p q
    by (intro exI [of _ q]) (auto simp: pfn_to_addr_def block_ok_def)
qed

lemma alloc_block_none: "page_inv s \<Longrightarrow> alloc_pages (int k) s = (None, s') \<Longrightarrow> s' = s"
proof -
  assume i: "page_inv s" and a: "alloc_pages (int k) s = (None, s')"
  then have b: "buddy_inv s" by (simp add: page_inv_def)
  then show ?thesis by (cases rule: alloc_pages_cases [where order = "int k"]) (use a in auto)
qed

lemma alloc_block_takes:
  assumes inv: "page_inv s" and a: "alloc_pages (int k) s = (Some a, s')"
  shows "block_extent k a \<subseteq> bytes_of s (free_frames s) \<and>
     bytes_of s' (free_frames s') = bytes_of s (free_frames s) - block_extent k a"
  using inv a
proof (rule alloc_block)
  fix p i
  assume p: "a = pfn_to_addr s p" "block_ok s p k" "frames p k \<subseteq> free_frames s"
    "s' = taken p i k s" "free_frames s' = free_frames s - frames p k"
  have e: "block_extent k a = bytes_of s (frames p k)"
    using inv p by (simp add: page_inv_def block_extent_bytes)
  show ?thesis
    unfolding e p(5) using p(3,4) bytes_of_cong [of s' s] by (simp add: bytes_of_set_ops)
qed

lemma release_block_gives:
  assumes inv: "page_inv s" and "block_valid s k a" "size_aligned s k"
  shows "bytes_of (free_pages a (int k) s) (free_frames (free_pages a (int k) s)) =
     bytes_of s (free_frames s) \<union> block_extent k a \<and>
     page_inv (free_pages a (int k) s) \<and>
     mem_start (free_pages a (int k) s) = mem_start s \<and> max_order (free_pages a (int k) s) = max_order s"
  using assms
proof (rule release_block)
  fix p
  assume p: "a = pfn_to_addr s p" "block_ok s p k"
    "free_pages a (int k) s = buddy_free p k (s\<lparr>mem_map := (mem_map s)(p := 0)\<rparr>)"
    "page_inv (free_pages a (int k) s)"
    "free_frames (free_pages a (int k) s) = free_frames s \<union> frames p k"
  have e: "block_extent k a = bytes_of s (frames p k)"
    using inv p by (simp add: page_inv_def block_extent_bytes)
  have m: "mem_start (free_pages a (int k) s) = mem_start s" "max_order (free_pages a (int k) s) = max_order s"
    unfolding p(3) by simp_all
  show ?thesis
    unfolding e p(5) using p(4) m bytes_of_cong [OF m(1)] by (simp add: bytes_of_set_ops)
qed

lemma free_lists_restored:
  assumes inv: "page_inv s" and al: "size_aligned s k" and a: "alloc_pages (int k) s = (Some a, s')"
  shows "set (free_area (free_pages a (int k) s') j) = set (free_area s j)"
  using inv a
proof (rule alloc_block)
  fix p i
  assume p: "a = pfn_to_addr s p" "block_ok s p k" "frames p k \<subseteq> free_frames s"
    "s' = taken p i k s" "page_inv s'" "free_frames s' = free_frames s - frames p k"
  have v: "block_valid s' k a" "mem_start s' = mem_start s" "max_order s' = max_order s"
    using alloc_block_valid [OF inv a] by auto
  have al': "size_aligned s' k" using al v(2) by (simp add: size_aligned_def)
  from p(5) v(1) al' show ?thesis
  proof (rule release_block)
    fix q
    assume q: "a = pfn_to_addr s' q" "block_ok s' q k" "page_inv (free_pages a (int k) s')"
      "free_frames (free_pages a (int k) s') = free_frames s' \<union> frames q k"
    have pool: "pool_ok s" "p \<le> pool_pages s" "q \<le> pool_pages s"
      using inv p q block_ok_less [OF p(2)] block_ok_less [OF q(2)] by (auto simp: page_inv_def)
    have "q = p"
      using q(1) p(1,4) addr_to_pfn_inverse [OF pool(1,2)] addr_to_pfn_inverse [OF pool(1,3)]
      by (metis pfn_to_addr_taken)
    then have "free_frames (free_pages a (int k) s') = free_frames s" using q(4) p(3,6) by blast
    moreover have "max_order (free_pages a (int k) s') = max_order s"
      using release_block_gives [OF p(5) v(1) al'] v(3) by simp
    ultimately show ?thesis
      using q(3) inv by (intro canonical_unique) (auto simp: page_inv_def)
  qed
qed

text \<open>
  The contract holds for single pages in every pool, and for blocks of every order when
  the pool starts at a multiple of its own size.
\<close>

interpretation pages: block_allocator "\<lambda>_::unit. alloc_pages (int 0)" "\<lambda>_ a. free_pages a (int 0)"
  page_inv "\<lambda>_. block_extent 0" "\<lambda>s _. block_valid s 0" "\<lambda>_. True" "\<lambda>s. bytes_of s (free_frames s)"
proof unfold_locales
  have al: "page_inv s \<Longrightarrow> size_aligned s 0" for s by (simp add: page_inv_def size_aligned_0)
  show "bytes_of (free_pages a (int 0) s) (free_frames (free_pages a (int 0) s)) =
      bytes_of s (free_frames s) \<union> block_extent 0 a"
    and "page_inv (free_pages a (int 0) s)"
    if "page_inv s" "block_valid s 0 a" for s a
    using release_block_gives [OF that al [OF that(1)]] by simp_all
  show "block_valid (free_pages a (int 0) s) 0 b"
    if "page_inv s" "block_valid s 0 a" "block_valid s 0 b" "block_extent 0 a \<inter> block_extent 0 b = {}" for s a b
    using release_block_keeps [OF that(1,2) al [OF that(1)] that(3,4)] .
qed (blast dest: alloc_block_valid alloc_block_fresh alloc_block_takes intro: alloc_block_none)+

lemma size_aligned_mono: "size_aligned s j \<Longrightarrow> k \<le> j \<Longrightarrow> size_aligned s k"
  unfolding size_aligned_def by (meson add_le_mono order_refl power_le_dvd)

text \<open>Blocks of the orders up to \<open>K\<close>, which need a start of the pool aligned to the largest of them.\<close>

definition aligned_inv :: "nat \<Rightarrow> buddy \<Rightarrow> bool" where
  "aligned_inv K s \<longleftrightarrow> page_inv s \<and> size_aligned s K"

interpretation blocks: block_allocator "\<lambda>k. alloc_pages (int k)" "\<lambda>k a. free_pages a (int k)"
  "aligned_inv K" block_extent block_valid "\<lambda>k. k \<le> K" "\<lambda>s. bytes_of s (free_frames s)"
  for K
proof unfold_locales
  have al: "page_inv s \<and> size_aligned s k" if "aligned_inv K s" "k \<le> K" for s k
    using that size_aligned_mono [of s K k] by (simp add: aligned_inv_def)
  show "bytes_of (free_pages a (int k) s) (free_frames (free_pages a (int k) s)) =
      bytes_of s (free_frames s) \<union> block_extent k a"
    and "aligned_inv K (free_pages a (int k) s)"
    if v: "aligned_inv K s" "k \<le> K" "block_valid s k a" for s k a
    using release_block_gives [OF conjunct1 [OF al] v(3) conjunct2 [OF al]] v(1,2)
    by (simp_all add: aligned_inv_def size_aligned_def)
  show "block_valid (free_pages a (int k) s) j b"
    if v: "aligned_inv K s" "k \<le> K" "block_valid s k a" and "block_valid s j b"
      "block_extent k a \<inter> block_extent j b = {}"
    for s k a j b
    using that release_block_keeps [OF conjunct1 [OF al] v(3) conjunct2 [OF al]] by blast
  show "aligned_inv K s' \<and> block_valid s' k a"
    if "aligned_inv K s" "alloc_pages (int k) s = (Some a, s')" for s k a s'
    using that alloc_block_valid [of s k a s'] by (auto simp: aligned_inv_def size_aligned_def)
qed (unfold aligned_inv_def, (blast dest: alloc_block_fresh alloc_block_takes intro: alloc_block_none)+)

text \<open>
  A block whose size does not divide the start of the pool is not taken back (\<open>addr_in_pool\<close>
  tests the absolute address), so that safety, unlike the accounting, needs no alignment.
\<close>

lemma free_pages_unaligned:
  assumes inv: "page_inv p" and v: "block_valid p k a" and un: "\<not> size_aligned p k"
  shows "free_pages a (int k) p = p"
proof -
  from v obtain q where q: "a = pfn_to_addr p q" "block_ok p q k" "frames q k \<inter> free_frames p = {}"
    "mem_map p q = 1" by (auto simp: block_valid_def)
  have "q \<notin> free_frames p" using q(3) frames_first [of q k] by blast
  then show ?thesis using free_pages_eq [of p q k] inv q un by (simp add: page_inv_def)
qed

lemma free_pages_keeps:
  assumes inv: "page_inv p" and v: "block_valid p k a"
  shows "page_inv (free_pages a (int k) p)"
    "block_valid p j b \<Longrightarrow> block_extent k a \<inter> block_extent j b = {} \<Longrightarrow>
       block_valid (free_pages a (int k) p) j b"
    "mem_start (free_pages a (int k) p) = mem_start p" "max_order (free_pages a (int k) p) = max_order p"
  using inv release_block_gives [OF inv v] release_block_keeps [OF inv v] free_pages_unaligned [OF inv v]
  by (cases "size_aligned p k"; simp)+

definition pool_of :: "buddy \<Rightarrow> buddy \<Rightarrow> bool" where
  "pool_of b s \<longleftrightarrow> page_inv b \<and> page_inv s \<and> mem_start s = mem_start b \<and> max_order s = max_order b"

interpretation orders: allocator "\<lambda>k. alloc_pages (int k)" "\<lambda>k a. free_pages a (int k)"
  "pool_of b" block_extent block_valid "\<lambda>_. True"
  for b
proof unfold_locales
  show "pool_of b s' \<and> block_valid s' k a" if "pool_of b s" "alloc_pages (int k) s = (Some a, s')" for s k a s'
    using that alloc_block_valid [of s k a s'] by (simp add: pool_of_def)
  show "pool_of b (free_pages a (int k) s)" if "pool_of b s" "block_valid s k a" for s k a
    using that free_pages_keeps(1,3,4) [of s k a] by (simp add: pool_of_def)
  show "block_valid (free_pages a (int k) s) j c"
    if "pool_of b s" "block_valid s k a" "block_valid s j c" "block_extent k a \<inter> block_extent j c = {}"
    for s k a j c
    using that free_pages_keeps(2) [of s k a j c] by (simp add: pool_of_def)
qed (unfold pool_of_def, (blast dest: alloc_block_fresh intro: alloc_block_none)+)

lemma block_valid_bytes:
  assumes "pool_of b s" and "block_valid s k a"
  shows "block_extent k a \<subseteq> bytes_of b {..< pool_pages b}" "block_extent k a \<inter> bytes_of s (free_frames s) = {}"
proof -
  have s: "pool_ok s" "mem_start s = mem_start b" "pool_pages s = pool_pages b"
    using assms(1) by (simp_all add: pool_of_def page_inv_def buddy_inv_def)
  from assms(2) obtain q where q: "a = pfn_to_addr s q" "block_ok s q k" "frames q k \<inter> free_frames s = {}"
    by (auto simp: block_valid_def)
  have e: "block_extent k a = bytes_of s (frames q k)" using block_extent_bytes [OF s(1) q(2)] q(1) by simp
  have "frames q k \<subseteq> {..< pool_pages b}" using q(2) s(3) by (auto simp: block_ok_def frames_def)
  then show "block_extent k a \<subseteq> bytes_of b {..< pool_pages b}"
    unfolding e bytes_of_cong [OF s(2)] by (rule bytes_of_set_ops(5))
  show "block_extent k a \<inter> bytes_of s (free_frames s) = {}"
    unfolding e using q(3) by (simp add: bytes_of_set_ops(4) flip: bytes_of_set_ops(3))
qed

subsection \<open>Initialisation\<close>

lemma ilog2_bounds: "0 < n \<Longrightarrow> 2 ^ ilog2 n \<le> n \<and> n < 2 ^ Suc (ilog2 n)"
proof (induction n rule: ilog2.induct)
  case (1 n)
  show ?case
  proof (cases "n \<le> 1")
    case True
    then show ?thesis using "1.prems" by (simp add: ilog2.simps [of n])
  next
    case False
    then have IH: "2 ^ ilog2 (n div 2) \<le> n div 2 \<and> n div 2 < 2 ^ Suc (ilog2 (n div 2))"
      using "1.IH" by simp
    have "ilog2 n = Suc (ilog2 (n div 2))" using False by (simp add: ilog2.simps [of n])
    moreover have "2 * x \<le> n \<and> n < 2 * (2 * x)" if "x \<le> n div 2 \<and> n div 2 < 2 * x" for x
      using that by linarith
    ultimately show ?thesis using IH by simp
  qed
qed

lemma free_list_add_initial:
  assumes "\<forall>k. free_area s k = []" "\<forall>p. block_order s p = - 1" "pool_pages s = 2 ^ max_order s"
  shows "buddy_inv (free_list_add 0 (max_order s) s)"
    and "coalesced (free_list_add 0 (max_order s) s)"
    and "free_frames (free_list_add 0 (max_order s) s) = {..< pool_pages s}"
  using assms
  by (auto simp: buddy_inv_def lists_ok_def blocks_disjoint_def block_ok_def coalesced_def
      free_list_add_def free_frames_def split: if_splits)


text \<open>What the linker guarantees: at least one whole page is left above the kernel image.\<close>

definition room_left :: "u64 \<Rightarrow> bool" where
  "room_left alloc_start \<longleftrightarrow> alloc_start \<noteq> 0 \<and> alloc_start \<le> VIRT_MEM_END - 4096 \<and>
     KERNEL_VIRT_BASE \<le> alloc_start"

lemma page_alloc_init_eq:
  assumes "room_left start"
  defines "st \<equiv> page_align_up start"
  defines "n \<equiv> (unat VIRT_MEM_END - unat st) div 4096"
  shows "page_alloc_init start = free_list_add 0 (ilog2 n)
      \<lparr>free_area = (\<lambda>_. []), mem_start = st, mem_size = push_bit PAGE_SHIFT (of_nat (2 ^ ilog2 n)),
       max_order = ilog2 n, pool_pages = 2 ^ ilog2 n, block_order = (\<lambda>_. - 1), mem_map = (\<lambda>_. 0)\<rparr>"
    and "0 < n" "n \<le> 32768" "unat st = (unat start + 4095) div 4096 * 4096"
proof -
  have b: "unat KERNEL_VIRT_BASE \<le> unat start" "unat start \<le> unat (VIRT_MEM_END - 4096)"
    using assms(1) by (auto simp: room_left_def word_le_nat_alt)
  show st: "unat st = (unat start + 4095) div 4096 * 4096"
    unfolding st_def using b by (intro unat_page_align_up) simp
  define q where "q = (unat start + 4095) div 4096"
  have q: "4096 * q \<le> unat start + 4095" "unat start \<le> 4096 * q" unfolding q_def by linarith+
  have lt: "q < 0xffff800088000" "0xffff800080000 \<le> q" using b q by simp_all
  have n_q: "n = 0xffff800088000 - q"
    unfolding n_def st q_def [symmetric] using lt nonzero_mult_div_cancel_right [of 4096 "0xffff800088000 - q"]
    by (simp add: diff_mult_distrib)
  then show n: "0 < n" "n \<le> 32768" using lt by simp_all
  have "\<not> VIRT_MEM_END \<le> st"
    using lt by (simp add: word_le_nat_alt st q_def [symmetric])
  moreover from this have "unat ((VIRT_MEM_END - st) div 4096) = n"
    by (simp add: n_def unat_div unat_sub word_le_nat_alt)
  ultimately show "page_alloc_init start = free_list_add 0 (ilog2 n)
      \<lparr>free_area = (\<lambda>_. []), mem_start = st, mem_size = push_bit PAGE_SHIFT (of_nat (2 ^ ilog2 n)),
       max_order = ilog2 n, pool_pages = 2 ^ ilog2 n, block_order = (\<lambda>_. - 1), mem_map = (\<lambda>_. 0)\<rparr>"
    using n unfolding page_alloc_init_def Let_def st_def [symmetric] by simp
qed

lemma page_alloc_init_inv:
  assumes "room_left start"
  defines "s \<equiv> page_alloc_init start"
  shows "page_inv s" "free_frames s = {..< pool_pages s}" "mem_start s = page_align_up start"
    "4096 * pool_pages s \<le> unat VIRT_MEM_END - unat (mem_start s)"
    "unat VIRT_MEM_END - unat (mem_start s) < 2 * (4096 * pool_pages s)"
proof -
  define st where "st = page_align_up start"
  define n where "n = (unat VIRT_MEM_END - unat st) div 4096"
  note init = page_alloc_init_eq [OF assms(1), folded st_def, folded n_def]
  note log = ilog2_bounds [OF init(2)]
  have b: "unat KERNEL_VIRT_BASE \<le> unat start" "unat start \<le> unat (VIRT_MEM_END - 4096)"
    using assms(1) by (auto simp: room_left_def word_le_nat_alt)
  have "ilog2 n < 16"
  proof (rule ccontr)
    assume "\<not> ilog2 n < 16"
    then have "(2::nat) ^ 16 \<le> 2 ^ ilog2 n" by (intro power_increasing) auto
    then show False using log init(3) by simp
  qed
  moreover have "unat st + 4096 * (2 ^ ilog2 n + 2 ^ 15) < 2 ^ 64"
  proof -
    have "unat st \<le> unat start + 4095" unfolding init(4) by (rule div_times_less_eq_dividend)
    moreover have "(2::nat) ^ ilog2 n \<le> 32768" using log init(3) by linarith
    ultimately show ?thesis using b(2) by simp
  qed
  moreover have "st \<noteq> 0" using init(4) b by (auto simp: unat_eq_zero [symmetric])
  ultimately show "page_inv s"
    unfolding page_inv_def s_def init(1)
    using free_list_add_initial(1,2) [where s = "\<lparr>free_area = (\<lambda>_. []), mem_start = st,
       mem_size = push_bit PAGE_SHIFT (of_nat (2 ^ ilog2 n)), max_order = ilog2 n,
       pool_pages = 2 ^ ilog2 n, block_order = (\<lambda>_. - 1), mem_map = (\<lambda>_. 0)\<rparr>"]
    by (simp add: pool_ok_def free_list_add_def init(4))
  show "free_frames s = {..< pool_pages s}"
    unfolding s_def init(1) free_list_add_def by (auto simp: free_frames_def)
  show "mem_start s = page_align_up start"
    unfolding s_def init(1) free_list_add_def by (simp add: st_def)
  show "4096 * pool_pages s \<le> unat VIRT_MEM_END - unat (mem_start s)"
    "unat VIRT_MEM_END - unat (mem_start s) < 2 * (4096 * pool_pages s)"
    using log div_mult_mod_eq [of "unat VIRT_MEM_END - unat st" 4096]
      mod_less_divisor [of 4096 "unat VIRT_MEM_END - unat st"]
    unfolding s_def init(1) free_list_add_def n_def [symmetric] by (simp_all del: mod_less_divisor)
qed

end
