(* ===== verification/Page_Alloc_Props.thy ===== *)
theory Page_Alloc_Props
  imports Page_Alloc_Correct
begin

text \<open>
  The properties of the page allocator.  Their witnesses run on a real pool: the one
  \<open>page_alloc_init\<close> sets up when the kernel image ends four pages below the end of memory.
\<close>

definition small_pool :: buddy where
  "small_pool = page_alloc_init 0xffff800087ffc000"

definition odd_pool :: buddy where
  "odd_pool = page_alloc_init 0xffff800087ffb000"

lemma small_pool_inv: "page_inv small_pool" "page_inv odd_pool"
  unfolding small_pool_def odd_pool_def by (intro page_alloc_init_inv; simp add: room_left_def)+

lemma small_pool_run:
  "alloc_pages 1 small_pool = (Some 0xffff800087ffc000, snd (alloc_pages 1 small_pool))"
  "alloc_pages 1 odd_pool = (Some 0xffff800087ffb000, snd (alloc_pages 1 odd_pool))"
  "alloc_pages 0 small_pool = (Some 0xffff800087ffc000, snd (alloc_pages 0 small_pool))"
  by (intro prod_eqI, code_simp, simp)+

lemma small_pool_aligned: "size_aligned small_pool 1" "\<not> size_aligned odd_pool 1"
proof -
  have "mem_start small_pool = 0xffff800087ffc000" "mem_start odd_pool = 0xffff800087ffb000"
    by code_simp+
  then show "size_aligned small_pool 1" "\<not> size_aligned odd_pool 1"
    by (simp_all add: size_aligned_def)
qed

text \<open>C7: a successful \<open>alloc_pages\<close> returns the address of an aligned block of free frames
  inside the pool, takes exactly these frames out of the free lists, sets the reference count
  of the first page to one and leaves every other count alone; the invariant (free lists
  consistent, disjoint and fully coalesced) is kept.\<close>

theorem alloc_pages_correct:
  assumes "page_inv s" and "alloc_pages (int k) s = (Some a, s')"
  shows "\<exists>p. a = pfn_to_addr s p \<and> k \<le> max_order s \<and> 2 ^ k dvd p \<and> p + 2 ^ k \<le> pool_pages s \<and>
    frames p k \<subseteq> free_frames s \<and> free_frames s' = free_frames s - frames p k \<and>
    mem_map s' = (mem_map s)(p := 1) \<and> page_inv s'"
  using assms
proof (rule alloc_block)
  fix p i
  assume "a = pfn_to_addr s p" "block_ok s p k" "frames p k \<subseteq> free_frames s"
    "s' = taken p i k s" "page_inv s'" "free_frames s' = free_frames s - frames p k"
  then show ?thesis by (intro exI [of _ p]) (simp add: block_ok_def)
qed

theorem alloc_pages_correct_witness:
  "\<exists>s a s' p. alloc_pages 1 s = (Some a, s') \<and> a = pfn_to_addr s p \<and>
     frames p 1 \<subseteq> free_frames s \<and> free_frames s' = free_frames s - frames p 1"
  using alloc_pages_correct [of small_pool 1, OF small_pool_inv(1)] small_pool_run(1)
  by (metis of_nat_1)

text \<open>C8: \<open>alloc_pages\<close> fails only when it must: on a valid order it returns \<open>NULL\<close> exactly when
  no aligned block of that order consists of free frames, and then nothing changes.\<close>

theorem alloc_pages_complete:
  assumes inv: "page_inv s" and k: "k \<le> max_order s"
  shows "alloc_pages (int k) s = (None, s) \<longleftrightarrow>
    (\<nexists>p. 2 ^ k dvd p \<and> p + 2 ^ k \<le> pool_pages s \<and> frames p k \<subseteq> free_frames s)"
proof -
  have b: "buddy_inv s" "coalesced s" using inv by (auto simp: page_inv_def)
  have ex: "\<exists>j\<ge>k. j \<le> max_order s \<and> free_area s j \<noteq> []"
    if "2 ^ k dvd p" "p + 2 ^ k \<le> pool_pages s" "frames p k \<subseteq> free_frames s" for p
  proof -
    from free_block_contains [OF b, of p k] that k obtain j q where
      "k \<le> j" "q \<in> set (free_area s j)" by (auto simp: block_ok_def)
    moreover from this have "j \<le> max_order s" using buddy_inv_block_ok [OF b(1)] by (simp add: block_ok_def)
    ultimately show ?thesis by auto
  qed
  from b(1) show ?thesis
  proof (cases rule: alloc_pages_cases [where order = "int k"])
    case none
    then have "\<forall>j. k \<le> j \<longrightarrow> j \<le> max_order s \<longrightarrow> free_area s j = []"
      using k by (auto simp: order_valid_def)
    then show ?thesis using none(1) ex by blast
  next
    case (some i p)
    then show ?thesis using alloc_block [OF inv some(5)] by (simp add: block_ok_def) blast
  qed
qed

theorem alloc_pages_complete_witness:
  "alloc_pages (int 2) small_pool = (None, small_pool) \<longleftrightarrow>
    (\<nexists>p. 2 ^ 2 dvd p \<and> p + 2 ^ 2 \<le> pool_pages small_pool \<and> frames p 2 \<subseteq> free_frames small_pool)"
  by (rule alloc_pages_complete [OF small_pool_inv(1)]) code_simp





text \<open>blocks are aligned relative to the start of the pool, but \<open>addr_in_pool\<close> tests the
  absolute address.  If the start of the pool is not aligned to the size of the block (the
  linker script aligns it to one page only), freeing any block of that order is silently
  ignored: the block is lost for good.\<close>

theorem free_pages_unaligned_leaks:
  assumes inv: "page_inv s" and al: "\<not> size_aligned s k" and a: "alloc_pages (int k) s = (Some a, s')"
  shows "free_pages a (int k) s' = s'"
  using inv a
proof (rule alloc_block)
  fix p i
  assume p: "a = pfn_to_addr s p" "block_ok s p k" "s' = taken p i k s" "page_inv s'"
    "free_frames s' = free_frames s - frames p k"
  have s': "buddy_inv s'" "pool_ok s'" "block_ok s' p k" "p \<notin> free_frames s'" "mem_map s' p \<le> 1"
    "pfn_to_addr s' p = a" "\<not> size_aligned s' k"
    using p al by (auto simp: page_inv_def block_ok_def pfn_to_addr_taken size_aligned_def)
  show ?thesis using free_pages_eq [OF s'(1-5)] s'(6,7) by simp
qed

theorem free_pages_unaligned_leaks_witness:
  "free_pages 0xffff800087ffb000 (int 1) (snd (alloc_pages 1 odd_pool)) = snd (alloc_pages 1 odd_pool)"
  using free_pages_unaligned_leaks [of odd_pool 1, OF small_pool_inv(2) small_pool_aligned(2)]
    small_pool_run(2) by simp

text \<open>\<open>page_alloc_init\<close> on any start address that leaves a whole page sets up a correct
  allocator with every frame of the pool free; the pool is the largest power of two of pages
  that fits, so at most half of the memory is left unmanaged.\<close>

theorem page_alloc_init_correct:
  assumes "room_left start"
  shows "page_inv (page_alloc_init start) \<and>
    free_frames (page_alloc_init start) = {..< pool_pages (page_alloc_init start)} \<and>
    mem_start (page_alloc_init start) = page_align_up start \<and>
    4096 * pool_pages (page_alloc_init start) \<le> unat VIRT_MEM_END - unat (page_align_up start) \<and>
    unat VIRT_MEM_END - unat (page_align_up start) < 2 * (4096 * pool_pages (page_alloc_init start))"
  using page_alloc_init_inv [OF assms] by simp

theorem page_alloc_init_correct_witness: "page_inv (page_alloc_init 0xffff800080123456)"
  using page_alloc_init_correct [of "0xffff800080123456"] by (simp add: room_left_def)

lemma put_page_shared:
  "mem_map s p \<noteq> 1 \<Longrightarrow> put_page (Some p) s = s\<lparr>mem_map := (mem_map s)(p := mem_map s p - 1)\<rparr>"
  by (simp add: put_page_def)

lemma put_page_iterate:
  "int n < mem_map s p \<Longrightarrow>
     (put_page (Some p) ^^ n) s = s\<lparr>mem_map := (mem_map s)(p := mem_map s p - int n)\<rparr>"
  by (induction n) (simp_all add: put_page_shared algebra_simps)

lemma put_page_last:
  assumes inv: "page_inv s" and p: "p < pool_pages s" "p \<notin> free_frames s" and c: "mem_map s p = 1"
  shows "page_inv (put_page (Some p) s) \<and> free_frames (put_page (Some p) s) = insert p (free_frames s) \<and>
    mem_map (put_page (Some p) s) = (mem_map s)(p := 0)"
proof -
  let ?s = "s\<lparr>mem_map := (mem_map s)(p := 0)\<rparr>"
  have b: "buddy_inv s" "coalesced s" "pool_ok s" using inv by (auto simp: page_inv_def)
  have eq: "put_page (Some p) s = buddy_free p 0 ?s"
    using p(1) c by (simp add: put_page_def pfn_in_pool_def)
  have fr: "frames p 0 = {p}" by (auto simp: frames_def)
  have "buddy_inv (buddy_free p 0 ?s) \<and> free_frames (buddy_free p 0 ?s) = free_frames ?s \<union> frames p 0"
    using b p by (intro buddy_free_inv) (auto simp: fr block_ok_def)
  moreover have "coalesced (buddy_free p 0 ?s)"
    using b p by (intro coalesced_buddy_free) (auto simp: fr block_ok_def)
  ultimately show ?thesis using b(3) unfolding eq by (simp add: page_inv_def pool_ok_def fr)
qed

text \<open>a page with \<open>c\<close> references survives any \<open>put_page\<close> but the last: fewer than \<open>c\<close> calls
  only lower the count, the \<open>c\<close>-th returns exactly this page to the free lists, keeping the
  invariant and every other count.\<close>

theorem put_page_refcount:
  assumes inv: "page_inv s" and p: "p < pool_pages s" "p \<notin> free_frames s" and c: "mem_map s p = int (Suc n)"
  shows "(\<forall>m\<le>n. (put_page (Some p) ^^ m) s = s\<lparr>mem_map := (mem_map s)(p := int (Suc n - m))\<rparr>) \<and>
    page_inv ((put_page (Some p) ^^ Suc n) s) \<and>
    free_frames ((put_page (Some p) ^^ Suc n) s) = insert p (free_frames s) \<and>
    mem_map ((put_page (Some p) ^^ Suc n) s) = (mem_map s)(p := 0)"
proof -
  have it: "(put_page (Some p) ^^ m) s = s\<lparr>mem_map := (mem_map s)(p := int (Suc n - m))\<rparr>" if "m \<le> n" for m
    using put_page_iterate [of m s p] c that by (simp add: of_nat_diff Suc_diff_le algebra_simps)
  have "page_inv ((put_page (Some p) ^^ n) s)"
    using inv unfolding it [OF order_refl] by (simp add: page_inv_def pool_ok_def coalesced_def)
  then have last: "page_inv (put_page (Some p) ((put_page (Some p) ^^ n) s)) \<and>
      free_frames (put_page (Some p) ((put_page (Some p) ^^ n) s)) = insert p (free_frames s) \<and>
      mem_map (put_page (Some p) ((put_page (Some p) ^^ n) s)) = (mem_map s)(p := 0)"
    using put_page_last [of "(put_page (Some p) ^^ n) s" p] p unfolding it [OF order_refl] by simp
  show ?thesis using it last by simp
qed

theorem put_page_refcount_witness:
  "page_inv (put_page (Some 0) (put_page (Some 0) (get_page (Some 0) (snd (alloc_pages 0 small_pool)))))"
proof -
  let ?t = "snd (alloc_pages 0 small_pool)"
  have a: "alloc_pages (int 0) small_pool = (Some 0xffff800087ffc000, ?t)" using small_pool_run(3) by simp
  have "page_inv ?t" using alloc_block_valid [OF small_pool_inv(1) a] by blast
  moreover have "0 \<notin> free_frames ?t"
    using small_pool_inv(1) a
  proof (rule alloc_block)
    fix p i
    assume p: "0xffff800087ffc000 = pfn_to_addr small_pool p" "block_ok small_pool p 0"
      "free_frames ?t = free_frames small_pool - frames p 0"
    have "pfn_to_addr small_pool 0 = 0xffff800087ffc000" by code_simp
    then have "p = 0"
      using addr_to_pfn_inverse [of small_pool p] addr_to_pfn_inverse [of small_pool 0] p(1)
        block_ok_less [OF p(2)] small_pool_inv(1) by (simp add: page_inv_def)
    then show ?thesis using p(3) by simp
  qed
  moreover have "pool_pages ?t = 4" "mem_map ?t 0 = 1" by code_simp+
  ultimately show ?thesis
    using put_page_refcount [of "get_page (Some 0) ?t" 0 1]
    by (simp add: get_page_def page_inv_def pool_ok_def coalesced_def numeral_2_eq_2)
qed


definition small_history :: "nat request list" where
  "small_history = [Get 1, Get 0, Get 0, Put 1, Put 1, Get 1]"


end
