(* ===== verification/Slub.thy ===== *)
theory Slub
  imports Page_Alloc_Correct
begin

text \<open>
  The slab allocator of \<^verbatim>\<open>mm/slub.c\<close> on top of the page allocator.  The header that a slab
  keeps at the start of its page (\<^verbatim>\<open>struct slab\<close>) is an entry of the map \<open>slabs\<close>, keyed by the
  address of the page; a page whose first word is not \<open>SLAB_MAGIC\<close> has no entry.  The free list
  threaded through the objects and the \<open>next\<close> links of the partial slabs are lists.  A header is
  dropped when its pages are given back: what the memory holds from then on is up to its next
  owner.  A \<open>struct kmem_cache *\<close> is an index: 0 to 6 are the caches of \<open>kmalloc\<close>, 7 the one of
  \<^verbatim>\<open>mm/mmap.c\<close>.  Both counters of the header are C \<open>unsigned int\<close>s; \<open>inuse\<close> wraps.
\<close>

subsection \<open>State and operations\<close>

record slab =
  cache :: "nat option"
  freelist :: "u64 list"
  inuse :: int
  objects :: nat

record kmem_cache =
  object_size :: nat
  partial :: "u64 list"

record kmem =
  pg :: buddy
  caches :: "nat \<Rightarrow> kmem_cache"
  slabs :: "u64 \<rightharpoonup> slab"

abbreviation sizeof_slab :: nat where "sizeof_slab \<equiv> 40"

definition slab_object_offset :: "nat \<Rightarrow> nat" where
  "slab_object_offset sz =
     (let align = (if sz < 8 then 8 else sz) in
      unat ((of_nat sizeof_slab + of_nat align - 1 :: u32) AND NOT (of_nat align - 1)))"

definition slab_objects_per_page :: "nat \<Rightarrow> nat" where
  "slab_objects_per_page sz =
     (let off = slab_object_offset sz in
      if off \<ge> 4096 then 0 else (4096 - off) div sz)"

definition slab_from_object :: "u64 \<Rightarrow> u64" where
  "slab_from_object obj = page_align_down obj"

definition partial_unlink :: "nat \<Rightarrow> u64 \<Rightarrow> kmem \<Rightarrow> kmem" where
  "partial_unlink c a s = s\<lparr>caches := (caches s)(c := (caches s c)\<lparr>partial := remove1 a (partial (caches s c))\<rparr>)\<rparr>"

definition partial_link :: "nat \<Rightarrow> u64 \<Rightarrow> kmem \<Rightarrow> kmem" where
  "partial_link c a s = s\<lparr>caches := (caches s)(c := (caches s c)\<lparr>partial := a # partial (caches s c)\<rparr>)\<rparr>"

definition slot :: "u64 \<Rightarrow> nat \<Rightarrow> nat \<Rightarrow> u64" where
  "slot base sz i = base + of_nat (slab_object_offset sz) + of_nat i * of_nat sz"

definition slab_create :: "nat \<Rightarrow> kmem \<Rightarrow> u64 option \<times> kmem" where
  "slab_create c s =
     (case alloc_pages 0 (pg s) of
        (None, p) \<Rightarrow> (None, s\<lparr>pg := p\<rparr>)
      | (Some a, p) \<Rightarrow>
          let sz = object_size (caches s c); n = slab_objects_per_page sz in
          if n = 0 then (None, s\<lparr>pg := free_pages a 0 p\<rparr>)
          else (Some a, s\<lparr>pg := p, slabs := (slabs s)(a \<mapsto>
                 \<lparr>cache = Some c, freelist = fold (\<lambda>i fl. slot a sz i # fl) [0..<n] [],
                  inuse = 0, objects = n\<rparr>)\<rparr>))"

definition slab_destroy :: "nat \<Rightarrow> u64 \<Rightarrow> kmem \<Rightarrow> kmem" where
  "slab_destroy c a s =
     (let s1 = partial_unlink c a s in
      s1\<lparr>pg := free_pages a 0 (pg s1), slabs := (slabs s1)(a := None)\<rparr>)"

definition cache_for_size :: "u64 \<Rightarrow> nat option" where
  "cache_for_size sz =
     (if sz \<le> 32 then Some 0 else if sz \<le> 64 then Some 1 else if sz \<le> 128 then Some 2
      else if sz \<le> 256 then Some 3 else if sz \<le> 512 then Some 4 else if sz \<le> 1024 then Some 5
      else if sz \<le> 2048 then Some 6 else None)"

text \<open>The loop of \<open>alloc_large\<close>: the order at which it stops; \<open>size + sizeof(struct slab)\<close> wraps.\<close>

function large_order :: "u64 \<Rightarrow> nat \<Rightarrow> u64 \<Rightarrow> nat" where
  "large_order bytes order sz =
     (if bytes < sz + of_nat sizeof_slab \<and> order < 15
      then large_order (push_bit 1 bytes) (order + 1) sz else order)"
  by pat_completeness auto
termination
  by (relation "measure (\<lambda>(bytes, order, sz). 15 - order)") auto

declare large_order.simps [simp del]

definition alloc_large :: "u64 \<Rightarrow> kmem \<Rightarrow> u64 option \<times> kmem" where
  "alloc_large size0 s =
     (let sz = (if size0 = 0 then 1 else size0);
          order = large_order PAGE_SIZE 0 sz in
      case alloc_pages (int order) (pg s) of
        (None, p) \<Rightarrow> (None, s\<lparr>pg := p\<rparr>)
      | (Some a, p) \<Rightarrow>
          (Some (a + of_nat sizeof_slab),
           s\<lparr>pg := p, slabs := (slabs s)(a \<mapsto>
              \<lparr>cache = None, freelist = [], inuse = 1, objects = order\<rparr>)\<rparr>))"

definition free_large :: "u64 \<Rightarrow> kmem \<Rightarrow> kmem" where
  "free_large obj s =
     (let a = slab_from_object obj in
      case slabs s a of
        None \<Rightarrow> s
      | Some h \<Rightarrow> s\<lparr>pg := free_pages a (int (objects h)) (pg s), slabs := (slabs s)(a := None)\<rparr>)"

definition kmem_cache_init :: "nat \<Rightarrow> nat \<Rightarrow> kmem \<Rightarrow> kmem" where
  "kmem_cache_init c sz s =
     s\<lparr>caches := (caches s)(c := \<lparr>object_size = (if sz < 8 then 8 else sz), partial = []\<rparr>)\<rparr>"

definition slub_init :: "kmem \<Rightarrow> kmem" where
  "slub_init s = kmem_cache_init 6 2048 (kmem_cache_init 5 1024 (kmem_cache_init 4 512
     (kmem_cache_init 3 256 (kmem_cache_init 2 128 (kmem_cache_init 1 64 (kmem_cache_init 0 32 s))))))"

text \<open>The first half of \<open>kmem_cache_alloc\<close>: the slab to serve from.\<close>

definition slab_to_use :: "nat \<Rightarrow> kmem \<Rightarrow> u64 option \<times> kmem" where
  "slab_to_use c s =
     (let create = (case slab_create c s of
                      (None, s') \<Rightarrow> (None, s')
                    | (Some a, s') \<Rightarrow> (Some a, partial_link c a s')) in
      case partial (caches s c) of
        [] \<Rightarrow> create
      | a # _ \<Rightarrow> (case slabs s a of
                   None \<Rightarrow> create
                 | Some h \<Rightarrow> if freelist h = [] then create else (Some a, s)))"

definition kmem_cache_alloc :: "nat \<Rightarrow> kmem \<Rightarrow> u64 option \<times> kmem" where
  "kmem_cache_alloc c s =
     (case slab_to_use c s of
        (None, s1) \<Rightarrow> (None, s1)
      | (Some a, s1) \<Rightarrow>
          (case slabs s1 a of
             None \<Rightarrow> (None, s1)
           | Some h \<Rightarrow>
               (case freelist h of
                  [] \<Rightarrow> (None, s1)
                | obj # rest \<Rightarrow>
                    let s2 = s1\<lparr>slabs := (slabs s1)(a \<mapsto>
                               h\<lparr>freelist := rest, inuse := (inuse h + 1) mod 2 ^ 32\<rparr>)\<rparr> in
                    (Some obj, if rest = [] then partial_unlink c a s2 else s2))))"

definition kmalloc :: "u64 \<Rightarrow> kmem \<Rightarrow> u64 option \<times> kmem" where
  "kmalloc size0 s =
     (let sz = (if size0 = 0 then 1 else size0) in
      case cache_for_size sz of
        Some c \<Rightarrow> kmem_cache_alloc c s
      | None \<Rightarrow> alloc_large sz s)"

definition kmem_cache_free :: "nat \<Rightarrow> u64 \<Rightarrow> kmem \<Rightarrow> kmem" where
  "kmem_cache_free c obj s =
     (if obj = 0 then s
      else
        let a = slab_from_object obj in
        case slabs s a of
          None \<Rightarrow> s
        | Some h \<Rightarrow>
            if cache h \<noteq> Some c then s
            else
              let n = (inuse h - 1) mod 2 ^ 32;
                  s1 = s\<lparr>slabs := (slabs s)(a \<mapsto> h\<lparr>freelist := obj # freelist h, inuse := n\<rparr>)\<rparr> in
              if n = 0 then slab_destroy c a s1
              else if n = (int (objects h) - 1) mod 2 ^ 32 then partial_link c a s1
              else s1)"

definition kfree :: "u64 \<Rightarrow> kmem \<Rightarrow> kmem" where
  "kfree obj s =
     (if obj = 0 then s
      else
        case slabs s (slab_from_object obj) of
          None \<Rightarrow> s
        | Some h \<Rightarrow>
            (case cache h of None \<Rightarrow> free_large obj s | Some c \<Rightarrow> kmem_cache_free c obj s))"

subsection \<open>The invariant\<close>

text \<open>The object sizes of the eight caches of the kernel, and the slots of a slab.\<close>

definition csize :: "nat \<Rightarrow> nat" where
  "csize c = [32, 64, 128, 256, 512, 1024, 2048, 32] ! c"

definition slots :: "u64 \<Rightarrow> nat \<Rightarrow> u64 list" where
  "slots a c = map (slot a (csize c)) [0..<slab_objects_per_page (csize c)]"

definition slab_order :: "slab \<Rightarrow> nat" where
  "slab_order h = (case cache h of None \<Rightarrow> objects h | Some _ \<Rightarrow> 0)"

definition slab_ok :: "u64 \<Rightarrow> slab \<Rightarrow> bool" where
  "slab_ok a h \<longleftrightarrow> (case cache h of
       None \<Rightarrow> freelist h = [] \<and> inuse h = 1
     | Some c \<Rightarrow> c < 8 \<and> distinct (freelist h) \<and> set (freelist h) \<subseteq> set (slots a c) \<and>
         objects h = slab_objects_per_page (csize c) \<and> 0 < inuse h \<and>
         inuse h + int (length (freelist h)) = int (objects h))"

definition slabs_ok :: "buddy \<Rightarrow> (u64 \<rightharpoonup> slab) \<Rightarrow> bool" where
  "slabs_ok p m \<longleftrightarrow>
     (\<forall>a h. m a = Some h \<longrightarrow> slab_ok a h \<and> block_valid p (slab_order h) a) \<and>
     (\<forall>a h b g. m a = Some h \<longrightarrow> m b = Some g \<longrightarrow> a \<noteq> b \<longrightarrow>
        block_extent (slab_order h) a \<inter> block_extent (slab_order g) b = {})"

definition partial_ok :: "(u64 \<rightharpoonup> slab) \<Rightarrow> nat \<Rightarrow> kmem_cache \<Rightarrow> bool" where
  "partial_ok m c k \<longleftrightarrow> object_size k = csize c \<and> distinct (partial k) \<and>
     (\<forall>a. a \<in> set (partial k) \<longleftrightarrow> (\<exists>h. m a = Some h \<and> cache h = Some c \<and> freelist h \<noteq> []))"

definition slub_inv :: "kmem \<Rightarrow> bool" where
  "slub_inv s \<longleftrightarrow> page_inv (pg s) \<and> slabs_ok (pg s) (slabs s) \<and>
     (\<forall>c<8. partial_ok (slabs s) c (caches s c))"

end
