(* ===== verification/Slub_Correct.thy ===== *)
theory Slub_Correct
  imports Slub
begin

text \<open>
  Correctness of the slab allocator: the layout of the slots in a slab page, preservation of
  the invariant by every operation, and the interpretation of the allocator contract for
  \<open>kmalloc\<close>/\<open>kfree\<close> and the dedicated caches together, on top of the page allocator.
\<close>

subsection \<open>The layout of a slab\<close>

lemma less_8: "c < 8 \<Longrightarrow> c = 0 \<or> c = 1 \<or> c = 2 \<or> c = 3 \<or> c = 4 \<or> c = 5 \<or> c = 6 \<or> c = (7::nat)"
  by linarith

lemma layout_values:
  "map csize [0..<8] = [32, 64, 128, 256, 512, 1024, 2048, 32]"
  "map (slab_object_offset \<circ> csize) [0..<8] = [64, 64, 128, 256, 512, 1024, 2048, 64]"
  "map (slab_objects_per_page \<circ> csize) [0..<8] = [126, 63, 31, 15, 7, 3, 1, 126]"
  by (simp_all add: csize_def slab_objects_per_page_def slab_object_offset_def upt_rec)

lemma layout:
  assumes "c < 8"
  shows "40 \<le> slab_object_offset (csize c)" "32 \<le> csize c" "csize c \<le> 2048"
    "0 < slab_objects_per_page (csize c)" "slab_objects_per_page (csize c) < 4096"
    "slab_object_offset (csize c) + slab_objects_per_page (csize c) * csize c \<le> 4096"
    "8 dvd slab_object_offset (csize c)" "8 dvd csize c"
proof -
  have v: "csize c = [32, 64, 128, 256, 512, 1024, 2048, 32] ! c"
    "slab_object_offset (csize c) = [64, 64, 128, 256, 512, 1024, 2048, 64] ! c"
    "slab_objects_per_page (csize c) = [126, 63, 31, 15, 7, 3, 1, 126] ! c"
    using layout_values [THEN arg_cong, of "\<lambda>l. l ! c"] assms by simp_all
  show "40 \<le> slab_object_offset (csize c)" "32 \<le> csize c" "csize c \<le> 2048"
    "0 < slab_objects_per_page (csize c)" "slab_objects_per_page (csize c) < 4096"
    "slab_object_offset (csize c) + slab_objects_per_page (csize c) * csize c \<le> 4096"
    "8 dvd slab_object_offset (csize c)" "8 dvd csize c"
    unfolding v(2,3) unfolding v(1) using less_8 [OF assms] by auto
qed

definition page_addr :: "u64 \<Rightarrow> bool" where
  "page_addr a \<longleftrightarrow> a \<noteq> 0 \<and> 4096 dvd unat a \<and> unat a + 4096 < 2 ^ 64"

lemma block_valid_addr:
  assumes "page_inv p" and "block_valid p k a"
  shows "page_addr a" "unat a + 4096 * 2 ^ k < 2 ^ 64"
proof -
  from assms obtain q where q: "a = pfn_to_addr p q" "block_ok p q k" "pool_ok p"
    by (auto simp: block_valid_def page_inv_def)
  have le: "q + 2 ^ k \<le> pool_pages p" using q(2) by (simp add: block_ok_def)
  have u: "unat a = unat (mem_start p) + 4096 * q" "a \<noteq> 0"
    using q block_ok_less [OF q(2)] by (simp_all add: unat_pfn_to_addr pfn_to_addr_nonzero)
  show big: "unat a + 4096 * 2 ^ k < 2 ^ 64" using u le q(3) by (simp add: pool_ok_def)
  have "(1::nat) \<le> 2 ^ k" by simp
  then have "unat a + 4096 < 2 ^ 64" using big by linarith
  then show "page_addr a" using u q(3) by (simp add: page_addr_def pool_ok_def)
qed

lemma slot_bounds:
  assumes "c < 8" and "i < slab_objects_per_page (csize c)"
  shows "slab_object_offset (csize c) + i * csize c + csize c \<le> 4096"
proof -
  have "Suc i * csize c \<le> slab_objects_per_page (csize c) * csize c"
    using assms(2) by (intro mult_le_mono1) simp
  then show ?thesis using layout(6) [OF assms(1)] by simp
qed

lemma unat_slot:
  assumes a: "page_addr a" and c: "c < 8" and i: "i < slab_objects_per_page (csize c)"
  shows "unat (slot a (csize c) i) = unat a + slab_object_offset (csize c) + i * csize c"
proof -
  let ?o = "slab_object_offset (csize c)"
  have "slot a (csize c) i = of_nat (unat a + ?o + i * csize c)" by (simp add: slot_def)
  moreover have "unat a + ?o + i * csize c < 2 ^ 64"
    using slot_bounds [OF c i] a by (simp add: page_addr_def)
  ultimately show ?thesis by (simp only: unat_of_nat_less)
qed

lemma mem_slots:
  "x \<in> set (slots a c) \<longleftrightarrow> (\<exists>i < slab_objects_per_page (csize c). x = slot a (csize c) i)"
  by (auto simp: slots_def)

lemma slots_in_page:
  assumes "page_addr a" and "c < 8" and "x \<in> set (slots a c)"
  shows "unat a + 40 \<le> unat x" "unat x + csize c \<le> unat a + 4096" "slab_from_object x = a" "x \<noteq> 0"
    "8 dvd unat x"
proof -
  from assms(3) obtain i where i: "i < slab_objects_per_page (csize c)" "x = slot a (csize c) i"
    by (auto simp: mem_slots)
  note u = unat_slot [OF assms(1,2) i(1), folded i(2)] and b = slot_bounds [OF assms(2) i(1)]
    and l = layout [OF assms(2)]
  show "unat a + 40 \<le> unat x" and e: "unat x + csize c \<le> unat a + 4096" using u b l(1) by simp_all
  then show "x \<noteq> 0" by auto
  obtain q where q: "unat a = 4096 * q" using assms(1) by (auto simp: page_addr_def)
  have "unat x div 4096 = q" using u e l(1,2) q by (intro div_nat_eqI) auto
  then have "unat (page_align_down x) = unat a" by (simp add: unat_page_align_down q)
  then show "slab_from_object x = a" by (simp add: slab_from_object_def word_unat_eq_iff)
  show "8 dvd unat x" unfolding u q using l(7,8) by (intro dvd_add dvd_mult dvd_mult2) auto
qed

lemma distinct_slots:
  assumes "page_addr a" and "c < 8"
  shows "distinct (slots a c)"
proof -
  have "i = j" if "i < slab_objects_per_page (csize c)" "j < slab_objects_per_page (csize c)"
    "slot a (csize c) i = slot a (csize c) j" for i j
  proof -
    have "i * csize c = j * csize c"
      using unat_slot [OF assms that(1)] unat_slot [OF assms that(2)] unfolding that(3) by linarith
    then show ?thesis using layout(2) [OF assms(2)] by (simp only: mult_cancel2) simp
  qed
  then show ?thesis unfolding slots_def by (auto simp: distinct_map inj_on_def)
qed

lemma slots_disjoint:
  assumes "page_addr a" and "c < 8" and "x \<in> set (slots a c)" "y \<in> set (slots a c)" "x \<noteq> y"
  shows "{unat x ..< unat x + csize c} \<inter> {unat y ..< unat y + csize c} = {}"
proof -
  from assms(3,4) obtain i j where i: "i < slab_objects_per_page (csize c)" "x = slot a (csize c) i"
    and j: "j < slab_objects_per_page (csize c)" "y = slot a (csize c) j" by (auto simp: mem_slots)
  have "i < j \<or> j < i" using i j assms(5) by (metis nat_neq_iff)
  then have "Suc i * csize c \<le> j * csize c \<or> Suc j * csize c \<le> i * csize c"
    by (metis Suc_leI mult_le_mono1)
  then show ?thesis
    using unat_slot [OF assms(1,2) i(1)] unat_slot [OF assms(1,2) j(1)] unfolding i(2) j(2) by auto
qed

lemma slot_fold: "fold (\<lambda>i fl. f i # fl) xs ys = rev (map f xs) @ ys"
  by (induction xs arbitrary: ys) auto

subsection \<open>Updating one slab\<close>

lemma slabs_ok_put:
  assumes ok: "slabs_ok p m"
    and others: "\<And>b g. b \<noteq> a \<Longrightarrow> m b = Some g \<Longrightarrow> block_valid p' (slab_order g) b \<and>
        block_extent (slab_order h) a \<inter> block_extent (slab_order g) b = {}"
    and new: "slab_ok a h" "block_valid p' (slab_order h) a"
  shows "slabs_ok p' (m(a \<mapsto> h))"
  using ok others new unfolding slabs_ok_def by (auto split: if_splits)

lemma slabs_ok_drop:
  assumes "slabs_ok p m"
    and "\<And>b g. b \<noteq> a \<Longrightarrow> m b = Some g \<Longrightarrow> block_valid p' (slab_order g) b"
  shows "slabs_ok p' (m(a := None))"
  using assms unfolding slabs_ok_def by (auto split: if_splits)

lemma partial_ok_other:
  assumes "partial_ok m d k" and "\<forall>h. h' = Some h \<longrightarrow> cache h \<noteq> Some d"
    and "\<forall>h. m a = Some h \<longrightarrow> cache h \<noteq> Some d"
  shows "partial_ok (m(a := h')) d k"
  using assms unfolding partial_ok_def by auto

lemma partial_ok_same:
  assumes "partial_ok m c k" and "distinct P" and "set P - {a} = set (partial k) - {a}"
    and "a \<in> set P \<longleftrightarrow> (\<exists>h. h' = Some h \<and> cache h = Some c \<and> freelist h \<noteq> [])"
  shows "partial_ok (m(a := h')) c (k\<lparr>partial := P\<rparr>)"
proof -
  have "b \<in> set P \<longleftrightarrow> b \<in> set (partial k)" if "b \<noteq> a" for b
    using assms(3) that by blast
  then show ?thesis using assms(1,2,4) unfolding partial_ok_def by auto
qed

text \<open>The state after one slab \<open>a\<close> of cache \<open>c\<close> got the header \<open>h'\<close> (or lost it).\<close>

definition updated :: "nat \<Rightarrow> u64 \<Rightarrow> slab option \<Rightarrow> buddy \<Rightarrow> u64 list \<Rightarrow> kmem \<Rightarrow> kmem" where
  "updated c a h' p P s =
     s\<lparr>pg := p, slabs := (slabs s)(a := h'), caches := (caches s)(c := (caches s c)\<lparr>partial := P\<rparr>)\<rparr>"

lemma updated_simps [simp]:
  "pg (updated c a h' p P s) = p"
  "slabs (updated c a h' p P s) = (slabs s)(a := h')"
  "caches (updated c a h' p P s) = (caches s)(c := (caches s c)\<lparr>partial := P\<rparr>)"
  by (simp_all add: updated_def)

lemma slub_inv_updated:
  assumes inv: "slub_inv s" and p: "page_inv p" and ok: "slabs_ok p ((slabs s)(a := h'))"
    and P: "distinct P" "set P - {a} = set (partial (caches s c)) - {a}"
      "a \<in> set P \<longleftrightarrow> (\<exists>h. h' = Some h \<and> freelist h \<noteq> [])"
    and c: "\<forall>h. h' = Some h \<longrightarrow> cache h = Some c" "\<forall>h. slabs s a = Some h \<longrightarrow> cache h = Some c"
  shows "slub_inv (updated c a h' p P s)"
proof -
  have "partial_ok ((slabs s)(a := h')) d (((caches s)(c := (caches s c)\<lparr>partial := P\<rparr>)) d)" if "d < 8" for d
  proof (cases "d = c")
    case True
    have "a \<in> set P \<longleftrightarrow> (\<exists>h. h' = Some h \<and> cache h = Some c \<and> freelist h \<noteq> [])"
      using P(3) c(1) by auto
    then show ?thesis
      using True that inv partial_ok_same [OF _ P(1,2)] by (simp add: slub_inv_def)
  next
    case False
    then show ?thesis
      using that inv c by (auto simp: slub_inv_def intro!: partial_ok_other)
  qed
  then show ?thesis using p ok by (simp add: slub_inv_def)
qed

lemma slub_invD:
  assumes "slub_inv s"
  shows "page_inv (pg s)" "slabs_ok (pg s) (slabs s)" "c < 8 \<Longrightarrow> partial_ok (slabs s) c (caches s c)"
  using assms by (simp_all add: slub_inv_def)

lemma slabs_okD:
  assumes "slabs_ok p m" and "m a = Some h"
  shows "slab_ok a h" "block_valid p (slab_order h) a"
    "m b = Some g \<Longrightarrow> a \<noteq> b \<Longrightarrow> block_extent (slab_order h) a \<inter> block_extent (slab_order g) b = {}"
  using assms by (auto simp: slabs_ok_def)

lemma slab_okD:
  assumes "slab_ok a h" and "cache h = Some c"
  shows "c < 8" "distinct (freelist h)" "set (freelist h) \<subseteq> set (slots a c)"
    "objects h = slab_objects_per_page (csize c)" "0 < inuse h"
    "inuse h + int (length (freelist h)) = int (objects h)"
  using assms by (auto simp: slab_ok_def)

subsection \<open>Taking an object\<close>

lemma fresh_slab:
  assumes inv: "slub_inv s" and a: "alloc_pages (int k) (pg s) = (Some a, p)"
  shows "page_inv p" "block_valid p k a" "page_addr a" "slabs s a = None"
    "\<And>b g. slabs s b = Some g \<Longrightarrow> block_valid p (slab_order g) b \<and>
        block_extent k a \<inter> block_extent (slab_order g) b = {}"
proof -
  note d = slub_invD [OF inv]
  show p: "page_inv p" "block_valid p k a" using alloc_block_valid [OF d(1) a] by auto
  then show "page_addr a" by (rule block_valid_addr)
  show o: "block_valid p (slab_order g) b \<and> block_extent k a \<inter> block_extent (slab_order g) b = {}"
    if "slabs s b = Some g" for b g
    using alloc_block_fresh [OF d(1) a] slabs_okD(2) [OF d(2) that] by blast
  have "unat a \<in> block_extent j a" for j by (simp add: block_extent_def)
  then show "slabs s a = None" using o by (cases "slabs s a") blast+
qed

text \<open>Both ways \<open>kmem_cache_alloc\<close> finds a slab end in the same update.\<close>

lemma kmem_cache_alloc_cases:
  assumes inv: "slub_inv s" and c: "c < 8"
  obtains (none) p where "alloc_pages 0 (pg s) = (None, p)" "kmem_cache_alloc c s = (None, s)"
      "partial (caches s c) = []"
    | (old) a ps h obj rest where "partial (caches s c) = a # ps" "slabs s a = Some h"
      "cache h = Some c" "freelist h = obj # rest"
      "kmem_cache_alloc c s = (Some obj, updated c a (Some (h\<lparr>freelist := rest, inuse := inuse h + 1\<rparr>))
         (pg s) (if rest = [] then ps else a # ps) s)"
    | (new) a p obj rest where "partial (caches s c) = []" "alloc_pages 0 (pg s) = (Some a, p)"
      "rev (slots a c) = obj # rest"
      "kmem_cache_alloc c s = (Some obj, updated c a (Some \<lparr>cache = Some c, freelist = rest, inuse = 1,
         objects = slab_objects_per_page (csize c)\<rparr>) p (if rest = [] then [] else [a]) s)"
proof (cases "partial (caches s c)")
  case (Cons a ps)
  note pk = slub_invD(3) [OF inv c]
  from pk Cons obtain h obj rest where h: "slabs s a = Some h" "cache h = Some c" "freelist h = obj # rest"
    unfolding partial_ok_def by (metis list.set_intros(1) neq_Nil_conv)
  note sd = slab_okD [OF slabs_okD(1) [OF slub_invD(2) [OF inv] h(1)] h(2)]
  have "slab_objects_per_page (csize c) < 4096" using c by (rule layout)
  then have m: "(inuse h + 1) mod 2 ^ 32 = inuse h + 1"
    using sd(4-6) h(3) by (intro mod_pos_pos_trivial) auto
  have "slab_to_use c s = (Some a, s)" using Cons h by (simp add: slab_to_use_def)
  then have "kmem_cache_alloc c s = (Some obj, updated c a (Some (h\<lparr>freelist := rest, inuse := inuse h + 1\<rparr>))
         (pg s) (if rest = [] then ps else a # ps) s)"
    using Cons h m by (auto simp: kmem_cache_alloc_def updated_def partial_unlink_def
        intro!: kmem.equality slab.equality)
  then show ?thesis using old [OF Cons h] by blast
next
  case Nil
  note pk = slub_invD(3) [OF inv c]
  have sz: "object_size (caches s c) = csize c" using pk by (simp add: partial_ok_def)
  obtain r p where a: "alloc_pages 0 (pg s) = (r, p)" by (cases "alloc_pages 0 (pg s)")
  show ?thesis
  proof (cases r)
    case None
    then have "p = pg s" using alloc_block_none [OF slub_invD(1) [OF inv], of 0 p] a by simp
    then have "kmem_cache_alloc c s = (None, s)"
      using a None Nil by (simp add: kmem_cache_alloc_def slab_to_use_def slab_create_def)
    then show ?thesis using none a None Nil by blast
  next
    case (Some x)
    have n: "slab_objects_per_page (csize c) \<noteq> 0" using layout(4) [OF c] by simp
    then obtain obj rest where o: "rev (slots x c) = obj # rest"
      by (metis (no_types) length_map length_rev length_upt list.size(3) minus_nat.diff_0 neq_Nil_conv slots_def)
    have "fold (\<lambda>i fl. slot x (csize c) i # fl) [0..<slab_objects_per_page (csize c)] [] = obj # rest"
      using o by (simp add: slot_fold slots_def)
    then have "kmem_cache_alloc c s = (Some obj, updated c x (Some \<lparr>cache = Some c, freelist = rest, inuse = 1,
         objects = slab_objects_per_page (csize c)\<rparr>) p (if rest = [] then [] else [x]) s)"
      using a Some Nil n sz by (simp add: kmem_cache_alloc_def slab_to_use_def slab_create_def Let_def
          partial_link_def partial_unlink_def updated_def)
    then show ?thesis using new [OF Nil _ o] a Some by blast
  qed
qed

subsection \<open>Objects held by clients\<close>

datatype kreq = Kmalloc u64 | Cache nat

fun rlen :: "kreq \<Rightarrow> nat" where
  "rlen (Kmalloc n) = max 1 (unat n)"
| "rlen (Cache c) = csize c"

fun kalloc :: "kreq \<Rightarrow> kmem \<Rightarrow> u64 option \<times> kmem" where
  "kalloc (Kmalloc n) = kmalloc n"
| "kalloc (Cache c) = kmem_cache_alloc c"

fun krelease :: "kreq \<Rightarrow> u64 \<Rightarrow> kmem \<Rightarrow> kmem" where
  "krelease (Kmalloc n) = kfree"
| "krelease (Cache c) = kmem_cache_free c"

text \<open>
  Requests that do not overflow \<open>size + sizeof(struct slab)\<close> and fit the largest order; the
  caches are those the kernel has.
\<close>

fun kreq_ok :: "kreq \<Rightarrow> bool" where
  "kreq_ok (Kmalloc n) \<longleftrightarrow> unat n + 40 \<le> 2 ^ 27"
| "kreq_ok (Cache c) \<longleftrightarrow> c < 8"

definition object_in :: "u64 \<Rightarrow> slab \<Rightarrow> kreq \<Rightarrow> u64 \<Rightarrow> bool" where
  "object_in b h r x \<longleftrightarrow> (case cache h of
       None \<Rightarrow> x = b + 40 \<and> rlen r + 40 \<le> 4096 * 2 ^ objects h \<and> (\<forall>d. r \<noteq> Cache d)
     | Some c \<Rightarrow> x \<in> set (slots b c) \<and> x \<notin> set (freelist h) \<and> rlen r \<le> csize c \<and>
         (\<forall>d. r = Cache d \<longrightarrow> d = c))"

definition kvalid :: "kmem \<Rightarrow> kreq \<Rightarrow> u64 \<Rightarrow> bool" where
  "kvalid s r x \<longleftrightarrow> (\<exists>b h. slabs s b = Some h \<and> object_in b h r x)"

definition kextent :: "kreq \<Rightarrow> u64 \<Rightarrow> nat set" where
  "kextent r x = {unat x ..< unat x + rlen r}"

lemma rlen_pos: "kreq_ok r \<Longrightarrow> 0 < rlen r"
  using layout(2) by (cases r) fastforce+

lemma object_extent_large:
  assumes b: "page_addr b" and c: "cache h = None" and o: "object_in b h r x"
  shows "kextent r x \<subseteq> block_extent (slab_order h) b \<and> slab_from_object x = b \<and> x \<noteq> 0 \<and> 8 dvd unat x"
proof -
  have x: "x = b + 40" "rlen r + 40 \<le> 4096 * 2 ^ objects h" using o c by (auto simp: object_in_def)
  have u: "unat x = unat b + 40"
    unfolding x(1) using b by (subst unat_add_lem [THEN iffD1]) (auto simp: page_addr_def)
  obtain q where q: "unat b = 4096 * q" using b by (auto simp: page_addr_def)
  have "unat (page_align_down x) = unat b" unfolding unat_page_align_down u q by simp
  then have "slab_from_object x = b" by (simp add: slab_from_object_def word_unat_eq_iff)
  moreover have "x \<noteq> 0" using u by auto
  moreover have "8 dvd unat x" unfolding u q by (intro dvd_add dvd_mult2) auto
  moreover have "kextent r x \<subseteq> block_extent (slab_order h) b"
    using u x(2) c by (auto simp: kextent_def block_extent_def slab_order_def)
  ultimately show ?thesis by blast
qed

lemma object_extent:
  assumes b: "page_addr b" and ok: "slab_ok b h" and o: "object_in b h r x"
  shows "kextent r x \<subseteq> block_extent (slab_order h) b \<and> slab_from_object x = b \<and> x \<noteq> 0 \<and> 8 dvd unat x"
proof (cases "cache h")
  case None
  then show ?thesis using object_extent_large [OF b _ o] by blast
next
  case (Some c)
  have x: "x \<in> set (slots b c)" "rlen r \<le> csize c" using o Some by (auto simp: object_in_def)
  note s = slots_in_page [OF b slab_okD(1) [OF ok Some] x(1)]
  have "kextent r x \<subseteq> block_extent (slab_order h) b"
    using s(1,2) x(2) Some by (auto simp: kextent_def block_extent_def slab_order_def)
  then show ?thesis using s(3-5) by blast
qed

lemma kvalidE:
  assumes inv: "slub_inv s" and v: "kvalid s r x"
  obtains b h where "slabs s b = Some h" "object_in b h r x" "slab_ok b h"
    "block_valid (pg s) (slab_order h) b" "page_addr b" "slab_from_object x = b" "x \<noteq> 0" "8 dvd unat x"
    "kextent r x \<subseteq> block_extent (slab_order h) b"
proof -
  from v obtain b h where b: "slabs s b = Some h" "object_in b h r x" by (auto simp: kvalid_def)
  note d = slub_invD [OF inv] and sd = slabs_okD [OF slub_invD(2) [OF inv] b(1)]
  show ?thesis
    using that [OF b sd(1,2)] block_valid_addr(1) [OF d(1) sd(2)]
      object_extent [OF block_valid_addr(1) [OF d(1) sd(2)] sd(1) b(2)] by blast
qed

text \<open>Two objects of one slab are disjoint, unless they are the same.\<close>

lemma objects_disjoint:
  assumes "page_addr b" "slab_ok b h" "object_in b h r x" "object_in b h q y" "x \<noteq> y"
  shows "kextent r x \<inter> kextent q y = {}"
proof (cases "cache h")
  case None
  then show ?thesis using assms by (auto simp: object_in_def)
next
  case (Some c)
  then have x: "x \<in> set (slots b c)" "rlen r \<le> csize c" and y: "y \<in> set (slots b c)" "rlen q \<le> csize c"
    using assms by (auto simp: object_in_def)
  have "kextent r x \<subseteq> {unat x ..< unat x + csize c}" "kextent q y \<subseteq> {unat y ..< unat y + csize c}"
    using x(2) y(2) by (auto simp: kextent_def)
  then show ?thesis
    using slots_disjoint [OF assms(1) slab_okD(1) [OF assms(2) Some] x(1) y(1) assms(5)] by blast
qed

subsection \<open>Allocation is correct\<close>

text \<open>What an allocation must establish, in terms of the update of one slab.\<close>

definition allocates :: "kmem \<Rightarrow> kreq \<Rightarrow> u64 \<Rightarrow> kmem \<Rightarrow> bool" where
  "allocates s r x s' \<longleftrightarrow> slub_inv s' \<and> kvalid s' r x \<and>
     (\<forall>q y. kvalid s q y \<longrightarrow> kvalid s' q y \<and> kextent r x \<inter> kextent q y = {})"

lemma object_in_take:
  assumes "object_in b h q y" and "cache h = Some c" and "freelist h = x # rest"
  shows "object_in b (h\<lparr>freelist := rest, inuse := n\<rparr>) q y" "y \<noteq> x"
  using assms by (auto simp: object_in_def)

lemma allocates_updated:
  assumes inv: "slub_inv s" and s': "s' = updated c b (Some h') p P s" and inv': "slub_inv s'"
    and obj: "object_in b h' r x"
    and same: "\<And>h q y. slabs s b = Some h \<Longrightarrow> object_in b h q y \<Longrightarrow> object_in b h' q y \<and> y \<noteq> x"
  shows "allocates s r x s'"
proof -
  have b: "slabs s' b = Some h'" by (simp add: s')
  note sd = slabs_okD [OF slub_invD(2) [OF inv'] b]
  have pa: "page_addr b" using block_valid_addr [OF slub_invD(1) [OF inv'] sd(2)] by blast
  have ext: "kextent r x \<subseteq> block_extent (slab_order h') b" using object_extent [OF pa sd(1) obj] by blast
  have "kvalid s' q y \<and> kextent r x \<inter> kextent q y = {}" if y: "kvalid s q y" for q y
    using inv y
  proof (rule kvalidE)
    fix b1 h1
    assume b1: "slabs s b1 = Some h1" "object_in b1 h1 q y" "kextent q y \<subseteq> block_extent (slab_order h1) b1"
    show ?thesis
    proof (cases "b1 = b")
      case True
      then have y: "object_in b h' q y" "y \<noteq> x" using same b1 by auto
      then show ?thesis using objects_disjoint [OF pa sd(1) obj y(1)] b by (auto simp: kvalid_def)
    next
      case False
      then have "slabs s' b1 = Some h1" using b1(1) by (simp add: s')
      then show ?thesis using sd(3) [of b1 h1] b1(2,3) ext False by (auto simp: kvalid_def)
    qed
  qed
  then show ?thesis using inv' b obj by (auto simp: allocates_def kvalid_def)
qed

lemma cache_alloc_old:
  assumes inv: "slub_inv s" and c: "c < 8" and ps: "partial (caches s c) = b # ps"
    and h: "slabs s b = Some h" "cache h = Some c" "freelist h = x # rest"
    and r: "rlen r \<le> csize c" "\<forall>d. r = Cache d \<longrightarrow> d = c"
  shows "allocates s r x (updated c b (Some (h\<lparr>freelist := rest, inuse := inuse h + 1\<rparr>)) (pg s)
     (if rest = [] then ps else b # ps) s)"
proof -
  note d = slub_invD [OF inv] and sd = slabs_okD [OF slub_invD(2) [OF inv] h(1)]
  let ?h = "h\<lparr>freelist := rest, inuse := inuse h + 1\<rparr>"
  have ok: "slab_ok b ?h" "slab_order ?h = slab_order h"
    using sd(1) h(2,3) by (auto simp: slab_ok_def slab_order_def)
  have "slabs_ok (pg s) ((slabs s)(b \<mapsto> ?h))"
    using d(2) h ok sd(2) slabs_okD(2,3) [OF d(2)] by (intro slabs_ok_put) auto
  moreover have dp: "distinct (b # ps)" using d(3) [OF c] ps by (simp add: partial_ok_def)
  ultimately have inv': "slub_inv (updated c b (Some ?h) (pg s) (if rest = [] then ps else b # ps) s)"
    using inv d(1) h ps by (intro slub_inv_updated) auto
  have "object_in b ?h r x"
    using h(2,3) slab_okD [OF sd(1) h(2)] r by (auto simp: object_in_def)
  then show ?thesis
    using h object_in_take by (intro allocates_updated [OF inv refl inv']) auto
qed

lemma cache_alloc_new:
  assumes inv: "slub_inv s" and c: "c < 8" and ps: "partial (caches s c) = []"
    and p: "alloc_pages 0 (pg s) = (Some b, p)" and slots: "rev (slots b c) = x # rest"
    and r: "rlen r \<le> csize c" "\<forall>d. r = Cache d \<longrightarrow> d = c"
  shows "allocates s r x (updated c b (Some \<lparr>cache = Some c, freelist = rest, inuse = 1,
      objects = slab_objects_per_page (csize c)\<rparr>) p (if rest = [] then [] else [b]) s)"
proof -
  let ?h = "\<lparr>cache = Some c, freelist = rest, inuse = 1, objects = slab_objects_per_page (csize c)\<rparr>"
  have "alloc_pages (int 0) (pg s) = (Some b, p)" using p by simp
  note f = fresh_slab [OF inv this]
  have ds: "distinct (x # rest)" "set (x # rest) = set (slots b c)"
    using distinct_slots [OF f(3) c] slots by (metis distinct_rev, metis set_rev)
  have len: "length (x # rest) = slab_objects_per_page (csize c)"
    unfolding slots [symmetric] by (simp add: slots_def)
  have h: "slab_ok b ?h" "slab_order ?h = 0" using ds len c by (auto simp: slab_ok_def slab_order_def)
  have "slabs_ok p ((slabs s)(b \<mapsto> ?h))"
    using slub_invD(2) [OF inv] f h by (intro slabs_ok_put) auto
  then have inv': "slub_inv (updated c b (Some ?h) p (if rest = [] then [] else [b]) s)"
    using inv ps f(1,4) by (intro slub_inv_updated) auto
  have "object_in b ?h r x" using ds r by (auto simp: object_in_def)
  then show ?thesis
    using f(4) by (intro allocates_updated [OF inv refl inv']) auto
qed

lemma cache_alloc_correct:
  assumes inv: "slub_inv s" and c: "c < 8" and a: "kmem_cache_alloc c s = (Some x, s')"
    and r: "rlen r \<le> csize c" "\<forall>d. r = Cache d \<longrightarrow> d = c"
  shows "allocates s r x s'"
  using inv c
proof (cases rule: kmem_cache_alloc_cases)
  case (old b ps h obj rest)
  then show ?thesis using cache_alloc_old [OF inv c old(1-4) r] a by simp
next
  case (new b p obj rest)
  then show ?thesis using cache_alloc_new [OF inv c new(1-3) r] a by simp
qed (use a in simp)

lemma large_order_fits:
  assumes "unat n + 40 \<le> 2 ^ 27" and "bytes = 2 ^ (12 + order)" and "order \<le> 15"
  shows "unat n + 40 \<le> 4096 * 2 ^ large_order bytes order n"
  using assms
proof (induction bytes order n rule: large_order.induct)
  case (1 bytes order n)
  have ub: "unat bytes = 4096 * 2 ^ order"
    unfolding "1.prems"(2) using "1.prems"(3) by (subst unat_pow2) (simp_all add: power_add)
  have un: "unat (n + 40) = unat n + 40"
    using "1.prems"(1) by (subst unat_add_lem [THEN iffD1]) auto
  show ?case
  proof (cases "bytes < n + of_nat sizeof_slab \<and> order < 15")
    case True
    have "push_bit 1 bytes = 2 ^ (12 + (order + 1))"
      unfolding "1.prems"(2) by (simp add: push_bit_eq_mult power_add)
    then have "unat n + 40 \<le> 4096 * 2 ^ large_order (push_bit 1 bytes) (order + 1) n"
      using "1.IH" [OF True "1.prems"(1)] True by simp
    then show ?thesis using True by (simp add: large_order.simps [of bytes order n])
  next
    case False
    then have eq: "large_order bytes order n = order"
      unfolding large_order.simps [of bytes order n] by (rule if_not_P)
    show ?thesis
    proof (cases "order = 15")
      case False
      then have "\<not> bytes < n + 40" using \<open>\<not> (bytes < n + of_nat sizeof_slab \<and> order < 15)\<close> "1.prems"(3) by auto
      then show ?thesis unfolding eq using ub un by (simp add: word_less_nat_alt)
    qed (use eq "1.prems"(1) in simp)
  qed
qed

lemma alloc_large_correct:
  assumes inv: "slub_inv s" and n: "unat n + 40 \<le> 2 ^ 27" and a: "alloc_large n s = (Some x, s')"
  shows "allocates s (Kmalloc n) x s'"
proof -
  define m where "m = (if n = 0 then 1 else n)"
  define k where "k = large_order 4096 0 m"
  have m: "unat m = max 1 (unat n)"
    unfolding m_def using unat_eq_zero [of n] by (cases "n = 0") (auto simp: max_def)
  have "unat m + 40 \<le> 2 ^ 27" using n m by simp
  then have fit: "max 1 (unat n) + 40 \<le> 4096 * 2 ^ k"
    unfolding k_def m [symmetric] by (intro large_order_fits) auto
  from a obtain b p where b: "alloc_pages (int k) (pg s) = (Some b, p)"
    unfolding alloc_large_def Let_def m_def [symmetric] k_def [symmetric]
    by (auto split: prod.splits option.splits)
  let ?h = "\<lparr>cache = None, freelist = [], inuse = 1, objects = k\<rparr>"
  have s': "s' = updated 0 b (Some ?h) p (partial (caches s 0)) s" and x: "x = b + 40"
    using a b unfolding alloc_large_def Let_def m_def [symmetric] k_def [symmetric]
    by (auto simp: updated_def intro!: kmem.equality)
  note d = slub_invD [OF inv] and f = fresh_slab [OF inv b]
  have h: "slab_ok b ?h" "slab_order ?h = k" by (auto simp: slab_ok_def slab_order_def)
  have "slabs_ok p ((slabs s)(b \<mapsto> ?h))" using d(2) f h by (intro slabs_ok_put) auto
  moreover have "partial_ok ((slabs s)(b \<mapsto> ?h)) c (caches s c)" if "c < 8" for c
    using d(3) [OF that] f(4) by (intro partial_ok_other) auto
  ultimately have inv': "slub_inv s'" unfolding s' slub_inv_def using f(1) by simp
  have "object_in b ?h (Kmalloc n) x" using fit x by (simp add: object_in_def)
  then show ?thesis using f(4) by (intro allocates_updated [OF inv s' inv']) auto
qed

lemma cache_for_size_fits:
  assumes "cache_for_size n = Some c"
  shows "c < 8" "unat n \<le> csize c"
  using assms by (auto simp: cache_for_size_def csize_def word_le_nat_alt split: if_splits)

lemma kalloc_correct:
  assumes inv: "slub_inv s" and r: "kreq_ok r" and a: "kalloc r s = (Some x, s')"
  shows "allocates s r x s'"
proof (cases r)
  case (Cache c)
  then have c: "c < 8" "kmem_cache_alloc c s = (Some x, s')" using r a by simp_all
  show ?thesis using Cache by (intro cache_alloc_correct [OF inv c]) simp_all
next
  case (Kmalloc n)
  define m where "m = (if n = 0 then 1 else n)"
  have m: "unat m = max 1 (unat n)"
    unfolding m_def using unat_eq_zero [of n] by (cases "n = 0") (auto simp: max_def)
  show ?thesis
  proof (cases "cache_for_size m")
    case None
    then have "n \<noteq> 0" by (auto simp: m_def cache_for_size_def)
    then have "alloc_large n s = (Some x, s')"
      using None a Kmalloc by (auto simp: kmalloc_def m_def)
    then show ?thesis using alloc_large_correct [OF inv, of n x s'] r Kmalloc by simp
  next
    case (Some c)
    then have c: "kmem_cache_alloc c s = (Some x, s')"
      using a Kmalloc by (simp add: kmalloc_def m_def [symmetric])
    note fits = cache_for_size_fits [OF Some]
    show ?thesis
      using fits(2) m Kmalloc by (intro cache_alloc_correct [OF inv fits(1) c]) simp_all
  qed
qed

lemma kmem_cache_alloc_none:
  assumes inv: "slub_inv s" and c: "c < 8" and a: "kmem_cache_alloc c s = (None, s')"
  shows "s' = s"
  using inv c by (cases rule: kmem_cache_alloc_cases) (use a in auto)

lemma alloc_large_none:
  assumes inv: "slub_inv s" and a: "alloc_large n s = (None, s')"
  shows "s' = s"
proof -
  define k where "k = large_order 4096 0 (if n = 0 then 1 else n)"
  obtain p where "alloc_pages (int k) (pg s) = (None, p)" "s' = s\<lparr>pg := p\<rparr>"
    using a unfolding alloc_large_def Let_def k_def [symmetric] by (auto split: prod.splits option.splits)
  then show ?thesis using alloc_block_none [OF slub_invD(1) [OF inv]] by auto
qed

lemma kalloc_none:
  assumes inv: "slub_inv s" and r: "kreq_ok r" and a: "kalloc r s = (None, s')"
  shows "s' = s"
proof (cases r)
  case (Kmalloc n)
  define m where "m = (if n = 0 then 1 else n)"
  show ?thesis
    using a Kmalloc cache_for_size_fits(1) [of m] kmem_cache_alloc_none [OF inv] alloc_large_none [OF inv]
    by (auto simp: kmalloc_def m_def [symmetric] split: option.splits)
qed (use kmem_cache_alloc_none [OF inv] r a in auto)

subsection \<open>Release is correct\<close>

text \<open>Every release of a held object goes through one of these two.\<close>

lemma krelease_eq:
  assumes inv: "slub_inv s" and b: "slabs s b = Some h" "object_in b h r x" "slab_from_object x = b" "x \<noteq> 0"
  shows "krelease r x s = (case cache h of None \<Rightarrow> free_large x s | Some c \<Rightarrow> kmem_cache_free c x s)"
  using b by (cases r) (auto simp: kfree_def object_in_def split: option.splits)

definition freed :: "nat \<Rightarrow> u64 \<Rightarrow> slab \<Rightarrow> u64 \<Rightarrow> kmem \<Rightarrow> kmem" where
  "freed c b h x s =
     (if inuse h = 1 then updated c b None (free_pages b 0 (pg s)) (remove1 b (partial (caches s c))) s
      else updated c b (Some (h\<lparr>freelist := x # freelist h, inuse := inuse h - 1\<rparr>)) (pg s)
             (if freelist h = [] then b # partial (caches s c) else partial (caches s c)) s)"

lemma kmem_cache_free_eq:
  assumes inv: "slub_inv s" and b: "slabs s b = Some h" "slab_from_object x = b" "x \<noteq> 0" "cache h = Some c"
  shows "kmem_cache_free c x s = freed c b h x s"
proof -
  note ok = slab_okD [OF slabs_okD(1) [OF slub_invD(2) [OF inv] b(1)] b(4)]
  have n: "slab_objects_per_page (csize c) < 4096" using ok(1) by (rule layout)
  have m: "(inuse h - 1) mod 4294967296 = inuse h - 1"
    "(int (objects h) - 1) mod 4294967296 = int (objects h) - 1"
    using ok(4-6) n by (intro mod_pos_pos_trivial; simp)+
  have full: "inuse h - 1 = int (objects h) - 1 \<longleftrightarrow> freelist h = []" using ok(6) by auto
  show ?thesis
    using b full by (auto simp: kmem_cache_free_def freed_def Let_def m
        slab_destroy_def partial_unlink_def partial_link_def updated_def intro!: kmem.equality)
qed

definition releases :: "kmem \<Rightarrow> kreq \<Rightarrow> u64 \<Rightarrow> kmem \<Rightarrow> bool" where
  "releases s r x s' \<longleftrightarrow> slub_inv s' \<and>
     (\<forall>q y. kvalid s q y \<longrightarrow> kextent r x \<inter> kextent q y = {} \<longrightarrow> kvalid s' q y)"

lemma kvalid_nonempty:
  assumes "slub_inv s" and "kvalid s r x"
  shows "unat x \<in> kextent r x"
  using assms
proof (rule kvalidE)
  fix b h
  assume h: "object_in b h r x" "slab_ok b h"
  have "0 < rlen r"
    using h layout(2) by (cases r) (fastforce simp: object_in_def slab_ok_def split: option.splits)+
  then show ?thesis by (simp add: kextent_def)
qed

lemma releases_updated:
  assumes inv: "slub_inv s" and x: "kvalid s r x" and s': "s' = updated c b h' p P s" and inv': "slub_inv s'"
    and same: "\<And>h q y. slabs s b = Some h \<Longrightarrow> object_in b h q y \<Longrightarrow> y \<noteq> x \<Longrightarrow>
        \<exists>h1. h' = Some h1 \<and> object_in b h1 q y"
  shows "releases s r x s'"
proof -
  have "kvalid s' q y" if y: "kvalid s q y" and dis: "kextent r x \<inter> kextent q y = {}" for q y
  proof -
    have "y \<noteq> x" using kvalid_nonempty [OF inv x] kvalid_nonempty [OF inv y] dis by blast
    moreover obtain b1 h1 where b1: "slabs s b1 = Some h1" "object_in b1 h1 q y"
      using y by (auto simp: kvalid_def)
    ultimately show ?thesis
      using same by (cases "b1 = b") (fastforce simp: kvalid_def s')+
  qed
  then show ?thesis using inv' by (simp add: releases_def)
qed

lemma slabs_ok_free:
  assumes inv: "slub_inv s" and b: "slabs s b = Some h"
  shows "page_inv (free_pages b (int (slab_order h)) (pg s))"
    "slabs_ok (free_pages b (int (slab_order h)) (pg s)) ((slabs s)(b := None))"
proof -
  note d = slub_invD [OF inv] and sd = slabs_okD [OF slub_invD(2) [OF inv] b]
  show "page_inv (free_pages b (int (slab_order h)) (pg s))" using free_pages_keeps(1) [OF d(1) sd(2)] .
  show "slabs_ok (free_pages b (int (slab_order h)) (pg s)) ((slabs s)(b := None))"
    using d(2)
  proof (rule slabs_ok_drop)
    fix b1 g assume g: "b1 \<noteq> b" "slabs s b1 = Some g"
    show "block_valid (free_pages b (int (slab_order h)) (pg s)) (slab_order g) b1"
      using free_pages_keeps(2) [OF d(1) sd(2) slabs_okD(2) [OF d(2) g(2)]] sd(3) [OF g(2)] g(1) by blast
  qed
qed

lemma last_object:
  assumes ok: "slab_ok b h" and c: "cache h = Some c" and b: "page_addr b" and one: "inuse h = 1"
    and x: "object_in b h r x" and y: "object_in b h q y"
  shows "y = x"
proof (rule ccontr)
  assume "y \<noteq> x"
  note d = slab_okD [OF ok c]
  have xy: "x \<in> set (slots b c)" "y \<in> set (slots b c)" "x \<notin> set (freelist h)" "y \<notin> set (freelist h)"
    using x y c by (auto simp: object_in_def)
  then have "insert x (insert y (set (freelist h))) \<subseteq> set (slots b c)" using d(3) by auto
  then have "card (insert x (insert y (set (freelist h)))) \<le> card (set (slots b c))"
    by (intro card_mono) auto
  moreover have "card (set (freelist h)) = length (freelist h)" using d(2) by (rule distinct_card)
  moreover have "card (set (slots b c)) \<le> slab_objects_per_page (csize c)"
    using card_length [of "slots b c"] by (simp add: slots_def)
  ultimately show False using xy \<open>y \<noteq> x\<close> d(4,6) one by simp
qed

lemma freed_correct:
  assumes inv: "slub_inv s" and b: "slabs s b = Some h" "cache h = Some c" and x: "object_in b h r x"
  shows "releases s r x (freed c b h x s)"
proof -
  note d = slub_invD [OF inv] and sd = slabs_okD [OF slub_invD(2) [OF inv] b(1)]
  note ok = slab_okD [OF sd(1) b(2)] and pa = block_valid_addr(1) [OF d(1) sd(2)]
  have v: "kvalid s r x" using b x by (auto simp: kvalid_def)
  have pk: "distinct (partial (caches s c))" "b \<in> set (partial (caches s c)) \<longleftrightarrow> freelist h \<noteq> []"
    using d(3) [OF ok(1)] b by (auto simp: partial_ok_def)
  show ?thesis
  proof (cases "inuse h = 1")
    case True
    then have f: "freed c b h x s =
        updated c b None (free_pages b 0 (pg s)) (remove1 b (partial (caches s c))) s"
      by (simp add: freed_def)
    have "slub_inv (freed c b h x s)"
      unfolding f using slabs_ok_free [OF inv b(1)] b pk(1) inv
      by (intro slub_inv_updated) (auto simp: slab_order_def)
    then show ?thesis
      using last_object [OF sd(1) b(2) pa True x] b(1) by (intro releases_updated [OF inv v f]) auto
  next
    case False
    let ?h = "h\<lparr>freelist := x # freelist h, inuse := inuse h - 1\<rparr>"
    from False have f: "freed c b h x s = updated c b (Some ?h) (pg s)
        (if freelist h = [] then b # partial (caches s c) else partial (caches s c)) s"
      by (simp add: freed_def)
    have h: "slab_ok b ?h" "slab_order ?h = slab_order h"
      using x b(2) ok False by (auto simp: slab_ok_def slab_order_def object_in_def)
    have "slabs_ok (pg s) ((slabs s)(b \<mapsto> ?h))"
      using d(2) b(1) h sd(2) slabs_okD(2,3) [OF d(2)] by (intro slabs_ok_put) auto
    then have "slub_inv (freed c b h x s)"
      unfolding f using inv d(1) b pk by (intro slub_inv_updated) auto
    then show ?thesis
      using b by (intro releases_updated [OF inv v f]) (auto simp: object_in_def)
  qed
qed

lemma free_large_correct:
  assumes inv: "slub_inv s" and b: "slabs s b = Some h" "cache h = None" and x: "object_in b h r x"
    and fo: "slab_from_object x = b"
  shows "releases s r x (free_large x s)"
proof -
  have v: "kvalid s r x" using b x by (auto simp: kvalid_def)
  have eq: "free_large x s =
      updated 0 b None (free_pages b (int (slab_order h)) (pg s)) (partial (caches s 0)) s"
    using b fo by (auto simp: free_large_def updated_def slab_order_def intro!: kmem.equality)
  have "partial_ok ((slabs s)(b := None)) c (caches s c)" if "c < 8" for c
    using slub_invD(3) [OF inv that] b by (intro partial_ok_other) auto
  then have "slub_inv (free_large x s)"
    unfolding eq slub_inv_def using slabs_ok_free [OF inv b(1)] by simp
  then show ?thesis
    using b x by (intro releases_updated [OF inv v eq]) (auto simp: object_in_def)
qed

lemma krelease_correct:
  assumes inv: "slub_inv s" and v: "kvalid s r x"
  shows "releases s r x (krelease r x s)"
  using inv v
proof (rule kvalidE)
  fix b h
  assume b: "slabs s b = Some h" "object_in b h r x" "slab_from_object x = b" "x \<noteq> 0"
  show ?thesis
  proof (cases "cache h")
    case None
    then show ?thesis using krelease_eq [OF inv b] free_large_correct [OF inv b(1) None b(2,3)] by simp
  next
    case (Some c)
    then show ?thesis
      using krelease_eq [OF inv b] kmem_cache_free_eq [OF inv b(1,3,4) Some] freed_correct [OF inv b(1) Some b(2)]
      by simp
  qed
qed

lemma kvalid_disjoint:
  assumes inv: "slub_inv s" and x: "kvalid s r x" and y: "kvalid s q y" and ne: "x \<noteq> y"
  shows "kextent r x \<inter> kextent q y = {}"
  using inv x
proof (rule kvalidE)
  fix b h
  assume b: "slabs s b = Some h" "object_in b h r x" "slab_ok b h" "page_addr b"
    "kextent r x \<subseteq> block_extent (slab_order h) b"
  from inv y show ?thesis
  proof (rule kvalidE)
    fix b1 h1
    assume b1: "slabs s b1 = Some h1" "object_in b1 h1 q y" "kextent q y \<subseteq> block_extent (slab_order h1) b1"
    show ?thesis
    proof (cases "b1 = b")
      case True
      then show ?thesis using b b1 ne by (intro objects_disjoint [of b h]) auto
    next
      case False
      then show ?thesis
        using slabs_okD(3) [OF slub_invD(2) [OF inv] b(1) b1(1)] b(5) b1(3) by blast
    qed
  qed
qed

interpretation slub: allocator kalloc krelease slub_inv kextent kvalid kreq_ok
proof unfold_locales
  show "slub_inv s' \<and> kvalid s' r a" if "slub_inv s" "kreq_ok r" "kalloc r s = (Some a, s')" for s r a s'
    using kalloc_correct [OF that] by (simp add: allocates_def)
  show "kvalid s' q b \<and> kextent r a \<inter> kextent q b = {}"
    if "slub_inv s" "kreq_ok r" "kalloc r s = (Some a, s')" "kvalid s q b" for s r a s' q b
    using kalloc_correct [OF that(1-3)] that(4) by (simp add: allocates_def)
  show "s' = s" if "slub_inv s" "kreq_ok r" "kalloc r s = (None, s')" for s r s'
    using that by (rule kalloc_none)
  show "slub_inv (krelease r a s)" if "slub_inv s" "kvalid s r a" for s r a
    using krelease_correct [OF that] by (simp add: releases_def)
  show "kvalid (krelease r a s) q b"
    if "slub_inv s" "kvalid s r a" "kvalid s q b" "kextent r a \<inter> kextent q b = {}" for s r a q b
    using krelease_correct [OF that(1,2)] that(3,4) by (simp add: releases_def)
qed

text \<open>The contract of one cache, as its clients use it.\<close>

lemma cache_alloc_node:
  assumes inv: "slub_inv k" and c: "c < 8" and a: "kmem_cache_alloc c k = (Some p, k')"
  shows "slub_inv k'" "kvalid k' (Cache c) p" "\<And>r y. kvalid k r y \<Longrightarrow> kvalid k' r y \<and> y \<noteq> p"
proof -
  have al: "allocates k (Cache c) p k'" using cache_alloc_correct [OF inv c a] by simp
  then show "slub_inv k'" and v: "kvalid k' (Cache c) p" by (simp_all add: allocates_def)
  fix r y assume y: "kvalid k r y"
  have "kvalid k' r y" "kextent (Cache c) p \<inter> kextent r y = {}" using al y by (simp_all add: allocates_def)
  moreover have "unat p \<in> kextent (Cache c) p" "unat y \<in> kextent r y"
    using kvalid_nonempty \<open>slub_inv k'\<close> v inv y by blast+
  ultimately show "kvalid k' r y \<and> y \<noteq> p" by blast
qed

lemma cache_free_node:
  assumes inv: "slub_inv k" and v: "kvalid k (Cache c) p"
  shows "slub_inv (kmem_cache_free c p k)"
    "\<And>r y. kvalid k r y \<Longrightarrow> y \<noteq> p \<Longrightarrow> kvalid (kmem_cache_free c p k) r y"
proof -
  have r: "releases k (Cache c) p (kmem_cache_free c p k)" using krelease_correct [OF inv v] by simp
  then show "slub_inv (kmem_cache_free c p k)" by (simp add: releases_def)
  fix q y assume "kvalid k q y" "y \<noteq> p"
  then show "kvalid (kmem_cache_free c p k) q y"
    using r kvalid_disjoint [OF inv v] by (auto simp: releases_def)
qed

end
