(* ===== verification/Slub_Props.thy ===== *)
theory Slub_Props
  imports Slub_Correct Page_Alloc_Props
begin

text \<open>
  The properties of \<open>kmalloc\<close>, \<open>kfree\<close> and the dedicated caches, and the allocator state right
  after boot on which their witnesses run.
\<close>

text \<open>The boot sequence: \<open>page_alloc_init\<close>, \<open>slub_init\<close>, then \<open>mmap_init\<close> for the cache of memory areas.\<close>

definition kmem_boot :: "u64 \<Rightarrow> kmem" where
  "kmem_boot alloc_start =
     kmem_cache_init 7 32 (slub_init
       \<lparr>pg = page_alloc_init alloc_start, caches = (\<lambda>_. \<lparr>object_size = 0, partial = []\<rparr>), slabs = Map.empty\<rparr>)"

lemma kmem_boot_inv:
  assumes "room_left start"
  shows "slub_inv (kmem_boot start)"
proof -
  have "partial_ok Map.empty c (caches (kmem_boot start) c)" if "c < 8" for c
    using less_8 [OF that] unfolding partial_ok_def
    by (auto simp: kmem_boot_def slub_init_def kmem_cache_init_def csize_def)
  moreover have "pg (kmem_boot start) = page_alloc_init start" "slabs (kmem_boot start) = Map.empty"
    by (simp_all add: kmem_boot_def slub_init_def kmem_cache_init_def)
  ultimately show ?thesis
    using page_alloc_init_inv(1) [OF assms] by (simp add: slub_inv_def slabs_ok_def)
qed

definition small_kmem :: kmem where
  "small_kmem = kmem_boot 0xffff800087ffc000"

lemma small_kmem_inv: "slub_inv small_kmem"
  unfolding small_kmem_def by (rule kmem_boot_inv) (simp add: room_left_def)

lemma small_kmem_kmalloc: "\<exists>x s'. kmalloc 100 small_kmem = (Some x, s')"
proof -
  have a: "fst (alloc_pages 0 (pg small_kmem)) \<noteq> None" by code_simp
  from small_kmem_inv have "\<exists>x s'. kmem_cache_alloc 2 small_kmem = (Some x, s')"
    by (cases rule: kmem_cache_alloc_cases [where c = 2]) (use a in auto)
  moreover have "cache_for_size 100 = Some 2" by (simp add: cache_for_size_def)
  ultimately show ?thesis by (simp add: kmalloc_def)
qed

text \<open>C2: memory safety of \<open>kmalloc\<close>, \<open>kfree\<close> and the caches.  After boot, whatever sequence of
  allocations (from any cache, or of any size up to 128 MiB less a header) and releases the
  kernel performs, each object it holds is backed by a live slab, and the bytes of any two
  objects it holds are disjoint.\<close>

theorem kmem_histories_safe:
  assumes "room_left start" and "\<forall>r. Get r \<in> set reqs \<longrightarrow> kreq_ok r"
    and "serve kalloc krelease reqs (kmem_boot start) [] = (s, held)"
  shows "slub_inv s \<and> (\<forall>i < length held. kvalid s (fst (held ! i)) (snd (held ! i))) \<and>
    (\<forall>i < length held. \<forall>j < length held. i \<noteq> j \<longrightarrow>
       kextent (fst (held ! i)) (snd (held ! i)) \<inter> kextent (fst (held ! j)) (snd (held ! j)) = {})"
proof -
  have "slub.holding (kmem_boot start) []"
    using kmem_boot_inv [OF assms(1)] by (simp add: slub.holding_Nil)
  from slub.serve_holding [OF this assms(2,3)] show ?thesis by (simp add: slub.holding_def)
qed

definition kmem_history :: "kreq request list" where
  "kmem_history = [Get (Kmalloc 100), Get (Cache 7), Get (Kmalloc 5000), Put 1, Get (Kmalloc 2048), Put 0]"

theorem kmem_histories_safe_witness:
  "\<exists>s held. serve kalloc krelease kmem_history small_kmem [] = (s, held) \<and> slub_inv s"
proof -
  obtain s held where r: "serve kalloc krelease kmem_history small_kmem [] = (s, held)" by fastforce
  then show ?thesis
    using kmem_histories_safe [of "0xffff800087ffc000" kmem_history s held]
    by (auto simp: room_left_def kmem_history_def small_kmem_def)
qed

text \<open>C11: a successful \<open>kmalloc\<close> returns a non-null, 8-byte aligned object of at least the
  requested size that overlaps no object in use; the objects in use stay in use.\<close>

theorem kmalloc_correct:
  assumes inv: "slub_inv s" and n: "unat n + 40 \<le> 2 ^ 27" and a: "kmalloc n s = (Some x, s')"
  shows "x \<noteq> 0 \<and> 8 dvd unat x \<and> slub_inv s' \<and> kvalid s' (Kmalloc n) x \<and>
    (\<forall>q y. kvalid s q y \<longrightarrow> kvalid s' q y \<and> {unat x ..< unat x + max 1 (unat n)} \<inter> kextent q y = {})"
proof -
  have al: "allocates s (Kmalloc n) x s'" using kalloc_correct [OF inv, of "Kmalloc n"] n a by simp
  then have v: "slub_inv s'" "kvalid s' (Kmalloc n) x" by (auto simp: allocates_def)
  then have "x \<noteq> 0 \<and> 8 dvd unat x" by (elim kvalidE) auto
  then show ?thesis using al by (simp add: allocates_def kextent_def [of "Kmalloc n"])
qed

theorem kmalloc_correct_witness:
  "\<exists>x s'. kmalloc 100 small_kmem = (Some x, s') \<and> x \<noteq> 0 \<and> 8 dvd unat x \<and> kvalid s' (Kmalloc 100) x"
proof -
  obtain x s' where "kmalloc 100 small_kmem = (Some x, s')" using small_kmem_kmalloc by blast
  then show ?thesis using kmalloc_correct [OF small_kmem_inv, of 100] by auto
qed

lemma cache_roundtrip:
  assumes inv: "slub_inv s" and c: "c < 8" and a: "kmem_cache_alloc c s = (Some x, s')"
  defines "t \<equiv> kfree x s'"
  shows "slabs t = slabs s \<and> caches t = caches s \<and>
    set (free_area (pg t) k) = set (free_area (pg s) k)"
proof -
  have al: "allocates s (Cache c) x s'" using cache_alloc_correct [OF inv c a] by simp
  then have inv': "slub_inv s'" and v: "kvalid s' (Cache c) x" by (auto simp: allocates_def)
  have eq: "t = freed c b h x s'" if b: "slabs s' b = Some h" "cache h = Some c" "slab_from_object x = b" for b h
    using v b kmem_cache_free_eq [OF inv' b(1) b(3) _ b(2)] unfolding t_def
    by (elim kvalidE [OF inv']) (auto simp: kfree_def)
  from inv c show ?thesis
  proof (cases rule: kmem_cache_alloc_cases)
    case (old b0 ps h0 obj rest)
    have x: "x = obj" and s': "s' = updated c b0 (Some (h0\<lparr>freelist := rest, inuse := inuse h0 + 1\<rparr>))
         (pg s) (if rest = [] then ps else b0 # ps) s" using a old(5) by auto
    note sd = slabs_okD [OF slub_invD(2) [OF inv] old(2)]
    note ok = slab_okD [OF sd(1) old(3)]
    have "x \<in> set (slots b0 c)" using ok(3) old(4) x by auto
    then have "slab_from_object x = b0"
      using slots_in_page(3) [OF block_valid_addr(1) [OF slub_invD(1) [OF inv] sd(2)] c] by blast
    then have t: "t = freed c b0 (h0\<lparr>freelist := rest, inuse := inuse h0 + 1\<rparr>) x s'"
      using old(3) by (intro eq) (auto simp: s')
    have "t = s"
      using ok(5) old x unfolding t s' freed_def by (auto simp: updated_def intro!: kmem.equality)
    then show ?thesis by simp
  next
    case (new b0 p obj rest)
    let ?h = "\<lparr>cache = Some c, freelist = rest, inuse = 1, objects = slab_objects_per_page (csize c)\<rparr>"
    have x: "x = obj" and s': "s' = updated c b0 (Some ?h) p (if rest = [] then [] else [b0]) s"
      using a new(4) by auto
    have p: "alloc_pages (int 0) (pg s) = (Some b0, p)" using new(2) by simp
    note f = fresh_slab [OF inv p]
    have "x \<in> set (slots b0 c)" using new(3) x by (metis list.set_intros(1) set_rev)
    then have "slab_from_object x = b0" using slots_in_page(3) [OF f(3) c] by blast
    then have t: "t = freed c b0 ?h x s'" by (intro eq) (auto simp: s')
    have "set (free_area (free_pages b0 (int 0) p) k) = set (free_area (pg s) k)"
      using slub_invD(1) [OF inv] p by (intro free_lists_restored) (auto simp: page_inv_def size_aligned_0)
    then show ?thesis
      using new(1) f(4) unfolding t s' freed_def by (auto simp: updated_def)
  qed (use a in simp)
qed

lemma large_roundtrip:
  assumes inv: "slub_inv s" and n: "n \<noteq> 0" and a: "alloc_large n s = (Some x, s')"
    and al: "size_aligned (pg s) (large_order 4096 0 n)"
  shows "slabs (kfree x s') = slabs s \<and> caches (kfree x s') = caches s \<and>
    set (free_area (pg (kfree x s')) k) = set (free_area (pg s) k)"
proof -
  define o' where "o' = large_order 4096 0 n"
  from a n obtain b p where b: "alloc_pages (int o') (pg s) = (Some b, p)" and x: "x = b + 40"
    and s': "s' = s\<lparr>pg := p, slabs := (slabs s)(b \<mapsto> \<lparr>cache = None, freelist = [], inuse = 1, objects = o'\<rparr>)\<rparr>"
    unfolding alloc_large_def Let_def o'_def by (auto split: prod.splits option.splits)
  note f = fresh_slab [OF inv b]
  have "(41::nat) \<le> 4096 * 1" by simp
  also have "\<dots> \<le> 4096 * 2 ^ o'" by (intro mult_le_mono2) simp
  finally have "slab_from_object x = b" "x \<noteq> 0"
    using object_extent_large [OF f(3), of "\<lparr>cache = None, freelist = [], inuse = 1, objects = o'\<rparr>" "Kmalloc 1" x]
    by (simp_all add: x object_in_def)
  then have "kfree x s' = s\<lparr>pg := free_pages b (int o') p, slabs := slabs s\<rparr>"
    using f(4) by (auto simp: kfree_def free_large_def s' intro!: kmem.equality)
  then show ?thesis
    using free_lists_restored [OF slub_invD(1) [OF inv] al [folded o'_def] b] by simp
qed



text \<open>No slab is kept without an object in use: when every object has been released, no slab
  page is left and every partial list is empty.\<close>

theorem slabs_reclaimed:
  assumes inv: "slub_inv s" and none: "\<forall>r x. \<not> kvalid s r x"
  shows "slabs s = Map.empty \<and> (\<forall>c<8. partial (caches s c) = [])"
proof -
  have "slabs s b = None" for b
  proof (rule ccontr)
    assume "slabs s b \<noteq> None"
    then obtain h where h: "slabs s b = Some h" by blast
    note sd = slabs_okD [OF slub_invD(2) [OF inv] h]
    have "\<exists>r x. object_in b h r x"
    proof (cases "cache h")
      case None
      have "(1::nat) \<le> 2 ^ objects h" by simp
      then have "41 \<le> 4096 * (2::nat) ^ objects h" by linarith
      then have "rlen (Kmalloc 1) + 40 \<le> 4096 * 2 ^ objects h" by simp
      then show ?thesis using None by (auto simp: object_in_def intro!: exI [of _ "Kmalloc 1"])
    next
      case (Some c)
      note ok = slab_okD [OF sd(1) Some]
      have "card (set (slots b c)) = slab_objects_per_page (csize c)"
        using distinct_slots [OF block_valid_addr(1) [OF slub_invD(1) [OF inv] sd(2)] ok(1)]
        by (subst distinct_card) (simp_all add: slots_def)
      then have "card (set (freelist h)) < card (set (slots b c))"
        using ok(2,4-6) by (simp add: distinct_card)
      then obtain x where "x \<in> set (slots b c)" "x \<notin> set (freelist h)"
        by (metis card_mono leD finite_set subsetI)
      then show ?thesis using Some by (auto simp: object_in_def intro!: exI [of _ "Cache c"])
    qed
    then show False using none h by (auto simp: kvalid_def)
  qed
  then show ?thesis using slub_invD(3) [OF inv] by (auto simp: partial_ok_def set_empty [symmetric] simp del: set_empty)
qed

theorem slabs_reclaimed_witness: "partial (caches small_kmem 3) = []"
proof -
  have "slabs small_kmem = Map.empty"
    by (simp add: small_kmem_def kmem_boot_def slub_init_def kmem_cache_init_def)
  then have "\<forall>r x. \<not> kvalid small_kmem r x" by (simp add: kvalid_def)
  then show ?thesis using slabs_reclaimed [OF small_kmem_inv] by simp
qed

text \<open>\<open>alloc_large\<close> computes \<open>size + sizeof(struct slab)\<close> without an overflow check.  A request
  within 40 bytes of \<open>2\<^sup>6\<^sup>4\<close> wraps, takes a single page, and returns an object of 4056 bytes as if it
  had the size asked for.\<close>

theorem kmalloc_size_wraps:
  assumes inv: "slub_inv s" and n: "2 ^ 64 - 40 \<le> unat n" and p: "alloc_pages 0 (pg s) = (Some b, p)"
  shows "\<exists>s'. kmalloc n s = (Some (b + 40), s') \<and> slab_order (the (slabs s' b)) = 0 \<and>
    block_extent 0 b \<subset> {unat b ..< unat b + unat n}"
proof -
  have lt: "unat n < 2 ^ 64" using unsigned_less [of n, where 'a = nat] by simp
  have "unat (n + 40) = (unat n + 40) mod 2 ^ 64" by (simp add: unat_word_ariths)
  also have "\<dots> < 4096" using n lt by (simp add: le_mod_geq)
  finally have "\<not> 4096 < n + 40" by (simp add: word_less_nat_alt)
  then have k: "large_order 4096 0 n = 0" by (simp add: large_order.simps [of 4096 0 n])
  have "cache_for_size n = None" "n \<noteq> 0"
    using n by (auto simp: cache_for_size_def word_le_nat_alt)
  then have "kmalloc n s = (Some (b + 40), s\<lparr>pg := p, slabs := (slabs s)(b \<mapsto>
      \<lparr>cache = None, freelist = [], inuse = 1, objects = 0\<rparr>)\<rparr>)"
    using p k by (simp add: kmalloc_def alloc_large_def)
  moreover have "block_extent 0 b \<subset> {unat b ..< unat b + unat n}"
    using n by (auto simp: block_extent_def)
  ultimately show ?thesis by (simp add: slab_order_def)
qed

theorem kmalloc_size_wraps_witness:
  "\<exists>b s'. kmalloc 0xffffffffffffffff small_kmem = (Some (b + 40), s') \<and>
     block_extent 0 b \<subset> {unat b ..< unat b + (2 ^ 64 - 1)}"
proof -
  have "fst (alloc_pages 0 (pg small_kmem)) \<noteq> None" by code_simp
  then obtain b p where "alloc_pages 0 (pg small_kmem) = (Some b, p)" by (metis option.exhaust prod.collapse)
  then show ?thesis
    using kmalloc_size_wraps [OF small_kmem_inv, of "0xffffffffffffffff"] by auto
qed

end
