(* ===== verification/Vma.thy ===== *)
theory Vma
  imports Slub_Correct
begin

text \<open>
  The memory areas of \<^verbatim>\<open>mm/mmap.c\<close>: the list of \<^verbatim>\<open>struct vm_area_struct\<close>, each allocated from the
  slab cache number 7.  The list linked by \<open>vm_next\<close> is a list of nodes that carry their own
  address, so that allocation and release of a node go through the slab allocator, and
  \<open>mm->mmap\<close> is the list.  Addresses keep their 64 bits.
\<close>

subsection \<open>State and operations\<close>

record vma =
  va_ptr :: u64
  vm_start :: u64
  vm_end :: u64
  vm_flags :: u64

abbreviation vma_cache :: nat where "vma_cache \<equiv> 7"

definition find_vma :: "vma list \<Rightarrow> u64 \<Rightarrow> vma option" where
  "find_vma mm addr = List.find (\<lambda>v. vm_end v > addr) mm"

definition vma_alloc :: "u64 \<Rightarrow> u64 \<Rightarrow> u64 \<Rightarrow> kmem \<Rightarrow> vma option \<times> kmem" where
  "vma_alloc start end flags k =
     (case kmem_cache_alloc vma_cache k of
        (None, k') \<Rightarrow> (None, k')
      | (Some p, k') \<Rightarrow> (Some \<lparr>va_ptr = p, vm_start = start, vm_end = end, vm_flags = flags\<rparr>, k'))"

definition insert_vma :: "vma list \<Rightarrow> vma \<Rightarrow> int \<times> vma list" where
  "insert_vma mm new =
     (if vm_start new \<ge> vm_end new then (- EINVAL, mm)
      else
        let before = takeWhile (\<lambda>v. vm_start v < vm_start new) mm;
            after = dropWhile (\<lambda>v. vm_start v < vm_start new) mm in
        if after \<noteq> [] \<and> vm_end new > vm_start (hd after) then (- EINVAL, mm)
        else if before \<noteq> [] \<and> vm_end (last before) > vm_start new then (- EINVAL, mm)
        else (0, before @ new # after))"

text \<open>The node at address \<open>p\<close> gives way to the nodes \<open>vs\<close>; without such a node nothing happens.\<close>

fun replace_vma :: "u64 \<Rightarrow> vma list \<Rightarrow> vma list \<Rightarrow> vma list" where
  "replace_vma p vs [] = []"
| "replace_vma p vs (w # ws) = (if va_ptr w = p then vs @ ws else w # replace_vma p vs ws)"

definition remove_vma :: "vma list \<Rightarrow> vma \<Rightarrow> int \<times> vma list" where
  "remove_vma mm v =
     (if va_ptr v \<in> va_ptr ` set mm then (0, replace_vma (va_ptr v) [] mm) else (- ENOENT, mm))"

definition vma_record :: "vma list \<Rightarrow> u64 \<Rightarrow> u64 \<Rightarrow> u64 \<Rightarrow> kmem \<Rightarrow> int \<times> vma list \<times> kmem" where
  "vma_record mm start end flags k =
     (if start \<ge> end then (- EINVAL, mm, k)
      else
        case vma_alloc start end flags k of
          (None, k1) \<Rightarrow> (- ENOMEM, mm, k1)
        | (Some v, k1) \<Rightarrow>
            let (ret, mm1) = insert_vma mm v in
            if ret < 0 then (ret, mm1, kmem_cache_free vma_cache (va_ptr v) k1)
            else (0, mm1, k1))"

fun free_vma_chain :: "vma list \<Rightarrow> kmem \<Rightarrow> kmem" where
  "free_vma_chain [] k = k"
| "free_vma_chain (v # vs) k = free_vma_chain vs (kmem_cache_free vma_cache (va_ptr v) k)"

text \<open>The loop of \<open>dup_vma_list\<close>; \<open>head\<close> is the part of the copy built so far.  As in C, a failed
  copy and the copy of an empty list are both the empty list.\<close>

fun dup_vma_loop :: "vma list \<Rightarrow> vma list \<Rightarrow> kmem \<Rightarrow> vma list \<times> kmem" where
  "dup_vma_loop [] head k = (head, k)"
| "dup_vma_loop (v # src) head k =
     (case vma_alloc (vm_start v) (vm_end v) (vm_flags v) k of
        (None, k1) \<Rightarrow> ([], free_vma_chain head k1)
      | (Some c, k1) \<Rightarrow> dup_vma_loop src (head @ [c]) k1)"

definition dup_vma_list :: "vma list \<Rightarrow> kmem \<Rightarrow> vma list \<times> kmem" where
  "dup_vma_list src k = dup_vma_loop src [] k"

definition free_all_vmas :: "vma list \<Rightarrow> kmem \<Rightarrow> vma list \<times> kmem" where
  "free_all_vmas mm k = ([], free_vma_chain mm k)"

text \<open>
  The walk of \<open>vma_erase_range\<close> over the list; the nodes not yet visited are the argument, so
  that unlinking the visited node is leaving it out of the result.
\<close>

fun vma_erase_range :: "u64 \<Rightarrow> u64 \<Rightarrow> vma list \<Rightarrow> kmem \<Rightarrow> int \<times> vma list \<times> kmem" where
  "vma_erase_range start end [] k = (0, [], k)"
| "vma_erase_range start end (v # next) k =
     (let vstart = vm_start v; vend = vm_end v in
      if vend \<le> start \<or> vstart \<ge> end then
        (let (r, next', k') = vma_erase_range start end next k in (r, v # next', k'))
      else if start \<le> vstart \<and> end \<ge> vend then
        vma_erase_range start end next (kmem_cache_free vma_cache (va_ptr v) k)
      else if start \<le> vstart \<and> end < vend then
        (let (r, next', k') = vma_erase_range start end next k in (r, v\<lparr>vm_start := end\<rparr> # next', k'))
      else if start > vstart \<and> end \<ge> vend then
        (let (r, next', k') = vma_erase_range start end next k in (r, v\<lparr>vm_end := start\<rparr> # next', k'))
      else
        (case vma_alloc end vend (vm_flags v) k of
           (None, k1) \<Rightarrow> (- ENOMEM, v # next, k1)
         | (Some tail, k1) \<Rightarrow>
             let (r, next', k') = vma_erase_range start end next k1 in
             (r, v\<lparr>vm_end := start\<rparr> # tail # next', k')))"

definition find_heap_vma :: "u64 \<Rightarrow> vma list \<Rightarrow> vma option" where
  "find_heap_vma start_brk mm = List.find (\<lambda>v. vm_start v = start_brk) mm"

definition vma_split :: "vma \<Rightarrow> u64 \<Rightarrow> vma list \<Rightarrow> kmem \<Rightarrow> int \<times> vma list \<times> kmem" where
  "vma_split v addr mm k =
     (if addr \<le> vm_start v \<or> addr \<ge> vm_end v then (0, mm, k)
      else
        case vma_alloc addr (vm_end v) (vm_flags v) k of
          (None, k1) \<Rightarrow> (- ENOMEM, mm, k1)
        | (Some right, k1) \<Rightarrow> (0, replace_vma (va_ptr v) [v\<lparr>vm_end := addr\<rparr>, right] mm, k1))"

lemma find_vma_end: "find_vma mm addr = Some v \<Longrightarrow> addr < vm_end v"
  by (auto simp: find_vma_def find_Some_iff)

function mprotect_covered :: "vma list \<Rightarrow> u64 \<Rightarrow> u64 \<Rightarrow> bool" where
  "mprotect_covered mm va end =
     (if va < end then
        (case find_vma mm va of
           None \<Rightarrow> False
         | Some v \<Rightarrow> if vm_start v > va then False else mprotect_covered mm (vm_end v) end)
      else True)"
  by pat_completeness auto
termination
  by (relation "measure (\<lambda>(mm, va, end). unat end - unat va)")
    (auto dest!: find_vma_end simp: word_less_nat_alt)

declare mprotect_covered.simps [simp del]

end
