(* ===== verification/Vma_Correct.thy ===== *)
theory Vma_Correct
  imports Vma
begin

text \<open>
  Correctness of the memory areas: the list is sorted and its areas are disjoint and not empty
  (\<open>vmas_ok\<close>), each operation is characterised by the access rights it leaves at every address
  (\<open>prot_at\<close>), and the nodes are distinct live objects of the slab allocator (\<open>owns\<close>).
\<close>

subsection \<open>The abstract view: rights per address\<close>

definition covers :: "vma \<Rightarrow> u64 \<Rightarrow> bool" where
  "covers v x \<longleftrightarrow> vm_start v \<le> x \<and> x < vm_end v"

fun prot_at :: "vma list \<Rightarrow> u64 \<Rightarrow> u64 option" where
  "prot_at [] x = None"
| "prot_at (v # vs) x = (if covers v x then Some (vm_flags v) else prot_at vs x)"

definition vmas_ok :: "vma list \<Rightarrow> bool" where
  "vmas_ok mm \<longleftrightarrow> sorted_wrt (\<lambda>v w. vm_end v \<le> vm_start w) mm \<and> (\<forall>v\<in>set mm. vm_start v < vm_end v)"

lemma vmas_ok_Nil [simp]: "vmas_ok []"
  by (simp add: vmas_ok_def)

lemma vmas_ok_Cons:
  "vmas_ok (v # vs) \<longleftrightarrow> vm_start v < vm_end v \<and> (\<forall>w\<in>set vs. vm_end v \<le> vm_start w) \<and> vmas_ok vs"
  by (auto simp: vmas_ok_def)

lemma vmas_ok_append:
  "vmas_ok (xs @ ys) \<longleftrightarrow> vmas_ok xs \<and> vmas_ok ys \<and> (\<forall>v\<in>set xs. \<forall>w\<in>set ys. vm_end v \<le> vm_start w)"
  by (auto simp: vmas_ok_def sorted_wrt_append)

lemma prot_at_append: "prot_at (xs @ ys) x = (case prot_at xs x of None \<Rightarrow> prot_at ys x | Some f \<Rightarrow> Some f)"
  by (induction xs) auto

lemma prot_at_None_iff: "prot_at mm x = None \<longleftrightarrow> (\<forall>v\<in>set mm. \<not> covers v x)"
  by (induction mm) auto

lemma prot_at_below: "\<forall>v\<in>set mm. x < vm_start v \<Longrightarrow> prot_at mm x = None"
  unfolding prot_at_None_iff covers_def by (meson linorder_not_less)

lemma prot_at_above: "\<forall>v\<in>set mm. vm_end v \<le> x \<Longrightarrow> prot_at mm x = None"
  unfolding prot_at_None_iff covers_def by (meson linorder_not_less)

lemma find_vma_Cons: "find_vma (v # vs) x = (if x < vm_end v then Some v else find_vma vs x)"
  by (simp add: find_vma_def)

lemma find_vma_prot:
  assumes "vmas_ok mm"
  shows "prot_at mm x = (case find_vma mm x of
     None \<Rightarrow> None | Some v \<Rightarrow> if vm_start v \<le> x then Some (vm_flags v) else None)"
  using assms
proof (induction mm)
  case (Cons v vs)
  show ?case
  proof (cases "x < vm_end v")
    case True
    then have "prot_at vs x = None"
      using Cons.prems by (intro prot_at_below) (auto simp: vmas_ok_Cons intro: less_le_trans)
    then show ?thesis using True by (simp add: find_vma_Cons covers_def)
  qed (use Cons in \<open>auto simp: find_vma_Cons vmas_ok_Cons covers_def\<close>)
qed (simp add: find_vma_def)

subsection \<open>Insertion\<close>

lemma split_at_start:
  fixes a :: u64
  assumes "vmas_ok mm"
  defines "b \<equiv> takeWhile (\<lambda>v. vm_start v < a) mm" and "r \<equiv> dropWhile (\<lambda>v. vm_start v < a) mm"
  shows "mm = b @ r" "\<forall>v\<in>set b. vm_start v < a" "\<forall>v\<in>set r. a \<le> vm_start v"
    "vmas_ok b" "vmas_ok r" "\<forall>v\<in>set b. \<forall>w\<in>set r. vm_end v \<le> vm_start w"
proof -
  show mm: "mm = b @ r" by (simp add: b_def r_def)
  show "\<forall>v\<in>set b. vm_start v < a" unfolding b_def by (auto dest: set_takeWhileD)
  show ok: "vmas_ok b" "vmas_ok r" "\<forall>v\<in>set b. \<forall>w\<in>set r. vm_end v \<le> vm_start w"
    using assms(1) mm vmas_ok_append by metis+
  show "\<forall>v\<in>set r. a \<le> vm_start v"
  proof (cases r)
    case (Cons w ws)
    then have "a \<le> vm_start w" unfolding r_def by (metis dropWhile_eq_Cons_conv linorder_not_less)
    moreover have "vm_start w \<le> vm_start u" if "u \<in> set ws" for u
      using ok(2) that unfolding Cons vmas_ok_Cons by (meson less_imp_le order_trans)
    ultimately show ?thesis unfolding Cons by (auto intro: order_trans)
  qed simp
qed

lemma vmas_ok_last:
  assumes "vmas_ok b" and "v \<in> set b"
  shows "vm_end v \<le> vm_end (last b)"
  using assms
proof (induction b)
  case (Cons w ws)
  show ?case
  proof (cases "ws = []")
    case False
    then have "last ws \<in> set ws" by simp
    then have "vm_end w \<le> vm_start (last ws)" "vm_start (last ws) < vm_end (last ws)"
      using Cons.prems by (auto simp: vmas_ok_def)
    then have "vm_end w \<le> vm_end (last ws)" by simp
    then show ?thesis using Cons False by (auto simp: vmas_ok_Cons)
  qed (use Cons in simp)
qed simp

lemma vmas_ok_hd:
  assumes "vmas_ok r" and "v \<in> set r"
  shows "vm_start (hd r) \<le> vm_start v"
  using assms by (cases r) (auto simp: vmas_ok_Cons intro: order_trans less_imp_le)

lemma insert_vma_ok:
  assumes ok: "vmas_ok mm" and ins: "insert_vma mm new = (0, mm')"
  shows "vmas_ok mm'" "prot_at mm' x = (if covers new x then Some (vm_flags new) else prot_at mm x)"
    "set mm' = insert new (set mm)" "vm_start new < vm_end new"
    "covers new x \<Longrightarrow> prot_at mm x = None"
proof -
  define b where "b = takeWhile (\<lambda>v. vm_start v < vm_start new) mm"
  define r where "r = dropWhile (\<lambda>v. vm_start v < vm_start new) mm"
  note sp = split_at_start [OF ok, of "vm_start new", folded b_def r_def]
  from ins have i: "vm_start new < vm_end new" "mm' = b @ new # r"
    "r \<noteq> [] \<longrightarrow> vm_end new \<le> vm_start (hd r)" "b \<noteq> [] \<longrightarrow> vm_end (last b) \<le> vm_start new"
    unfolding insert_vma_def Let_def b_def [symmetric] r_def [symmetric] by (auto split: if_splits)
  have r: "vm_end new \<le> vm_start w" if "w \<in> set r" for w
    using i(3) vmas_ok_hd [OF sp(5) that] that by (cases r) auto
  have b: "vm_end v \<le> vm_start new" if "v \<in> set b" for v
    using i(4) vmas_ok_last [OF sp(4) that] that by (cases b) auto
  show "vmas_ok mm'" "set mm' = insert new (set mm)" "vm_start new < vm_end new"
    using i(1) sp r b unfolding i(2) by (auto simp: vmas_ok_append vmas_ok_Cons)
  show none: "prot_at mm x = None" if "covers new x"
  proof -
    have "prot_at b x = None" using b that by (intro prot_at_above) (auto simp: covers_def intro: order_trans)
    moreover have "prot_at r x = None"
      using r that by (intro prot_at_below) (auto simp: covers_def intro: less_le_trans)
    ultimately show ?thesis by (subst sp(1)) (simp add: prot_at_append)
  qed
  show "prot_at mm' x = (if covers new x then Some (vm_flags new) else prot_at mm x)"
  proof (cases "covers new x")
    case True
    then have "prot_at (b @ r) x = None" using none sp(1) by simp
    then have "prot_at b x = None" unfolding prot_at_append by (simp split: option.splits)
    then show ?thesis using True by (simp add: i(2) prot_at_append)
  next
    case False
    then have "prot_at mm' x = prot_at (b @ r) x" by (simp add: i(2) prot_at_append split: option.split)
    then show ?thesis using False sp(1) by simp
  qed
qed

lemma insert_vma_cases: "insert_vma mm new = (0, snd (insert_vma mm new)) \<or> insert_vma mm new = (- EINVAL, mm)"
  by (simp add: insert_vma_def Let_def)

lemma insert_vma_free:
  assumes ok: "vmas_ok mm" and lt: "vm_start new < vm_end new" and free: "\<forall>x. covers new x \<longrightarrow> prot_at mm x = None"
  shows "\<exists>mm'. insert_vma mm new = (0, mm')"
proof -
  define b where "b = takeWhile (\<lambda>v. vm_start v < vm_start new) mm"
  define r where "r = dropWhile (\<lambda>v. vm_start v < vm_start new) mm"
  note sp = split_at_start [OF ok, of "vm_start new", folded b_def r_def]
  have nc: "\<not> covers v x" if "covers new x" "v \<in> set mm" for v x
    using free that by (auto simp: prot_at_None_iff)
  have "vm_end new \<le> vm_start (hd r)" if "r \<noteq> []"
  proof (rule ccontr)
    assume "\<not> vm_end new \<le> vm_start (hd r)"
    moreover have h: "hd r \<in> set r" using that by simp
    ultimately have "covers new (vm_start (hd r))" using sp(3) by (auto simp: covers_def)
    moreover have "hd r \<in> set mm" "vm_start (hd r) < vm_end (hd r)"
      using h sp(5) by (auto simp: sp(1) [symmetric] vmas_ok_def) (use sp(1) in auto)
    ultimately show False using nc by (auto simp: covers_def)
  qed
  moreover have "vm_end (last b) \<le> vm_start new" if "b \<noteq> []"
  proof (rule ccontr)
    assume "\<not> vm_end (last b) \<le> vm_start new"
    moreover have "last b \<in> set b" using that by simp
    ultimately have "covers (last b) (vm_start new)" "last b \<in> set mm"
      using sp(2) by (auto simp: covers_def less_imp_le) (use sp(1) in auto)
    moreover have "covers new (vm_start new)" using lt by (simp add: covers_def)
    ultimately show False using nc by blast
  qed
  ultimately show ?thesis
    using lt unfolding insert_vma_def Let_def b_def [symmetric] r_def [symmetric] by auto
qed

subsection \<open>Erasing a range\<close>

lemma vma_alloc_fields:
  assumes "vma_alloc a b f k = (Some v, k')"
  shows "vm_start v = a" "vm_end v = b" "vm_flags v = f"
    "kmem_cache_alloc vma_cache k = (Some (va_ptr v), k')"
  using assms by (auto simp: vma_alloc_def split: prod.splits option.splits)

text \<open>What one round of the loop leaves of a node \<open>v\<close>, and what it does to the slab allocator.\<close>

definition erased :: "u64 \<Rightarrow> u64 \<Rightarrow> vma \<Rightarrow> vma list \<Rightarrow> kmem \<Rightarrow> kmem \<Rightarrow> bool" where
  "erased start end v hs k k1 \<longleftrightarrow>
     (\<forall>w\<in>set hs. vm_start v \<le> vm_start w \<and> vm_end w \<le> vm_end v) \<and>
     (start \<le> end \<longrightarrow> vm_start v < vm_end v \<longrightarrow> vmas_ok hs \<and>
        (\<forall>x. prot_at hs x = (if start \<le> x \<and> x < end then None else prot_at [v] x))) \<and>
     (hs = [] \<and> k1 = kmem_cache_free vma_cache (va_ptr v) k \<or>
      map va_ptr hs = [va_ptr v] \<and> k1 = k \<or>
      (\<exists>p. map va_ptr hs = [va_ptr v, p] \<and> kmem_cache_alloc vma_cache k = (Some p, k1)))"

lemma vma_erase_step:
  assumes "vma_erase_range start end (v # next) k = (r, mm', k')"
  obtains (nomem) "r = - ENOMEM" "mm' = v # next" "kmem_cache_alloc vma_cache k = (None, k')"
    | (erase) hs next' k1 where "mm' = hs @ next'" "vma_erase_range start end next k1 = (r, next', k')"
      "erased start end v hs k k1"
proof -
  consider "vm_end v \<le> start \<or> vm_start v \<ge> end"
    | "\<not> (vm_end v \<le> start \<or> vm_start v \<ge> end)" "start \<le> vm_start v" "end \<ge> vm_end v"
    | "\<not> (vm_end v \<le> start \<or> vm_start v \<ge> end)" "start \<le> vm_start v" "\<not> end \<ge> vm_end v"
    | "\<not> (vm_end v \<le> start \<or> vm_start v \<ge> end)" "\<not> start \<le> vm_start v" "end \<ge> vm_end v"
    | "\<not> (vm_end v \<le> start \<or> vm_start v \<ge> end)" "\<not> start \<le> vm_start v" "\<not> end \<ge> vm_end v"
    by blast
  then show ?thesis
  proof cases
    case 1
    then have "erased start end v [v] k k"
      by (auto simp: erased_def vmas_ok_Cons covers_def)
    then show ?thesis using 1 assms erase [of "[v]"] by (auto split: prod.splits)
  next
    case 2
    then have "erased start end v [] k (kmem_cache_free vma_cache (va_ptr v) k)"
      by (auto simp: erased_def covers_def)
    then show ?thesis using 2 assms erase [of "[]"] by auto
  next
    case 3
    then have "erased start end v [v\<lparr>vm_start := end\<rparr>] k k"
      by (auto simp: erased_def vmas_ok_Cons covers_def)
    moreover have "end < vm_end v" using 3 by simp
    ultimately show ?thesis
      using 3 assms erase [of "[v\<lparr>vm_start := end\<rparr>]"]
      by (auto simp: Let_def simp del: not_le not_less split: prod.splits)
  next
    case 4
    then have "erased start end v [v\<lparr>vm_end := start\<rparr>] k k"
      by (auto simp: erased_def vmas_ok_Cons covers_def)
    moreover have "vm_start v < start" using 4 by simp
    ultimately show ?thesis
      using 4 assms erase [of "[v\<lparr>vm_end := start\<rparr>]"]
      by (auto simp: Let_def simp del: not_le not_less split: prod.splits)
  next
    case 5
    obtain t k1 where t: "vma_alloc end (vm_end v) (vm_flags v) k = (t, k1)" by fastforce
    show ?thesis
    proof (cases t)
      case None
      then show ?thesis
        using 5 assms t nomem
        by (auto simp: Let_def vma_alloc_def simp del: not_le not_less split: prod.splits option.splits)
    next
      case (Some w)
      note w = vma_alloc_fields [OF t [unfolded Some]]
      have "erased start end v [v\<lparr>vm_end := start\<rparr>, w] k k1"
        using 5 w by (auto simp: erased_def vmas_ok_Cons covers_def)
      then show ?thesis
        using 5 assms t Some erase [of "[v\<lparr>vm_end := start\<rparr>, w]"]
        by (auto simp: Let_def simp del: not_le not_less split: prod.splits)
    qed
  qed
qed

lemma vma_erase_sub:
  assumes "vma_erase_range start end mm k = (r, mm', k')" and "w \<in> set mm'"
  shows "\<exists>v\<in>set mm. vm_start v \<le> vm_start w \<and> vm_end w \<le> vm_end v"
  using assms
proof (induction mm arbitrary: r mm' k k')
  case (Cons v mm)
  from Cons.prems(1) show ?case
  proof (cases rule: vma_erase_step)
    case (erase hs next' k1)
    then show ?thesis using Cons.IH [OF erase(2)] Cons.prems(2) by (auto simp: erased_def)
  qed (use Cons.prems in auto)
qed simp

lemma vma_erase_ok:
  assumes "vma_erase_range start end mm k = (r, mm', k')" and "vmas_ok mm" and "start \<le> end"
  shows "vmas_ok mm'"
  using assms
proof (induction mm arbitrary: r mm' k k')
  case (Cons v mm)
  from Cons.prems(1) show ?case
  proof (cases rule: vma_erase_step)
    case (erase hs next' k1)
    have "vm_end a \<le> vm_start w" if a: "a \<in> set hs" and w: "w \<in> set next'" for a w
    proof -
      obtain u where "u \<in> set mm" "vm_start u \<le> vm_start w" using vma_erase_sub [OF erase(2) w] by blast
      moreover have "vm_end a \<le> vm_end v" using erase(3) a by (auto simp: erased_def)
      ultimately show ?thesis using Cons.prems(2) by (auto simp: vmas_ok_Cons intro: order_trans)
    qed
    then show ?thesis
      using Cons.IH [OF erase(2)] Cons.prems(2,3) erase(1,3) by (auto simp: vmas_ok_append vmas_ok_Cons erased_def)
  qed (use Cons.prems in auto)
qed simp

lemma vma_erase_prot:
  assumes "vma_erase_range start end mm k = (0, mm', k')" and "vmas_ok mm" and "start \<le> end"
  shows "prot_at mm' x = (if start \<le> x \<and> x < end then None else prot_at mm x)"
  using assms
proof (induction mm arbitrary: mm' k k')
  case (Cons v mm)
  from Cons.prems(1) show ?case
  proof (cases rule: vma_erase_step)
    case (erase hs next' k1)
    have "prot_at hs x = (if start \<le> x \<and> x < end then None else prot_at [v] x)"
      using erase(3) Cons.prems(2,3) by (auto simp: erased_def vmas_ok_Cons)
    then show ?thesis
      using Cons.IH [OF erase(2)] Cons.prems(2,3) by (simp add: erase(1) prot_at_append vmas_ok_Cons)
  qed simp
qed simp

subsection \<open>Replacing a node\<close>

definition ptrs :: "vma list \<Rightarrow> u64 set" where
  "ptrs mm = set (map va_ptr mm)"

definition dptrs :: "vma list \<Rightarrow> bool" where
  "dptrs mm \<longleftrightarrow> distinct (map va_ptr mm)"

lemma ptrs_simps [simp]:
  "ptrs [] = {}" "ptrs (v # mm) = insert (va_ptr v) (ptrs mm)" "ptrs (xs @ ys) = ptrs xs \<union> ptrs ys"
  by (simp_all add: ptrs_def)

lemma dptrs_simps [simp]:
  "dptrs []" "dptrs (v # mm) \<longleftrightarrow> va_ptr v \<notin> ptrs mm \<and> dptrs mm"
  "dptrs (xs @ ys) \<longleftrightarrow> dptrs xs \<and> dptrs ys \<and> ptrs xs \<inter> ptrs ys = {}"
  by (simp_all only: dptrs_def list.map distinct.simps map_append distinct_append ptrs_def)

lemma replace_vma_split:
  assumes "v \<in> set mm" and "dptrs mm"
  obtains b r where "mm = b @ v # r" "replace_vma (va_ptr v) vs mm = b @ vs @ r"
proof -
  obtain b r where mm: "mm = b @ v # r" using assms(1) by (meson split_list)
  then have "va_ptr v \<notin> ptrs b" using assms(2) by auto
  then have "replace_vma (va_ptr v) vs (b @ v # r) = b @ vs @ r" by (induction b) auto
  then show ?thesis using that mm by blast
qed

lemma replace_vma_ok:
  assumes ok: "vmas_ok mm" and v: "v \<in> set mm" "dptrs mm"
    and vs: "vmas_ok vs" "\<forall>w\<in>set vs. vm_start v \<le> vm_start w \<and> vm_end w \<le> vm_end v"
  shows "vmas_ok (replace_vma (va_ptr v) vs mm)"
    "prot_at (replace_vma (va_ptr v) vs mm) x = (if covers v x then prot_at vs x else prot_at mm x)"
  using v
proof (rule_tac [!] replace_vma_split [where vs = vs])
  fix b r
  assume br: "mm = b @ v # r" "replace_vma (va_ptr v) vs mm = b @ vs @ r"
  have o: "vmas_ok b" "vmas_ok r" "\<forall>u\<in>set b. vm_end u \<le> vm_start v" "\<forall>w\<in>set r. vm_end v \<le> vm_start w"
    "\<forall>u\<in>set b. \<forall>w\<in>set r. vm_end u \<le> vm_start w"
    using ok unfolding br(1) by (auto simp: vmas_ok_append vmas_ok_Cons)
  have 1: "\<forall>u\<in>set b. \<forall>w\<in>set vs. vm_end u \<le> vm_start w" using o(3) vs(2) by (meson order_trans)
  have 2: "\<forall>u\<in>set vs. \<forall>w\<in>set r. vm_end u \<le> vm_start w" using o(4) vs(2) by (meson order_trans)
  show "vmas_ok (replace_vma (va_ptr v) vs mm)"
    unfolding br(2) vmas_ok_append using o(1,2,5) 1 2 vs(1) by auto
  show "prot_at (replace_vma (va_ptr v) vs mm) x = (if covers v x then prot_at vs x else prot_at mm x)"
  proof (cases "covers v x")
    case True
    then have "prot_at b x = None"
      using o(3) by (intro prot_at_above) (auto simp: covers_def intro: order_trans)
    moreover have "prot_at r x = None"
      using o(4) True by (intro prot_at_below) (auto simp: covers_def intro: less_le_trans)
    ultimately have "prot_at b x = None" "prot_at r x = None" by auto
    then show ?thesis using True unfolding br(2) by (simp add: prot_at_append split: option.split)
  next
    case False
    have "\<not> covers w x" if "w \<in> set vs" for w
      using False vs(2) that by (auto simp: covers_def)
    then have "prot_at vs x = None" by (simp add: prot_at_None_iff)
    then show ?thesis using False unfolding br(2) unfolding br(1) by (simp add: prot_at_append split: option.split)
  qed
qed

lemma vma_split_ok:
  assumes ok: "vmas_ok mm" and v: "v \<in> set mm" "dptrs mm"
    and s: "vma_split v addr mm k = (r, mm', k')"
  shows "vmas_ok mm'" "prot_at mm' x = prot_at mm x"
proof -
  have "vmas_ok mm' \<and> prot_at mm' x = prot_at mm x"
  proof (cases "addr \<le> vm_start v \<or> addr \<ge> vm_end v \<or> fst (vma_alloc addr (vm_end v) (vm_flags v) k) = None")
    case True
    then show ?thesis using s ok by (auto simp: vma_split_def split: prod.splits option.splits if_splits)
  next
    case False
    then obtain w k1 where w: "vma_alloc addr (vm_end v) (vm_flags v) k = (Some w, k1)"
      by (metis not_None_eq prod.collapse)
    let ?vs = "[v\<lparr>vm_end := addr\<rparr>, w]"
    have mm': "mm' = replace_vma (va_ptr v) ?vs mm" using False s w by (auto simp: vma_split_def)
    note f = vma_alloc_fields [OF w]
    have vs: "vmas_ok ?vs" "\<forall>w\<in>set ?vs. vm_start v \<le> vm_start w \<and> vm_end w \<le> vm_end v"
      using False f by (auto simp: vmas_ok_Cons)
    have "covers v x \<Longrightarrow> prot_at ?vs x = prot_at mm x"
    proof -
      assume c: "covers v x"
      have "prot_at mm x = prot_at (replace_vma (va_ptr v) [v] mm) x"
        using v by (rule_tac replace_vma_split [where vs = "[v]"]) auto
      also have "\<dots> = prot_at [v] x"
        using replace_vma_ok(2) [OF ok v, of "[v]" x] c ok v(1) by (auto simp: vmas_ok_def)
      finally show ?thesis using c f by (auto simp: covers_def)
    qed
    then show ?thesis using replace_vma_ok [OF ok v vs] by (simp add: mm')
  qed
  then show "vmas_ok mm'" "prot_at mm' x = prot_at mm x" by auto
qed

subsection \<open>The nodes are live objects\<close>

definition owns :: "kmem \<Rightarrow> vma list \<Rightarrow> bool" where
  "owns k mm \<longleftrightarrow> slub_inv k \<and> dptrs mm \<and> (\<forall>p\<in>ptrs mm. kvalid k (Cache vma_cache) p)"

text \<open>An operation that turns the list \<open>mm\<close> into \<open>mm'\<close> keeps the nodes live and apart, and touches
  no object of another client.\<close>

definition node_safe :: "vma list \<Rightarrow> kmem \<Rightarrow> vma list \<Rightarrow> kmem \<Rightarrow> bool" where
  "node_safe mm k mm' k' \<longleftrightarrow> owns k' mm' \<and>
     (\<forall>r y. kvalid k r y \<longrightarrow> y \<notin> ptrs mm \<longrightarrow> kvalid k' r y \<and> y \<notin> ptrs mm')"

lemma node_safe_refl: "owns k mm \<Longrightarrow> node_safe mm k mm k"
  by (simp add: node_safe_def)

lemma node_safe_trans: "node_safe mm k mm1 k1 \<Longrightarrow> node_safe mm1 k1 mm2 k2 \<Longrightarrow> node_safe mm k mm2 k2"
  unfolding node_safe_def by blast

lemma node_safe_perm:
  "node_safe mm k mm' k' \<Longrightarrow> ptrs mm' = ptrs mm2 \<Longrightarrow> dptrs mm2 \<Longrightarrow> node_safe mm k mm2 k'"
  by (simp add: node_safe_def owns_def)

lemma owns_Cons: "owns k (v # mm) \<longleftrightarrow> owns k mm \<and> va_ptr v \<notin> ptrs mm \<and> kvalid k (Cache vma_cache) (va_ptr v)"
  unfolding owns_def by auto

lemma owns_slub: "owns k mm \<Longrightarrow> slub_inv k"
  by (simp add: owns_def)

lemma vma_alloc_owns:
  assumes o: "owns k mm" and a: "vma_alloc start end flags k = (Some v, k')"
  shows "node_safe mm k (v # mm) k'"
proof -
  note n = cache_alloc_node [OF owns_slub [OF o] _ vma_alloc_fields(4) [OF a], simplified]
  show ?thesis using o n unfolding node_safe_def owns_Cons by (auto simp: owns_def)
qed

lemma vma_alloc_none:
  assumes "owns k mm" and a: "vma_alloc start end flags k = (None, k')"
  shows "k' = k"
proof -
  have "kmem_cache_alloc vma_cache k = (None, k')"
    using a by (auto simp: vma_alloc_def split: prod.splits option.splits)
  then show ?thesis using kmem_cache_alloc_none [OF owns_slub [OF assms(1)], of vma_cache] by auto
qed

lemma vma_free_owns:
  assumes "owns k (v # mm)"
  shows "node_safe (v # mm) k mm (kmem_cache_free vma_cache (va_ptr v) k)"
proof -
  have "slub_inv k" "kvalid k (Cache vma_cache) (va_ptr v)" using assms by (auto simp: owns_def)
  note n = cache_free_node [OF this]
  show ?thesis using assms n unfolding node_safe_def owns_Cons by (auto simp: owns_def)
qed

text \<open>One round of the loop, and the rounds after it.\<close>

lemma erased_nodes:
  assumes o: "owns k (v # mm)" and e: "erased start end v hs k k1"
  shows "node_safe (v # mm) k (hs @ mm) k1"
proof -
  consider "hs = []" "k1 = kmem_cache_free vma_cache (va_ptr v) k"
    | w where "hs = [w]" "va_ptr w = va_ptr v" "k1 = k"
    | w p where "hs = [w, p]" "va_ptr w = va_ptr v" "kmem_cache_alloc vma_cache k = (Some (va_ptr p), k1)"
    using e by (auto simp: erased_def)
  then show ?thesis
  proof cases
    case 1
    then show ?thesis using vma_free_owns [OF o] by simp
  next
    case 2
    then show ?thesis using o by (auto simp: node_safe_def owns_def)
  next
    case 3
    then have "vma_alloc (vm_start p) (vm_end p) (vm_flags p) k = (Some p, k1)" by (simp add: vma_alloc_def)
    note n = vma_alloc_owns [OF o this]
    then have "dptrs (p # v # mm)" by (simp add: node_safe_def owns_def)
    then show ?thesis using 3 by (intro node_safe_perm [OF n]) auto
  qed
qed

lemma node_safe_tail:
  assumes o: "owns k (hs @ mm)" and n: "owns k mm \<Longrightarrow> node_safe mm k next' k'"
  shows "node_safe (hs @ mm) k (hs @ next') k'"
proof -
  have "owns k mm" using o unfolding owns_def by simp
  note n = n [OF this]
  have "ptrs hs \<inter> ptrs mm = {}" "\<forall>p\<in>ptrs hs. kvalid k (Cache vma_cache) p" "dptrs hs"
    using o unfolding owns_def by auto
  then show ?thesis using n unfolding node_safe_def owns_def by (simp, blast)
qed

lemma vma_erase_owns:
  assumes "vma_erase_range start end mm k = (r, mm', k')" and "owns k mm"
  shows "node_safe mm k mm' k'"
  using assms
proof (induction mm arbitrary: r mm' k k')
  case (Cons v mm)
  from Cons.prems(1) show ?case
  proof (cases rule: vma_erase_step)
    case nomem
    then have "k' = k" using kmem_cache_alloc_none [OF owns_slub [OF Cons.prems(2)] _ nomem(3)] by simp
    then show ?thesis using nomem Cons.prems(2) by (simp add: node_safe_refl)
  next
    case (erase hs next' k1)
    note e = erased_nodes [OF Cons.prems(2) erase(3)]
    then have "owns k1 (hs @ mm)" by (simp add: node_safe_def)
    from node_safe_tail [OF this Cons.IH [OF erase(2)]] show ?thesis
      unfolding erase(1) by (rule node_safe_trans [OF e])
  qed
qed (simp add: node_safe_refl)

lemma insert_vma_ptrs:
  assumes "insert_vma mm new = (r, mm')"
  shows "r = - EINVAL \<and> mm' = mm \<or>
    r = 0 \<and> (dptrs (new # mm) \<longrightarrow> dptrs mm') \<and> ptrs mm' = ptrs (new # mm)"
proof -
  define b where "b = takeWhile (\<lambda>v. vm_start v < vm_start new) mm"
  define d where "d = dropWhile (\<lambda>v. vm_start v < vm_start new) mm"
  have mm: "mm = b @ d" by (simp add: b_def d_def)
  have "r = - EINVAL \<and> mm' = mm \<or> r = 0 \<and> mm' = b @ new # d"
    using assms unfolding insert_vma_def Let_def b_def [symmetric] d_def [symmetric] by (auto split: if_splits)
  then show ?thesis unfolding mm by auto
qed

lemma insert_vma_owns:
  assumes o: "owns k (v # mm)" and i: "insert_vma mm v = (0, mm')"
  shows "owns k mm'"
  using insert_vma_ptrs [OF i] o by (auto simp: owns_def)

lemma vma_record_owns:
  assumes r: "vma_record mm start end flags k = (r, mm', k')" and o: "owns k mm"
  shows "node_safe mm k mm' k'"
proof (cases "start \<ge> end")
  case True
  then show ?thesis using r o by (auto simp: vma_record_def node_safe_refl)
next
  case False
  obtain t k1 where t: "vma_alloc start end flags k = (t, k1)" by fastforce
  show ?thesis
  proof (cases t)
    case None
    then show ?thesis
      using r o t False vma_alloc_none [OF o t [unfolded None]] by (auto simp: vma_record_def node_safe_refl)
  next
    case (Some v)
    note n = vma_alloc_owns [OF o t [unfolded Some]]
    then have o1: "owns k1 (v # mm)" by (simp add: node_safe_def)
    obtain ret mm1 where i: "insert_vma mm v = (ret, mm1)" by fastforce
    from insert_vma_ptrs [OF i] show ?thesis
    proof (elim disjE conjE)
      assume "ret = - EINVAL" "mm1 = mm"
      then show ?thesis
        using r t Some False i node_safe_trans [OF n vma_free_owns [OF o1]] by (auto simp: vma_record_def)
    next
      assume "ret = 0" "ptrs mm1 = ptrs (v # mm)"
      then have "mm' = mm1" "k' = k1" using r t Some False i by (auto simp: vma_record_def)
      then show ?thesis
        using insert_vma_owns [OF o1] i n \<open>ret = 0\<close> \<open>ptrs mm1 = ptrs (v # mm)\<close> by (auto simp: node_safe_def)
    qed
  qed
qed

lemma vma_split_owns:
  assumes o: "owns k mm" and v: "v \<in> set mm" and s: "vma_split v addr mm k = (r, mm', k')"
  shows "node_safe mm k mm' k'"
proof (cases "addr \<le> vm_start v \<or> addr \<ge> vm_end v")
  case True
  then show ?thesis using o s by (auto simp: vma_split_def node_safe_refl)
next
  case False
  obtain t k1 where t: "vma_alloc addr (vm_end v) (vm_flags v) k = (t, k1)" by fastforce
  show ?thesis
  proof (cases t)
    case None
    then show ?thesis using o s t False vma_alloc_none [OF o t [unfolded None]] by (auto simp: vma_split_def node_safe_refl)
  next
    case (Some w)
    have d: "dptrs mm" using o by (simp add: owns_def)
    have e: "mm' = replace_vma (va_ptr v) [v\<lparr>vm_end := addr\<rparr>, w] mm" "k' = k1"
      using False s t Some by (auto simp: vma_split_def)
    note n = vma_alloc_owns [OF o t [unfolded Some]]
    from v d show ?thesis
    proof (rule replace_vma_split)
      fix b r
      assume br: "mm = b @ v # r" "replace_vma (va_ptr v) [v\<lparr>vm_end := addr\<rparr>, w] mm =
        b @ [v\<lparr>vm_end := addr\<rparr>, w] @ r"
      have p: "ptrs mm' = ptrs (w # mm)" unfolding e(1) br(2) unfolding br(1) by auto
      have "dptrs (w # mm)" using n by (simp add: node_safe_def owns_def)
      then have "dptrs mm'" unfolding e(1) br(2) unfolding br(1) by auto
      then show ?thesis using node_safe_perm [OF n p [symmetric]] e(2) by simp
    qed
  qed
qed

lemma free_vma_chain_owns:
  "owns k mm \<Longrightarrow> node_safe mm k [] (free_vma_chain mm k)"
proof (induction mm arbitrary: k)
  case (Cons v mm)
  note n = vma_free_owns [OF Cons.prems]
  then have "owns (kmem_cache_free vma_cache (va_ptr v) k) mm" by (simp add: node_safe_def)
  from node_safe_trans [OF n Cons.IH [OF this]] show ?case by simp
qed (simp add: node_safe_refl)

definition shape :: "vma \<Rightarrow> u64 \<times> u64 \<times> u64" where
  "shape v = (vm_start v, vm_end v, vm_flags v)"

lemma shape_prot: "map shape xs = map shape ys \<Longrightarrow> prot_at xs x = prot_at ys x"
proof (induction xs arbitrary: ys)
  case (Cons v xs)
  then obtain w zs where ys: "ys = w # zs" "shape v = shape w" "map shape xs = map shape zs" by (cases ys) auto
  show ?case using Cons.IH [OF ys(3)] ys(2) by (simp add: ys(1) shape_def covers_def)
qed simp

lemma dup_vma_loop_owns:
  assumes "dup_vma_loop src head k = (copy, k')" and "owns k head"
  shows "node_safe head k copy k' \<and> (copy = [] \<or> map shape copy = map shape (head @ src))"
  using assms
proof (induction src arbitrary: head k)
  case (Cons v src)
  obtain t k1 where t: "vma_alloc (vm_start v) (vm_end v) (vm_flags v) k = (t, k1)" by fastforce
  show ?case
  proof (cases t)
    case None
    then show ?thesis
      using Cons.prems t vma_alloc_none [OF Cons.prems(2) t [unfolded None]] free_vma_chain_owns [OF Cons.prems(2)] by auto
  next
    case (Some w)
    note f = vma_alloc_fields [OF t [unfolded Some]] and n = vma_alloc_owns [OF Cons.prems(2) t [unfolded Some]]
    have n': "node_safe head k (head @ [w]) k1"
      using n by (rule node_safe_perm) (use n in \<open>auto simp: node_safe_def owns_def\<close>)
    then have "owns k1 (head @ [w])" by (simp add: node_safe_def)
    then have "node_safe (head @ [w]) k1 copy k' \<and> (copy = [] \<or> map shape copy = map shape (head @ w # src))"
      using Cons.IH [of "head @ [w]" k1] Cons.prems(1) t Some by simp
    moreover have "shape w = shape v" using f by (simp add: shape_def)
    ultimately show ?thesis using node_safe_trans [OF n', of copy k'] by auto
  qed
qed (simp add: node_safe_refl)

end
