(* ===== verification/Pgtable.thy ===== *)
theory Pgtable
  imports Slub_Correct
begin

text \<open>
  The user page tables of \<^verbatim>\<open>mm/mmap.c\<close>: three levels of 512 eight-byte entries, reached by their
  physical addresses.  The memory the code reads and writes through page pointers (tables and
  user pages alike) is the function \<open>words\<close>: the word at an index of the page at a kernel
  address.  Cache maintenance and TLB flushes have no counterpart: the model has no caches.
\<close>

subsection \<open>Entries\<close>

abbreviation (input) PTE_TABLE :: u64 where "PTE_TABLE \<equiv> 3"
abbreviation (input) PTE_VALID :: u64 where "PTE_VALID \<equiv> 3"
abbreviation (input) PTE_AF :: u64 where "PTE_AF \<equiv> 0x400"
abbreviation (input) PTE_SHARED :: u64 where "PTE_SHARED \<equiv> 0x300"
abbreviation (input) PTE_USER :: u64 where "PTE_USER \<equiv> 0x40"
abbreviation (input) PTE_RDONLY :: u64 where "PTE_RDONLY \<equiv> 0x80"
abbreviation (input) PTE_NG :: u64 where "PTE_NG \<equiv> 0x800"
abbreviation (input) PTE_UXN :: u64 where "PTE_UXN \<equiv> 0x40000000000000"
abbreviation (input) PTE_ADDR_MASK :: u64 where "PTE_ADDR_MASK \<equiv> 0x0000FFFFFFFFF000"
abbreviation (input) PTE_FLAGS_MASK :: u64 where "PTE_FLAGS_MASK \<equiv> NOT PTE_ADDR_MASK"
abbreviation (input) PTE_ENTRIES :: nat where "PTE_ENTRIES \<equiv> 512"

abbreviation (input) MAP_PROT_READ :: u64 where "MAP_PROT_READ \<equiv> 1"
abbreviation (input) MAP_PROT_WRITE :: u64 where "MAP_PROT_WRITE \<equiv> 2"
abbreviation (input) MAP_PROT_EXEC :: u64 where "MAP_PROT_EXEC \<equiv> 4"

definition pte_present :: "u64 \<Rightarrow> bool" where
  "pte_present pte \<longleftrightarrow> pte AND 1 \<noteq> 0"

definition pte_write :: "u64 \<Rightarrow> bool" where
  "pte_write pte \<longleftrightarrow> pte_present pte \<and> \<not> pte AND PTE_RDONLY \<noteq> 0"

definition pte_wrprotect :: "u64 \<Rightarrow> u64" where
  "pte_wrprotect pte = pte OR PTE_RDONLY"

definition pte_mkwrite :: "u64 \<Rightarrow> u64" where
  "pte_mkwrite pte = pte AND NOT PTE_RDONLY"

definition pte_cow_candidate :: "u64 \<Rightarrow> u64 \<Rightarrow> bool" where
  "pte_cow_candidate pte vm_flags \<longleftrightarrow>
     pte_present pte \<and> pte AND PTE_RDONLY \<noteq> 0 \<and> vm_flags AND MAP_PROT_WRITE \<noteq> 0"

definition linux_prot_to_map :: "u64 \<Rightarrow> u64" where
  "linux_prot_to_map prot =
     (let m0 = 0;
          m1 = (if prot AND 1 \<noteq> 0 then m0 OR MAP_PROT_READ else m0);
          m2 = (if prot AND 2 \<noteq> 0 then m1 OR MAP_PROT_WRITE else m1) in
      if prot AND 4 \<noteq> 0 then m2 OR MAP_PROT_EXEC else m2)"

definition prot_to_pte :: "u64 \<Rightarrow> u64" where
  "prot_to_pte prot =
     (let pte0 = PTE_VALID OR PTE_AF OR PTE_SHARED OR PTE_NG;
          pte1 = (if prot AND (MAP_PROT_READ OR MAP_PROT_WRITE OR MAP_PROT_EXEC) \<noteq> 0
                  then pte0 OR PTE_USER else pte0);
          pte2 = (if \<not> prot AND MAP_PROT_WRITE \<noteq> 0 then pte1 OR PTE_RDONLY else pte1) in
      if \<not> prot AND MAP_PROT_EXEC \<noteq> 0 then pte2 OR PTE_UXN else pte2)"

subsection \<open>Memory and tables\<close>

record vmstate =
  km :: kmem
  words :: "u64 \<Rightarrow> nat \<Rightarrow> u64"

definition buddy_of :: "vmstate \<Rightarrow> buddy" where
  "buddy_of st = pg (km st)"

definition set_buddy :: "buddy \<Rightarrow> vmstate \<Rightarrow> vmstate" where
  "set_buddy p st = st\<lparr>km := (km st)\<lparr>pg := p\<rparr>\<rparr>"

definition page_zero :: "u64 \<Rightarrow> vmstate \<Rightarrow> vmstate" where
  "page_zero page st = st\<lparr>words := (words st)(page := \<lambda>_. 0)\<rparr>"

definition pte_set :: "u64 \<Rightarrow> nat \<Rightarrow> u64 \<Rightarrow> vmstate \<Rightarrow> vmstate" where
  "pte_set table i val st = st\<lparr>words := (words st)(table := (words st table)(i := val))\<rparr>"

definition l1_idx :: "u64 \<Rightarrow> nat" where "l1_idx va = unat (drop_bit 30 va AND 0x1ff)"
definition l2_idx :: "u64 \<Rightarrow> nat" where "l2_idx va = unat (drop_bit 21 va AND 0x1ff)"
definition l3_idx :: "u64 \<Rightarrow> nat" where "l3_idx va = unat (drop_bit 12 va AND 0x1ff)"

definition table_at :: "u64 \<Rightarrow> u64 option" where
  "table_at entry =
     (if entry AND 1 = 0 \<or> entry AND 3 \<noteq> PTE_TABLE then None
      else Some (phys_to_virt (entry AND PTE_ADDR_MASK)))"

definition l3_slot :: "vmstate \<Rightarrow> u64 \<Rightarrow> u64 \<Rightarrow> (u64 \<times> nat) option" where
  "l3_slot st pgd va =
     (if pgd = 0 then None
      else
        case table_at (words st pgd (l1_idx va)) of
          None \<Rightarrow> None
        | Some l2 \<Rightarrow>
            (case table_at (words st l2 (l2_idx va)) of
               None \<Rightarrow> None
             | Some l3 \<Rightarrow> Some (l3, l3_idx va)))"

definition change_pte_prot :: "u64 \<Rightarrow> u64 \<Rightarrow> u64 \<Rightarrow> vmstate \<Rightarrow> vmstate" where
  "change_pte_prot pgd va map_prot st =
     (case l3_slot st pgd va of
        None \<Rightarrow> st
      | Some (l3, i) \<Rightarrow>
          let old = words st l3 i in
          if \<not> pte_present old then st
          else
            let pte = (old AND PTE_ADDR_MASK) OR prot_to_pte map_prot;
                page = virt_to_page (buddy_of st) (phys_to_virt (old AND PTE_ADDR_MASK));
                pte' = (if map_prot AND MAP_PROT_WRITE \<noteq> 0 \<and> page \<noteq> None \<and>
                          page_count page (buddy_of st) > 1
                        then pte_wrprotect pte else pte) in
            pte_set l3 i pte' st)"

text \<open>
  The addresses visited by \<open>for (va = start; va < end; va += PAGE_SIZE)\<close>.  The sum cannot wrap as
  long as \<open>end\<close> is at most the last page boundary, which \<open>page_range_unfold\<close> makes precise.
\<close>

definition page_range :: "u64 \<Rightarrow> u64 \<Rightarrow> u64 list" where
  "page_range start end =
     map (\<lambda>i. start + of_nat (4096 * i)) [0..<(unat end - unat start + 4095) div 4096]"

definition change_prot_range :: "u64 \<Rightarrow> u64 \<Rightarrow> u64 \<Rightarrow> u64 \<Rightarrow> vmstate \<Rightarrow> vmstate" where
  "change_prot_range pgd start end map_prot st =
     fold (\<lambda>va. change_pte_prot pgd va map_prot) (page_range start end) st"

definition get_or_create_table :: "u64 \<Rightarrow> nat \<Rightarrow> vmstate \<Rightarrow> u64 option \<times> vmstate" where
  "get_or_create_table parent index st =
     (let entry = words st parent index in
      if entry AND 1 \<noteq> 0 then
        (if entry AND 3 \<noteq> PTE_TABLE then (None, st)
         else (Some (phys_to_virt (entry AND PTE_ADDR_MASK)), st))
      else
        case alloc_pages 0 (buddy_of st) of
          (None, p) \<Rightarrow> (None, set_buddy p st)
        | (Some table, p) \<Rightarrow>
            (Some table, pte_set parent index (virt_to_phys table OR PTE_TABLE) (page_zero table (set_buddy p st))))"

text \<open>
  \<open>free_pgtable_level\<close> and its loop over the entries of one table.  Levels run from 1 (the root)
  to 3 (leaf entries).
\<close>

function free_pgtable_level :: "u64 \<Rightarrow> nat \<Rightarrow> vmstate \<Rightarrow> vmstate"
  and free_pgtable_entries :: "u64 \<Rightarrow> nat \<Rightarrow> nat \<Rightarrow> vmstate \<Rightarrow> vmstate" where
  "free_pgtable_level table level st =
     (if table = 0 then st
      else let st1 = free_pgtable_entries table level 0 st in
        set_buddy (free_pages table 0 (buddy_of st1)) st1)"
| "free_pgtable_entries table level i st =
     (if i < PTE_ENTRIES then
        let ent = words st table i in
        if ent AND 1 = 0 then free_pgtable_entries table level (i + 1) st
        else if level < 3 then
          free_pgtable_entries table level (i + 1)
            (free_pgtable_level (phys_to_virt (ent AND PTE_ADDR_MASK)) (level + 1) st)
        else
          free_pgtable_entries table level (i + 1)
            (set_buddy (put_page (virt_to_page (buddy_of st) (phys_to_virt (ent AND PTE_ADDR_MASK)))
               (buddy_of st)) st)
      else st)"
  by pat_completeness auto
termination
  by (relation "measure (\<lambda>x. case x of
        Inl (table, level, st) \<Rightarrow> (4 - level) * 1000 + 600
      | Inr (table, level, i, st) \<Rightarrow> (4 - level) * 1000 + (512 - i))") auto

declare free_pgtable_level.simps [simp del] free_pgtable_entries.simps [simp del]

definition free_user_page_tables :: "u64 \<Rightarrow> vmstate \<Rightarrow> vmstate" where
  "free_user_page_tables pgd st = free_pgtable_level pgd 1 st"

text \<open>\<open>dup_pgtable_level\<close> and its loop, which fills \<open>dst\<close> and stops with \<open>None\<close> after a failure.\<close>

function dup_pgtable_level :: "u64 \<Rightarrow> nat \<Rightarrow> vmstate \<Rightarrow> u64 option \<times> vmstate"
  and dup_pgtable_entries :: "u64 \<Rightarrow> u64 \<Rightarrow> nat \<Rightarrow> nat \<Rightarrow> vmstate \<Rightarrow> u64 option \<times> vmstate" where
  "dup_pgtable_level src level st =
     (case alloc_pages 0 (buddy_of st) of
        (None, p) \<Rightarrow> (None, set_buddy p st)
      | (Some dst, p) \<Rightarrow> dup_pgtable_entries src dst level 0 (page_zero dst (set_buddy p st)))"
| "dup_pgtable_entries src dst level i st =
     (if i < PTE_ENTRIES then
        let ent = words st src i in
        if ent AND 1 = 0 then dup_pgtable_entries src dst level (i + 1) st
        else if level < 3 then
          (case dup_pgtable_level (phys_to_virt (ent AND PTE_ADDR_MASK)) (level + 1) st of
             (None, st1) \<Rightarrow> (None, free_pgtable_level dst level st1)
           | (Some child, st1) \<Rightarrow>
               dup_pgtable_entries src dst level (i + 1)
                 (pte_set dst i (virt_to_phys child OR (ent AND PTE_FLAGS_MASK)) st1))
        else
          (case virt_to_page (buddy_of st) (phys_to_virt (ent AND PTE_ADDR_MASK)) of
             None \<Rightarrow> (None, free_pgtable_level dst level st)
           | Some page \<Rightarrow>
               let shared = (if pte_write ent then pte_wrprotect ent else ent);
                   st1 = set_buddy (get_page (Some page) (buddy_of st)) st in
               dup_pgtable_entries src dst level (i + 1) (pte_set dst i shared (pte_set src i shared st1)))
      else (Some dst, st))"
  by pat_completeness auto
termination
  by (relation "measure (\<lambda>x. case x of
        Inl (src, level, st) \<Rightarrow> (4 - level) * 1000 + 600
      | Inr (src, dst, level, i, st) \<Rightarrow> (4 - level) * 1000 + (512 - i))") auto

declare dup_pgtable_level.simps [simp del] dup_pgtable_entries.simps [simp del]

definition dup_pgtable :: "u64 \<Rightarrow> nat \<Rightarrow> vmstate \<Rightarrow> u64 option \<times> vmstate" where
  "dup_pgtable src level st = dup_pgtable_level src level st"

definition map_page :: "u64 \<Rightarrow> u64 \<Rightarrow> u64 \<Rightarrow> u64 \<Rightarrow> vmstate \<Rightarrow> int \<times> vmstate" where
  "map_page pgd va pa prot st =
     (case get_or_create_table pgd (l1_idx va) st of
        (None, st1) \<Rightarrow> (- ENOMEM, st1)
      | (Some l2, st1) \<Rightarrow>
          (case get_or_create_table l2 (l2_idx va) st1 of
             (None, st2) \<Rightarrow> (- ENOMEM, st2)
           | (Some l3, st2) \<Rightarrow>
               (0, pte_set l3 (l3_idx va) ((pa AND PTE_ADDR_MASK) OR prot_to_pte prot) st2)))"

fun do_map_loop :: "u64 \<Rightarrow> u64 list \<Rightarrow> u64 \<Rightarrow> u64 \<Rightarrow> vmstate \<Rightarrow> int \<times> vmstate" where
  "do_map_loop pgd [] phys prot st = (0, st)"
| "do_map_loop pgd (va # vas) phys prot st =
     (let (err, st1) = map_page pgd va phys prot st in
      if err \<noteq> 0 then (err, st1) else do_map_loop pgd vas (phys + PAGE_SIZE) prot st1)"

definition do_map :: "u64 \<Rightarrow> u64 \<Rightarrow> u64 \<Rightarrow> u64 \<Rightarrow> u64 \<Rightarrow> vmstate \<Rightarrow> int \<times> vmstate" where
  "do_map pgd virt phys size0 prot st =
     (if pgd = 0 then (- EINVAL, st)
      else if size0 = 0 then (0, st)
      else do_map_loop pgd (page_range (page_align_down virt) (page_align_up (virt + size0))) phys prot st)"

definition va_mapped :: "vmstate \<Rightarrow> u64 \<Rightarrow> u64 \<Rightarrow> bool" where
  "va_mapped st pgd va =
     (case l3_slot st pgd va of None \<Rightarrow> False | Some (l3, i) \<Rightarrow> words st l3 i AND 1 \<noteq> 0)"

definition unmap_page :: "u64 \<Rightarrow> u64 \<Rightarrow> vmstate \<Rightarrow> vmstate" where
  "unmap_page pgd va st =
     (case table_at (words st pgd (l1_idx va)) of
        None \<Rightarrow> st
      | Some l2 \<Rightarrow>
          (case table_at (words st l2 (l2_idx va)) of
             None \<Rightarrow> st
           | Some l3 \<Rightarrow>
               let entry = words st l3 (l3_idx va) in
               if entry AND 1 = 0 then st
               else
                 let p = virt_to_page (buddy_of st) (phys_to_virt (entry AND PTE_ADDR_MASK));
                     st1 = pte_set l3 (l3_idx va) 0 st in
                 if p \<noteq> None then set_buddy (put_page p (buddy_of st1)) st1 else st1))"

end
