(* ===== verification/Mmap.thy ===== *)
theory Mmap
  imports Vma_Correct Pgtable
begin

text \<open>
  The memory system calls of \<^verbatim>\<open>mm/mmap.c\<close> (\<open>brk\<close>, \<open>mmap\<close>, \<open>munmap\<close>, \<open>mprotect\<close>), the page fault handler
  with its copy-on-write break, and the life of a \<^verbatim>\<open>struct mm_struct\<close> (\<open>mm_alloc\<close>, \<open>dup_mm\<close>, \<open>mm_put\<close>).
  An operation takes the address space and the memory and returns both; its first component is
  the C result.  A null \<open>pgd\<close> is \<open>0\<close>.
\<close>

subsection \<open>The address space\<close>

record mm_struct =
  mm_ptr :: u64
  mmap :: "vma list"
  pgd :: u64
  entry :: u64
  stack_top :: u64
  start_brk :: u64
  brk :: u64
  mmap_base :: u64
  users :: int

abbreviation USER_STACK_SIZE :: u64 where "USER_STACK_SIZE \<equiv> 0x10000"
abbreviation USER_STACK_BOTTOM :: u64 where "USER_STACK_BOTTOM \<equiv> 0x4030000"
abbreviation (input) MAP_FIXED :: u64 where "MAP_FIXED \<equiv> 0x10"
abbreviation (input) MAP_ANONYMOUS :: u64 where "MAP_ANONYMOUS \<equiv> 0x20"

definition set_km :: "kmem \<Rightarrow> vmstate \<Rightarrow> vmstate" where
  "set_km k st = st\<lparr>km := k\<rparr>"

fun unmapped_scan :: "u64 \<Rightarrow> u64 \<Rightarrow> vma list \<Rightarrow> u64 \<Rightarrow> u64" where
  "unmapped_scan len limit [] lst = (if lst + len \<le> limit then lst else 0)"
| "unmapped_scan len limit (v # vs) lst =
     (if lst + len \<le> vm_start v \<and> lst + len \<le> limit then lst
      else unmapped_scan len limit vs (if vm_end v > lst then page_align_up (vm_end v) else lst))"

definition find_unmapped_area :: "mm_struct \<Rightarrow> u64 \<Rightarrow> u64" where
  "find_unmapped_area mm len =
     (let stack_limit = (if stack_top mm \<noteq> 0 then stack_top mm - USER_STACK_SIZE else USER_STACK_BOTTOM) in
      unmapped_scan len stack_limit (mmap mm) (page_align_up (mmap_base mm)))"

definition unmap_range :: "u64 \<Rightarrow> u64 \<Rightarrow> u64 \<Rightarrow> vmstate \<Rightarrow> vmstate" where
  "unmap_range pt start end st = fold (unmap_page pt) (page_range start end) st"

definition do_munmap :: "u64 \<Rightarrow> u64 \<Rightarrow> mm_struct \<Rightarrow> vmstate \<Rightarrow> int \<times> mm_struct \<times> vmstate" where
  "do_munmap addr len mm st =
     (if pgd mm = 0 then (- EINVAL, mm, st)
      else if len = 0 then (0, mm, st)
      else if addr AND (PAGE_SIZE - 1) \<noteq> 0 then (- EINVAL, mm, st)
      else
        let end = page_align_up (addr + len);
            (err, vs, k) = vma_erase_range addr end (mmap mm) (km st);
            mm1 = mm\<lparr>mmap := vs\<rparr>; st1 = set_km k st in
        if err \<noteq> 0 then (err, mm1, st1)
        else (0, mm1, unmap_range (pgd mm) addr end st1))"

text \<open>\<open>vm_next\<close> of the node at address \<open>p\<close>.\<close>

fun next_vma :: "u64 \<Rightarrow> vma list \<Rightarrow> vma option" where
  "next_vma p [] = None"
| "next_vma p (v # vs) = (if va_ptr v = p then (case vs of [] \<Rightarrow> None | w # _ \<Rightarrow> Some w) else next_vma p vs)"

text \<open>The growing and the shrinking half of \<open>do_brk\<close>; \<open>False\<close> is the early return of \<open>oldbrk\<close>.\<close>

definition brk_grow :: "u64 \<Rightarrow> mm_struct \<Rightarrow> vmstate \<Rightarrow> bool \<times> mm_struct \<times> vmstate" where
  "brk_grow newbrk mm st =
     (let new_end = page_align_up newbrk in
      case find_heap_vma (start_brk mm) (mmap mm) of
        None \<Rightarrow>
          (let (r, vs, k) = vma_record (mmap mm) (start_brk mm) new_end (MAP_PROT_READ OR MAP_PROT_WRITE) (km st) in
           (\<not> r < 0, mm\<lparr>mmap := vs\<rparr>, set_km k st))
      | Some h \<Rightarrow>
          (if (case next_vma (va_ptr h) (mmap mm) of None \<Rightarrow> False | Some w \<Rightarrow> new_end > vm_start w)
           then (False, mm, st)
           else if new_end > vm_end h
           then (True, mm\<lparr>mmap := replace_vma (va_ptr h) [h\<lparr>vm_end := new_end\<rparr>] (mmap mm)\<rparr>, st)
           else (True, mm, st)))"

definition brk_shrink :: "u64 \<Rightarrow> mm_struct \<Rightarrow> vmstate \<Rightarrow> mm_struct \<times> vmstate" where
  "brk_shrink newbrk mm st =
     (let old_end = page_align_up (brk mm); new_end = page_align_up newbrk;
          st1 = unmap_range (pgd mm) new_end old_end st in
      case find_heap_vma (start_brk mm) (mmap mm) of
        None \<Rightarrow> (mm, st1)
      | Some h \<Rightarrow>
          if new_end \<le> vm_start h
          then (mm\<lparr>mmap := snd (remove_vma (mmap mm) h)\<rparr>,
                set_km (kmem_cache_free vma_cache (va_ptr h) (km st1)) st1)
          else (mm\<lparr>mmap := replace_vma (va_ptr h) [h\<lparr>vm_end := new_end\<rparr>] (mmap mm)\<rparr>, st1))"

text \<open>The result is the break, an unsigned word that C returns as \<open>long\<close>; errors are negative.\<close>

definition do_brk :: "u64 \<Rightarrow> mm_struct \<Rightarrow> vmstate \<Rightarrow> int \<times> mm_struct \<times> vmstate" where
  "do_brk newbrk mm st =
     (if pgd mm = 0 then (- EINVAL, mm, st)
      else
        let oldbrk = brk mm;
            stack_limit = (if stack_top mm \<noteq> 0 then stack_top mm - USER_STACK_SIZE else 0) in
        if newbrk < start_brk mm \<or> stack_limit \<noteq> 0 \<and> newbrk \<ge> stack_limit then (sint oldbrk, mm, st)
        else if newbrk = oldbrk then (sint oldbrk, mm, st)
        else if newbrk > oldbrk then
          (let (ok, mm1, st1) = brk_grow newbrk mm st in
           if \<not> ok then (sint oldbrk, mm1, st1) else (sint newbrk, mm1\<lparr>brk := newbrk\<rparr>, st1))
        else
          let (mm1, st1) = brk_shrink newbrk mm st in (sint newbrk, mm1\<lparr>brk := newbrk\<rparr>, st1))"

text \<open>Where \<open>do_mmap\<close> puts the area: an error, or the address after clearing a fixed range.\<close>

definition mmap_place :: "u64 \<Rightarrow> u64 \<Rightarrow> u64 \<Rightarrow> mm_struct \<Rightarrow> vmstate \<Rightarrow> (int + u64) \<times> mm_struct \<times> vmstate" where
  "mmap_place addr len flags mm st =
     (let stack_limit = (if stack_top mm \<noteq> 0 then stack_top mm - USER_STACK_SIZE else USER_STACK_BOTTOM) in
      if addr = 0 \<or> flags AND MAP_FIXED = 0 then
        (let va = find_unmapped_area mm len in
         if va = 0 then (Inl (- ENOMEM), mm, st) else (Inr va, mm, st))
      else
        let va = page_align_down addr in
        if va = 0 \<or> va + len > stack_limit then (Inl (- EINVAL), mm, st)
        else
          let (err, vs, k) = vma_erase_range va (va + len) (mmap mm) (km st);
              mm1 = mm\<lparr>mmap := vs\<rparr>; st1 = set_km k st in
          if err \<noteq> 0 then (Inl err, mm1, st1)
          else (Inr va, mm1, unmap_range (pgd mm) va (va + len) st1))"

definition do_mmap :: "u64 \<Rightarrow> u64 \<Rightarrow> u64 \<Rightarrow> u64 \<Rightarrow> mm_struct \<Rightarrow> vmstate \<Rightarrow> int \<times> mm_struct \<times> vmstate" where
  "do_mmap addr len0 prot flags mm st =
     (if pgd mm = 0 \<or> len0 = 0 then (- EINVAL, mm, st)
      else if flags AND MAP_ANONYMOUS = 0 then (- EINVAL, mm, st)
      else
        let len = page_align_up len0; map_prot = linux_prot_to_map prot in
        case mmap_place addr len flags mm st of
          (Inl err, mm1, st1) \<Rightarrow> (err, mm1, st1)
        | (Inr va, mm1, st1) \<Rightarrow>
            (case vma_alloc va (va + len) map_prot (km st1) of
               (None, k) \<Rightarrow> (- ENOMEM, mm1, set_km k st1)
             | (Some v, k) \<Rightarrow>
                 let (err, vs) = insert_vma (mmap mm1) v in
                 if err \<noteq> 0 then (err, mm1, set_km (kmem_cache_free vma_cache (va_ptr v) k) st1)
                 else
                   (sint va,
                    mm1\<lparr>mmap := vs, mmap_base := (if va + len > mmap_base mm1 then va + len else mmap_base mm1)\<rparr>,
                    set_km k st1)))"

subsection \<open>Protection\<close>

text \<open>
  The last loop of \<open>mm_mprotect\<close>, from the first area that ends above \<open>start\<close> to the first that
  starts at or above \<open>end\<close>.
\<close>

fun mprotect_apply :: "u64 \<Rightarrow> u64 \<Rightarrow> u64 \<Rightarrow> vma list \<Rightarrow> vmstate \<Rightarrow> vma list \<times> vmstate" where
  "mprotect_apply pt end map_prot [] st = ([], st)"
| "mprotect_apply pt end map_prot (v # vs) st =
     (if vm_start v < end then
        let v' = v\<lparr>vm_flags := (vm_flags v AND NOT (MAP_PROT_READ OR MAP_PROT_WRITE OR MAP_PROT_EXEC)) OR map_prot\<rparr>;
            (vs', st') = mprotect_apply pt end map_prot vs (change_prot_range pt (vm_start v) (vm_end v) map_prot st) in
        (v' # vs', st')
      else (v # vs, st))"

fun mprotect_from :: "u64 \<Rightarrow> u64 \<Rightarrow> u64 \<Rightarrow> u64 \<Rightarrow> vma list \<Rightarrow> vmstate \<Rightarrow> vma list \<times> vmstate" where
  "mprotect_from pt start end map_prot [] st = ([], st)"
| "mprotect_from pt start end map_prot (v # vs) st =
     (if vm_end v > start then mprotect_apply pt end map_prot (v # vs) st
      else let (vs', st') = mprotect_from pt start end map_prot vs st in (v # vs', st'))"

definition split_at_addr :: "u64 \<Rightarrow> u64 \<Rightarrow> vma list \<Rightarrow> kmem \<Rightarrow> int \<times> vma list \<times> kmem" where
  "split_at_addr x addr vs k =
     (case find_vma vs x of None \<Rightarrow> (0, vs, k) | Some v \<Rightarrow> vma_split v addr vs k)"

definition mm_mprotect :: "u64 \<Rightarrow> u64 \<Rightarrow> u64 \<Rightarrow> mm_struct \<Rightarrow> vmstate \<Rightarrow> int \<times> mm_struct \<times> vmstate" where
  "mm_mprotect start end prot mm st =
     (if start \<ge> end then (- EINVAL, mm, st)
      else if \<not> mprotect_covered (mmap mm) start end then (- ENOMEM, mm, st)
      else
        let (err, vs1, k1) = split_at_addr start start (mmap mm) (km st) in
        if err \<noteq> 0 then (err, mm\<lparr>mmap := vs1\<rparr>, set_km k1 st)
        else
          let (err2, vs2, k2) = (if end \<noteq> 0 then split_at_addr (end - 1) end vs1 k1 else (0, vs1, k1)) in
          if err2 \<noteq> 0 then (err2, mm\<lparr>mmap := vs2\<rparr>, set_km k2 st)
          else
            let (vs3, st3) = mprotect_from (pgd mm) start end (linux_prot_to_map prot) vs2 (set_km k2 st) in
            (0, mm\<lparr>mmap := vs3\<rparr>, st3))"

subsection \<open>System calls\<close>

text \<open>The system calls of the current task; \<open>None\<close> stands for a task without user address space.\<close>

definition with_mm :: "(mm_struct \<Rightarrow> vmstate \<Rightarrow> int \<times> mm_struct \<times> vmstate) \<Rightarrow>
    mm_struct option \<Rightarrow> vmstate \<Rightarrow> int \<times> mm_struct option \<times> vmstate" where
  "with_mm f mm st = (case mm of
     None \<Rightarrow> (- EINVAL, None, st) | Some m \<Rightarrow> (let (r, m', st') = f m st in (r, Some m', st')))"

definition ksys_brk :: "u64 \<Rightarrow> mm_struct option \<Rightarrow> vmstate \<Rightarrow> int \<times> mm_struct option \<times> vmstate" where
  "ksys_brk b = with_mm (do_brk b)"

definition ksys_mmap :: "u64 \<Rightarrow> u64 \<Rightarrow> u64 \<Rightarrow> u64 \<Rightarrow> u64 \<Rightarrow> mm_struct option \<Rightarrow> vmstate \<Rightarrow> int \<times> mm_struct option \<times> vmstate" where
  "ksys_mmap addr len prot flags fd =
     with_mm (\<lambda>mm st. if flags AND MAP_ANONYMOUS = 0 \<and> sint fd \<ge> 0 then (- ENODEV, mm, st)
                      else do_mmap addr len prot flags mm st)"

definition ksys_munmap :: "u64 \<Rightarrow> u64 \<Rightarrow> mm_struct option \<Rightarrow> vmstate \<Rightarrow> int \<times> mm_struct option \<times> vmstate" where
  "ksys_munmap addr len = with_mm (do_munmap addr len)"

definition ksys_mprotect :: "u64 \<Rightarrow> u64 \<Rightarrow> u64 \<Rightarrow> mm_struct option \<Rightarrow> vmstate \<Rightarrow> int \<times> mm_struct option \<times> vmstate" where
  "ksys_mprotect addr len prot =
     with_mm (\<lambda>mm st.
       if addr AND (PAGE_SIZE - 1) \<noteq> 0 then (- EINVAL, mm, st)
       else if prot AND NOT (1 OR 2 OR 4) \<noteq> 0 then (- EINVAL, mm, st)
       else if len = 0 then (0, mm, st)
       else if len > NOT 0 - (PAGE_SIZE - 1) then (- ENOMEM, mm, st)
       else
         let nlen = page_align_up len in
         if addr > NOT 0 - nlen then (- ENOMEM, mm, st)
         else mm_mprotect addr (addr + nlen) prot mm st)"

subsection \<open>Page faults\<close>

definition do_cow_fault :: "u64 \<Rightarrow> u64 \<Rightarrow> vma \<Rightarrow> vmstate \<Rightarrow> int \<times> vmstate" where
  "do_cow_fault pt va v st =
     (case l3_slot st pt va of
        None \<Rightarrow> (- EFAULT, st)
      | Some (l3, i) \<Rightarrow>
          let old_pte = words st l3 i in
          if \<not> pte_cow_candidate old_pte (vm_flags v) then (- EFAULT, st)
          else
            let old_kva = phys_to_virt (old_pte AND PTE_ADDR_MASK);
                old = virt_to_page (buddy_of st) old_kva in
            if old = None then (- EFAULT, st)
            else if page_count old (buddy_of st) = 1 then (0, pte_set l3 i (pte_mkwrite old_pte) st)
            else
              case alloc_pages 0 (buddy_of st) of
                (None, p) \<Rightarrow> (- ENOMEM, set_buddy p st)
              | (Some new_page, p) \<Rightarrow>
                  let st1 = set_buddy p st;
                      st2 = st1\<lparr>words := (words st1)(new_page := words st1 old_kva)\<rparr>;
                      new_pte = pte_mkwrite ((virt_to_phys new_page AND PTE_ADDR_MASK) OR (old_pte AND PTE_FLAGS_MASK));
                      st3 = pte_set l3 i new_pte st2 in
                  (0, set_buddy (put_page old (buddy_of st3)) st3))"

definition esr_get_ec :: "u64 \<Rightarrow> u64" where
  "esr_get_ec esr = drop_bit 26 esr AND 0x3f"

definition fault_allowed :: "u64 \<Rightarrow> u64 \<Rightarrow> bool" where
  "fault_allowed esr flags =
     (if esr_get_ec esr = 0x20 then flags AND MAP_PROT_EXEC \<noteq> 0
      else if esr AND 0x40 \<noteq> 0 then flags AND MAP_PROT_WRITE \<noteq> 0
      else flags AND (MAP_PROT_READ OR MAP_PROT_WRITE OR MAP_PROT_EXEC) \<noteq> 0)"

definition do_page_fault :: "mm_struct option \<Rightarrow> u64 \<Rightarrow> u64 \<Rightarrow> vmstate \<Rightarrow> int \<times> vmstate" where
  "do_page_fault mm addr esr st =
     (case mm of
        None \<Rightarrow> (- EFAULT, st)
      | Some mm \<Rightarrow>
          let va = page_align_down addr in
          case find_vma (mmap mm) addr of
            None \<Rightarrow> (- EFAULT, st)
          | Some v \<Rightarrow>
              if addr < vm_start v then (- EFAULT, st)
              else if \<not> fault_allowed esr (vm_flags v) then (- EFAULT, st)
              else if va_mapped st (pgd mm) va then
                (if esr AND 0x40 \<noteq> 0 then do_cow_fault (pgd mm) va v st else (- EFAULT, st))
              else
                case alloc_pages 0 (buddy_of st) of
                  (None, p) \<Rightarrow> (- ENOMEM, set_buddy p st)
                | (Some page, p) \<Rightarrow>
                    let (err, st2) = map_page (pgd mm) va (virt_to_phys page) (vm_flags v)
                                       (page_zero page (set_buddy p st)) in
                    if err \<noteq> 0 then (err, set_buddy (free_pages page 0 (buddy_of st2)) st2)
                    else (0, st2))"

subsection \<open>Life of an address space\<close>

text \<open>\<open>mm_put\<close> returns the struct unless it was the last user, who frees it.\<close>

definition mm_put :: "mm_struct \<Rightarrow> vmstate \<Rightarrow> mm_struct option \<times> vmstate" where
  "mm_put mm0 st =
     (let mm = mm0\<lparr>users := users mm0 - 1\<rparr> in
      if users mm > 0 then (Some mm, st)
      else
        let st1 = (if pgd mm \<noteq> 0 then free_user_page_tables (pgd mm) st else st);
            k1 = snd (free_all_vmas (mmap mm) (km st1)) in
        (None, set_km (kfree (mm_ptr mm) k1) st1))"

definition mm_init :: "u64 \<Rightarrow> vmstate \<Rightarrow> mm_struct option \<times> vmstate" where
  "mm_init p st =
     (case alloc_pages 0 (buddy_of st) of
        (None, b) \<Rightarrow> (None, set_km (kfree p (km (set_buddy b st))) (set_buddy b st))
      | (Some pt, b) \<Rightarrow>
          (Some \<lparr>mm_ptr = p, mmap = [], pgd = pt, entry = 0, stack_top = 0, start_brk = 0, brk = 0,
                 mmap_base = 0x2000000, users = 1\<rparr>,
           page_zero pt (set_buddy b st)))"

definition mm_alloc :: "vmstate \<Rightarrow> mm_struct option \<times> vmstate" where
  "mm_alloc st =
     (case kmalloc 64 (km st) of
        (None, k) \<Rightarrow> (None, set_km k st)
      | (Some p, k) \<Rightarrow> mm_init p (set_km k st))"

definition dup_mm :: "mm_struct \<Rightarrow> vmstate \<Rightarrow> mm_struct option \<times> vmstate" where
  "dup_mm oldmm st =
     (if pgd oldmm = 0 then (None, st)
      else
        case kmalloc 64 (km st) of
          (None, k) \<Rightarrow> (None, set_km k st)
        | (Some p, k) \<Rightarrow>
            (case dup_pgtable (pgd oldmm) 1 (set_km k st) of
               (None, st1) \<Rightarrow> (None, set_km (kfree p (km st1)) st1)
             | (Some pt, st1) \<Rightarrow>
                 let (vs, k2) = dup_vma_list (mmap oldmm) (km st1); st2 = set_km k2 st1 in
                 if mmap oldmm \<noteq> [] \<and> vs = [] then
                   let st3 = free_user_page_tables pt st2 in (None, set_km (kfree p (km st3)) st3)
                 else
                   (Some (oldmm\<lparr>mm_ptr := p, mmap := vs, pgd := pt, users := 1\<rparr>), st2)))"

end
