(* ===== verification/Pgtable_Correct.thy ===== *)
theory Pgtable_Correct
  imports Pgtable
begin

text \<open>
  Correctness of the page tables: the encoding of entries, the invariant of a table tree (every
  table a page of its own, held by nobody else) and the effect of mapping, unmapping and changing
  an entry on what every virtual address translates to (\<open>lookup\<close>).
\<close>

subsection \<open>Entries\<close>

text \<open>Page addresses of the kernel's linear map of RAM.\<close>

definition kaddr :: "u64 \<Rightarrow> bool" where
  "kaddr a \<longleftrightarrow> 4096 dvd unat a \<and> KERNEL_VIRT_BASE \<le> a \<and> a < VIRT_MEM_END"

lemma addr_mask_page:
  fixes pa :: u64
  assumes "4096 dvd unat pa" and "pa < 2 ^ 48"
  shows "pa AND PTE_ADDR_MASK = pa"
proof -
  have "take_bit 12 (unat pa) = 0" using assms(1) by (simp add: take_bit_eq_0_iff)
  then have "unat (take_bit 12 pa) = 0" by (simp add: unsigned_take_bit_eq)
  then have lo: "take_bit 12 pa = 0" by (simp add: unat_eq_zero)
  have "take_bit 48 (unat pa) = unat pa"
    using assms(2) by (intro take_bit_nat_eq_self) (simp add: word_less_nat_alt)
  then have hi: "take_bit 48 pa = pa" by (simp add: word_unat_eq_iff unsigned_take_bit_eq)
  have "PTE_ADDR_MASK = mask 48 AND NOT (mask 12)" by (simp add: mask_eq_exp_minus_1)
  then have "pa AND PTE_ADDR_MASK = take_bit 48 pa AND NOT (mask 12)"
    by (simp only: take_bit_eq_mask and.assoc [symmetric])
  also have "\<dots> = pa AND NOT (mask 12)" by (simp only: hi)
  also have "\<dots> = pa"
  proof (rule bit_eqI)
    fix n
    have "\<not> bit (take_bit 12 pa) n" by (simp add: lo)
    then show "bit (pa AND NOT (mask 12)) n = bit pa n"
      by (auto simp: bit_simps dest: bit_imp_le_length)
  qed
  finally show ?thesis .
qed

lemma virt_to_phys_page:
  assumes "kaddr a"
  shows "virt_to_phys a AND PTE_ADDR_MASK = virt_to_phys a" "phys_to_virt (virt_to_phys a) = a"
proof -
  have b: "unat KERNEL_VIRT_BASE \<le> unat a" "unat a < unat VIRT_MEM_END" "4096 dvd unat a"
    using assms by (auto simp: kaddr_def word_le_nat_alt word_less_nat_alt)
  have le: "PHYS_VIRT_OFFSET \<le> a" using b by (simp add: word_le_nat_alt)
  have u: "unat (virt_to_phys a) = unat a - unat PHYS_VIRT_OFFSET"
    unfolding virt_to_phys_def using le by (rule unat_sub)
  have "4096 dvd unat (virt_to_phys a)" unfolding u using b(3) by (intro dvd_diff_nat) simp_all
  moreover have "virt_to_phys a < 2 ^ 48" using b unfolding word_less_nat_alt u by simp
  ultimately show "virt_to_phys a AND PTE_ADDR_MASK = virt_to_phys a" by (rule addr_mask_page)
  show "phys_to_virt (virt_to_phys a) = a" by (simp add: phys_to_virt_def virt_to_phys_def)
qed

lemma and_or_mask: "(x AND m = x) \<Longrightarrow> f AND m = 0 \<Longrightarrow> (x OR f) AND m = (x::u64)"
  by (simp add: bit.conj_disj_distrib2)

lemma mask_disjoint: "x AND m = x \<Longrightarrow> m AND f = 0 \<Longrightarrow> x AND f = (0::u64)"
proof -
  assume a: "x AND m = x" "m AND f = 0"
  have "x AND f = (x AND m) AND f" using a(1) by simp
  then show ?thesis by (simp add: and.assoc a(2))
qed

lemma table_at_entry:
  assumes "kaddr a"
  shows "table_at (virt_to_phys a OR PTE_TABLE) = Some a" "(virt_to_phys a OR PTE_TABLE) AND 1 \<noteq> 0"
proof -
  note v = virt_to_phys_page [OF assms]
  have z: "virt_to_phys a AND 3 = 0" "virt_to_phys a AND 1 = 0"
    using mask_disjoint [OF v(1), of 3] mask_disjoint [OF v(1), of 1] by simp_all
  have m: "(virt_to_phys a OR 3) AND PTE_ADDR_MASK = virt_to_phys a" using v(1) by (rule and_or_mask) simp
  show "(virt_to_phys a OR PTE_TABLE) AND 1 \<noteq> 0" using z by (simp add: bit.conj_disj_distrib2)
  then show "table_at (virt_to_phys a OR PTE_TABLE) = Some a"
    using z m v(2) by (simp add: table_at_def bit.conj_disj_distrib2)
qed

lemma table_at_absent: "e AND 1 = 0 \<Longrightarrow> table_at e = None"
  by (simp add: table_at_def)

text \<open>The rights an entry grants to the program: reading needs the user bit, writing also that the
  read-only bit is clear, executing that the execute-never bit is clear.\<close>

definition user_read :: "u64 \<Rightarrow> bool" where "user_read e \<longleftrightarrow> e AND 1 \<noteq> 0 \<and> e AND PTE_USER \<noteq> 0"
definition user_write :: "u64 \<Rightarrow> bool" where "user_write e \<longleftrightarrow> user_read e \<and> e AND PTE_RDONLY = 0"
definition user_exec :: "u64 \<Rightarrow> bool" where "user_exec e \<longleftrightarrow> user_read e \<and> e AND PTE_UXN = 0"

lemma prot_to_pte_bits:
  "prot_to_pte p AND PTE_ADDR_MASK = 0"
  "prot_to_pte p AND 1 = 1"
  "prot_to_pte p AND PTE_USER = (if p AND 7 \<noteq> 0 then PTE_USER else 0)"
  "prot_to_pte p AND PTE_RDONLY = (if p AND 2 \<noteq> 0 then 0 else PTE_RDONLY)"
  "prot_to_pte p AND PTE_UXN = (if p AND 4 \<noteq> 0 then 0 else PTE_UXN)"
  by (simp_all add: prot_to_pte_def Let_def)

lemma leaf_entry:
  "((pa AND PTE_ADDR_MASK) OR prot_to_pte p) AND PTE_ADDR_MASK = pa AND PTE_ADDR_MASK"
  "((pa AND PTE_ADDR_MASK) OR prot_to_pte p) AND 1 = 1"
  "user_read ((pa AND PTE_ADDR_MASK) OR prot_to_pte p) \<longleftrightarrow> p AND 7 \<noteq> 0"
  "user_write ((pa AND PTE_ADDR_MASK) OR prot_to_pte p) \<longleftrightarrow> p AND 2 \<noteq> 0"
  "user_exec ((pa AND PTE_ADDR_MASK) OR prot_to_pte p) \<longleftrightarrow> p AND 4 \<noteq> 0"
proof -
  have z: "(pa AND PTE_ADDR_MASK) AND f = 0" if "PTE_ADDR_MASK AND f = 0" for f :: u64
    using that by (simp add: and.assoc)
  have d: "p AND 7 \<noteq> 0" if "p AND f \<noteq> 0" "f AND 7 = f" for f :: u64
  proof
    assume "p AND 7 = 0"
    then have "p AND (7 AND f) = 0" by (simp add: and.assoc [symmetric])
    then show False using that by (simp add: and.commute)
  qed
  have e: "((pa AND PTE_ADDR_MASK) OR prot_to_pte p) AND f = prot_to_pte p AND f" if "PTE_ADDR_MASK AND f = 0" for f
    using z [OF that] by (simp add: bit.conj_disj_distrib2)
  show "((pa AND PTE_ADDR_MASK) OR prot_to_pte p) AND PTE_ADDR_MASK = pa AND PTE_ADDR_MASK"
    using prot_to_pte_bits(1) [of p] by (simp add: bit.conj_disj_distrib2 and.assoc)
  show one: "((pa AND PTE_ADDR_MASK) OR prot_to_pte p) AND 1 = 1" using e [of 1] prot_to_pte_bits(2) [of p] by simp
  show r: "user_read ((pa AND PTE_ADDR_MASK) OR prot_to_pte p) \<longleftrightarrow> p AND 7 \<noteq> 0"
    unfolding user_read_def one using e [of PTE_USER] prot_to_pte_bits(3) [of p] by simp
  show "user_write ((pa AND PTE_ADDR_MASK) OR prot_to_pte p) \<longleftrightarrow> p AND 2 \<noteq> 0"
    unfolding user_write_def r using e [of PTE_RDONLY] prot_to_pte_bits(4) [of p] d [of 2] by auto
  show "user_exec ((pa AND PTE_ADDR_MASK) OR prot_to_pte p) \<longleftrightarrow> p AND 4 \<noteq> 0"
    unfolding user_exec_def r using e [of PTE_UXN] prot_to_pte_bits(5) [of p] d [of 4] by auto
qed

subsection \<open>The tree of tables\<close>

definition l2t :: "vmstate \<Rightarrow> u64 \<Rightarrow> nat \<Rightarrow> u64 option" where
  "l2t st pt i = (if i < 512 then table_at (words st pt i) else None)"

definition l3t :: "vmstate \<Rightarrow> u64 \<Rightarrow> nat \<Rightarrow> nat \<Rightarrow> u64 option" where
  "l3t st pt i j = (case l2t st pt i of None \<Rightarrow> None
     | Some t \<Rightarrow> if j < 512 then table_at (words st t j) else None)"

definition tables :: "vmstate \<Rightarrow> u64 \<Rightarrow> u64 set" where
  "tables st pt = insert pt ({t. \<exists>i. l2t st pt i = Some t} \<union> {t. \<exists>i j. l3t st pt i j = Some t})"

text \<open>The entry a virtual address is translated by; \<open>0\<close>, which is not present, without a leaf table.\<close>

definition lookup :: "vmstate \<Rightarrow> u64 \<Rightarrow> u64 \<Rightarrow> u64" where
  "lookup st pt va = (case l3t st pt (l1_idx va) (l2_idx va) of None \<Rightarrow> 0 | Some t \<Rightarrow> words st t (l3_idx va))"

definition vpn :: "u64 \<Rightarrow> nat \<times> nat \<times> nat" where
  "vpn va = (l1_idx va, l2_idx va, l3_idx va)"

definition kernel_pool :: "buddy \<Rightarrow> bool" where
  "kernel_pool p \<longleftrightarrow> unat KERNEL_VIRT_BASE \<le> unat (mem_start p) \<and>
     unat (mem_start p) + 4096 * pool_pages p \<le> unat VIRT_MEM_END"

definition mem_ok :: "vmstate \<Rightarrow> bool" where
  "mem_ok st \<longleftrightarrow> page_inv (buddy_of st) \<and> kernel_pool (buddy_of st)"

definition tree_ok :: "vmstate \<Rightarrow> u64 \<Rightarrow> bool" where
  "tree_ok st pt \<longleftrightarrow>
     (\<forall>i<512. words st pt i AND 1 \<noteq> 0 \<longrightarrow> words st pt i AND 3 = 3) \<and>
     (\<forall>i t j. l2t st pt i = Some t \<longrightarrow> j < 512 \<longrightarrow> words st t j AND 1 \<noteq> 0 \<longrightarrow> words st t j AND 3 = 3) \<and>
     (\<forall>i. l2t st pt i \<noteq> Some pt) \<and> (\<forall>i j. l3t st pt i j \<noteq> Some pt) \<and>
     (\<forall>i i' t. l2t st pt i = Some t \<longrightarrow> l2t st pt i' = Some t \<longrightarrow> i = i') \<and>
     (\<forall>i i' j t. l2t st pt i = Some t \<longrightarrow> l3t st pt i' j \<noteq> Some t) \<and>
     (\<forall>i i' j j' t. l3t st pt i j = Some t \<longrightarrow> l3t st pt i' j' = Some t \<longrightarrow> i = i' \<and> j = j')"

definition pt_ok :: "vmstate \<Rightarrow> u64 \<Rightarrow> bool" where
  "pt_ok st pt \<longleftrightarrow> pt \<noteq> 0 \<and> tree_ok st pt \<and> (\<forall>t\<in>tables st pt. block_valid (buddy_of st) 0 t)"

lemma buddy_simps [simp]:
  "buddy_of (set_buddy p st) = p" "words (set_buddy p st) = words st"
  "buddy_of (page_zero t st) = buddy_of st" "buddy_of (pte_set t i e st) = buddy_of st"
  "words (page_zero t st) = (words st)(t := \<lambda>_. 0)"
  "words (pte_set t i e st) = (words st)(t := (words st t)(i := e))"
  by (simp_all add: buddy_of_def set_buddy_def page_zero_def pte_set_def)

lemma idx_bound [simp]: "l1_idx va < 512" "l2_idx va < 512" "l3_idx va < 512"
proof -
  have "unat (x AND 0x1ff) < 512" for x :: u64
  proof -
    have "x AND 0x1ff = take_bit 9 x" by (simp add: take_bit_eq_mask mask_eq_exp_minus_1)
    then have "unat (x AND 0x1ff) = take_bit 9 (unat x)" by (simp only: unsigned_take_bit_eq)
    then show ?thesis by (simp add: take_bit_eq_mod)
  qed
  then show "l1_idx va < 512" "l2_idx va < 512" "l3_idx va < 512" by (simp_all add: l1_idx_def l2_idx_def l3_idx_def)
qed

lemma l3_slot_l3t:
  assumes "pt \<noteq> 0"
  shows "l3_slot st pt va = map_option (\<lambda>t. (t, l3_idx va)) (l3t st pt (l1_idx va) (l2_idx va))"
  using assms by (simp add: l3_slot_def l3t_def l2t_def split: option.split)

lemma block_kaddr:
  assumes "page_inv p" "kernel_pool p" "block_valid p 0 a"
  shows "kaddr a"
proof -
  from assms obtain q where q: "a = pfn_to_addr p q" "block_ok p q 0" "pool_ok p"
    by (auto simp: block_valid_def page_inv_def)
  have "unat a = unat (mem_start p) + 4096 * q" "q < pool_pages p"
    using q block_ok_less [OF q(2)] by (simp_all add: unat_pfn_to_addr)
  then show ?thesis
    using assms(2) q(3) by (auto simp: kaddr_def kernel_pool_def pool_ok_def word_le_nat_alt word_less_nat_alt)
qed

lemma alloc_page_fresh:
  assumes ok: "mem_ok st" and a: "alloc_pages 0 (buddy_of st) = (Some t, p)"
  shows "page_inv p" "kernel_pool p" "block_valid p 0 t" "kaddr t" "t \<noteq> 0"
    "\<And>k b. block_valid (buddy_of st) k b \<Longrightarrow> block_valid p k b \<and> b \<noteq> t"
proof -
  have a': "alloc_pages (int 0) (buddy_of st) = (Some t, p)" using a by simp
  have inv: "page_inv (buddy_of st)" "kernel_pool (buddy_of st)" using ok by (auto simp: mem_ok_def)
  note v = alloc_block_valid [OF inv(1) a']
  show p: "page_inv p" "block_valid p 0 t" using v by auto
  have "pool_pages p = pool_pages (buddy_of st)"
    using v inv(1) p(1) by (auto simp: page_inv_def buddy_inv_def)
  then show k: "kernel_pool p" using v inv(2) by (simp add: kernel_pool_def)
  show "kaddr t" by (rule block_kaddr [OF p(1) k p(2)])
  then show "t \<noteq> 0" by (auto simp: kaddr_def)
  fix k b assume b: "block_valid (buddy_of st) k b"
  note f = alloc_block_fresh [OF inv(1) a' b]
  have "unat t \<in> block_extent 0 t" "unat b \<in> block_extent k b" by (auto simp: block_extent_def)
  then show "block_valid p k b \<and> b \<noteq> t" using f by blast
qed

subsection \<open>New tables and new entries\<close>

lemma create_l2:
  assumes ok: "pt_ok st pt" "mem_ok st" and i: "i < 512" "words st pt i AND 1 = 0"
    and a: "alloc_pages 0 (buddy_of st) = (Some t, p)"
  defines "st' \<equiv> pte_set pt i (virt_to_phys t OR PTE_TABLE) (page_zero t (set_buddy p st))"
  shows "l2t st' pt k = (if k = i then Some t else l2t st pt k)"
    "l3t st' pt k j = (if k = i then None else l3t st pt k j)" "t \<notin> tables st pt"
proof -
  note f = alloc_page_fresh [OF ok(2) a]
  show new: "t \<notin> tables st pt" using ok(1) f(6) by (auto simp: pt_ok_def)
  then have "t \<noteq> pt" by (auto simp: tables_def)
  then have pt: "words st' pt = (words st pt)(i := virt_to_phys t OR PTE_TABLE)" and z: "words st' t = (\<lambda>_. 0)"
    by (simp_all add: st'_def)
  show l2: "l2t st' pt k = (if k = i then Some t else l2t st pt k)" for k
    using i(1) table_at_entry(1) [OF f(4)] by (auto simp: l2t_def pt)
  have old: "words st' u = words st u" if "l2t st pt k = Some u" for u k
  proof -
    have "u \<noteq> t" using new that by (auto simp: tables_def)
    moreover have "u \<noteq> pt" using ok(1) that by (auto simp: pt_ok_def tree_ok_def)
    ultimately show ?thesis by (simp add: st'_def)
  qed
  have "l2t st pt i = None" using i by (simp add: l2t_def table_at_def)
  then show "l3t st' pt k j = (if k = i then None else l3t st pt k j)"
    using old z by (auto simp: l3t_def l2 table_at_def split: option.split)
qed

lemma create_l3:
  assumes ok: "pt_ok st pt" "mem_ok st" and u: "l2t st pt i = Some u"
    and j: "j < 512" "words st u j AND 1 = 0" and a: "alloc_pages 0 (buddy_of st) = (Some t, p)"
  defines "st' \<equiv> pte_set u j (virt_to_phys t OR PTE_TABLE) (page_zero t (set_buddy p st))"
  shows "l2t st' pt k = l2t st pt k"
    "l3t st' pt k m = (if k = i \<and> m = j then Some t else l3t st pt k m)" "t \<notin> tables st pt"
proof -
  note f = alloc_page_fresh [OF ok(2) a]
  show new: "t \<notin> tables st pt" using ok(1) f(6) by (auto simp: pt_ok_def)
  have ne: "t \<noteq> pt" "u \<noteq> pt" "t \<noteq> u" using new ok(1) u by (auto simp: tables_def pt_ok_def tree_ok_def)
  then have pt: "words st' pt = words st pt" and wu: "words st' u = (words st u)(j := virt_to_phys t OR PTE_TABLE)"
    by (auto simp: st'_def)
  show l2: "l2t st' pt k = l2t st pt k" for k by (simp add: l2t_def pt)
  have old: "words st' v = words st v" if "l2t st pt k = Some v" "k \<noteq> i" for v k
  proof -
    have "v \<noteq> t" using new that by (auto simp: tables_def)
    moreover have "v \<noteq> u" using ok(1) that u by (auto simp: pt_ok_def tree_ok_def)
    ultimately show ?thesis by (simp add: st'_def)
  qed
  show "l3t st' pt k m = (if k = i \<and> m = j then Some t else l3t st pt k m)"
    using old u wu j table_at_entry(1) [OF f(4)] by (cases "k = i") (auto simp: l3t_def l2 split: option.split)
qed

lemma leaf_set_tree:
  fixes m :: nat and e :: u64
  assumes t: "tree_ok st pt" and u: "l3t st pt i j = Some u"
  defines "st' \<equiv> pte_set u m e st"
  shows "l2t st' pt = l2t st pt" "l3t st' pt = l3t st pt" "tree_ok st' pt"
    "lookup st' pt va = (if vpn va = (i, j, m) then e else lookup st pt va)"
proof -
  have "u \<noteq> pt" "\<And>k. l2t st pt k \<noteq> Some u" using t u by (auto simp: tree_ok_def)
  then have w: "words st' pt = words st pt" "\<And>k v. l2t st pt k = Some v \<Longrightarrow> words st' v = words st v"
    by (auto simp: st'_def)
  show l2: "l2t st' pt = l2t st pt" by (simp add: l2t_def fun_eq_iff w(1))
  show l3: "l3t st' pt = l3t st pt" using w(2) by (auto simp: l3t_def fun_eq_iff l2 split: option.split)
  show "tree_ok st' pt" using t w unfolding tree_ok_def l2 l3 by auto
  have "words st' v k = (if v = u \<and> k = m then e else words st v k)" for v k by (simp add: st'_def)
  then show "lookup st' pt va = (if vpn va = (i, j, m) then e else lookup st pt va)"
    using u t by (auto simp: lookup_def l3 vpn_def tree_ok_def split: option.split)
qed

lemma leaf_set:
  assumes "pt_ok st pt" and "l3t st pt i j = Some u"
  shows "l2t (pte_set u m e st) pt = l2t st pt" "l3t (pte_set u m e st) pt = l3t st pt"
  using assms leaf_set_tree(1,2) by (auto simp: pt_ok_def)

text \<open>Held pages that are not tables stay so and keep their contents.\<close>

definition keeps :: "vmstate \<Rightarrow> u64 \<Rightarrow> vmstate \<Rightarrow> bool" where
  "keeps st pt st' \<longleftrightarrow> (\<forall>b. block_valid (buddy_of st) 0 b \<longrightarrow> b \<notin> tables st pt \<longrightarrow>
     b \<notin> tables st' pt \<and> words st' b = words st b \<and> block_valid (buddy_of st') 0 b)"

lemma keeps_refl: "keeps st pt st"
  by (simp add: keeps_def)

lemma keeps_trans: "keeps st pt st1 \<Longrightarrow> keeps st1 pt st2 \<Longrightarrow> keeps st pt st2"
  by (simp add: keeps_def)

text \<open>The tree invariant of a state in which exactly one table \<open>t\<close> was added.\<close>

lemma create_l2_ok:
  assumes ok: "pt_ok st pt" "mem_ok st" and i: "i < 512" "words st pt i AND 1 = 0"
    and a: "alloc_pages 0 (buddy_of st) = (Some t, p)"
  defines "st' \<equiv> pte_set pt i (virt_to_phys t OR PTE_TABLE) (page_zero t (set_buddy p st))"
  shows "pt_ok st' pt" "mem_ok st'" "lookup st' pt va = lookup st pt va" "keeps st pt st'"
proof -
  note c = create_l2 [OF ok i a, folded st'_def] and f = alloc_page_fresh [OF ok(2) a]
  have none: "l2t st pt i = None" using i by (simp add: l2t_def table_at_def)
  then have none3: "l3t st pt i j = None" for j by (simp add: l3t_def)
  have new: "\<And>k. l2t st pt k \<noteq> Some t" "\<And>k j. l3t st pt k j \<noteq> Some t" "t \<noteq> pt"
    using c(3) by (auto simp: tables_def)
  have w: "words st' u = words st u" if "u \<noteq> t" "u \<noteq> pt" for u using that by (simp add: st'_def)
  have wp: "words st' pt = (words st pt)(i := virt_to_phys t OR PTE_TABLE)" "words st' t = (\<lambda>_. 0)"
    using new(3) by (simp_all add: st'_def)
  have three: "(virt_to_phys t OR PTE_TABLE) AND 3 = 3"
    using table_at_entry(1) [OF f(4)] by (auto simp: table_at_def split: if_splits)
  have t: "tree_ok st pt" using ok(1) by (simp add: pt_ok_def)
  have tabs: "tables st' pt \<subseteq> insert t (tables st pt)"
    by (auto simp: tables_def c(1,2) split: if_splits)
  have "tree_ok st' pt"
    unfolding tree_ok_def c(1,2) wp(1)
  proof (intro conjI allI impI)
    show "((words st pt)(i := virt_to_phys t OR PTE_TABLE)) k AND 3 = 3"
      if "k < 512" "((words st pt)(i := virt_to_phys t OR PTE_TABLE)) k AND 1 \<noteq> 0" for k
      using that t three by (auto simp: tree_ok_def split: if_splits)
    show "words st' u j AND 3 = 3"
      if u: "(if k = i then Some t else l2t st pt k) = Some u" "j < 512" "words st' u j AND 1 \<noteq> 0" for k u j
    proof (cases "k = i")
      case False
      then have "u \<noteq> t" "u \<noteq> pt" using u(1) new t by (auto simp: tree_ok_def)
      then show ?thesis using u False t w by (auto simp: tree_ok_def)
    qed (use u wp in auto)
  qed (use t new none in \<open>auto simp: tree_ok_def split: if_splits\<close>)
  moreover have "\<forall>u\<in>tables st' pt. block_valid (buddy_of st') 0 u"
    using tabs f(3,6) ok(1) by (auto simp: st'_def pt_ok_def)
  ultimately show "pt_ok st' pt" using ok(1) by (simp add: pt_ok_def)
  show "mem_ok st'" using f by (simp add: mem_ok_def st'_def)
  have "pt \<in> tables st pt" by (simp add: tables_def)
  then have "b \<notin> tables st' pt \<and> words st' b = words st b \<and> block_valid (buddy_of st') 0 b"
    if b: "block_valid (buddy_of st) 0 b" "b \<notin> tables st pt" for b
    using f(6) [OF b(1)] b(2) tabs by (auto simp: st'_def)
  then show "keeps st pt st'" by (simp add: keeps_def)
  have "words st' u = words st u" if "l3t st pt k j = Some u" for u k j
    using new t that by (intro w) (auto simp: tree_ok_def)
  then show "lookup st' pt va = lookup st pt va"
    using none3 by (auto simp: lookup_def c(2) split: option.split)
qed

lemma create_l3_ok:
  assumes ok: "pt_ok st pt" "mem_ok st" and u: "l2t st pt i = Some u"
    and j: "j < 512" "words st u j AND 1 = 0" and a: "alloc_pages 0 (buddy_of st) = (Some t, p)"
  defines "st' \<equiv> pte_set u j (virt_to_phys t OR PTE_TABLE) (page_zero t (set_buddy p st))"
  shows "pt_ok st' pt" "mem_ok st'" "lookup st' pt va = lookup st pt va" "keeps st pt st'"
proof -
  note c = create_l3 [OF ok u j a, folded st'_def] and f = alloc_page_fresh [OF ok(2) a]
  have none: "l3t st pt i j = None" using u j by (simp add: l3t_def table_at_def)
  have new: "\<And>k. l2t st pt k \<noteq> Some t" "\<And>k j. l3t st pt k j \<noteq> Some t" "t \<noteq> pt"
    using c(3) by (auto simp: tables_def)
  have t: "tree_ok st pt" using ok(1) by (simp add: pt_ok_def)
  have up: "u \<noteq> pt" "u \<noteq> t" using t u new by (auto simp: tree_ok_def)
  have w: "words st' v = words st v" if "v \<noteq> t" "v \<noteq> u" for v using that by (simp add: st'_def)
  have wu: "words st' u = (words st u)(j := virt_to_phys t OR PTE_TABLE)" "words st' t = (\<lambda>_. 0)"
    using up by (simp_all add: st'_def)
  have three: "(virt_to_phys t OR PTE_TABLE) AND 3 = 3"
    using table_at_entry(1) [OF f(4)] by (auto simp: table_at_def split: if_splits)
  have tabs: "tables st' pt \<subseteq> insert t (tables st pt)"
    by (auto simp: tables_def c(1,2) split: if_splits)
  have "tree_ok st' pt"
    unfolding tree_ok_def c(1,2)
  proof (intro conjI allI impI)
    show "words st' pt k AND 3 = 3" if "k < 512" "words st' pt k AND 1 \<noteq> 0" for k
      using that t w [of pt] new(3) up by (auto simp: tree_ok_def)
    show "words st' v m AND 3 = 3" if v: "l2t st pt k = Some v" "m < 512" "words st' v m AND 1 \<noteq> 0" for k v m
    proof (cases "v = u")
      case True
      then show ?thesis using v t three wu by (auto simp: tree_ok_def split: if_splits)
    next
      case False
      moreover have "v \<noteq> t" using new(1) v(1) by auto
      ultimately show ?thesis using v t w [of v] by (auto simp: tree_ok_def)
    qed
  qed (use t new none in \<open>auto simp: tree_ok_def split: if_splits\<close>)
  moreover have "\<forall>v\<in>tables st' pt. block_valid (buddy_of st') 0 v"
    using tabs f(3,6) ok(1) by (auto simp: st'_def pt_ok_def)
  ultimately show "pt_ok st' pt" using ok(1) by (simp add: pt_ok_def)
  show "mem_ok st'" using f by (simp add: mem_ok_def st'_def)
  have "u \<in> tables st pt" using u by (auto simp: tables_def)
  then have "b \<notin> tables st' pt \<and> words st' b = words st b \<and> block_valid (buddy_of st') 0 b"
    if b: "block_valid (buddy_of st) 0 b" "b \<notin> tables st pt" for b
    using f(6) [OF b(1)] b(2) tabs by (auto simp: st'_def)
  then show "keeps st pt st'" by (simp add: keeps_def)
  have "words st' v = words st v" if "l3t st pt k m = Some v" for v k m
    using new t that u by (intro w) (auto simp: tree_ok_def)
  then show "lookup st' pt va = lookup st pt va"
    using none wu by (auto simp: lookup_def c(2) split: option.split)
qed

lemma leaf_set_ok:
  fixes m :: nat and e :: u64
  assumes ok: "pt_ok st pt" and u: "l3t st pt i j = Some u"
  defines "st' \<equiv> pte_set u m e st"
  shows "pt_ok st' pt" "lookup st' pt va = (if vpn va = (i, j, m) then e else lookup st pt va)"
proof -
  have t: "tree_ok st pt" using ok by (simp add: pt_ok_def)
  note l = leaf_set_tree [OF t u, of m e, folded st'_def]
  have "tables st' pt = tables st pt" "buddy_of st' = buddy_of st" by (simp_all add: tables_def l) (simp add: st'_def)
  then show "pt_ok st' pt" using ok l(3) by (simp add: pt_ok_def)
  show "lookup st' pt va = (if vpn va = (i, j, m) then e else lookup st pt va)" by (rule l(4))
qed

subsection \<open>Mapping and unmapping\<close>

lemma get_table_l1:
  assumes ok: "pt_ok st pt" "mem_ok st" and g: "get_or_create_table pt (l1_idx va) st = (r, st')"
  shows "pt_ok st' pt" "mem_ok st'" "lookup st' pt x = lookup st pt x"
    "r = Some u \<Longrightarrow> l2t st' pt (l1_idx va) = Some u" "keeps st pt st'"
proof -
  let ?i = "l1_idx va"
  have "pt_ok st' pt \<and> mem_ok st' \<and> lookup st' pt x = lookup st pt x \<and> (r = Some u \<longrightarrow> l2t st' pt ?i = Some u) \<and>
      keeps st pt st'"
  proof (cases "words st pt ?i AND 1 = 0")
    case True
    obtain t p where a: "alloc_pages 0 (buddy_of st) = (t, p)" by fastforce
    show ?thesis
    proof (cases t)
      case None
      then have "p = buddy_of st" using alloc_block_none [of "buddy_of st" 0 p] a ok(2) by (simp add: mem_ok_def)
      then have "st' = st" "r = None"
        using g True a None by (auto simp: get_or_create_table_def set_buddy_def buddy_of_def)
      then show ?thesis using ok by (simp add: keeps_refl)
    next
      case (Some v)
      then have g': "r = Some v" "st' = pte_set pt ?i (virt_to_phys v OR PTE_TABLE) (page_zero v (set_buddy p st))"
        using g True a by (auto simp: get_or_create_table_def Let_def)
      show ?thesis
        using create_l2_ok [OF ok _ True a [unfolded Some]] create_l2(1) [OF ok _ True a [unfolded Some], of ?i] g'
        by auto
    qed
  next
    case False
    then have "words st pt ?i AND 3 = 3" using ok(1) by (simp add: pt_ok_def tree_ok_def)
    then have "st' = st" "r = Some u \<longrightarrow> l2t st pt ?i = Some u"
      using g False by (auto simp: get_or_create_table_def l2t_def table_at_def Let_def split: if_splits)
    then show ?thesis using ok by (simp add: keeps_refl)
  qed
  then show "pt_ok st' pt" "mem_ok st'" "lookup st' pt x = lookup st pt x"
    "r = Some u \<Longrightarrow> l2t st' pt (l1_idx va) = Some u" "keeps st pt st'" by auto
qed

lemma get_table_l2:
  assumes ok: "pt_ok st pt" "mem_ok st" and u: "l2t st pt i = Some u"
    and g: "get_or_create_table u (l2_idx va) st = (r, st')"
  shows "pt_ok st' pt" "mem_ok st'" "lookup st' pt x = lookup st pt x"
    "r = Some v \<Longrightarrow> l3t st' pt i (l2_idx va) = Some v" "keeps st pt st'"
proof -
  let ?j = "l2_idx va"
  have "pt_ok st' pt \<and> mem_ok st' \<and> lookup st' pt x = lookup st pt x \<and> (r = Some v \<longrightarrow> l3t st' pt i ?j = Some v) \<and>
      keeps st pt st'"
  proof (cases "words st u ?j AND 1 = 0")
    case True
    obtain t p where a: "alloc_pages 0 (buddy_of st) = (t, p)" by fastforce
    show ?thesis
    proof (cases t)
      case None
      then have "p = buddy_of st" using alloc_block_none [of "buddy_of st" 0 p] a ok(2) by (simp add: mem_ok_def)
      then have "st' = st" "r = None"
        using g True a None by (auto simp: get_or_create_table_def set_buddy_def buddy_of_def)
      then show ?thesis using ok by (simp add: keeps_refl)
    next
      case (Some w)
      then have g': "r = Some w" "st' = pte_set u ?j (virt_to_phys w OR PTE_TABLE) (page_zero w (set_buddy p st))"
        using g True a by (auto simp: get_or_create_table_def Let_def)
      show ?thesis
        using create_l3_ok [OF ok u _ True a [unfolded Some]] create_l3(2) [OF ok u _ True a [unfolded Some], of i ?j] g'
        by auto
    qed
  next
    case False
    then have "words st u ?j AND 3 = 3" using ok(1) u by (auto simp: pt_ok_def tree_ok_def)
    then have "st' = st" "r = Some v \<longrightarrow> l3t st pt i ?j = Some v"
      using g False u by (auto simp: get_or_create_table_def l3t_def table_at_def Let_def split: if_splits)
    then show ?thesis using ok by (simp add: keeps_refl)
  qed
  then show "pt_ok st' pt" "mem_ok st'" "lookup st' pt x = lookup st pt x"
    "r = Some v \<Longrightarrow> l3t st' pt i (l2_idx va) = Some v" "keeps st pt st'" by auto
qed

lemma map_page_ok:
  assumes ok: "pt_ok st pt" "mem_ok st" and m: "map_page pt va pa prot st = (r, st')"
  shows "pt_ok st' pt" "mem_ok st'" "r = 0 \<or> r = - ENOMEM"
    "lookup st' pt x = (if r = 0 \<and> vpn x = vpn va then (pa AND PTE_ADDR_MASK) OR prot_to_pte prot else lookup st pt x)"
    "keeps st pt st'"
proof -
  obtain a st1 where g1: "get_or_create_table pt (l1_idx va) st = (a, st1)" by fastforce
  note t1 = get_table_l1 [OF ok g1]
  have "pt_ok st' pt \<and> mem_ok st' \<and> (r = 0 \<or> r = - ENOMEM) \<and> lookup st' pt x =
    (if r = 0 \<and> vpn x = vpn va then (pa AND PTE_ADDR_MASK) OR prot_to_pte prot else lookup st pt x) \<and> keeps st pt st'"
  proof (cases a)
    case None
    then show ?thesis using m g1 t1(1-3,5) by (auto simp: map_page_def)
  next
    case (Some u)
    obtain b st2 where g2: "get_or_create_table u (l2_idx va) st1 = (b, st2)" by fastforce
    note t2 = get_table_l2 [OF t1(1,2) t1(4) [OF Some] g2]
    show ?thesis
    proof (cases b)
      case None
      then show ?thesis using m g1 Some g2 t1(3) t2(1-3) keeps_trans [OF t1(5) t2(5)] by (auto simp: map_page_def)
    next
      case (Some v)
      note l = leaf_set_ok [OF t2(1) t2(4) [OF Some], of "l3_idx va" "(pa AND PTE_ADDR_MASK) OR prot_to_pte prot"]
      have "r = 0" "st' = pte_set v (l3_idx va) ((pa AND PTE_ADDR_MASK) OR prot_to_pte prot) st2"
        using m g1 \<open>a = Some u\<close> g2 Some by (auto simp: map_page_def)
      moreover have "keeps st2 pt (pte_set v (l3_idx va) ((pa AND PTE_ADDR_MASK) OR prot_to_pte prot) st2)"
      proof -
        have "v \<in> tables st2 pt" using t2(4) [OF Some] by (auto simp: tables_def)
        then show ?thesis using leaf_set [OF t2(1) t2(4) [OF Some]] by (auto simp: keeps_def tables_def)
      qed
      ultimately show ?thesis
        using l t1(3) t2(2,3) keeps_trans [OF keeps_trans [OF t1(5) t2(5)]] by (auto simp: vpn_def mem_ok_def)
    qed
  qed
  then show "pt_ok st' pt" "mem_ok st'" "r = 0 \<or> r = - ENOMEM"
    "lookup st' pt x = (if r = 0 \<and> vpn x = vpn va then (pa AND PTE_ADDR_MASK) OR prot_to_pte prot else lookup st pt x)"
    "keeps st pt st'" by auto
qed

subsection \<open>What does not touch the tables\<close>

text \<open>The visited addresses are those of the C loop.\<close>

lemma page_range_unfold:
  assumes "unat end + 4095 < 2 ^ 64"
  shows "page_range start end = (if start < end then start # page_range (start + 4096) end else [])"
proof (cases "start < end")
  case True
  then have lt: "unat start < unat end" by (simp add: word_less_nat_alt)
  then have s: "unat (start + 4096) = unat start + 4096"
    using assms unat_add_lem [of start 4096, THEN iffD1] by simp
  define n where "n = (unat end - unat (start + 4096) + 4095) div 4096"
  have upt: "[0..<Suc n] = 0 # map Suc [0..<n]" unfolding map_Suc_upt by (rule upt_conv_Cons) simp
  have "(unat end - unat start + 4095) div 4096 = Suc n"
  proof (cases "unat start + 4096 \<le> unat end")
    case True
    then have "unat end - unat start + 4095 = (unat end - unat (start + 4096) + 4095) + 4096" using s by simp
    then show ?thesis using div_add_self2 [of 4096 "unat end - unat (start + 4096) + 4095"] by (simp add: n_def)
  next
    case False
    then show ?thesis using lt by (simp add: n_def s)
  qed
  then have "page_range start end = map (\<lambda>i. start + of_nat (4096 * i)) (0 # map Suc [0..<n])"
    by (simp only: page_range_def upt)
  then have "page_range start end = start # map (\<lambda>i. start + of_nat (4096 * Suc i)) [0..<n]" by (simp add: o_def)
  moreover have "page_range (start + 4096) end = map (\<lambda>i. start + 4096 + of_nat (4096 * i)) [0..<n]"
    by (simp only: page_range_def n_def)
  moreover have "start + of_nat (4096 * Suc i) = start + 4096 + of_nat (4096 * i)" for i by simp
  ultimately show ?thesis using True by (simp only: if_True)
next
  case False
  then show ?thesis by (simp add: page_range_def word_le_nat_alt not_less)
qed

lemma tree_agree:
  assumes ok: "tree_ok st pt" and w: "\<And>t. t \<in> tables st pt \<Longrightarrow> words st' t = words st t"
  shows "l2t st' pt = l2t st pt" "l3t st' pt = l3t st pt" "tables st' pt = tables st pt"
    "tree_ok st' pt" "lookup st' pt x = lookup st pt x"
proof -
  have wp: "words st' pt = words st pt" using w by (simp add: tables_def)
  have w2: "words st' t = words st t" if "l2t st pt i = Some t" for i t using w that by (auto simp: tables_def)
  have w3: "words st' t = words st t" if "l3t st pt i j = Some t" for i j t using w that by (auto simp: tables_def)
  show l2: "l2t st' pt = l2t st pt" by (simp add: l2t_def fun_eq_iff wp)
  show l3: "l3t st' pt = l3t st pt" using w2 by (auto simp: l3t_def fun_eq_iff l2 split: option.split)
  show "tables st' pt = tables st pt" by (simp add: tables_def l2 l3)
  show "tree_ok st' pt" using ok w2 unfolding tree_ok_def l2 l3 wp by auto
  show "lookup st' pt x = lookup st pt x" using w3 by (auto simp: lookup_def l3 split: option.split)
qed

lemma pt_ok_agree:
  assumes ok: "pt_ok st pt" and w: "\<And>t. t \<in> tables st pt \<Longrightarrow> words st' t = words st t"
    and v: "\<And>t. t \<in> tables st pt \<Longrightarrow> block_valid (buddy_of st') 0 t"
  shows "pt_ok st' pt" "lookup st' pt x = lookup st pt x" "l3t st' pt = l3t st pt" "tables st' pt = tables st pt"
proof -
  have t: "tree_ok st pt" using ok by (simp add: pt_ok_def)
  note a = tree_agree [OF t w, simplified]
  show "pt_ok st' pt" using ok a(3,4) v by (simp add: pt_ok_def)
  show "lookup st' pt x = lookup st pt x" "l3t st' pt = l3t st pt" "tables st' pt = tables st pt" by (rule a)+
qed

subsection \<open>Unmapping a range\<close>

text \<open>The frame of the pool an entry refers to, if it is present and refers to one.\<close>

definition entry_frame :: "buddy \<Rightarrow> u64 \<Rightarrow> nat option" where
  "entry_frame b e = (if e AND 1 = 0 then None else virt_to_page b (phys_to_virt (e AND PTE_ADDR_MASK)))"

lemma entry_frame_cong:
  "mem_start b = mem_start c \<Longrightarrow> mem_size b = mem_size c \<Longrightarrow> pool_pages b = pool_pages c \<Longrightarrow>
     entry_frame b = entry_frame c"
  by (simp add: fun_eq_iff entry_frame_def virt_to_page_def addr_in_pool_def addr_to_pfn_def pfn_in_pool_def)

lemma put_page_frame:
  "mem_map (put_page (Some q) b) p = mem_map b p - (if p = q then 1 else 0)"
  "mem_start (put_page r b) = mem_start b" "mem_size (put_page r b) = mem_size b"
  "pool_pages (put_page r b) = pool_pages b"
  by (simp_all add: put_page_def Let_def split: option.split)

lemma unmap_page_effect:
  fixes va :: u64
  assumes ok: "tree_ok st pt"
  defines "st' \<equiv> unmap_page pt va st"
  shows "tree_ok st' pt"
    "lookup st' pt x = (if vpn x = vpn va \<and> lookup st pt va AND 1 \<noteq> 0 then 0 else lookup st pt x)"
    "mem_map (buddy_of st') p = mem_map (buddy_of st) p -
       (if entry_frame (buddy_of st) (lookup st pt va) = Some p then 1 else 0)"
    "entry_frame (buddy_of st') = entry_frame (buddy_of st)"
proof -
  let ?e = "lookup st pt va" and ?f = "entry_frame (buddy_of st) (lookup st pt va)"
  have "tree_ok st' pt \<and> lookup st' pt x = (if vpn x = vpn va \<and> ?e AND 1 \<noteq> 0 then 0 else lookup st pt x) \<and>
      mem_map (buddy_of st') p = mem_map (buddy_of st) p - (if ?f = Some p then 1 else 0) \<and>
      entry_frame (buddy_of st') = entry_frame (buddy_of st)"
  proof (cases "l3t st pt (l1_idx va) (l2_idx va)")
    case None
    then have "st' = st" by (auto simp: st'_def unmap_page_def l3t_def l2t_def split: option.splits)
    moreover have "?e = 0" using None by (simp add: lookup_def)
    ultimately show ?thesis using ok by (simp add: entry_frame_def)
  next
    case (Some u)
    then have e: "?e = words st u (l3_idx va)" by (simp add: lookup_def)
    have st': "st' = (if ?e AND 1 = 0 then st else
        set_buddy (case ?f of None \<Rightarrow> buddy_of st | Some q \<Rightarrow> put_page (Some q) (buddy_of st))
          (pte_set u (l3_idx va) 0 st))"
      using Some by (auto simp: st'_def e unmap_page_def l3t_def l2t_def entry_frame_def Let_def
          set_buddy_def buddy_of_def pte_set_def split: option.splits)
    note l = leaf_set_tree [OF ok Some, of "l3_idx va" 0]
    have w: "tree_ok (set_buddy b (pte_set u (l3_idx va) 0 st)) pt"
      "lookup (set_buddy b (pte_set u (l3_idx va) 0 st)) pt x =
         (if vpn x = vpn va then 0 else lookup st pt x)" for b
      using tree_agree(4,5) [OF l(3), of "set_buddy b (pte_set u (l3_idx va) 0 st)"] l(4) [of x]
      by (simp_all add: vpn_def [of va])
    have f: "entry_frame (put_page (Some q) (buddy_of st)) = entry_frame (buddy_of st)" for q
      by (intro entry_frame_cong) (simp_all add: put_page_frame)
    show ?thesis
      using ok w f unfolding st' by (cases "?e AND 1 = 0"; cases ?f) (auto simp: put_page_frame entry_frame_def)
  qed
  then show "tree_ok st' pt"
    "lookup st' pt x = (if vpn x = vpn va \<and> ?e AND 1 \<noteq> 0 then 0 else lookup st pt x)"
    "mem_map (buddy_of st') p = mem_map (buddy_of st) p - (if ?f = Some p then 1 else 0)"
    "entry_frame (buddy_of st') = entry_frame (buddy_of st)" by blast+
qed

lemma lookup_vpn: "vpn x = vpn y \<Longrightarrow> lookup st pt x = lookup st pt y"
  by (auto simp: lookup_def vpn_def split: option.split)

text \<open>After the loop over a list of pages none of them is translated, and all others are as before.\<close>

lemma unmap_fold:
  assumes "tree_ok st pt"
  shows "tree_ok (fold (unmap_page pt) vas st) pt \<and>
    (if vpn x \<in> vpn ` set vas then lookup (fold (unmap_page pt) vas st) pt x AND 1 = 0
     else lookup (fold (unmap_page pt) vas st) pt x = lookup st pt x)"
  using assms
proof (induction vas arbitrary: st)
  case (Cons va vas)
  note u = unmap_page_effect [OF Cons.prems, of va]
  have "lookup (unmap_page pt va st) pt x AND 1 = 0" if "vpn x = vpn va"
    using that u(2) [of x] lookup_vpn [OF that, of st pt] by auto
  then show ?case using Cons.IH [OF u(1)] u(2) [of x] by (auto split: if_splits)
qed simp

lemma unmap_fold_frames:
  assumes "tree_ok st pt" and "distinct (map vpn vas)"
  shows "mem_map (buddy_of (fold (unmap_page pt) vas st)) p = mem_map (buddy_of st) p -
    int (length (filter (\<lambda>va. entry_frame (buddy_of st) (lookup st pt va) = Some p) vas))"
  using assms
proof (induction vas arbitrary: st)
  case (Cons va vas)
  note u = unmap_page_effect [OF Cons.prems(1), of va]
  have "filter (\<lambda>v. entry_frame (buddy_of (unmap_page pt va st)) (lookup (unmap_page pt va st) pt v) = Some p) vas =
      filter (\<lambda>v. entry_frame (buddy_of st) (lookup st pt v) = Some p) vas"
  proof (intro filter_cong refl)
    fix v assume "v \<in> set vas"
    then have "vpn v \<in> vpn ` set vas" by (rule imageI)
    then have "vpn v \<noteq> vpn va" using Cons.prems(2) by auto
    then show "(entry_frame (buddy_of (unmap_page pt va st)) (lookup (unmap_page pt va st) pt v) = Some p) \<longleftrightarrow>
        entry_frame (buddy_of st) (lookup st pt v) = Some p" by (simp add: u(2,4))
  qed
  then show ?case using Cons.IH [OF u(1)] Cons.prems(2) u(3) [of p] by simp
qed simp

text \<open>The indices of an address depend on its page only, and tell the pages below \<open>2\<^sup>3\<^sup>9\<close> apart.\<close>

lemma vpn_page:
  "vpn va = (unat va div 4096 div 262144 mod 512, unat va div 4096 div 512 mod 512, unat va div 4096 mod 512)"
proof -
  have a: "unat (drop_bit n va AND 0x1ff) = unat va div 2 ^ n mod 512" for n
  proof -
    have "drop_bit n va AND 0x1ff = take_bit 9 (drop_bit n va)" by (simp add: take_bit_eq_mask mask_eq_exp_minus_1)
    then have "unat (drop_bit n va AND 0x1ff) = take_bit 9 (unat (drop_bit n va))" by (simp only: unsigned_take_bit_eq)
    then show ?thesis by (simp only: unat_drop_bit_eq) (simp add: take_bit_eq_mod drop_bit_eq_div)
  qed
  show ?thesis by (simp add: vpn_def l1_idx_def l2_idx_def l3_idx_def a flip: div_mult2_eq)
qed

lemma vpn_inj:
  assumes "vpn x = vpn y" and "unat x < 2 ^ 39" "unat y < 2 ^ 39"
  shows "unat x div 4096 = unat y div 4096"
proof -
  have split: "n = (n div 262144) * 262144 + (n div 512 mod 512) * 512 + n mod 512" for n :: nat
  proof -
    have "n div 512 div 512 = n div 262144" by (simp flip: div_mult2_eq)
    then show ?thesis using div_mult_mod_eq [of "n div 512" 512] div_mult_mod_eq [of n 512] by linarith
  qed
  have "unat z div 4096 div 262144 mod 512 = unat z div 4096 div 262144" if "unat z < 2 ^ 39" for z :: u64
    using that by (simp add: flip: div_mult2_eq)
  then show ?thesis
    using assms split [of "unat x div 4096"] split [of "unat y div 4096"] by (simp add: vpn_page)
qed

lemma page_range_set:
  assumes a: "4096 dvd unat a" and e: "4096 dvd unat e" "a \<le> e"
  shows "set (page_range a e) = {y. a \<le> y \<and> y < e \<and> 4096 dvd unat y}" "distinct (page_range a e)"
proof -
  define n where "n = (unat e - unat a + 4095) div 4096"
  obtain i where i: "unat a = 4096 * i" using a by blast
  obtain j where j: "unat e = 4096 * j" using e(1) by blast
  have n: "n = j - i" unfolding n_def i j by (simp flip: diff_mult_distrib2)
  have u: "unat (a + of_nat (4096 * k)) = 4096 * (i + k)" if "k < n" for k
  proof -
    have "unat e < 2 ^ LENGTH(64)" by (rule unsigned_less)
    then have "4096 * (i + k) < 2 ^ 64" using that n j by simp
    then have "unat (of_nat (4096 * k) :: u64) = 4096 * k" "unat a + 4096 * k < 2 ^ 64"
      using i unat_of_nat_less [of "4096 * k"] by simp_all
    then show ?thesis using unat_add_lem [of a "of_nat (4096 * k)", THEN iffD1] i by simp
  qed
  have "y \<in> (\<lambda>k. a + of_nat (4096 * k)) ` {..<n} \<longleftrightarrow> a \<le> y \<and> y < e \<and> 4096 dvd unat y" for y
  proof
    assume "a \<le> y \<and> y < e \<and> 4096 dvd unat y"
    then obtain k where k: "unat y = 4096 * k" "i \<le> k" "k < j"
      using i j by (auto simp: word_le_nat_alt word_less_nat_alt)
    then have "y = a + of_nat (4096 * (k - i))" using u [of "k - i"] n by (simp add: word_unat_eq_iff)
    then show "y \<in> (\<lambda>k. a + of_nat (4096 * k)) ` {..<n}" using k n by (intro image_eqI [of _ _ "k - i"]) auto
  qed (use u i j n in \<open>auto simp: word_le_nat_alt word_less_nat_alt\<close>)
  then show "set (page_range a e) = {y. a \<le> y \<and> y < e \<and> 4096 dvd unat y}"
    unfolding page_range_def n_def [symmetric] by (simp add: atLeast0LessThan set_eq_iff)
  have "inj_on (\<lambda>k. a + of_nat (4096 * k)) {..<n}"
    using u by (intro inj_onI) (metis add_left_cancel lessThan_iff mult_cancel1 zero_neq_numeral)
  then show "distinct (page_range a e)"
    unfolding page_range_def n_def [symmetric] by (simp add: distinct_map atLeast0LessThan)
qed

lemma page_range_vpn:
  assumes "4096 dvd unat a" and "4096 dvd unat e" "a \<le> e"
  shows "vpn ` set (page_range a e) = vpn ` {y. a \<le> y \<and> y < e}"
    "unat e \<le> 2 ^ 39 \<Longrightarrow> distinct (map vpn (page_range a e))"
proof -
  note r = page_range_set [OF assms]
  have z: "vpn (page_align_down y) = vpn y \<and> page_align_down y \<in> set (page_range a e)" if y: "a \<le> y" "y < e" for y
    unfolding r(1) mem_Collect_eq
  proof (intro conjI)
    have u: "unat (page_align_down y) = unat y div 4096 * 4096" by (rule unat_page_align_down)
    show "vpn (page_align_down y) = vpn y" by (simp add: vpn_page u)
    show "4096 dvd unat (page_align_down y)" by (simp add: u)
    obtain i where i: "unat a = 4096 * i" using assms(1) by blast
    have "i \<le> unat y div 4096" using y(1) i by (simp add: word_le_nat_alt less_eq_div_iff_mult_less_eq mult.commute)
    then show "a \<le> page_align_down y" by (simp add: word_le_nat_alt u i)
    show "page_align_down y < e" using y(2) div_times_less_eq_dividend [of "unat y" 4096]
      by (simp add: word_less_nat_alt u)
  qed
  show "vpn ` set (page_range a e) = vpn ` {y. a \<le> y \<and> y < e}"
  proof (rule equalityI)
    show "vpn ` set (page_range a e) \<subseteq> vpn ` {y. a \<le> y \<and> y < e}" using r(1) by (intro image_mono) auto
    show "vpn ` {y. a \<le> y \<and> y < e} \<subseteq> vpn ` set (page_range a e)"
    proof (rule image_subsetI)
      fix y assume "y \<in> {y. a \<le> y \<and> y < e}"
      then show "vpn y \<in> vpn ` set (page_range a e)" using z [of y]
        by (intro image_eqI [of _ vpn "page_align_down y"]) simp_all
    qed
  qed
  assume e: "unat e \<le> 2 ^ 39"
  have "x = y" if "x \<in> set (page_range a e)" "y \<in> set (page_range a e)" "vpn x = vpn y" for x y
  proof -
    have xy: "unat x < unat e" "unat y < unat e" "4096 dvd unat x" "4096 dvd unat y"
      using that r(1) by (simp_all add: word_less_nat_alt)
    have "unat x div 4096 = unat y div 4096" by (rule vpn_inj) (use that(3) xy e in simp_all)
    then have "unat x = unat y" using xy(3,4) by (metis dvd_div_mult_self)
    then show ?thesis by (simp add: word_unat_eq_iff)
  qed
  then show "distinct (map vpn (page_range a e))" using r(2) by (simp add: distinct_map inj_on_def)
qed

subsection \<open>A new root\<close>

lemma kernel_pool_init:
  assumes "room_left start"
  shows "kernel_pool (page_alloc_init start)"
proof -
  note i = page_alloc_init_inv [OF assms] and e = page_alloc_init_eq(4) [OF assms]
  have "unat KERNEL_VIRT_BASE \<le> unat start" using assms by (auto simp: room_left_def word_le_nat_alt)
  moreover have "unat start \<le> unat (page_align_up start)" unfolding e by linarith
  moreover have "0 < pool_pages (page_alloc_init start)"
    using i(1) by (simp add: page_inv_def buddy_inv_def)
  ultimately show ?thesis using i(3,4) by (simp add: kernel_pool_def)
qed

lemma fresh_root_ok:
  assumes mem: "mem_ok st" and a: "alloc_pages 0 (buddy_of st) = (Some t, p)"
  shows "pt_ok (page_zero t (set_buddy p st)) t" "mem_ok (page_zero t (set_buddy p st))"
    "lookup (page_zero t (set_buddy p st)) t va = 0"
proof -
  note f = alloc_page_fresh [OF mem a]
  let ?st = "page_zero t (set_buddy p st)"
  have l: "l2t ?st t = (\<lambda>_. None)" "l3t ?st t = (\<lambda>_ _. None)"
    by (simp_all add: l2t_def l3t_def table_at_def fun_eq_iff)
  then have "tables ?st t = {t}" by (simp add: tables_def)
  then show "pt_ok ?st t" using f(3,5) by (simp add: pt_ok_def tree_ok_def l)
  show "mem_ok ?st" using f(1,2) by (simp add: mem_ok_def)
  show "lookup ?st t va = 0" by (simp add: lookup_def l)
qed

end
