(* ===== verification/Mmap_Props.thy ===== *)
theory Mmap_Props
  imports Mmap Slub_Props Pgtable_Correct
begin

text \<open>
  The properties of the memory areas and of \<open>mmap\<close>, \<open>munmap\<close>, \<open>mprotect\<close> and \<open>brk\<close>, in terms of the
  access rights \<open>prot_at\<close> they leave at every address, and the two sequences of calls after which
  areas overlap.
\<close>

lemma set_km_simps [simp]: "km (set_km k st) = k" "words (set_km k st) = words st"
  by (simp_all add: set_km_def)

subsection \<open>Witness data\<close>

definition area :: "u64 \<Rightarrow> u64 \<Rightarrow> u64 \<Rightarrow> u64 \<Rightarrow> vma" where
  "area p a b f = \<lparr>va_ptr = p, vm_start = a, vm_end = b, vm_flags = f\<rparr>"

definition sample_areas :: "vma list" where
  "sample_areas = [area 1 0x1000 0x5000 3, area 2 0x8000 0x9000 1]"

definition sample_mm :: mm_struct where
  "sample_mm = \<lparr>mm_ptr = 0, mmap = sample_areas, pgd = 0x1000, entry = 0, stack_top = 0x4040000,
     start_brk = 0x1000, brk = 0x5000, mmap_base = 0x2000000, users = 1\<rparr>"

definition sample_st :: vmstate where
  "sample_st = \<lparr>km = kmem_boot 0xffff800087ffc000, words = \<lambda>_ _. 0\<rparr>"

lemma sample_st_alloc: "\<exists>t k. vma_alloc a b f (km sample_st) = (Some t, k)"
proof -
  have a: "fst (alloc_pages 0 (pg (km sample_st))) \<noteq> None" by code_simp
  have "slub_inv (km sample_st)" using small_kmem_inv by (simp add: sample_st_def small_kmem_def)
  then have "\<exists>x s'. kmem_cache_alloc vma_cache (km sample_st) = (Some x, s')"
    by (cases rule: kmem_cache_alloc_cases [where c = vma_cache]) (use a in auto)
  then show ?thesis by (auto simp: vma_alloc_def)
qed

lemma sample_areas_ok: "vmas_ok sample_areas" "vmas_ok (mmap sample_mm)"
  by (simp_all add: sample_mm_def sample_areas_def area_def vmas_ok_Cons)

subsection \<open>Areas\<close>

text \<open>\<open>find_vma\<close> on a sorted list of disjoint areas decides the access rights of an address: the
  area it returns covers the address exactly when it starts at or below it, and if not, no area
  does.\<close>

theorem find_vma_correct:
  assumes "vmas_ok mm"
  shows "prot_at mm x = (case find_vma mm x of
     None \<Rightarrow> None | Some v \<Rightarrow> if vm_start v \<le> x then Some (vm_flags v) else None)"
  using assms by (rule find_vma_prot)

theorem find_vma_correct_witness: "prot_at sample_areas 0x4fff = Some 3"
  using find_vma_correct [OF sample_areas_ok(1), of "0x4fff"]
  by (simp add: sample_areas_def area_def find_vma_def)

text \<open>\<open>insert_vma\<close> accepts an area exactly when it is not empty and meets no existing area; it
  keeps the list sorted and disjoint and adds exactly the rights of the new area.\<close>

theorem insert_vma_correct:
  assumes ok: "vmas_ok mm"
  shows "(fst (insert_vma mm new) = 0 \<longleftrightarrow>
      vm_start new < vm_end new \<and> (\<forall>x. vm_start new \<le> x \<and> x < vm_end new \<longrightarrow> prot_at mm x = None)) \<and>
    vmas_ok (snd (insert_vma mm new)) \<and>
    (fst (insert_vma mm new) = 0 \<longrightarrow> (\<forall>x. prot_at (snd (insert_vma mm new)) x =
       (if vm_start new \<le> x \<and> x < vm_end new then Some (vm_flags new) else prot_at mm x)))"
proof (cases "fst (insert_vma mm new) = 0")
  case True
  then have i: "insert_vma mm new = (0, snd (insert_vma mm new))" by (metis prod.collapse)
  show ?thesis using insert_vma_ok [OF ok i] True by (simp add: covers_def)
next
  case False
  then have "insert_vma mm new = (- EINVAL, mm)" using insert_vma_cases [of mm new] by (metis fst_conv)
  moreover have "\<not> (vm_start new < vm_end new \<and> (\<forall>x. vm_start new \<le> x \<and> x < vm_end new \<longrightarrow> prot_at mm x = None))"
    using insert_vma_free [OF ok, of new] False unfolding covers_def by (metis fst_conv)
  ultimately show ?thesis using ok by auto
qed

theorem insert_vma_correct_witness: "vmas_ok (snd (insert_vma sample_areas (area 3 0x5000 0x8000 1)))"
  using insert_vma_correct [OF sample_areas_ok(1)] by blast

subsection \<open>munmap\<close>

lemma do_munmap_cases:
  assumes "do_munmap addr len mm st = (r, mm', st')"
  obtains (none) "mm' = mm" "st' = st" "r = 0 \<longrightarrow> len = 0"
  | (fail) k where "len \<noteq> 0" "r \<noteq> 0" "st' = set_km k st"
      "vma_erase_range addr (page_align_up (addr + len)) (mmap mm) (km st) = (r, mmap mm', k)"
  | (unmapped) k where "len \<noteq> 0" "r = 0" "addr AND 4095 = 0"
      "vma_erase_range addr (page_align_up (addr + len)) (mmap mm) (km st) = (0, mmap mm', k)"
      "st' = unmap_range (pgd mm) addr (page_align_up (addr + len)) (set_km k st)"
proof (cases "pgd mm = 0 \<or> len = 0 \<or> addr AND (PAGE_SIZE - 1) \<noteq> 0")
  case True
  then have "mm' = mm \<and> st' = st \<and> (r = 0 \<longrightarrow> len = 0)"
    using assms unfolding do_munmap_def by (elim disjE) (simp_all split: if_splits)
  then show thesis using none by blast
next
  case False
  obtain err vs k where v: "vma_erase_range addr (page_align_up (addr + len)) (mmap mm) (km st) = (err, vs, k)"
    by (metis prod.exhaust)
  show thesis
    using False assms v fail unmapped unfolding do_munmap_def
    by (cases "err = 0") (auto simp: Let_def split: if_splits)
qed

lemma page_aligned_dvd: "(a :: u64) AND 4095 = 0 \<Longrightarrow> 4096 dvd unat a"
proof -
  assume "a AND 4095 = 0"
  moreover have "a AND 4095 = take_bit 12 a" by (simp add: take_bit_eq_mask mask_eq_exp_minus_1)
  ultimately have "take_bit 12 (unat a) = 0" using unsigned_take_bit_eq [of 12 a, where 'a = nat] by simp
  then show ?thesis by (simp add: take_bit_eq_mod dvd_eq_mod_eq_0)
qed

lemma unmap_range_effect:
  assumes t: "tree_ok st pt" and a: "4096 dvd unat a" "4096 dvd unat e" "a \<le> e"
  defines "st' \<equiv> unmap_range pt a e st"
  shows "tree_ok st' pt"
    "if \<exists>y. a \<le> y \<and> y < e \<and> vpn y = vpn x then lookup st' pt x AND 1 = 0 else lookup st' pt x = lookup st pt x"
    "unat e \<le> 2 ^ 39 \<Longrightarrow> mem_map (buddy_of st') p = mem_map (buddy_of st) p -
       int (length (filter (\<lambda>va. entry_frame (buddy_of st) (lookup st pt va) = Some p) (page_range a e)))"
proof -
  note u = unmap_fold [OF t, where vas = "page_range a e", folded unmap_range_def st'_def]
  note v = page_range_vpn [OF a]
  have "vpn x \<in> vpn ` set (page_range a e) \<longleftrightarrow> (\<exists>y. a \<le> y \<and> y < e \<and> vpn y = vpn x)"
    unfolding v(1) by (auto simp: image_iff)
  then show "tree_ok st' pt"
    "if \<exists>y. a \<le> y \<and> y < e \<and> vpn y = vpn x then lookup st' pt x AND 1 = 0 else lookup st' pt x = lookup st pt x"
    using u [of x] by simp_all
  show "mem_map (buddy_of st') p = mem_map (buddy_of st) p -
       int (length (filter (\<lambda>va. entry_frame (buddy_of st) (lookup st pt va) = Some p) (page_range a e)))"
    if "unat e \<le> 2 ^ 39"
    using unmap_fold_frames [OF t v(2) [OF that]] by (simp add: st'_def unmap_range_def)
qed

lemma set_km_tables:
  "lookup (set_km k st) pt x = lookup st pt x" "tree_ok (set_km k st) pt = tree_ok st pt" "buddy_of (set_km k st) = pg k"
proof -
  have "l2t (set_km k st) pt = l2t st pt" by (simp add: fun_eq_iff l2t_def)
  moreover from this have "l3t (set_km k st) pt = l3t st pt" by (simp add: fun_eq_iff l3t_def split: option.split)
  ultimately show "lookup (set_km k st) pt x = lookup st pt x" "tree_ok (set_km k st) pt = tree_ok st pt"
    by (simp_all add: lookup_def tree_ok_def split: option.split)
qed (simp add: buddy_of_def)



text \<open>\<open>munmap\<close> does not check \<open>addr + len\<close> for overflow.  If the end wraps around to an address
  below \<open>addr\<close> but inside the same area, the call reports success, unmaps no page, and replaces the
  area by two areas that overlap.\<close>

theorem do_munmap_wrap_overlaps:
  assumes v: "mmap mm = [v]" "pgd mm \<noteq> 0" and a: "addr AND 4095 = 0" "len \<noteq> 0"
    and wrap: "vm_start v < page_align_up (addr + len)" "page_align_up (addr + len) < addr" "addr < vm_end v"
    and mem: "vma_alloc (page_align_up (addr + len)) (vm_end v) (vm_flags v) (km st) = (Some t, k)"
  shows "do_munmap addr len mm st = (0, mm\<lparr>mmap := [v\<lparr>vm_end := addr\<rparr>, t]\<rparr>, set_km k st) \<and>
    \<not> vmas_ok [v\<lparr>vm_end := addr\<rparr>, t]"
proof -
  define e where "e = page_align_up (addr + len)"
  note w = wrap [folded e_def] and m = mem [folded e_def]
  have "\<not> vm_end v \<le> addr" "\<not> e \<le> vm_start v" "\<not> addr \<le> vm_start v" "\<not> vm_end v \<le> e"
    using w by (auto simp: not_le)
  then have er: "vma_erase_range addr e [v] (km st) = (0, [v\<lparr>vm_end := addr\<rparr>, t], k)"
    using m by (simp add: Let_def del: not_le not_less)
  have "unat e < unat addr" using w(2) by (simp add: word_less_nat_alt)
  then have "page_range addr e = []" by (simp add: page_range_def)
  then have "do_munmap addr len mm st = (0, mm\<lparr>mmap := [v\<lparr>vm_end := addr\<rparr>, t]\<rparr>, set_km k st)"
    unfolding do_munmap_def e_def [symmetric] using v a er by (simp add: unmap_range_def)
  moreover have "\<not> vmas_ok [v\<lparr>vm_end := addr\<rparr>, t]"
    using w vma_alloc_fields(1) [OF m] by (simp add: vmas_ok_Cons not_le)
  ultimately show ?thesis by blast
qed

theorem do_munmap_wrap_overlaps_witness:
  "\<exists>mm'. fst (do_munmap 0x3000 0xfffffffffffff000 (sample_mm\<lparr>mmap := [area 1 0x1000 0x5000 3]\<rparr>) sample_st) = 0 \<and>
     fst (snd (do_munmap 0x3000 0xfffffffffffff000 (sample_mm\<lparr>mmap := [area 1 0x1000 0x5000 3]\<rparr>) sample_st)) = mm' \<and>
     \<not> vmas_ok (mmap mm')"
proof -
  obtain t k where t: "vma_alloc 0x2000 0x5000 3 (km sample_st) = (Some t, k)" using sample_st_alloc by blast
  have e: "page_align_up (0x3000 + 0xfffffffffffff000) = 0x2000" by (simp add: page_align_up_def)
  show ?thesis
    using do_munmap_wrap_overlaps [of "sample_mm\<lparr>mmap := [area 1 0x1000 0x5000 3]\<rparr>" "area 1 0x1000 0x5000 3"
        "0x3000" "0xfffffffffffff000" sample_st t k, unfolded e] t
    by (simp add: area_def sample_mm_def)
qed

subsection \<open>mmap\<close>

lemma do_mmap_cases:
  assumes r: "do_mmap addr len prot flags mm st = (r, mm', st')" and pos: "0 \<le> r"
  obtains va mm1 st1 v k where "mmap_place addr (page_align_up len) flags mm st = (Inr va, mm1, st1)"
    "vma_alloc va (va + page_align_up len) (linux_prot_to_map prot) (km st1) = (Some v, k)"
    "insert_vma (mmap mm1) v = (0, mmap mm')" "r = sint va"
proof -
  define n where "n = page_align_up len"
  have c: "\<not> (pgd mm = 0 \<or> len = 0)" "\<not> flags AND MAP_ANONYMOUS = 0"
    using r pos by (auto simp: do_mmap_def split: if_splits)
  obtain pl mm1 st1 where p: "mmap_place addr n flags mm st = (pl, mm1, st1)" by (metis prod.exhaust)
  note r' = r [unfolded do_mmap_def if_not_P [OF c(1)] if_not_P [OF c(2)] Let_def n_def [symmetric] p, simplified]
  have "\<exists>va. pl = Inr va"
  proof (cases pl)
    case (Inl err)
    have "err < 0 \<or> err \<noteq> 0"
      using p Inl by (auto simp: mmap_place_def Let_def split: if_splits prod.splits)
    moreover have "err \<le> 0"
    proof -
      have "fst (vma_erase_range a b vs k) \<le> 0" for a b vs k
        by (induction a b vs k rule: vma_erase_range.induct)
          (auto simp: Let_def split: prod.splits option.splits)
      from this [of "page_align_down addr" "page_align_down addr + n" "mmap mm" "km st"] show ?thesis
        using p Inl by (auto simp: mmap_place_def Let_def split: if_splits prod.splits)
    qed
    ultimately show ?thesis using r' Inl pos by auto
  qed blast
  then obtain va where va: "pl = Inr va" by blast
  obtain t k where t: "vma_alloc va (va + n) (linux_prot_to_map prot) (km st1) = (t, k)" by fastforce
  obtain v where v: "t = Some v" using r' va t pos by (cases t) auto
  obtain e vs where i: "insert_vma (mmap mm1) v = (e, vs)" by fastforce
  have "e = 0" using insert_vma_cases [of "mmap mm1" v] r' va t v i pos by auto
  then show ?thesis using that p va t v i r' n_def by auto
qed

lemma mmap_place_cases:
  assumes "mmap_place addr n flags mm st = (Inr va, mm1, st1)"
  shows "mm1 = mm \<and> va = find_unmapped_area mm n \<or>
    (\<exists>k. vma_erase_range va (va + n) (mmap mm) (km st) = (0, mmap mm1, k) \<and>
      va = page_align_down addr \<and> addr \<noteq> 0 \<and> flags AND MAP_FIXED \<noteq> 0)"
  using assms by (auto simp: mmap_place_def Let_def split: if_splits prod.splits)



subsection \<open>mprotect\<close>

definition reprot :: "u64 \<Rightarrow> vma \<Rightarrow> vma" where
  "reprot p v = v\<lparr>vm_flags := (vm_flags v AND NOT 7) OR p\<rparr>"

fun reprot_until :: "u64 \<Rightarrow> u64 \<Rightarrow> vma list \<Rightarrow> vma list" where
  "reprot_until end p [] = []"
| "reprot_until end p (v # vs) = (if vm_start v < end then reprot p v # reprot_until end p vs else v # vs)"

lemma reprot_simps [simp]:
  "vm_start (reprot p v) = vm_start v" "vm_end (reprot p v) = vm_end v"
  "vm_flags (reprot p v) = (vm_flags v AND NOT 7) OR p" "covers (reprot p v) = covers v"
  by (simp_all add: reprot_def covers_def fun_eq_iff)

lemma mprotect_apply_areas: "fst (mprotect_apply pt end p vs st) = reprot_until end p vs"
  by (induction pt "end" p vs st rule: mprotect_apply.induct)
    (auto simp: reprot_def Let_def split: prod.splits)

definition no_straddle :: "u64 \<Rightarrow> vma list \<Rightarrow> bool" where
  "no_straddle a vs \<longleftrightarrow> (\<forall>v\<in>set vs. vm_end v \<le> a \<or> a \<le> vm_start v)"

lemma same_ranges_ok:
  "map vm_start xs = map vm_start ys \<Longrightarrow> map vm_end xs = map vm_end ys \<Longrightarrow> vmas_ok xs \<Longrightarrow> vmas_ok ys"
proof -
  assume e: "map vm_start xs = map vm_start ys" "map vm_end xs = map vm_end ys" and ok: "vmas_ok xs"
  have l: "length xs = length ys" using arg_cong [OF e(1), of length] by simp
  have n: "vm_start (xs ! i) = vm_start (ys ! i) \<and> vm_end (xs ! i) = vm_end (ys ! i)" if "i < length ys" for i
    using e l that by (metis nth_map)
  show ?thesis
    using ok n l unfolding vmas_ok_def sorted_wrt_iff_nth_less by (auto simp: in_set_conv_nth) (metis nth_mem)
qed

lemma reprot_until_ranges:
  "map vm_start (reprot_until e p vs) = map vm_start vs" "map vm_end (reprot_until e p vs) = map vm_end vs"
  by (induction vs) auto

lemma reprot_until_prot:
  assumes "vmas_ok vs" and "no_straddle e vs"
  shows "prot_at (reprot_until e p vs) x =
    (if x < e then map_option (\<lambda>f. (f AND NOT 7) OR p) (prot_at vs x) else prot_at vs x)"
  using assms
proof (induction vs)
  case (Cons v vs)
  have IH: "prot_at (reprot_until e p vs) x =
    (if x < e then map_option (\<lambda>f. (f AND NOT 7) OR p) (prot_at vs x) else prot_at vs x)"
    using Cons by (auto simp: vmas_ok_Cons no_straddle_def)
  show ?case
  proof (cases "vm_start v < e")
    case True
    then have "vm_end v \<le> e" using Cons.prems(2) by (auto simp: no_straddle_def)
    then show ?thesis using True IH by (auto simp: covers_def)
  next
    case False
    then have "x < vm_start w" if "x < e" "w \<in> set (v # vs)" for w
      using Cons.prems(1) that by (auto simp: vmas_ok_Cons not_less)
    then have "x < e \<Longrightarrow> prot_at (v # vs) x = None" by (intro prot_at_below) auto
    then show ?thesis using False by (auto simp del: prot_at.simps)
  qed
qed simp

lemma mprotect_from_areas:
  assumes "vmas_ok vs" and "no_straddle a vs" "no_straddle e vs"
  shows "vmas_ok (fst (mprotect_from pt a e p vs st)) \<and>
    prot_at (fst (mprotect_from pt a e p vs st)) x =
    (if a \<le> x \<and> x < e then map_option (\<lambda>f. (f AND NOT 7) OR p) (prot_at vs x) else prot_at vs x)"
  using assms
proof (induction vs)
  case (Cons v vs)
  show ?case
  proof (cases "vm_end v > a")
    case True
    then have ge: "a \<le> vm_start v" using Cons.prems(2) by (auto simp: no_straddle_def)
    have "a \<le> vm_start w" if "w \<in> set (v # vs)" for w
      using that Cons.prems(1) ge by (auto simp: vmas_ok_Cons)
    then have "prot_at (v # vs) x = None" if "x < a"
      using that by (intro prot_at_below) (auto intro: less_le_trans)
    moreover have f: "fst (mprotect_from pt a e p (v # vs) st) = reprot_until e p (v # vs)"
      using True by (simp only: mprotect_from.simps mprotect_apply_areas if_True)
    ultimately show ?thesis
      using reprot_until_prot [OF Cons.prems(1,3), of p x]
        same_ranges_ok [OF reprot_until_ranges [symmetric] Cons.prems(1)]
      unfolding f by (auto simp del: prot_at.simps reprot_until.simps)
  next
    case False
    let ?n = "mprotect_from pt a e p vs st"
    have v: "vmas_ok vs" "no_straddle a vs" "no_straddle e vs"
      using Cons.prems by (auto simp: vmas_ok_Cons no_straddle_def)
    note IH = Cons.IH [OF v]
    have f: "fst (mprotect_from pt a e p (v # vs) st) = v # fst ?n"
      using False by (simp add: case_prod_beta)
    have r: "map vm_start (fst (mprotect_from pt a e p ws st)) = map vm_start ws"
      "map vm_end (fst (mprotect_from pt a e p ws st)) = map vm_end ws" for ws
      by (induction ws)
        (auto simp: mprotect_apply_areas reprot_until_ranges case_prod_beta simp del: reprot_until.simps)
    have "vmas_ok (v # fst ?n)"
      using same_ranges_ok [of "v # vs" "v # fst ?n"] r Cons.prems(1) by simp
    moreover have "covers v x \<Longrightarrow> \<not> a \<le> x" using False by (auto simp: covers_def not_less)
    ultimately show ?thesis using IH unfolding f by auto
  qed
qed simp

lemma mprotect_covered_mapped:
  assumes "mprotect_covered vs va e" and "vmas_ok vs" and "va \<le> x" "x < e"
  shows "prot_at vs x \<noteq> None"
  using assms
proof (induction vs va e rule: mprotect_covered.induct)
  case (1 vs va e)
  have "va < e" using "1.prems"(3,4) by simp
  then obtain v where v: "find_vma vs va = Some v" "vm_start v \<le> va" "mprotect_covered vs (vm_end v) e"
    using "1.prems"(1) by (auto simp: mprotect_covered.simps [of vs va e] split: option.splits if_splits)
  show ?case
  proof (cases "x < vm_end v")
    case True
    have "v \<in> set vs" using v(1) by (auto simp: find_vma_def find_Some_iff)
    moreover have "covers v x" using True v(2) "1.prems"(3) by (auto simp: covers_def)
    ultimately show ?thesis by (auto simp: prot_at_None_iff)
  next
    case False
    then show ?thesis using "1.IH" [OF \<open>va < e\<close> v(1)] v "1.prems" by (simp add: not_less)
  qed
qed

lemma covers_unique:
  assumes "vmas_ok vs" "v \<in> set vs" "w \<in> set vs" "covers v x" "covers w x"
  shows "v = w"
  using assms
proof (induction vs)
  case (Cons u us)
  have "\<not> covers y x" if "covers u x" "y \<in> set us" for y
    using Cons.prems(1) that by (auto simp: vmas_ok_Cons covers_def)
  then show ?case using Cons by (auto simp: vmas_ok_Cons)
qed simp

lemma vma_split_straddle:
  assumes ok: "vmas_ok vs" and o: "dptrs vs" and v: "v \<in> set vs" and s: "vma_split v addr vs k = (0, vs', k')"
  shows "w \<in> set vs' \<Longrightarrow> w \<in> set vs \<and> (w = v \<longrightarrow> addr \<le> vm_start v \<or> vm_end v \<le> addr) \<or>
    vm_start v \<le> vm_start w \<and> vm_end w \<le> vm_end v \<and> (vm_end w \<le> addr \<or> addr \<le> vm_start w)"
proof (cases "addr \<le> vm_start v \<or> addr \<ge> vm_end v")
  case True
  then show "w \<in> set vs' \<Longrightarrow> ?thesis" using s by (auto simp: vma_split_def)
next
  case False
  assume w: "w \<in> set vs'"
  obtain t k1 where t: "vma_alloc addr (vm_end v) (vm_flags v) k = (Some t, k1)"
    and vs': "vs' = replace_vma (va_ptr v) [v\<lparr>vm_end := addr\<rparr>, t] vs"
    using s False by (auto simp: vma_split_def split: prod.splits option.splits)
  note f = vma_alloc_fields [OF t]
  from v o show ?thesis
  proof (rule replace_vma_split [where vs = "[v\<lparr>vm_end := addr\<rparr>, t]"])
    fix b r
    assume br: "vs = b @ v # r" "replace_vma (va_ptr v) [v\<lparr>vm_end := addr\<rparr>, t] vs = b @ [v\<lparr>vm_end := addr\<rparr>, t] @ r"
    have "v \<notin> set b" "v \<notin> set r" using o unfolding br(1) by (auto simp: ptrs_def)
    then have "w \<in> set vs \<and> w \<noteq> v \<or> w = v\<lparr>vm_end := addr\<rparr> \<or> w = t"
      using w unfolding vs' br(2) unfolding br(1) by auto
    moreover have "v\<lparr>vm_end := addr\<rparr> \<noteq> v"
    proof
      assume "v\<lparr>vm_end := addr\<rparr> = v"
      from arg_cong [OF this, of vm_end] show False using False by simp
    qed
    ultimately show ?thesis using f False by auto
  qed
qed

lemma split_at_addr_ok:
  assumes ok: "vmas_ok vs" and o: "owns k vs" and s: "split_at_addr x addr vs k = (0, vs', k')"
    and x: "x = addr \<or> x = addr - 1 \<and> addr \<noteq> 0"
  shows "vmas_ok vs'" "owns k' vs'" "prot_at vs' y = prot_at vs y" "no_straddle addr vs'"
    "no_straddle b vs \<Longrightarrow> no_straddle b vs'"
proof -
  have in_x: "covers v x" if "vm_start v < addr" "addr < vm_end v" for v
    using that x by (auto simp: covers_def word_le_nat_alt word_less_nat_alt unat_minus_one)
  have d: "dptrs vs" using o by (simp add: owns_def)
  have "vmas_ok vs' \<and> owns k' vs' \<and> prot_at vs' y = prot_at vs y \<and> no_straddle addr vs' \<and>
      (no_straddle b vs \<longrightarrow> no_straddle b vs')"
  proof (cases "find_vma vs x")
    case None
    have "\<not> covers v x" if "v \<in> set vs" for v
      using None that by (auto simp: find_vma_def find_None_iff covers_def)
    then have "no_straddle addr vs" using in_x by (auto simp: no_straddle_def not_le [symmetric])
    then show ?thesis
      using None s ok o by (simp add: split_at_addr_def)
  next
    case (Some v)
    have v: "v \<in> set vs" using Some by (auto simp: find_vma_def find_Some_iff)
    have sp: "vma_split v addr vs k = (0, vs', k')" using s Some by (simp add: split_at_addr_def)
    note st = vma_split_straddle [OF ok d v sp]
    have only: "w = v" if "w \<in> set vs" "vm_start w < addr" "addr < vm_end w" for w
    proof -
      have "find_vma vs x = Some u \<Longrightarrow> u = w" for u
      proof -
        assume u: "find_vma vs x = Some u"
        have "prot_at vs x \<noteq> None" using that in_x by (auto simp: prot_at_None_iff)
        then have "covers u x"
          using find_vma_prot [OF ok, of x] u find_vma_end [OF u] by (auto simp: covers_def split: if_splits)
        then show "u = w"
          using covers_unique [OF ok _ that(1) _ in_x [OF that(2,3)]] u by (auto simp: find_vma_def find_Some_iff)
      qed
      then show ?thesis using Some by blast
    qed
    have "no_straddle addr vs'"
      unfolding no_straddle_def using st only by (metis linorder_not_less)
    moreover have "no_straddle b vs \<longrightarrow> no_straddle b vs'"
      unfolding no_straddle_def using st v by (meson order_trans)
    moreover have "owns k' vs'" using vma_split_owns [OF o v sp] by (simp add: node_safe_def)
    ultimately show ?thesis
      using vma_split_ok [OF ok v d sp] by blast
  qed
  then show "vmas_ok vs'" "owns k' vs'" "prot_at vs' y = prot_at vs y" "no_straddle addr vs'"
    "no_straddle b vs \<Longrightarrow> no_straddle b vs'" by auto
qed


lemma sample_owns:
  obtains t k where "vma_alloc a b f (km sample_st) = (Some t, k)" "owns k [t]"
proof -
  obtain t k where t: "vma_alloc a b f (km sample_st) = (Some t, k)" using sample_st_alloc by blast
  have "owns (km sample_st) []" using small_kmem_inv by (simp add: owns_def sample_st_def small_kmem_def)
  then have "owns k [t]" using vma_alloc_owns [OF _ t] by (simp add: node_safe_def)
  then show ?thesis using that t by blast
qed


subsection \<open>brk\<close>

lemma covers_prot: "vmas_ok vs \<Longrightarrow> v \<in> set vs \<Longrightarrow> covers v x \<Longrightarrow> prot_at vs x = Some (vm_flags v)"
proof (induction vs)
  case (Cons w vs)
  have "\<not> covers w x" if "v \<in> set vs"
    using Cons.prems that by (auto simp: vmas_ok_Cons covers_def dest: order.strict_trans2)
  then show ?case using Cons by (auto simp: vmas_ok_Cons)
qed simp

lemma next_vma_hd:
  assumes "dptrs (b @ h # r)"
  shows "next_vma (va_ptr h) (b @ h # r) = (case r of [] \<Rightarrow> None | w # _ \<Rightarrow> Some w)"
  using assms by (induction b) auto

lemma grow_heap_ok:
  assumes ok: "vmas_ok vs" and d: "dptrs vs" and h: "h \<in> set vs" and gt: "vm_end h < e"
    and nx: "case next_vma (va_ptr h) vs of None \<Rightarrow> True | Some w \<Rightarrow> e \<le> vm_start w"
  shows "vmas_ok (replace_vma (va_ptr h) [h\<lparr>vm_end := e\<rparr>] vs)"
    "prot_at (replace_vma (va_ptr h) [h\<lparr>vm_end := e\<rparr>] vs) x =
       (if vm_start h \<le> x \<and> x < e then Some (vm_flags h) else prot_at vs x)"
  using h d
proof (rule_tac [!] replace_vma_split [where vs = "[h\<lparr>vm_end := e\<rparr>]"])
  fix b r
  assume br: "vs = b @ h # r" "replace_vma (va_ptr h) [h\<lparr>vm_end := e\<rparr>] vs = b @ [h\<lparr>vm_end := e\<rparr>] @ r"
  have r: "e \<le> vm_start w" if "w \<in> set r" for w
    using nx next_vma_hd [of b h r] d that ok unfolding br(1)
    by (cases r) (auto simp: vmas_ok_append vmas_ok_Cons intro: order_trans less_imp_le)
  have "vm_start h < vm_end h" using ok h by (auto simp: vmas_ok_def)
  then have "vm_start h < e" using gt by simp
  then show ok': "vmas_ok (replace_vma (va_ptr h) [h\<lparr>vm_end := e\<rparr>] vs)"
    unfolding br(2) using ok r unfolding br(1) by (auto simp: vmas_ok_append vmas_ok_Cons)
  show "prot_at (replace_vma (va_ptr h) [h\<lparr>vm_end := e\<rparr>] vs) x =
      (if vm_start h \<le> x \<and> x < e then Some (vm_flags h) else prot_at vs x)"
  proof (cases "vm_start h \<le> x \<and> x < e")
    case True
    then show ?thesis
      using covers_prot [OF ok', of "h\<lparr>vm_end := e\<rparr>" x] by (simp add: br(2) covers_def)
  next
    case False
    then have "\<not> covers h x" "\<not> covers (h\<lparr>vm_end := e\<rparr>) x" using gt by (auto simp: covers_def)
    then show ?thesis
      using False unfolding br(2) by (auto simp: br(1) prot_at_append split: option.split)
  qed
qed

text \<open>The rights of the heap: those of the area at its start, or read and write for a new one.\<close>

definition heap_rights :: "mm_struct \<Rightarrow> u64" where
  "heap_rights mm = (case prot_at (mmap mm) (start_brk mm) of
     None \<Rightarrow> MAP_PROT_READ OR MAP_PROT_WRITE | Some f \<Rightarrow> f)"

lemma brk_grow_ok:
  assumes ok: "vmas_ok (mmap mm)" and o: "owns (km st) (mmap mm)"
    and g: "brk_grow newbrk mm st = (b, mm', st')"
  shows "vmas_ok (mmap mm') \<and> brk mm' = brk mm \<and> prot_at (mmap mm') x =
    (if b \<and> start_brk mm \<le> x \<and> x < page_align_up newbrk then Some (heap_rights mm) else prot_at (mmap mm) x)"
proof -
  define e where "e = page_align_up newbrk"
  have d: "dptrs (mmap mm)" using o by (simp add: owns_def)
  show ?thesis
    unfolding e_def [symmetric]
  proof (cases "find_heap_vma (start_brk mm) (mmap mm)")
    case None
    obtain r vs k where v: "vma_record (mmap mm) (start_brk mm) e 3 (km st) = (r, vs, k)" by (metis prod.exhaust)
    have m: "mm' = mm\<lparr>mmap := vs\<rparr>" "b = (\<not> r < 0)" using g None v unfolding brk_grow_def e_def by auto
    show "vmas_ok (mmap mm') \<and> brk mm' = brk mm \<and> prot_at (mmap mm') x =
        (if b \<and> start_brk mm \<le> x \<and> x < e then Some (heap_rights mm) else prot_at (mmap mm) x)"
    proof (cases "vs = mmap mm \<and> r < 0")
      case False
      then obtain t k1 where t: "start_brk mm < e" "\<not> r < 0"
        "vma_alloc (start_brk mm) e 3 (km st) = (Some t, k1)" "insert_vma (mmap mm) t = (0, vs)"
        using v insert_vma_ptrs [of "mmap mm"]
        by (fastforce simp: vma_record_def not_le split: if_splits prod.splits option.splits)
      note f = vma_alloc_fields [OF t(3)] and i = insert_vma_ok [OF ok t(4)]
      have "heap_rights mm = 3" using i(5) [of "start_brk mm"] f t(1) by (simp add: heap_rights_def covers_def)
      then show ?thesis using i(1,2) f m t(2) by (simp add: covers_def)
    qed (use ok m in auto)
  next
    case (Some h)
    have h: "h \<in> set (mmap mm)" "vm_start h = start_brk mm" using Some by (auto simp: find_heap_vma_def find_Some_iff)
    have c: "prot_at (mmap mm) y = Some (vm_flags h)" if "start_brk mm \<le> y" "y < vm_end h" for y
      using covers_prot [OF ok h(1)] h(2) that by (simp add: covers_def)
    have "vm_start h < vm_end h" using ok h(1) by (auto simp: vmas_ok_def)
    then have hr: "heap_rights mm = vm_flags h" using c [of "start_brk mm"] h(2) by (simp add: heap_rights_def)
    consider "mm' = mm" "b \<longrightarrow> e \<le> vm_end h"
      | "b" "vm_end h < e" "mm' = mm\<lparr>mmap := replace_vma (va_ptr h) [h\<lparr>vm_end := e\<rparr>] (mmap mm)\<rparr>"
        "case next_vma (va_ptr h) (mmap mm) of None \<Rightarrow> True | Some w \<Rightarrow> e \<le> vm_start w"
      using g Some unfolding brk_grow_def e_def [symmetric] Let_def
      by (auto simp: not_less split: if_splits option.splits)
    then show "vmas_ok (mmap mm') \<and> brk mm' = brk mm \<and> prot_at (mmap mm') x =
        (if b \<and> start_brk mm \<le> x \<and> x < e then Some (heap_rights mm) else prot_at (mmap mm) x)"
    proof cases
      case 1
      then show ?thesis using ok c hr by (auto intro: less_le_trans)
    next
      case 2
      then show ?thesis using grow_heap_ok [OF ok d h(1) 2(2,4)] h(2) hr by simp
    qed
  qed
qed

text \<open>C16: growing the heap with \<open>brk\<close> keeps the areas sorted and disjoint.  If the request is
  granted, the break is the requested one and the addresses from the start of the heap up to the
  break, rounded up to a page, have exactly the rights of the heap, while every other address
  keeps its own; otherwise the old break is returned and no right changes.\<close>

theorem do_brk_grow_correct:
  assumes ok: "vmas_ok (mmap mm)" and o: "owns (km st) (mmap mm)" and pt: "pgd mm \<noteq> 0"
    and gt: "brk mm < newbrk" and r: "do_brk newbrk mm st = (r, mm', st')"
  shows "vmas_ok (mmap mm') \<and>
    (if r = sint newbrk
     then brk mm' = newbrk \<and> (\<forall>x. prot_at (mmap mm') x =
       (if start_brk mm \<le> x \<and> x < page_align_up newbrk then Some (heap_rights mm) else prot_at (mmap mm) x))
     else r = sint (brk mm) \<and> brk mm' = brk mm \<and> prot_at (mmap mm') = prot_at (mmap mm))"
proof -
  have ne: "sint (brk mm) \<noteq> sint newbrk" using gt signed_word_eqI [of "brk mm" newbrk, where 'a = int] by auto
  obtain b mm1 st1 where g: "brk_grow newbrk mm st = (b, mm1, st1)" by (metis prod.exhaust)
  note ok1 = brk_grow_ok [OF ok o g]
  have "mm' = mm \<and> r = sint (brk mm) \<or> \<not> b \<and> mm' = mm1 \<and> r = sint (brk mm) \<or>
      b \<and> mm' = mm1\<lparr>brk := newbrk\<rparr> \<and> r = sint newbrk"
    using r pt gt g by (auto simp: do_brk_def Let_def split: if_splits)
  then show ?thesis using ok ok1 ne by (auto simp: fun_eq_iff)
qed

theorem do_brk_grow_correct_witness:
  "\<exists>mm st mm' st'. do_brk 0x7800 mm st = (0x7800, mm', st') \<and> vmas_ok (mmap mm') \<and> prot_at (mmap mm') 0x7fff = Some 3 \<and>
     prot_at (mmap mm') 0x8000 = None"
proof -
  obtain t k where t: "vma_alloc 0x1000 0x5000 3 (km sample_st) = (Some t, k)" "owns k [t]"
    using sample_owns by blast
  note f = vma_alloc_fields [OF t(1)]
  define mm where "mm = sample_mm\<lparr>mmap := [t]\<rparr>"
  define st where "st = set_km k sample_st"
  have "fst (do_brk 0x7800 mm st) = 0x7800"
    using f by (simp add: do_brk_def brk_grow_def mm_def sample_mm_def find_heap_vma_def page_align_up_def Let_def)
  then obtain mm' st' where r: "do_brk 0x7800 mm st = (0x7800, mm', st')" by (metis prod.collapse)
  have "vmas_ok (mmap mm)" "owns (km st) (mmap mm)" "pgd mm \<noteq> 0" "brk mm < 0x7800"
    using f t(2) by (simp_all add: mm_def st_def vmas_ok_Cons sample_mm_def)
  moreover have "prot_at (mmap mm) 0x8000 = None" "heap_rights mm = 3" "start_brk mm = 0x1000"
    using f by (simp_all add: mm_def sample_mm_def covers_def heap_rights_def)
  ultimately have "vmas_ok (mmap mm') \<and> prot_at (mmap mm') 0x7fff = Some 3 \<and> prot_at (mmap mm') 0x8000 = None"
    using do_brk_grow_correct [of mm st "0x7800" "0x7800" mm' st'] r by (simp add: page_align_up_def)
  then show ?thesis using r by blast
qed

lemma brk_shrink_ok:
  assumes ok: "vmas_ok (mmap mm)" and d: "dptrs (mmap mm)"
    and h: "\<And>h. find_heap_vma (start_brk mm) (mmap mm) = Some h \<Longrightarrow> page_align_up newbrk \<le> vm_end h"
    and g: "brk_shrink newbrk mm st = (mm', st')"
  shows "vmas_ok (mmap mm') \<and> prot_at (mmap mm') x =
    (case find_heap_vma (start_brk mm) (mmap mm) of None \<Rightarrow> prot_at (mmap mm) x
     | Some h \<Rightarrow> if covers h x \<and> page_align_up newbrk \<le> x then None else prot_at (mmap mm) x)"
proof (cases "find_heap_vma (start_brk mm) (mmap mm)")
  case None
  then show ?thesis using g ok by (auto simp: brk_shrink_def Let_def)
next
  case (Some v)
  define e where "e = page_align_up newbrk"
  have v: "v \<in> set (mmap mm)" and le: "e \<le> vm_end v" using Some h by (auto simp: find_heap_vma_def find_Some_iff e_def)
  let ?vs = "if e \<le> vm_start v then [] else [v\<lparr>vm_end := e\<rparr>]"
  have "va_ptr v \<in> va_ptr ` set (mmap mm)" using v by blast
  then have m: "mmap mm' = replace_vma (va_ptr v) ?vs (mmap mm)"
    using g Some by (auto simp: brk_shrink_def Let_def e_def remove_vma_def split: if_splits)
  have vs: "vmas_ok ?vs" "\<forall>w\<in>set ?vs. vm_start v \<le> vm_start w \<and> vm_end w \<le> vm_end v"
    using le by (auto simp: vmas_ok_Cons)
  have cv: "covers v x \<Longrightarrow> prot_at (mmap mm) x = Some (vm_flags v)" using covers_prot [OF ok v] .
  show ?thesis
    using replace_vma_ok(1) [OF ok v d vs] replace_vma_ok(2) [OF ok v d vs, of x] cv Some unfolding m [symmetric] e_def [symmetric]
    by (auto simp: covers_def)
qed

text \<open>shrinking the heap with \<open>brk\<close>, when its area still reaches the new break, removes exactly the
  rights above the new break, rounded up to a page, from the heap area and keeps the areas sorted
  and disjoint.\<close>

theorem do_brk_shrink_correct:
  assumes ok: "vmas_ok (mmap mm)" and d: "dptrs (mmap mm)" and pt: "pgd mm \<noteq> 0"
    and h: "find_heap_vma (start_brk mm) (mmap mm) = Some h" "page_align_up newbrk \<le> vm_end h"
    and lt: "start_brk mm \<le> newbrk" "newbrk < brk mm" and r: "do_brk newbrk mm st = (sint newbrk, mm', st')"
  shows "vmas_ok (mmap mm') \<and> brk mm' = newbrk \<and> (\<forall>x. prot_at (mmap mm') x =
    (if page_align_up newbrk \<le> x \<and> x < vm_end h \<and> vm_start h \<le> x then None else prot_at (mmap mm) x))"
proof -
  have ne: "sint (brk mm) \<noteq> sint newbrk" using lt signed_word_eqI [of "brk mm" newbrk, where 'a = int] by auto
  obtain mm1 st1 where g: "brk_shrink newbrk mm st = (mm1, st1)" by (metis prod.exhaust)
  have "mm' = mm1\<lparr>brk := newbrk\<rparr>"
    using r pt lt g ne by (auto simp: do_brk_def Let_def split: if_splits)
  then show ?thesis
    using brk_shrink_ok [OF ok d _ g] h by (auto simp: covers_def)
qed

text \<open>If the program has unmapped the end of its heap and mapped something else there, shrinking
  the break to an address above that mapping sets the end of the heap area to the new break, past
  its real end: the call reports success and the areas overlap.\<close>

theorem do_brk_shrink_overlaps:
  assumes vs: "mmap mm = [h, w]" "vm_start h = start_brk mm" "vm_start h < vm_end h" "vm_end h \<le> vm_start w"
    and pt: "pgd mm \<noteq> 0" "va_ptr h \<noteq> va_ptr w" "stack_top mm = 0"
    and b: "start_brk mm \<le> newbrk" "newbrk < brk mm" "vm_start w < page_align_up newbrk"
  shows "\<exists>mm' st'. do_brk newbrk mm st = (sint newbrk, mm', st') \<and> \<not> vmas_ok (mmap mm')"
proof -
  have f: "find_heap_vma (start_brk mm) (mmap mm) = Some h" using vs by (simp add: find_heap_vma_def)
  define e where "e = page_align_up newbrk"
  have "\<not> e \<le> vm_start h" using b(3) vs by (auto simp: e_def)
  then have g: "fst (brk_shrink newbrk mm st) = mm\<lparr>mmap := [h\<lparr>vm_end := e\<rparr>, w]\<rparr>"
    using f vs(1) by (simp add: brk_shrink_def e_def Let_def)
  have n: "\<not> newbrk < start_brk mm" "newbrk \<noteq> brk mm" "\<not> brk mm < newbrk" using b by auto
  have "do_brk newbrk mm st = (sint newbrk, mm\<lparr>mmap := [h\<lparr>vm_end := e\<rparr>, w], brk := newbrk\<rparr>,
      snd (brk_shrink newbrk mm st))"
    using n pt g by (simp add: do_brk_def Let_def case_prod_beta del: not_less)
  moreover have "\<not> vmas_ok [h\<lparr>vm_end := e\<rparr>, w]"
    using b(3) by (auto simp: vmas_ok_Cons e_def)
  ultimately show ?thesis by auto
qed

theorem do_brk_shrink_correct_witness:
  "\<exists>mm mm' st'. do_brk 0x2800 mm sample_st = (0x2800, mm', st') \<and> prot_at (mmap mm) 0x3000 = Some 3 \<and>
     prot_at (mmap mm') 0x3000 = None \<and> prot_at (mmap mm') 0x2fff = Some 3"
proof -
  have h: "find_heap_vma (start_brk sample_mm) (mmap sample_mm) = Some (area 1 0x1000 0x5000 3)"
    by (simp add: sample_mm_def sample_areas_def area_def find_heap_vma_def)
  have d: "dptrs (mmap sample_mm)" by (simp add: sample_mm_def sample_areas_def area_def)
  have "fst (do_brk 0x2800 sample_mm sample_st) = sint (0x2800 :: u64)"
    using h by (simp add: do_brk_def sample_mm_def Let_def case_prod_beta)
  then obtain mm' st' where r: "do_brk 0x2800 sample_mm sample_st = (sint (0x2800 :: u64), mm', st')"
    by (metis prod.collapse)
  have e: "page_align_up 0x2800 = 0x3000" by (simp add: page_align_up_def)
  have "\<forall>x. prot_at (mmap mm') x = (if 0x3000 \<le> x \<and> x < 0x5000 \<and> 0x1000 \<le> x then None else prot_at (mmap sample_mm) x)"
    using do_brk_shrink_correct [OF sample_areas_ok(2) d _ h _ _ _ r, unfolded e]
    by (simp add: area_def sample_mm_def)
  moreover have "prot_at (mmap sample_mm) 0x3000 = Some 3" "prot_at (mmap sample_mm) 0x2fff = Some 3"
    by (simp_all add: sample_mm_def sample_areas_def area_def covers_def)
  ultimately show ?thesis using r by (rule_tac exI [of _ sample_mm]) auto
qed

theorem do_brk_shrink_overlaps_witness:
  "\<exists>mm'. fst (do_brk 0x4800 (sample_mm\<lparr>mmap := [area 1 0x1000 0x2000 3, area 2 0x3000 0x4000 1], stack_top := 0\<rparr>)
       sample_st) = 0x4800 \<and>
     fst (snd (do_brk 0x4800 (sample_mm\<lparr>mmap := [area 1 0x1000 0x2000 3, area 2 0x3000 0x4000 1], stack_top := 0\<rparr>)
       sample_st)) = mm' \<and> \<not> vmas_ok (mmap mm')"
proof -
  have e: "page_align_up 0x4800 = 0x5000" by (simp add: page_align_up_def)
  show ?thesis
    using do_brk_shrink_overlaps [of "sample_mm\<lparr>mmap := [area 1 0x1000 0x2000 3, area 2 0x3000 0x4000 1], stack_top := 0\<rparr>"
        "area 1 0x1000 0x2000 3" "area 2 0x3000 0x4000 1" "0x4800" sample_st, unfolded e]
    by (auto simp: area_def sample_mm_def)
qed

end
