(* ===== verification/Fault_Props.thy ===== *)
theory Fault_Props
  imports Mmap Pgtable_Correct Slub_Props
begin

text \<open>
  The properties of the page tables and of the page fault handler: mapping changes exactly one
  translation, a fault is resolved only if the area allows the access, a fresh page is zeroed and
  private, and a copy-on-write break gives the writer a private copy of the shared page.
\<close>

lemma va_mapped_lookup: "pt \<noteq> 0 \<Longrightarrow> va_mapped st pt va \<longleftrightarrow> lookup st pt va AND 1 \<noteq> 0"
  by (auto simp: va_mapped_def l3_slot_l3t lookup_def split: option.split)

subsection \<open>Witness data\<close>

definition boot_st :: vmstate where
  "boot_st = \<lparr>km = small_kmem, words = \<lambda>_ _. 0\<rparr>"

lemma boot_st_ok: "mem_ok boot_st"
proof -
  have r: "room_left 0xffff800087ffc000" by (simp add: room_left_def)
  have "buddy_of boot_st = page_alloc_init 0xffff800087ffc000"
    by (simp add: boot_st_def buddy_of_def small_kmem_def kmem_boot_def slub_init_def kmem_cache_init_def)
  then show ?thesis using page_alloc_init_inv(1) [OF r] kernel_pool_init [OF r] by (simp add: mem_ok_def)
qed

text \<open>An address space with one read-only area and an empty table tree.\<close>

definition root_mm :: mm_struct where
  "root_mm = \<lparr>mm_ptr = 0x1000, mmap = [\<lparr>va_ptr = 0x2000, vm_start = 0x400000, vm_end = 0x402000, vm_flags = 1\<rparr>],
     pgd = the (fst (alloc_pages 0 (buddy_of boot_st))), entry = 0, stack_top = 0, start_brk = 0, brk = 0,
     mmap_base = 0x2000000, users = 1\<rparr>"

definition root_st :: vmstate where
  "root_st = page_zero (pgd root_mm) (set_buddy (snd (alloc_pages 0 (buddy_of boot_st))) boot_st)"

lemma root_ok: "pt_ok root_st (pgd root_mm)" "mem_ok root_st" "lookup root_st (pgd root_mm) va = 0"
proof -
  have "fst (alloc_pages 0 (buddy_of boot_st)) \<noteq> None" unfolding buddy_of_def by code_simp
  then obtain t p where a: "alloc_pages 0 (buddy_of boot_st) = (Some t, p)" by (metis option.exhaust prod.collapse)
  then have "pgd root_mm = t" "root_st = page_zero t (set_buddy p boot_st)"
    by (simp_all add: root_mm_def root_st_def)
  then show "pt_ok root_st (pgd root_mm)" "mem_ok root_st" "lookup root_st (pgd root_mm) va = 0"
    using fresh_root_ok [OF boot_st_ok a] by simp_all
qed

lemma root_fault: "\<exists>st'. do_page_fault (Some root_mm) 0x400010 0 root_st = (0, st')"
proof -
  have "fst (do_page_fault (Some root_mm) 0x400010 0 root_st) = 0" by code_simp
  then show ?thesis by (metis prod.collapse)
qed

lemma root_map:
  "\<exists>p p' st. alloc_pages 0 (buddy_of root_st) = (Some p, p') \<and>
     map_page (pgd root_mm) 0x400000 (virt_to_phys p) 1 (page_zero p (set_buddy p' root_st)) = (0, st)"
proof -
  let ?m = "\<lambda>x. map_page (pgd root_mm) 0x400000 (virt_to_phys (the (fst x))) 1 (page_zero (the (fst x)) (set_buddy (snd x) root_st))"
  have "fst (alloc_pages 0 (buddy_of root_st)) \<noteq> None" by code_simp
  then obtain p p' where a: "alloc_pages 0 (buddy_of root_st) = (Some p, p')" by (metis option.exhaust prod.collapse)
  have "fst (?m (alloc_pages 0 (buddy_of root_st))) = 0" by code_simp
  then show ?thesis unfolding a by (simp del: map_page_def) (metis prod.collapse)
qed

subsection \<open>Mapping\<close>

text \<open>C17: \<open>map_page\<close>, creating missing tables on the way, changes the translation of exactly one page
  and keeps the tree well formed: its entry holds the physical page and grants the program to
  read, write and execute as the protection says; if it runs out of memory no translation
  changes.\<close>

theorem map_page_correct:
  assumes "pt_ok st pt" "mem_ok st" and "map_page pt va pa prot st = (r, st')"
  shows "pt_ok st' pt \<and> mem_ok st' \<and> (r = 0 \<or> r = - ENOMEM) \<and>
    (\<forall>x. \<not> (r = 0 \<and> vpn x = vpn va) \<longrightarrow> lookup st' pt x = lookup st pt x) \<and>
    (r = 0 \<longrightarrow> lookup st' pt va AND 1 = 1 \<and> lookup st' pt va AND PTE_ADDR_MASK = pa AND PTE_ADDR_MASK \<and>
       (user_read (lookup st' pt va) \<longleftrightarrow> prot AND 7 \<noteq> 0) \<and> (user_write (lookup st' pt va) \<longleftrightarrow> prot AND 2 \<noteq> 0) \<and>
       (user_exec (lookup st' pt va) \<longleftrightarrow> prot AND 4 \<noteq> 0))"
  using map_page_ok [OF assms] leaf_entry [of pa prot] by auto

theorem map_page_correct_witness:
  "\<exists>st pt r st'. map_page pt 0x400000 0x41000000 1 st = (r, st') \<and> pt_ok st' pt \<and>
     (r = 0 \<or> r = - 12) \<and> lookup st' pt 0x401000 = lookup st pt 0x401000"
proof -
  obtain r st' where m: "map_page (pgd root_mm) 0x400000 0x41000000 1 root_st = (r, st')" by fastforce
  have "vpn 0x401000 \<noteq> vpn 0x400000" by (simp add: vpn_def l1_idx_def l2_idx_def l3_idx_def)
  then show ?thesis using map_page_correct [OF root_ok(1,2) m] m by blast
qed

subsection \<open>Page faults\<close>

text \<open>What a fault resolved by a new page guarantees.\<close>

definition demand_paged :: "mm_struct \<Rightarrow> u64 \<Rightarrow> vma \<Rightarrow> vmstate \<Rightarrow> vmstate \<Rightarrow> bool" where
  "demand_paged mm addr v st st' \<longleftrightarrow>
     (\<exists>page. (\<forall>k b. block_valid (buddy_of st) k b \<longrightarrow> b \<noteq> page) \<and> block_valid (buddy_of st') 0 page \<and>
        page \<notin> tables st' (pgd mm) \<and> words st' page = (\<lambda>_. 0) \<and>
        lookup st' (pgd mm) (page_align_down addr) =
          (virt_to_phys page AND PTE_ADDR_MASK) OR prot_to_pte (vm_flags v)) \<and>
     (\<forall>x. vpn x \<noteq> vpn (page_align_down addr) \<longrightarrow> lookup st' (pgd mm) x = lookup st (pgd mm) x)"

lemma demand_page:
  assumes ok: "pt_ok st pt" "mem_ok st" and a: "alloc_pages 0 (buddy_of st) = (Some page, p)"
    and m: "map_page pt va (virt_to_phys page) flags (page_zero page (set_buddy p st)) = (r, st')"
  shows "pt_ok st' pt" "mem_ok st'" "block_valid (buddy_of st') 0 page" "page \<notin> tables st' pt" "words st' page = (\<lambda>_. 0)"
    "lookup st' pt x = (if r = 0 \<and> vpn x = vpn va then (virt_to_phys page AND PTE_ADDR_MASK) OR prot_to_pte flags
       else lookup st pt x)"
proof -
  note f = alloc_page_fresh [OF ok(2) a]
  let ?s = "page_zero page (set_buddy p st)"
  have "page \<notin> tables st pt" using ok(1) f(6) by (auto simp: pt_ok_def)
  then have w: "words ?s t = words st t" if "t \<in> tables st pt" for t using that by auto
  have v: "block_valid (buddy_of ?s) 0 t" if "t \<in> tables st pt" for t
    using that ok(1) f(6) by (auto simp: pt_ok_def)
  note s = pt_ok_agree [OF ok(1) w v]
  have "mem_ok ?s" using f(1,2) by (simp add: mem_ok_def)
  note mp = map_page_ok [OF s(1) this m]
  have "page \<notin> tables ?s pt" using s(4) \<open>page \<notin> tables st pt\<close> by simp
  moreover have "block_valid (buddy_of ?s) 0 page" "words ?s page = (\<lambda>_. 0)" using f(3) by simp_all
  ultimately show "block_valid (buddy_of st') 0 page" "page \<notin> tables st' pt" "words st' page = (\<lambda>_. 0)"
    using mp(5) by (auto simp: keeps_def)
  show "pt_ok st' pt" "mem_ok st'" using mp(1,2) by simp_all
  show "lookup st' pt x = (if r = 0 \<and> vpn x = vpn va then (virt_to_phys page AND PTE_ADDR_MASK) OR prot_to_pte flags
       else lookup st pt x)" using mp(4) [of x] s(2) [of x] by simp
qed

text \<open>
  What the access rights of an area mean, apart from the handler: the syndrome tells an
  instruction fetch (exception class \<open>0x20\<close>), a store (bit 6) and a load apart; a fetch needs the
  execute right (bit 2), a store the write right (bit 1), a load any right at all, since a user
  page that is mapped is readable.
\<close>

datatype access = Fetch | Store | Load

definition access_of :: "u64 \<Rightarrow> access" where
  "access_of esr = (if take_bit 6 (drop_bit 26 esr) = 0x20 then Fetch else if bit esr 6 then Store else Load)"

definition permits :: "u64 \<Rightarrow> access \<Rightarrow> bool" where
  "permits f a = (case a of Fetch \<Rightarrow> bit f 2 | Store \<Rightarrow> bit f 1 | Load \<Rightarrow> bit f 0 \<or> bit f 1 \<or> bit f 2)"

definition granted :: "mm_struct \<Rightarrow> u64 \<Rightarrow> u64 \<Rightarrow> bool" where
  "granted mm addr esr \<longleftrightarrow> (\<exists>f. prot_at (mmap mm) addr = Some f \<and> permits f (access_of esr))"

lemma and_pow2_iff: "(x :: u64) AND 2 ^ n \<noteq> 0 \<longleftrightarrow> bit x n"
  by (simp add: and_exp_eq_0_iff_not_bit)

lemma fault_allowed_permits: "fault_allowed esr f \<longleftrightarrow> permits f (access_of esr)"
proof -
  have "drop_bit 26 esr AND 0x3f = take_bit 6 (drop_bit 26 esr)"
    by (simp add: take_bit_eq_mask mask_eq_exp_minus_1)
  moreover have "f AND 7 \<noteq> 0 \<longleftrightarrow> bit f 0 \<or> bit f 1 \<or> bit f 2"
  proof -
    have "(7 :: u64) = 2 ^ 0 OR 2 ^ 1 OR 2 ^ 2" by simp
    then show ?thesis
      using and_pow2_iff [of f 0] and_pow2_iff [of f 1] and_pow2_iff [of f 2]
      by (simp only: bit.conj_disj_distrib or_eq_0_iff) simp
  qed
  ultimately show ?thesis
    using and_pow2_iff [of esr 6] and_pow2_iff [of f 1] and_pow2_iff [of f 2]
    by (simp add: fault_allowed_def permits_def access_of_def esr_get_ec_def)
qed

lemma granted_area:
  assumes "vmas_ok (mmap mm)" and "find_vma (mmap mm) addr = Some v" "\<not> addr < vm_start v"
  shows "granted mm addr esr \<longleftrightarrow> fault_allowed esr (vm_flags v)"
  using assms find_vma_prot [OF assms(1), of addr] by (simp add: granted_def fault_allowed_permits not_less)



lemma map_page_error:
  assumes "map_page pt va pa prot st = (r, st')"
  shows "r = 0 \<or> r = - ENOMEM"
  using assms by (auto simp: map_page_def split: prod.splits option.splits)

text \<open>C19: an access that no area of the program grants, because none covers the address or the one
  that does lacks the right for a fetch, a store or a load, is refused with \<open>EFAULT\<close>, and memory,
  tables and reference counts are untouched; an access that is granted, to a page that is not
  mapped yet, is never refused with \<open>EFAULT\<close>.\<close>

theorem do_page_fault_denied:
  assumes vs: "vmas_ok (mmap mm)"
  shows "(\<not> granted mm addr esr \<longrightarrow> do_page_fault (Some mm) addr esr st = (- EFAULT, st)) \<and>
    (granted mm addr esr \<and> \<not> va_mapped st (pgd mm) (page_align_down addr) \<longrightarrow>
       fst (do_page_fault (Some mm) addr esr st) \<noteq> - EFAULT)"
proof (cases "\<exists>v. find_vma (mmap mm) addr = Some v \<and> \<not> addr < vm_start v")
  case False
  then have "\<not> granted mm addr esr"
    using find_vma_prot [OF vs, of addr] by (auto simp: granted_def split: option.splits)
  then show ?thesis using False by (auto simp: do_page_fault_def Let_def split: option.splits)
next
  case True
  then obtain v where v: "find_vma (mmap mm) addr = Some v" "\<not> addr < vm_start v" by blast
  note g = granted_area [OF vs v, of esr]
  obtain a p where a: "alloc_pages 0 (buddy_of st) = (a, p)" by fastforce
  show ?thesis
  proof (cases a)
    case None
    then show ?thesis using v g a by (auto simp: do_page_fault_def)
  next
    case (Some page)
    obtain e st2 where m: "map_page (pgd mm) (page_align_down addr) (virt_to_phys page) (vm_flags v)
        (page_zero page (set_buddy p st)) = (e, st2)" by fastforce
    then show ?thesis using v g a Some map_page_error [OF m] by (auto simp: do_page_fault_def)
  qed
qed

theorem do_page_fault_denied_witness:
  "do_page_fault (Some root_mm) 0x400010 0x40 root_st = (- 14, root_st) \<and>
   fst (do_page_fault (Some root_mm) 0x400010 0 root_st) \<noteq> - 14"
proof -
  have ok: "vmas_ok (mmap root_mm)" by (simp add: root_mm_def vmas_ok_def)
  have "\<not> granted root_mm 0x400010 0x40" "granted root_mm 0x400010 0"
    by (simp_all add: granted_def permits_def access_of_def root_mm_def covers_def bit_iff_odd_drop_bit)
  moreover have "\<not> va_mapped root_st (pgd root_mm) (page_align_down 0x400010)"
    using root_ok by (simp add: va_mapped_lookup pt_ok_def)
  ultimately show ?thesis
    using do_page_fault_denied [OF ok, of "0x400010" "0x40" root_st]
      do_page_fault_denied [OF ok, of "0x400010" 0 root_st] by simp
qed

subsection \<open>Copy on write\<close>

text \<open>The page behind an entry, as the code computes it.\<close>

definition leaf_page :: "u64 \<Rightarrow> u64" where
  "leaf_page e = phys_to_virt (e AND PTE_ADDR_MASK)"

lemma mkwrite_bits:
  "pte_mkwrite e AND PTE_RDONLY = 0" "pte_mkwrite e AND PTE_ADDR_MASK = e AND PTE_ADDR_MASK"
  "pte_mkwrite e AND 1 = e AND 1"
proof -
  have n: "NOT PTE_RDONLY AND PTE_RDONLY = 0" "NOT PTE_RDONLY AND PTE_ADDR_MASK = PTE_ADDR_MASK" "NOT PTE_RDONLY AND 1 = (1::u64)"
    by simp_all
  show "pte_mkwrite e AND PTE_RDONLY = 0" "pte_mkwrite e AND PTE_ADDR_MASK = e AND PTE_ADDR_MASK"
    "pte_mkwrite e AND 1 = e AND 1"
    unfolding pte_mkwrite_def and.assoc n by simp_all
qed

lemma new_leaf:
  assumes "kaddr n"
  shows "leaf_page (pte_mkwrite ((virt_to_phys n AND PTE_ADDR_MASK) OR (e AND PTE_FLAGS_MASK))) = n"
proof -
  have "(e AND PTE_FLAGS_MASK) AND PTE_ADDR_MASK = 0" by (simp add: and.assoc)
  then have "((virt_to_phys n AND PTE_ADDR_MASK) OR (e AND PTE_FLAGS_MASK)) AND PTE_ADDR_MASK = virt_to_phys n"
    using virt_to_phys_page(1) [OF assms] by (simp add: bit.conj_disj_distrib2)
  then show ?thesis using virt_to_phys_page(2) [OF assms] by (simp only: leaf_page_def mkwrite_bits)
qed

text \<open>The effect of the two ways to break a share.\<close>

definition cow_broken :: "u64 \<Rightarrow> u64 \<Rightarrow> vmstate \<Rightarrow> vmstate \<Rightarrow> bool" where
  "cow_broken pt va st st' \<longleftrightarrow>
     (let e = lookup st pt va; e' = lookup st' pt va; old = leaf_page e; new = leaf_page e' in
      e' AND PTE_RDONLY = 0 \<and> e' AND 1 = e AND 1 \<and> words st' new = words st old \<and> words st' old = words st old \<and>
      (\<forall>x. vpn x \<noteq> vpn va \<longrightarrow> lookup st' pt x = lookup st pt x) \<and>
      (case virt_to_page (buddy_of st) old of None \<Rightarrow> False
       | Some f \<Rightarrow>
           if mem_map (buddy_of st) f = 1 then new = old \<and> buddy_of st' = buddy_of st
           else new \<noteq> old \<and> mem_map (buddy_of st') f = mem_map (buddy_of st) f - 1 \<and>
             block_valid (buddy_of st') 0 new \<and> (\<forall>k b. block_valid (buddy_of st) k b \<longrightarrow> b \<noteq> new)))"

lemma virt_to_page_addr:
  assumes ok: "pool_ok s" and v: "virt_to_page s a = Some f"
  shows "a = pfn_to_addr s f" "f < pool_pages s"
proof -
  have a: "\<not> a < mem_start s" "a AND 4095 = 0" and f: "f = addr_to_pfn s a" "f < pool_pages s"
    using v by (auto simp: virt_to_page_def addr_in_pool_def pfn_in_pool_def Let_def split: if_splits)
  have "4096 dvd unat a" using a(2) and_mask_zero_iff [of a 12] by simp
  moreover have le: "mem_start s \<le> a" using a(1) by simp
  ultimately have "4096 dvd unat (a - mem_start s)"
    using ok unfolding unat_sub [OF le] by (intro dvd_diff_nat) (simp_all add: pool_ok_def)
  then have d: "unat (a - mem_start s) div 4096 * 4096 = unat (a - mem_start s)" by simp
  have "page_align_down (a - mem_start s) = a - mem_start s"
    by (simp add: word_unat_eq_iff unat_page_align_down d)
  then have "push_bit 12 (drop_bit 12 (a - mem_start s)) = a - mem_start s" by (simp only: page_align_down_eq)
  then show "a = pfn_to_addr s f" "f < pool_pages s"
    using f by (simp_all add: pfn_to_addr_def addr_to_pfn_def)
qed

lemma put_shared_ok:
  assumes inv: "page_inv p" "kernel_pool p" and c: "1 < mem_map p f"
  shows "put_page (Some f) p = p\<lparr>mem_map := (mem_map p)(f := mem_map p f - 1)\<rparr>"
    "page_inv (put_page (Some f) p)" "kernel_pool (put_page (Some f) p)"
    "block_valid p k b \<Longrightarrow> block_valid (put_page (Some f) p) k b"
proof -
  show eq: "put_page (Some f) p = p\<lparr>mem_map := (mem_map p)(f := mem_map p f - 1)\<rparr>"
    using c by (simp add: put_page_def)
  show "page_inv (put_page (Some f) p)" "kernel_pool (put_page (Some f) p)"
    unfolding eq using inv by (simp_all add: page_inv_def pool_ok_def coalesced_def kernel_pool_def)
  assume "block_valid p k b"
  then obtain q where q: "b = pfn_to_addr p q" "block_ok p q k" "frames q k \<inter> free_frames p = {}" "mem_map p q = 1"
    by (auto simp: block_valid_def)
  then have "q \<noteq> f" using c by auto
  then show "block_valid (put_page (Some f) p) k b"
    unfolding eq block_valid_def using q by (intro exI [of _ q]) (simp add: pfn_to_addr_def)
qed

lemma buddy_of_words [simp]: "buddy_of (st\<lparr>words := w\<rparr>) = buddy_of st"
  by (simp add: buddy_of_def)

lemma cow_copy:
  fixes e :: u64
  assumes ok: "pt_ok st pt" "mem_ok st" and l: "l3t st pt (l1_idx va) (l2_idx va) = Some l3"
    and old: "virt_to_page (buddy_of st) old = Some f" "f \<notin> free_frames (buddy_of st)" "1 < mem_map (buddy_of st) f"
    and nt: "old \<notin> tables st pt" and a: "alloc_pages 0 (buddy_of st) = (Some n, p)"
  defines "st2 \<equiv> (set_buddy p st)\<lparr>words := (words st)(n := words st old)\<rparr>"
  defines "st' \<equiv> set_buddy (put_page (Some f) p) (pte_set l3 (l3_idx va) e st2)"
  shows "pt_ok st' pt" "mem_ok st'" "lookup st' pt x = (if vpn x = vpn va then e else lookup st pt x)"
    "words st' n = words st old" "words st' old = words st old \<and> n \<noteq> old" "block_valid (buddy_of st') 0 n"
    "mem_map (buddy_of st') f = mem_map (buddy_of st) f - 1"
proof -
  note fr = alloc_page_fresh [OF ok(2) a]
  have inv: "page_inv (buddy_of st)" "pool_ok (buddy_of st)" using ok(2) by (auto simp: mem_ok_def page_inv_def)
  have a': "alloc_pages (int 0) (buddy_of st) = (Some n, p)" using a by simp
  have cnt: "mem_map p f = mem_map (buddy_of st) f \<and> n \<noteq> old"
    using inv(1) a'
  proof (rule alloc_block)
    fix q i
    assume q: "n = pfn_to_addr (buddy_of st) q" "block_ok (buddy_of st) q 0" "frames q 0 \<subseteq> free_frames (buddy_of st)"
      "p = taken q i 0 (buddy_of st)"
    have "q \<noteq> f" using q(3) old(2) frames_first [of q 0] by blast
    moreover have "addr_to_pfn (buddy_of st) n = q" "addr_to_pfn (buddy_of st) old = f"
      using addr_to_pfn_inverse [OF inv(2)] q block_ok_less [OF q(2)] virt_to_page_addr [OF inv(2) old(1)] by auto
    ultimately show ?thesis using q(4) by auto
  qed
  have c: "1 < mem_map p f" using cnt old(3) by simp
  note ps = put_shared_ok [OF fr(1,2) c]
  have tab: "t \<noteq> n" "t \<noteq> old" if "t \<in> tables st pt" for t
    using that ok(1) fr(6) nt by (auto simp: pt_ok_def)
  have w2: "words st2 t = words st t" if "t \<in> tables st pt" for t using tab [OF that] by (simp add: st2_def)
  have b2: "block_valid (buddy_of st2) 0 t" if "t \<in> tables st pt" for t
    using that ok(1) fr(6) by (auto simp: pt_ok_def st2_def)
  have s2: "pt_ok st2 pt" "lookup st2 pt x = lookup st pt x" "l3t st2 pt = l3t st pt" "tables st2 pt = tables st pt"
    using pt_ok_agree [OF ok(1) w2 b2] by blast+
  have l2: "l3t st2 pt (l1_idx va) (l2_idx va) = Some l3" using l s2(3) by simp
  note lf = leaf_set_ok [OF s2(1) l2, of "l3_idx va" e] and ls = leaf_set [OF s2(1) l2, of "l3_idx va" e]
  have l3: "l3 \<in> tables st pt" using l by (auto simp: tables_def)
  have t3: "tables (pte_set l3 (l3_idx va) e st2) pt = tables st pt"
    unfolding s2(4) [symmetric] by (simp only: tables_def ls)
  have w3: "words st' t = words (pte_set l3 (l3_idx va) e st2) t" for t by (simp add: st'_def)
  have b3: "block_valid (buddy_of st') 0 t" if "t \<in> tables (pte_set l3 (l3_idx va) e st2) pt" for t
    using that ps(4) b2 unfolding t3 by (simp add: st'_def st2_def)
  note s3 = pt_ok_agree [OF lf(1) w3 b3]
  show "pt_ok st' pt" by (rule s3)
  show "mem_ok st'" using ps(2,3) by (simp add: mem_ok_def st'_def)
  show "lookup st' pt x = (if vpn x = vpn va then e else lookup st pt x)"
    using s3(2) [of x] lf(2) [of x] s2(2) by (simp add: vpn_def)
  show "words st' n = words st old" "words st' old = words st old \<and> n \<noteq> old"
    using tab [OF l3] cnt by (auto simp: st'_def st2_def)
  show "block_valid (buddy_of st') 0 n" using ps(4) [OF fr(3)] by (simp add: st'_def)
  show "mem_map (buddy_of st') f = mem_map (buddy_of st) f - 1" using cnt by (simp add: st'_def ps(1))
qed

text \<open>C20: breaking a copy-on-write share.  If the page under a write fault is in use, a successful
  \<open>do_cow_fault\<close> leaves the address translated to a writable page with the contents of the old
  one; the only holder keeps its page, and otherwise the writer gets a page of its own that nobody
  held, the old page keeps its contents and loses exactly one reference.  Every other translation
  is unchanged and the table tree stays well formed.\<close>

theorem do_cow_fault_correct:
  assumes ok: "pt_ok st pt" "mem_ok st" and nt: "leaf_page (lookup st pt va) \<notin> tables st pt"
    and held: "\<And>f. virt_to_page (buddy_of st) (leaf_page (lookup st pt va)) = Some f \<Longrightarrow>
      f \<notin> free_frames (buddy_of st) \<and> 0 < mem_map (buddy_of st) f"
    and r: "do_cow_fault pt va v st = (0, st')"
  shows "cow_broken pt va st st' \<and> pt_ok st' pt \<and> mem_ok st'"
proof -
  define e where "e = lookup st pt va"
  obtain l3 where l3: "l3t st pt (l1_idx va) (l2_idx va) = Some l3"
    using r ok(1) by (auto simp: do_cow_fault_def l3_slot_l3t pt_ok_def split: option.splits)
  then have sl: "l3_slot st pt va = Some (l3, l3_idx va)" and w: "words st l3 (l3_idx va) = e"
    using ok(1) by (simp_all add: l3_slot_l3t lookup_def e_def pt_ok_def)
  obtain f where f: "virt_to_page (buddy_of st) (leaf_page e) = Some f"
    using r sl w by (auto simp: do_cow_fault_def Let_def leaf_page_def split: if_splits)
  note h = held [folded e_def, OF f]
  have t3: "l3 \<in> tables st pt" using l3 by (auto simp: tables_def)
  show ?thesis
  proof (cases "mem_map (buddy_of st) f = 1")
    case True
    have st': "st' = pte_set l3 (l3_idx va) (pte_mkwrite e) st"
      using r sl w f True by (auto simp: do_cow_fault_def Let_def leaf_page_def page_count_def split: if_splits)
    note ls = leaf_set_ok [OF ok(1) l3, of "l3_idx va" "pte_mkwrite e", folded st']
    have lk: "lookup st' pt x = (if vpn x = vpn va then pte_mkwrite e else lookup st pt x)" for x
      using ls(2) [of x] by (simp add: vpn_def)
    have "leaf_page e \<noteq> l3" using nt t3 by (auto simp: e_def)
    then have "words st' (leaf_page e) = words st (leaf_page e)" by (simp add: st')
    moreover have "leaf_page (pte_mkwrite e) = leaf_page e" by (simp only: leaf_page_def mkwrite_bits)
    moreover have "buddy_of st' = buddy_of st" by (simp add: st')
    ultimately show ?thesis
      using f True ls(1) ok(2) by (simp add: cow_broken_def Let_def e_def [symmetric] lk mkwrite_bits mem_ok_def)
  next
    case False
    then have c: "1 < mem_map (buddy_of st) f" using h by simp
    obtain n p where a: "alloc_pages 0 (buddy_of st) = (Some n, p)"
      using r sl w f False
      by (auto simp: do_cow_fault_def Let_def leaf_page_def page_count_def split: if_splits option.splits prod.splits)
    let ?e = "pte_mkwrite ((virt_to_phys n AND PTE_ADDR_MASK) OR (e AND PTE_FLAGS_MASK))"
    have st': "st' = set_buddy (put_page (Some f) p) (pte_set l3 (l3_idx va) ?e
        ((set_buddy p st)\<lparr>words := (words st)(n := words st (leaf_page e))\<rparr>))"
      using r sl w f False a by (auto simp: do_cow_fault_def Let_def leaf_page_def page_count_def split: if_splits)
    note cc = cow_copy [OF ok l3 f h [THEN conjunct1] c nt [folded e_def] a, of ?e, folded st']
    have k: "kaddr n" "leaf_page ?e = n" using alloc_page_fresh [OF ok(2) a] new_leaf [of n e] by auto
    have "(e AND PTE_FLAGS_MASK) AND 1 = e AND 1" "(virt_to_phys n AND PTE_ADDR_MASK) AND 1 = 0"
      by (simp_all add: and.assoc)
    then have "?e AND 1 = e AND 1" unfolding mkwrite_bits by (simp add: bit.conj_disj_distrib2)
    then show ?thesis
      using f c cc k(2) alloc_page_fresh(6) [OF ok(2) a] mkwrite_bits(1)
      by (auto simp: cow_broken_def Let_def e_def [symmetric] cc(3))
  qed
qed

lemma page_in_use:
  assumes ok: "mem_ok st" and v: "block_valid (buddy_of st) 0 page"
  shows "\<exists>f. virt_to_page (buddy_of st) page = Some f \<and> f \<notin> free_frames (buddy_of st) \<and> mem_map (buddy_of st) f = 1"
proof -
  have p: "pool_ok (buddy_of st)" using ok by (simp add: mem_ok_def page_inv_def)
  obtain q where q: "page = pfn_to_addr (buddy_of st) q" "block_ok (buddy_of st) q 0"
      "frames q 0 \<inter> free_frames (buddy_of st) = {}" "mem_map (buddy_of st) q = 1"
    using v by (auto simp: block_valid_def)
  have lt: "q < pool_pages (buddy_of st)" using block_ok_less [OF q(2)] .
  have "addr_in_pool (buddy_of st) page 0" "page \<noteq> 0"
    using addr_in_pool_iff [OF p lt, of 0] pfn_to_addr_nonzero [OF p, of q] lt p q(1) by (auto simp: pool_ok_def)
  then have "virt_to_page (buddy_of st) page = Some q"
    using lt addr_to_pfn_inverse [OF p less_imp_le [OF lt]] by (simp add: virt_to_page_def q(1) Let_def pfn_in_pool_def)
  then show ?thesis using q(3,4) frames_first [of q 0] by auto
qed

lemma cow_single:
  assumes ok: "pt_ok st pt" "mem_ok st" and page: "block_valid (buddy_of st) 0 (leaf_page (lookup st pt va))"
    and c: "pte_cow_candidate (lookup st pt va) (vm_flags v)"
  shows "\<exists>st'. do_cow_fault pt va v st = (0, st')"
proof -
  have "lookup st pt va \<noteq> 0" using c by (auto simp: pte_cow_candidate_def pte_present_def)
  then obtain l3 where "l3_slot st pt va = Some (l3, l3_idx va)" "words st l3 (l3_idx va) = lookup st pt va"
    using ok(1) by (auto simp: l3_slot_l3t lookup_def pt_ok_def split: option.splits)
  then show ?thesis
    using page_in_use [OF ok(2) page] c by (auto simp: do_cow_fault_def Let_def leaf_page_def page_count_def)
qed

theorem do_cow_fault_correct_witness:
  "\<exists>st st' v. do_cow_fault (pgd root_mm) 0x400000 v st = (0, st') \<and> cow_broken (pgd root_mm) 0x400000 st st'"
proof -
  let ?pt = "pgd root_mm" and ?v = "\<lparr>va_ptr = 0x2000, vm_start = 0x400000, vm_end = 0x402000, vm_flags = 3\<rparr>"
  let ?m = "\<lambda>p p'. map_page ?pt 0x400000 (virt_to_phys p) 1 (page_zero p (set_buddy p' root_st))"
  obtain p p' st where a: "alloc_pages 0 (buddy_of root_st) = (Some p, p')" and m: "?m p p' = (0, st)"
    using root_map by blast
  note d = demand_page [OF root_ok(1,2) a m]
  have k: "kaddr p" using alloc_page_fresh [OF root_ok(2) a] by blast
  have l: "lookup st ?pt 0x400000 = (virt_to_phys p AND PTE_ADDR_MASK) OR prot_to_pte 1" using d(6) by simp
  have lp: "leaf_page (lookup st ?pt 0x400000) = p"
    using leaf_entry [of "virt_to_phys p" 1] virt_to_phys_page [OF k] unfolding l leaf_page_def by simp
  have "\<not> user_write (lookup st ?pt 0x400000)" "user_read (lookup st ?pt 0x400000)" "lookup st ?pt 0x400000 AND 1 = 1"
    using leaf_entry(2-4) [of "virt_to_phys p" 1] unfolding l by simp_all
  then have c: "pte_cow_candidate (lookup st ?pt 0x400000) (vm_flags ?v)"
    by (simp add: pte_cow_candidate_def pte_present_def user_write_def)
  obtain st' where st': "do_cow_fault ?pt 0x400000 ?v st = (0, st')"
    using cow_single [OF d(1,2) _ c] d(3) lp by auto
  have "cow_broken ?pt 0x400000 st st' \<and> pt_ok st' ?pt \<and> mem_ok st'"
  proof (rule do_cow_fault_correct)
    show "do_cow_fault ?pt 0x400000 ?v st = (0, st')" by (rule st')
  qed (use d(1-4) lp page_in_use [OF d(2,3)] in auto)
  then show ?thesis using st' by blast
qed

end
