(* ===== verification/Kstring.thy ===== *)
theory Kstring
  imports Prelude
begin

text \<open>
  The string library (\<^verbatim>\<open>lib/string.c\<close>, \<^verbatim>\<open>lib/memset.c\<close>, \<^verbatim>\<open>lib/strnlen_user.c\<close>) and the
  copies of \<^verbatim>\<open>mm/uaccess.c\<close> over a flat memory of bytes.  Pointers wrap like machine addresses.
  \<open>strlen\<close> and \<open>strcmp\<close> scan until a NUL byte, so they are partial functions: \<open>None\<close> is a scan
  that never ends.
\<close>

type_synonym u8 = "8 word"
type_synonym bytes = "u64 \<Rightarrow> u8"

subsection \<open>The functions\<close>

fun memcpy :: "u64 \<Rightarrow> u64 \<Rightarrow> nat \<Rightarrow> bytes \<Rightarrow> bytes" where
  "memcpy d s 0 m = m"
| "memcpy d s (Suc n) m = memcpy (d + 1) (s + 1) n (m(d := m s))"

fun memset :: "u64 \<Rightarrow> u8 \<Rightarrow> nat \<Rightarrow> bytes \<Rightarrow> bytes" where
  "memset p c 0 m = m"
| "memset p c (Suc n) m = memset (p + 1) c n (m(p := c))"

partial_function (option) strlen_from :: "bytes \<Rightarrow> u64 \<Rightarrow> u64 \<Rightarrow> u64 option" where
  "strlen_from m s sc = (if m sc = 0 then Some (sc - s) else strlen_from m s (sc + 1))"

definition strlen :: "bytes \<Rightarrow> u64 \<Rightarrow> u64 option" where
  "strlen m s = strlen_from m s s"

partial_function (option) strcmp :: "bytes \<Rightarrow> u64 \<Rightarrow> u64 \<Rightarrow> int option" where
  "strcmp m cs ct =
     (let c1 = m cs; c2 = m ct in
      if c1 \<noteq> c2 then Some (if c1 < c2 then - 1 else 1)
      else if c1 = 0 then Some 0
      else strcmp m (cs + 1) (ct + 1))"

text \<open>The loop of \<open>strscpy\<close> at index \<open>i\<close> with \<open>n\<close> iterations left, then the final NUL.\<close>

fun strscpy_loop :: "u64 \<Rightarrow> u64 \<Rightarrow> nat \<Rightarrow> nat \<Rightarrow> bytes \<Rightarrow> int \<times> bytes" where
  "strscpy_loop dest src i 0 m = (- E2BIG, m(dest + of_nat i := 0))"
| "strscpy_loop dest src i (Suc n) m =
     (let c = m (src + of_nat i); m' = m(dest + of_nat i := c) in
      if m' (src + of_nat i) = 0 then (int i, m') else strscpy_loop dest src (Suc i) n m')"

definition strscpy :: "u64 \<Rightarrow> u64 \<Rightarrow> nat \<Rightarrow> bytes \<Rightarrow> int \<times> bytes" where
  "strscpy dest src count m = (if count = 0 then (- E2BIG, m) else strscpy_loop dest src 0 (count - 1) m)"

text \<open>Both user copies are plain byte loops that cannot fail; a fault inside them is a trap of its own.\<close>

definition copy_from_user :: "u64 \<Rightarrow> u64 \<Rightarrow> nat \<Rightarrow> bytes \<Rightarrow> u64 \<times> bytes" where
  "copy_from_user dst src len m = (0, memcpy dst src len m)"

definition copy_to_user :: "u64 \<Rightarrow> u64 \<Rightarrow> nat \<Rightarrow> bytes \<Rightarrow> u64 \<times> bytes" where
  "copy_to_user dst src len m = (0, memcpy dst src len m)"

text \<open>\<open>c\<close> is a local of the kernel stack, so the byte passes through no memory of the caller.\<close>

fun strncpy_loop :: "u64 \<Rightarrow> u64 \<Rightarrow> nat \<Rightarrow> nat \<Rightarrow> bytes \<Rightarrow> int \<times> bytes" where
  "strncpy_loop dest src i 0 m = (int i, m)"
| "strncpy_loop dest src i (Suc n) m =
     (let c = m (src + of_nat i); m' = m(dest + of_nat i := c) in
      if c = 0 then (int i, m') else strncpy_loop dest src (Suc i) n m')"

definition strncpy_from_user :: "u64 \<Rightarrow> u64 \<Rightarrow> int \<Rightarrow> bytes \<Rightarrow> int \<times> bytes" where
  "strncpy_from_user dest src count m =
     (if count \<le> 0 then (0, m)
      else if dest = 0 \<or> src = 0 then (- EFAULT, m)
      else strncpy_loop dest src 0 (nat count) m)"

subsection \<open>Strings in memory\<close>

text \<open>The bytes at an address, and what it means that a C string is stored there.\<close>

definition bytes_at :: "bytes \<Rightarrow> u64 \<Rightarrow> nat \<Rightarrow> u8 list" where
  "bytes_at m a n = map (\<lambda>i. m (a + of_nat i)) [0..<n]"

fun cstr :: "bytes \<Rightarrow> u64 \<Rightarrow> u8 list \<Rightarrow> bool" where
  "cstr m a [] \<longleftrightarrow> m a = 0"
| "cstr m a (c # cs) \<longleftrightarrow> c \<noteq> 0 \<and> m a = c \<and> cstr m (a + 1) cs"

text \<open>The addresses of a range of less than \<open>2 ^ 64\<close> bytes; it may wrap.\<close>

definition region :: "u64 \<Rightarrow> nat \<Rightarrow> u64 set" where
  "region a n = (\<lambda>i. a + of_nat i) ` {..<n}"

lemma region_Suc: "region a (Suc n) = insert a (region (a + 1) n)"
  by (auto simp: region_def image_iff lessThan_Suc_eq_insert_0 algebra_simps)

lemma region_mono: "m \<le> n \<Longrightarrow> region a m \<subseteq> region a n"
  by (auto simp: region_def)

lemma region_0 [simp]: "region a 0 = {}"
  by (simp add: region_def)

lemma in_region: "i < n \<Longrightarrow> a + of_nat i \<in> region a n"
  by (auto simp: region_def)

lemma of_nat_inj_64:
  assumes "i < 2 ^ 64" "j < 2 ^ 64" and "(of_nat i :: u64) = of_nat j"
  shows "i = j"
  using assms by (metis unat_of_nat_less)

lemma region_start: "n < 2 ^ 64 \<Longrightarrow> a \<notin> region (a + 1) n"
proof
  assume n: "n < 2 ^ 64" and "a \<in> region (a + 1) n"
  then obtain i where "i < n" "(of_nat (Suc i) :: u64) = of_nat 0"
    by (auto simp: region_def algebra_simps add_eq_0_iff)
  then show False using of_nat_inj_64 [of "Suc i" 0] n by simp
qed

subsection \<open>Copies\<close>

lemma memcpy_eq:
  assumes "n < 2 ^ 64" and "region d n \<inter> region s n = {}"
  shows "memcpy d s n m x = (if x \<in> region d n then m (s + (x - d)) else m x)"
  using assms
proof (induction n arbitrary: d s m)
  case 0
  then show ?case by simp
next
  case (Suc n)
  have "region (d + 1) n \<inter> region (s + 1) n = {}" using Suc.prems(2) by (auto simp: region_Suc)
  then have IH: "memcpy d s (Suc n) m x =
      (if x \<in> region (d + 1) n then (m(d := m s)) (s + 1 + (x - (d + 1))) else (m(d := m s)) x)"
    using Suc.IH [of "d + 1" "s + 1" "m(d := m s)"] Suc.prems(1) by (simp del: fun_upd_apply)
  show ?case
  proof (cases "x \<in> region (d + 1) n")
    case True
    then obtain i where i: "i < n" "x = d + 1 + of_nat i" by (auto simp: region_def)
    have "s + (1 + of_nat i) \<in> region s (Suc n)" using in_region [of "Suc i" "Suc n" s] i by simp
    then have "s + (1 + of_nat i) \<noteq> d" using Suc.prems(2) by (auto simp: region_Suc [of d])
    then show ?thesis using IH True i by (simp add: region_Suc algebra_simps)
  next
    case False
    then show ?thesis using IH by (simp add: region_Suc)
  qed
qed

lemma memset_eq: "n < 2 ^ 64 \<Longrightarrow> memset p c n m x = (if x \<in> region p n then c else m x)"
  by (induction n arbitrary: p m) (auto simp: region_Suc)

subsection \<open>Scans\<close>

lemma strlen_from_cstr: "cstr m sc cs \<Longrightarrow> strlen_from m s sc = Some (sc + of_nat (length cs) - s)"
  by (induction cs arbitrary: sc) (subst strlen_from.simps, simp add: algebra_simps)+

lemma strlen_cstr: "cstr m s cs \<Longrightarrow> strlen m s = Some (of_nat (length cs))"
  by (simp add: strlen_def strlen_from_cstr)

lemma cstr_nth: "cstr m a cs \<longleftrightarrow>
    (\<forall>i<length cs. cs ! i \<noteq> 0 \<and> m (a + of_nat i) = cs ! i) \<and> m (a + of_nat (length cs)) = 0"
  by (induction cs arbitrary: a) (auto simp: All_less_Suc2 algebra_simps)

lemma cstr_unique: "cstr m a xs \<Longrightarrow> cstr m a ys \<Longrightarrow> xs = ys"
proof (induction xs arbitrary: a ys)
  case Nil
  then show ?case by (cases ys) auto
next
  case (Cons x xs)
  then show ?case by (cases ys) auto
qed

lemma strcmp_cstr:
  "cstr m a xs \<Longrightarrow> cstr m b ys \<Longrightarrow> strcmp m a b = Some (if xs = ys then 0 else if ord_class.lexordp xs ys then - 1 else 1)"
proof (induction xs arbitrary: a b ys)
  case Nil
  then show ?case by (subst strcmp.simps) (cases ys, auto simp: word_gt_0)
next
  case (Cons x xs)
  show ?case
  proof (cases ys)
    case Nil
    then show ?thesis using Cons.prems by (subst strcmp.simps) (auto simp: Let_def)
  next
    case (Cons y zs)
    then show ?thesis using Cons.prems Cons.IH [of "a + 1" "b + 1" zs]
      by (subst strcmp.simps) (auto simp: Let_def)
  qed
qed

subsection \<open>Bounded copies\<close>

text \<open>The bytes before index \<open>i\<close> are copied and nothing else of the destination has changed.\<close>

definition copied :: "bytes \<Rightarrow> bytes \<Rightarrow> u64 \<Rightarrow> u8 list \<Rightarrow> nat \<Rightarrow> bool" where
  "copied m0 m dest xs i \<longleftrightarrow> i \<le> length xs \<and> (\<forall>j<i. m (dest + of_nat j) = xs ! j) \<and>
     (\<forall>x. x \<notin> region dest i \<longrightarrow> m x = m0 x)"

lemma of_nat_neq: "j < i \<Longrightarrow> Suc i < 2 ^ 64 \<Longrightarrow> (of_nat j :: u64) \<noteq> of_nat i"
  using of_nat_inj_64 [of j i] by auto

lemma copied_step:
  assumes c: "copied m0 m dest xs i" and i: "i < length xs" "Suc i < 2 ^ 64"
  shows "copied m0 (m(dest + of_nat i := xs ! i)) dest xs (Suc i)"
proof -
  have "dest + of_nat i \<in> region dest (Suc i)" by (rule in_region) simp
  moreover have "region dest i \<subseteq> region dest (Suc i)" by (rule region_mono) simp
  ultimately show ?thesis
    using c i of_nat_neq [OF _ i(2)] by (auto simp: copied_def less_Suc_eq)
qed

lemma copied_end:
  assumes c: "copied m0 m dest xs i" and xs: "\<forall>j<length xs. xs ! j \<noteq> 0" and i: "Suc i < 2 ^ 64"
  shows "cstr (m(dest + of_nat i := 0)) dest (take i xs)"
    "x \<notin> region dest (Suc i) \<Longrightarrow> (m(dest + of_nat i := 0)) x = m0 x"
proof -
  show "cstr (m(dest + of_nat i := 0)) dest (take i xs)"
    using c xs of_nat_neq [OF _ i] by (auto simp: copied_def cstr_nth min_def)
  assume x: "x \<notin> region dest (Suc i)"
  then have "x \<notin> region dest i" "x \<noteq> dest + of_nat i"
    using region_mono [of i "Suc i" dest] in_region [of i "Suc i" dest] by auto
  then show "(m(dest + of_nat i := 0)) x = m0 x" using c by (simp add: copied_def)
qed

lemma copied_src:
  assumes c: "copied m0 m dest xs i" and s: "cstr m0 src xs" and j: "j \<le> length xs"
    and d: "region dest k \<inter> region src (Suc (length xs)) = {}" "i \<le> k"
  shows "m (src + of_nat j) = (if j < length xs then xs ! j else 0)" "src + of_nat j \<notin> region dest k"
proof -
  show n: "src + of_nat j \<notin> region dest k" using in_region [of j "Suc (length xs)" src] j d(1) by auto
  then have "src + of_nat j \<notin> region dest i" using region_mono [OF d(2)] by blast
  then have "m (src + of_nat j) = m0 (src + of_nat j)" using c by (simp add: copied_def)
  then show "m (src + of_nat j) = (if j < length xs then xs ! j else 0)" using s j by (auto simp: cstr_nth)
qed

lemma strscpy_loop_ok:
  assumes s: "cstr m0 src xs" and d: "region dest (Suc (i + n)) \<inter> region src (Suc (length xs)) = {}"
    and c: "copied m0 m dest xs i" and b: "Suc (i + n) < 2 ^ 64" "Suc (length xs) < 2 ^ 64"
    and r: "strscpy_loop dest src i n m = (r, m')"
  shows "cstr m' dest (take (i + n) xs) \<and> r = (if length xs < i + n then int (length xs) else - E2BIG) \<and>
    (\<forall>x. x \<notin> region dest (Suc (i + n)) \<longrightarrow> m' x = m0 x)"
  using d c b r
proof (induction n arbitrary: i m)
  case 0
  have "\<forall>j<length xs. xs ! j \<noteq> 0" using s by (simp add: cstr_nth)
  from copied_end [OF 0(2) this] 0 show ?case by (auto simp: copied_def)
next
  case (Suc n)
  have nz: "\<forall>j<length xs. xs ! j \<noteq> 0" using s by (simp add: cstr_nth)
  have il: "i \<le> length xs" using Suc.prems(2) by (simp add: copied_def)
  note sr = copied_src [OF Suc.prems(2) s il Suc.prems(1)]
  have ne: "src + of_nat i \<noteq> dest + of_nat i" using sr(2) in_region [of i "Suc (i + Suc n)" dest] by auto
  show ?case
  proof (cases "i < length xs")
    case True
    have c': "copied m0 (m(dest + of_nat i := xs ! i)) dest xs (Suc i)"
      using copied_step [OF Suc.prems(2) True] Suc.prems(3) by simp
    have "m (src + of_nat i) = xs ! i" "xs ! i \<noteq> 0" using sr(1) True nz by auto
    then have "strscpy_loop dest src (Suc i) n (m(dest + of_nat i := xs ! i)) = (r, m')"
      using Suc.prems(5) ne by (simp add: Let_def)
    from Suc.IH [OF _ c' _ _ this] Suc.prems(1,3,4) show ?thesis by simp
  next
    case False
    then have i: "i = length xs" using il by simp
    have "m' = m(dest + of_nat i := 0)" "r = int i"
      using Suc.prems(5) sr(1) i ne by (auto simp: Let_def)
    moreover have "cstr (m(dest + of_nat i := 0)) dest (take i xs)"
      "\<And>x. x \<notin> region dest (Suc i) \<Longrightarrow> (m(dest + of_nat i := 0)) x = m0 x"
      using copied_end [OF Suc.prems(2) nz] Suc.prems(3) by simp_all
    moreover have "region dest (Suc i) \<subseteq> region dest (Suc (i + Suc n))" by (rule region_mono) simp
    ultimately show ?thesis using i by (simp del: fun_upd_apply) blast
  qed
qed

subsection \<open>Witness memory\<close>

definition two_strings :: bytes where
  "two_strings = (\<lambda>_. 0)(0x100 := 0x61, 0x101 := 0x62, 0x200 := 0x61, 0x201 := 0x63)"

lemma two_strings_cstr: "cstr two_strings 0x100 [0x61, 0x62]" "cstr two_strings 0x200 [0x61, 0x63]"
  by (simp_all add: two_strings_def)

text \<open>\<open>strcmp\<close> on two stored strings always returns, with the sign of their lexicographic order as
  sequences of unsigned bytes; in particular it returns \<open>0\<close> exactly for equal strings.\<close>

theorem strcmp_correct:
  assumes "cstr m a xs" "cstr m b ys"
  shows "\<exists>r. strcmp m a b = Some r \<and> (r = 0 \<longleftrightarrow> xs = ys) \<and> (r < 0 \<longleftrightarrow> ord_class.lexordp xs ys) \<and>
    (r > 0 \<longleftrightarrow> ord_class.lexordp ys xs)"
  using strcmp_cstr [OF assms] lexordp_linear [of xs ys] lexordp_antisym [of xs ys] lexordp_irreflexive' [of ys]
  by auto

theorem strcmp_correct_witness: "\<exists>r. strcmp two_strings 0x100 0x200 = Some r \<and> r < 0"
  using strcmp_correct [OF two_strings_cstr] by auto

text \<open>C30: \<open>strscpy\<close> never writes outside the \<open>count\<close> bytes of the destination and always leaves a
  terminated string there: the source, or its first \<open>count - 1\<close> bytes.  It reports the length if the
  source is shorter than \<open>count - 1\<close> and \<open>-E2BIG\<close> otherwise, hence also for a source of
  \<open>count - 1\<close> bytes, which it copies completely.\<close>

theorem strscpy_correct:
  assumes s: "cstr m src xs" and d: "region dest count \<inter> region src (Suc (length xs)) = {}"
    and b: "0 < count" "count < 2 ^ 64" "Suc (length xs) < 2 ^ 64"
  shows "case strscpy dest src count m of (r, m') \<Rightarrow>
    cstr m' dest (take (count - 1) xs) \<and> r = (if length xs < count - 1 then int (length xs) else - E2BIG) \<and>
    (\<forall>x. x \<notin> region dest count \<longrightarrow> m' x = m x)"
proof -
  obtain r m' where r: "strscpy_loop dest src 0 (count - 1) m = (r, m')" by fastforce
  have "copied m m dest xs 0" by (simp add: copied_def)
  from strscpy_loop_ok [OF s _ this _ b(3) r] d b r show ?thesis by (simp add: strscpy_def)
qed

theorem strscpy_correct_witness:
  "fst (strscpy 0x300 0x100 3 two_strings) = - 7 \<and> cstr (snd (strscpy 0x300 0x100 3 two_strings)) 0x300 [0x61, 0x62]"
proof -
  have d: "region 0x300 3 \<inter> region 0x100 (Suc (length [0x61 :: u8, 0x62])) = {}"
    by (auto simp: region_def lessThan_nat_numeral lessThan_Suc)
  show ?thesis using strscpy_correct [OF two_strings_cstr(1) d] by (auto split: prod.splits)
qed

end
