(* ===== verification/Vsnprintf.thy ===== *)
theory Vsnprintf
  imports Prelude
begin

text \<open>
  The formatted output of \<^verbatim>\<open>lib/vsnprintf.c\<close>.  A cursor is the number of characters emitted so far
  (\<open>p - buf\<close>) with the contents of the buffer; characters at or beyond the end are counted and
  dropped.  The digit buffer \<open>tmp\<close> of \<open>emit_ulong\<close> has 16 cells and the code does not check its
  index, and \<open>va_arg\<close> reads an argument of the type the directive asks for: where the C code would
  write past \<open>tmp\<close> or read an argument that is not there, the result is \<open>None\<close>.
\<close>

type_synonym cursor = "nat \<times> (nat \<Rightarrow> char)"

datatype va_arg = VStr "string option" | VInt u32 | VLong u64

subsection \<open>The code\<close>

definition emit_char :: "nat \<Rightarrow> char \<Rightarrow> cursor \<Rightarrow> cursor" where
  "emit_char end c p = (case p of (n, b) \<Rightarrow> (Suc n, if n < end then b(n := c) else b))"

fun emit_chars :: "nat \<Rightarrow> string \<Rightarrow> cursor \<Rightarrow> cursor" where
  "emit_chars end [] p = p"
| "emit_chars end (c # cs) p = emit_chars end cs (emit_char end c p)"

definition emit_str :: "nat \<Rightarrow> string option \<Rightarrow> cursor \<Rightarrow> cursor" where
  "emit_str end s p = emit_chars end (case s of None \<Rightarrow> ''(null)'' | Some s \<Rightarrow> s) p"

definition digit_char :: "bool \<Rightarrow> nat \<Rightarrow> char" where
  "digit_char upper d = (if upper then ''0123456789ABCDEF'' else ''0123456789abcdef'') ! d"

text \<open>The loop that fills \<open>tmp\<close>, least significant digit first.\<close>

function digit_loop :: "bool \<Rightarrow> u64 \<Rightarrow> u64 \<Rightarrow> string \<Rightarrow> string option" where
  "digit_loop upper base v tmp =
     (if v = 0 then Some tmp
      else if length tmp \<ge> 16 then None
      else digit_loop upper base (v div base) (tmp @ [digit_char upper (unat (v mod base))]))"
  by pat_completeness auto
termination by (relation "measure (\<lambda>(_, _, _, tmp). 16 - length tmp)") auto

declare digit_loop.simps [simp del]

definition emit_ulong :: "nat \<Rightarrow> u64 \<Rightarrow> u64 \<Rightarrow> bool \<Rightarrow> cursor \<Rightarrow> cursor option" where
  "emit_ulong end v base upper p =
     (if v = 0 then Some (emit_char end CHR ''0'' p)
      else case digit_loop upper base v [] of
             None \<Rightarrow> None
           | Some tmp \<Rightarrow> Some (emit_chars end (rev tmp) p))"

definition emit_long :: "nat \<Rightarrow> u64 \<Rightarrow> cursor \<Rightarrow> cursor option" where
  "emit_long end v p =
     (if v <s 0 then emit_ulong end (- v) 10 False (emit_char end CHR ''-'' p)
      else emit_ulong end v 10 False p)"

text \<open>The main loop, on the format that is left, the arguments that are left and the cursor.\<close>

fun vsnprintf_loop :: "nat \<Rightarrow> string \<Rightarrow> va_arg list \<Rightarrow> cursor \<Rightarrow> cursor option" where
  "vsnprintf_loop end [] ap p = Some p"
| "vsnprintf_loop end (f # fmt) ap p =
     (if f \<noteq> CHR ''%'' then vsnprintf_loop end fmt ap (emit_char end f p)
      else case fmt of
        [] \<Rightarrow> Some (emit_char end CHR ''%'' p)
      | g # fmt' \<Rightarrow>
          if g = CHR ''%'' then vsnprintf_loop end fmt' ap (emit_char end CHR ''%'' p)
          else if g = CHR ''s'' then
            (case ap of VStr s # ap' \<Rightarrow> vsnprintf_loop end fmt' ap' (emit_str end s p) | _ \<Rightarrow> None)
          else if g = CHR ''c'' then
            (case ap of VInt c # ap' \<Rightarrow> vsnprintf_loop end fmt' ap' (emit_char end (char_of (unat (ucast c :: 8 word))) p)
             | _ \<Rightarrow> None)
          else if g = CHR ''d'' \<or> g = CHR ''i'' then
            (case ap of VInt v # ap' \<Rightarrow> Option.bind (emit_long end (scast v) p) (vsnprintf_loop end fmt' ap') | _ \<Rightarrow> None)
          else if g = CHR ''u'' then
            (case ap of VInt v # ap' \<Rightarrow> Option.bind (emit_ulong end (ucast v) 10 False p) (vsnprintf_loop end fmt' ap') | _ \<Rightarrow> None)
          else if g = CHR ''x'' then
            (case ap of VInt v # ap' \<Rightarrow> Option.bind (emit_ulong end (ucast v) 16 False p) (vsnprintf_loop end fmt' ap') | _ \<Rightarrow> None)
          else if g = CHR ''l'' then
            (case fmt' of
               [] \<Rightarrow> Some (emit_char end CHR ''l'' (emit_char end CHR ''%'' p))
             | h # fmt'' \<Rightarrow>
                 if h = CHR ''x'' then
                   (case ap of VLong v # ap' \<Rightarrow> Option.bind (emit_ulong end v 16 False p) (vsnprintf_loop end fmt'' ap') | _ \<Rightarrow> None)
                 else if h = CHR ''u'' then
                   (case ap of VLong v # ap' \<Rightarrow> Option.bind (emit_ulong end v 10 False p) (vsnprintf_loop end fmt'' ap') | _ \<Rightarrow> None)
                 else if h = CHR ''d'' then
                   (case ap of VLong v # ap' \<Rightarrow> Option.bind (emit_long end v p) (vsnprintf_loop end fmt'' ap') | _ \<Rightarrow> None)
                 else vsnprintf_loop end fmt'' ap (emit_char end h (emit_char end CHR ''l'' (emit_char end CHR ''%'' p))))
          else if g = CHR ''p'' then
            (case ap of
               VLong v # ap' \<Rightarrow>
                 let p' = emit_char end CHR ''x'' (emit_char end CHR ''0'' p) in
                 Option.bind (if v = 0 then Some (emit_str end (Some ''0'') p') else emit_ulong end v 16 False p')
                   (vsnprintf_loop end fmt' ap')
             | _ \<Rightarrow> None)
          else vsnprintf_loop end fmt' ap (emit_char end g (emit_char end CHR ''%'' p)))"

text \<open>The result is truncated to an \<open>int\<close>.\<close>

definition vsnprintf :: "nat \<Rightarrow> string option \<Rightarrow> va_arg list \<Rightarrow> (nat \<Rightarrow> char) \<Rightarrow> (int \<times> (nat \<Rightarrow> char)) option" where
  "vsnprintf sz fmt ap buf =
     (case fmt of
        None \<Rightarrow> Some (0, if sz > 0 then buf(0 := CHR 0x00) else buf)
      | Some fmt \<Rightarrow>
          (case vsnprintf_loop sz fmt ap (0, buf) of
             None \<Rightarrow> None
           | Some (n, b) \<Rightarrow>
               Some (sint (of_nat n :: u32),
                     if sz > 0 then (if n \<ge> sz then b(sz - 1 := CHR 0x00) else b(n := CHR 0x00)) else b)))"

end
