(* ===== verification/Vsnprintf_Props.thy ===== *)
theory Vsnprintf_Props
  imports Vsnprintf
begin

text \<open>
  The output of \<open>vsnprintf\<close> against a reference: the format is split into pieces, every piece is
  rendered with no bound, numbers by the usual positional notation, and the buffer receives as much
  of the text as fits.
\<close>

subsection \<open>The reference\<close>

datatype conv = CStr | CChar | CInt | CUInt | CHex | CLHex | CLUInt | CLInt | CPtr

datatype piece = Text string | Conv conv

fun pieces :: "string \<Rightarrow> piece list" where
  "pieces [] = []"
| "pieces (f # fmt) =
     (if f \<noteq> CHR ''%'' then Text [f] # pieces fmt
      else case fmt of
        [] \<Rightarrow> [Text ''%'']
      | g # fmt' \<Rightarrow>
          if g = CHR ''s'' then Conv CStr # pieces fmt'
          else if g = CHR ''c'' then Conv CChar # pieces fmt'
          else if g = CHR ''d'' \<or> g = CHR ''i'' then Conv CInt # pieces fmt'
          else if g = CHR ''u'' then Conv CUInt # pieces fmt'
          else if g = CHR ''x'' then Conv CHex # pieces fmt'
          else if g = CHR ''p'' then Conv CPtr # pieces fmt'
          else if g = CHR ''l'' then
            (case fmt' of
               [] \<Rightarrow> [Text ''%l'']
             | h # fmt'' \<Rightarrow>
                 if h = CHR ''x'' then Conv CLHex # pieces fmt''
                 else if h = CHR ''u'' then Conv CLUInt # pieces fmt''
                 else if h = CHR ''d'' then Conv CLInt # pieces fmt''
                 else Text [CHR ''%'', CHR ''l'', h] # pieces fmt'')
          else Text (if g = CHR ''%'' then ''%'' else [CHR ''%'', g]) # pieces fmt')"

fun positional :: "nat \<Rightarrow> nat \<Rightarrow> string" where
  "positional b n =
     (if n < b \<or> b < 2 then [digit_char False n] else positional b (n div b) @ [digit_char False (n mod b)])"

declare positional.simps [simp del]

definition decimal :: "int \<Rightarrow> string" where
  "decimal i = (if i < 0 then ''-'' else []) @ positional 10 (nat \<bar>i\<bar>)"

fun render_conv :: "conv \<Rightarrow> va_arg \<Rightarrow> string option" where
  "render_conv CStr (VStr s) = Some (case s of None \<Rightarrow> ''(null)'' | Some s \<Rightarrow> s)"
| "render_conv CChar (VInt v) = Some [char_of (unat v mod 256)]"
| "render_conv CInt (VInt v) = Some (decimal (sint v))"
| "render_conv CUInt (VInt v) = Some (positional 10 (unat v))"
| "render_conv CHex (VInt v) = Some (positional 16 (unat v))"
| "render_conv CLHex (VLong v) = Some (positional 16 (unat v))"
| "render_conv CLUInt (VLong v) = Some (positional 10 (unat v))"
| "render_conv CLInt (VLong v) = Some (decimal (sint v))"
| "render_conv CPtr (VLong v) = Some (''0x'' @ positional 16 (unat v))"
| "render_conv _ _ = None"

fun render :: "piece list \<Rightarrow> va_arg list \<Rightarrow> string option" where
  "render [] ap = Some []"
| "render (Text s # ps) ap = map_option ((@) s) (render ps ap)"
| "render (Conv c # ps) [] = None"
| "render (Conv c # ps) (a # ap) =
     (case render_conv c a of None \<Rightarrow> None | Some s \<Rightarrow> map_option ((@) s) (render ps ap))"

text \<open>The decimal conversions of a long overflow \<open>tmp\<close> from 17 digits on.\<close>

fun short_conv :: "conv \<Rightarrow> va_arg \<Rightarrow> bool" where
  "short_conv CLUInt (VLong v) \<longleftrightarrow> unat v < 10 ^ 16"
| "short_conv CLInt (VLong v) \<longleftrightarrow> \<bar>sint v\<bar> < 10 ^ 16"
| "short_conv _ _ \<longleftrightarrow> True"

fun short_args :: "piece list \<Rightarrow> va_arg list \<Rightarrow> bool" where
  "short_args (Text s # ps) ap \<longleftrightarrow> short_args ps ap"
| "short_args (Conv c # ps) (a # ap) \<longleftrightarrow> short_conv c a \<and> short_args ps ap"
| "short_args _ _ \<longleftrightarrow> True"

subsection \<open>Digits\<close>

lemma digit_loop_positional:
  assumes b: "2 \<le> unat base" and v: "v \<noteq> 0"
  shows "digit_loop False base v tmp =
    (if unat v < unat base ^ (16 - length tmp) then Some (tmp @ rev (positional (unat base) (unat v))) else None)"
  using v
proof (induction "16 - length tmp" arbitrary: v tmp)
  case 0
  then have "1 \<le> unat v" by (simp add: Suc_le_eq unat_gt_0)
  then show ?case using 0 by (subst digit_loop.simps) simp
next
  case (Suc k)
  let ?d = "tmp @ [digit_char False (unat (v mod base))]"
  have "length tmp < 16" using Suc.hyps(2) by simp
  have step: "digit_loop False base v tmp = digit_loop False base (v div base) ?d"
    using Suc.prems \<open>length tmp < 16\<close> by (subst digit_loop.simps) simp
  have len: "k = 16 - length ?d" "16 - length tmp = Suc k" using Suc.hyps(2) by simp_all
  have u: "unat (v div base) = unat v div unat base" "unat (v mod base) = unat v mod unat base"
    by (simp_all add: unat_div unat_mod)
  show ?case
  proof (cases "v div base = 0")
    case True
    then have "unat v < unat base" using u(1) b by (auto simp: unat_eq_zero div_eq_0_iff)
    moreover have "unat base \<le> unat base ^ Suc k" using b by (intro self_le_power) simp_all
    ultimately have "unat v < unat base" "unat v < unat base ^ Suc k" by linarith+
    then show ?thesis using step True u(2) len(2)
      by (subst positional.simps) (simp add: digit_loop.simps [of False base 0])
  next
    case False
    have "unat v div unat base < unat base ^ k \<longleftrightarrow> unat v < unat base ^ Suc k"
      using b by (simp add: div_less_iff_less_mult mult.commute)
    moreover have "\<not> unat v < unat base" using False u(1) by (auto simp: word_unat_eq_iff)
    moreover have "digit_loop False base (v div base) ?d = (if unat (v div base) < unat base ^ k
        then Some (?d @ rev (positional (unat base) (unat (v div base)))) else None)"
      using Suc.hyps(1) [OF len(1) False] len(1) by simp
    ultimately show ?thesis using b unfolding step len(2) u
      by (subst positional.simps [of "unat base" "unat v"]) simp
  qed
qed

text \<open>The reference prints the number it is given.\<close>

definition digit_value :: "char \<Rightarrow> nat" where
  "digit_value c = (let n = of_char c in if n \<le> 57 then n - 48 else n - 87)"

lemma digit_value_inverse: "d < 16 \<Longrightarrow> digit_value (digit_char False d) = d"
proof -
  assume "d < 16"
  then have "d \<in> set [0..<16]" by simp
  moreover have "\<forall>d\<in>set [0..<16]. digit_value (digit_char False d) = d" by code_simp
  ultimately show ?thesis by blast
qed

definition number_value :: "nat \<Rightarrow> string \<Rightarrow> nat" where
  "number_value b s = foldl (\<lambda>n c. b * n + digit_value c) 0 s"

lemma number_value_positional:
  assumes "2 \<le> b" "b \<le> 16"
  shows "number_value b (positional b n) = n"
proof (induction n rule: less_induct)
  case (less n)
  show ?case
  proof (cases "n < b")
    case True
    then show ?thesis using assms by (subst positional.simps) (simp add: number_value_def digit_value_inverse)
  next
    case False
    then have "number_value b (positional b (n div b)) = n div b" using assms by (intro less.IH) simp
    moreover have "n mod b < 16" using assms mod_less_divisor [of b n] by linarith
    ultimately show ?thesis using assms False
      by (subst positional.simps) (simp add: number_value_def digit_value_inverse)
  qed
qed

subsection \<open>The cursor\<close>

text \<open>The cursor after the text \<open>s\<close> was emitted into the buffer \<open>buf\<close>.\<close>

definition cursor_at :: "nat \<Rightarrow> (nat \<Rightarrow> char) \<Rightarrow> string \<Rightarrow> cursor" where
  "cursor_at end buf s = (length s, \<lambda>i. if i < length s \<and> i < end then s ! i else buf i)"

lemma emit_char_at: "emit_char end c (cursor_at end buf s) = cursor_at end buf (s @ [c])"
  by (auto simp: emit_char_def cursor_at_def fun_eq_iff nth_append)

lemma emit_chars_at: "emit_chars end cs (cursor_at end buf s) = cursor_at end buf (s @ cs)"
  by (induction cs arbitrary: s) (simp_all add: emit_char_at)

lemma emit_ulong_at:
  assumes "unat v < unat base ^ 16" "2 \<le> unat base"
  shows "emit_ulong end v base False (cursor_at end buf s) = Some (cursor_at end buf (s @ positional (unat base) (unat v)))"
proof (cases "v = 0")
  case True
  then show ?thesis using assms(2) by (subst positional.simps) (simp add: emit_ulong_def emit_char_at digit_char_def)
next
  case False
  then show ?thesis using assms by (simp add: emit_ulong_def digit_loop_positional emit_chars_at)
qed

lemma emit_long_at:
  assumes "\<bar>sint v\<bar> < 10 ^ 16"
  shows "emit_long end v (cursor_at end buf s) = Some (cursor_at end buf (s @ decimal (sint v)))"
proof -
  define i where "i = sint v"
  have b: "\<bar>i\<bar> < 10 ^ 16" using assms by (simp only: i_def)
  have v: "v = word_of_int i" by (simp add: i_def)
  have u: "unat (word_of_int j :: u64) = nat j" if "0 \<le> j" "j < 10 ^ 16" for j
    using that by (simp add: unat_eq_nat_uint uint_word_of_int)
  have n: "v <s 0 \<longleftrightarrow> i < 0" by (simp add: word_sless_alt i_def)
  show ?thesis
  proof (cases "i < 0")
    case True
    have "unat (- v) = nat (- i)" using u [of "- i"] True b by (simp add: v)
    then show ?thesis
      using True n b emit_ulong_at [of "- v" 10 "end" buf "s @ ''-''"]
      by (simp add: emit_long_def emit_char_at decimal_def i_def [symmetric])
  next
    case False
    have "unat v = nat i" using u [of i] False b by (simp add: v)
    then show ?thesis
      using False n b emit_ulong_at [of v 10 "end" buf s] by (simp add: emit_long_def decimal_def i_def [symmetric])
  qed
qed

lemmas emit_at = emit_char_at emit_chars_at emit_str_def

text \<open>The arguments of the directives as the loop converts them.\<close>

lemma conv_casts:
  "unat (ucast v :: u64) = unat (v :: u32)" "sint (scast v :: u64) = sint v" "unat (ucast v :: 8 word) = unat v mod 256"
  "unat v < 2 ^ 32" "\<bar>sint v\<bar> < 10 ^ 16"
proof -
  have "unat v < 2 ^ 64" using unsigned_less [of v, where 'a = nat] by simp
  then show "unat (ucast v :: u64) = unat v" by (simp add: unsigned_ucast_eq take_bit_nat_eq_self)
  show "sint (scast v :: u64) = sint v" by (simp add: sint_up_scast is_up)
  show "unat (ucast v :: 8 word) = unat v mod 256" by (simp add: unsigned_ucast_eq take_bit_eq_mod)
  show "unat v < 2 ^ 32" using unsigned_less [of v, where 'a = nat] by simp
  show "\<bar>sint v\<bar> < 10 ^ 16" using sint_greater_eq [of v] sint_less [of v] by (simp add: abs_if)
qed

subsection \<open>The loop by pieces\<close>

text \<open>What the loop does for one piece of the format.\<close>

fun emit_conv :: "nat \<Rightarrow> conv \<Rightarrow> va_arg \<Rightarrow> cursor \<Rightarrow> cursor option" where
  "emit_conv end CStr (VStr s) p = Some (emit_str end s p)"
| "emit_conv end CChar (VInt v) p = Some (emit_char end (char_of (unat (ucast v :: 8 word))) p)"
| "emit_conv end CInt (VInt v) p = emit_long end (scast v) p"
| "emit_conv end CUInt (VInt v) p = emit_ulong end (ucast v) 10 False p"
| "emit_conv end CHex (VInt v) p = emit_ulong end (ucast v) 16 False p"
| "emit_conv end CLHex (VLong v) p = emit_ulong end v 16 False p"
| "emit_conv end CLUInt (VLong v) p = emit_ulong end v 10 False p"
| "emit_conv end CLInt (VLong v) p = emit_long end v p"
| "emit_conv end CPtr (VLong v) p =
     (if v = 0 then Some (emit_str end (Some ''0'') (emit_char end CHR ''x'' (emit_char end CHR ''0'' p)))
      else emit_ulong end v 16 False (emit_char end CHR ''x'' (emit_char end CHR ''0'' p)))"
| "emit_conv _ _ _ _ = None"

fun emit_piece :: "nat \<Rightarrow> piece \<Rightarrow> va_arg list \<Rightarrow> cursor \<Rightarrow> (va_arg list \<times> cursor) option" where
  "emit_piece end (Text t) ap p = Some (ap, emit_chars end t p)"
| "emit_piece end (Conv c) [] p = None"
| "emit_piece end (Conv c) (a # ap) p = map_option (Pair ap) (emit_conv end c a p)"

definition loop_step :: "nat \<Rightarrow> string \<Rightarrow> piece \<Rightarrow> string \<Rightarrow> bool" where
  "loop_step end fmt q rest \<longleftrightarrow> pieces fmt = q # pieces rest \<and> length rest < length fmt \<and>
     (\<forall>ap p. vsnprintf_loop end fmt ap p =
       (case emit_piece end q ap p of None \<Rightarrow> None | Some (ap', p') \<Rightarrow> vsnprintf_loop end rest ap' p'))"

lemma emit_conv_none: "(case emit_piece end (Conv c) ap p of None \<Rightarrow> None | Some (ap', p') \<Rightarrow> F ap' p') =
    (case ap of [] \<Rightarrow> None | a # ap' \<Rightarrow> Option.bind (emit_conv end c a p) (F ap'))"
  by (cases ap) (auto split: option.splits simp: map_option_case)

definition directives :: "(char \<times> conv) list" where
  "directives = [(CHR ''s'', CStr), (CHR ''c'', CChar), (CHR ''d'', CInt), (CHR ''i'', CInt), (CHR ''u'', CUInt),
     (CHR ''x'', CHex), (CHR ''p'', CPtr)]"

definition long_directives :: "(char \<times> conv) list" where
  "long_directives = [(CHR ''x'', CLHex), (CHR ''u'', CLUInt), (CHR ''d'', CLInt)]"

lemma loop_conv: "(g, c) \<in> set directives \<Longrightarrow> loop_step end (CHR ''%'' # g # rest) (Conv c) rest"
  unfolding directives_def list.set insert_iff prod.inject
  by (elim disjE conjE emptyE; simp add: loop_step_def emit_conv_none Let_def del: split_paired_All split: list.split va_arg.split)

lemma loop_long: "(h, c) \<in> set long_directives \<Longrightarrow> loop_step end (CHR ''%'' # CHR ''l'' # h # rest) (Conv c) rest"
  unfolding long_directives_def list.set insert_iff prod.inject
  by (elim disjE conjE emptyE; simp add: loop_step_def emit_conv_none del: split_paired_All split: list.split va_arg.split)

lemma loop_text:
  "f \<noteq> CHR ''%'' \<or> rest = [] \<Longrightarrow> loop_step end (f # rest) (Text [f]) rest"
  "loop_step end (CHR ''%'' # CHR ''%'' # rest) (Text ''%'') rest"
  "loop_step end ''%l'' (Text ''%l'') []"
  "h \<notin> fst ` set long_directives \<Longrightarrow>
     loop_step end (CHR ''%'' # CHR ''l'' # h # rest) (Text [CHR ''%'', CHR ''l'', h]) rest"
  "g \<notin> fst ` set directives \<Longrightarrow> g \<notin> {CHR ''%'', CHR ''l''} \<Longrightarrow>
     loop_step end (CHR ''%'' # g # rest) (Text [CHR ''%'', g]) rest"
  by (auto simp: loop_step_def directives_def long_directives_def simp del: split_paired_All)

lemma loop_long_form: "\<exists>q rest. loop_step end (CHR ''%'' # CHR ''l'' # fmt) q rest"
proof (cases fmt)
  case Nil
  then show ?thesis using loop_text(3) by blast
next
  case (Cons h rest)
  show ?thesis
  proof (cases "h \<in> fst ` set long_directives")
    case True
    then obtain c where "(h, c) \<in> set long_directives" by auto
    then show ?thesis unfolding Cons using loop_long by blast
  next
    case False
    then show ?thesis unfolding Cons using loop_text(4) by blast
  qed
qed

lemma loop_by_pieces:
  assumes "fmt \<noteq> []"
  shows "\<exists>q rest. loop_step end fmt q rest"
proof -
  obtain f fmt1 where f: "fmt = f # fmt1" using assms by (cases fmt) auto
  show ?thesis
  proof (cases "f = CHR ''%'' \<and> fmt1 \<noteq> []")
    case False
    then show ?thesis using loop_text(1) [of f fmt1] f by blast
  next
    case True
    then obtain g fmt2 where g: "f = CHR ''%''" "fmt1 = g # fmt2" by (cases fmt1) auto
    consider "g \<in> fst ` set directives" | "g = CHR ''%''" | "g = CHR ''l''"
      | "g \<notin> fst ` set directives" "g \<notin> {CHR ''%'', CHR ''l''}" by blast
    then show ?thesis
    proof cases
      case 1
      then obtain c where "(g, c) \<in> set directives" by auto
      then show ?thesis using loop_conv f g by blast
    next
      case 2
      then show ?thesis using loop_text(2) f g by blast
    next
      case 3
      then show ?thesis using loop_long_form f g by blast
    next
      case 4
      then show ?thesis using loop_text(5) f g by blast
    qed
  qed
qed

subsection \<open>Each piece is emitted as the reference renders it\<close>

lemma emit_conv_at:
  assumes "render_conv c a = Some out" "short_conv c a"
  shows "emit_conv end c a (cursor_at end buf s) = Some (cursor_at end buf (s @ out))"
proof -
  have w: "unat w < 16 ^ 16" for w :: u64 using unsigned_less [of w, where 'a = nat] by simp
  have v: "unat v < 10 ^ 16" "unat v < 16 ^ 16" for v :: u32 using conv_casts(4) [of v] by simp_all
  show ?thesis
  proof (cases a)
    case (VStr t)
    then show ?thesis using assms by (cases c) (auto simp: emit_at)
  next
    case (VInt x)
    then show ?thesis using assms v [of x] conv_casts(5) [of x] emit_long_at [of "scast x"]
      by (cases c) (auto simp: emit_at emit_ulong_at conv_casts)
  next
    case (VLong x)
    then show ?thesis using assms w [of x]
      by (cases c) (auto simp: emit_at emit_ulong_at emit_long_at positional.simps [of 16 0] digit_char_def)
  qed
qed

lemma emit_piece_at:
  assumes "render (q # ps) ap = Some out" "short_args (q # ps) ap"
  shows "\<exists>ap' o1 o2. emit_piece end q ap (cursor_at end buf s) = Some (ap', cursor_at end buf (s @ o1)) \<and>
    render ps ap' = Some o2 \<and> short_args ps ap' \<and> out = o1 @ o2"
proof (cases q)
  case (Text t)
  then show ?thesis using assms by (auto simp: emit_at)
next
  case (Conv c)
  then obtain a ap' o1 o2 where "ap = a # ap'" "render_conv c a = Some o1" "short_conv c a" "render ps ap' = Some o2"
      "short_args ps ap'" "out = o1 @ o2"
    using assms by (cases ap) (auto split: option.splits)
  then show ?thesis using Conv emit_conv_at [of c a o1 "end" buf s] by (simp del: split_paired_Ex)
qed

lemma vsnprintf_loop_at:
  "render (pieces fmt) ap = Some out \<Longrightarrow> short_args (pieces fmt) ap \<Longrightarrow>
    vsnprintf_loop end fmt ap (cursor_at end buf s) = Some (cursor_at end buf (s @ out))"
proof (induction "length fmt" arbitrary: fmt ap s out rule: less_induct)
  case less
  show ?case
  proof (cases "fmt = []")
    case True
    then show ?thesis using less.prems by simp
  next
    case False
    then obtain q rest where l: "loop_step end fmt q rest" using loop_by_pieces by blast
    then have r: "pieces fmt = q # pieces rest" "length rest < length fmt" by (simp_all add: loop_step_def)
    obtain ap' o1 o2 where e: "emit_piece end q ap (cursor_at end buf s) = Some (ap', cursor_at end buf (s @ o1))"
      and o: "render (pieces rest) ap' = Some o2" "short_args (pieces rest) ap'" "out = o1 @ o2"
      using emit_piece_at [of q "pieces rest" ap out "end" buf s] less.prems r(1) by auto
    show ?thesis using l e o(3) less.hyps [OF r(2) o(1,2), of "s @ o1"] by (simp add: loop_step_def del: split_paired_All)
  qed
qed

subsection \<open>Properties\<close>

text \<open>C29: formatting is the reference cut to the buffer.  If the arguments fit the directives and no
  long is printed in decimal with more than 16 digits, \<open>vsnprintf\<close> writes the longest prefix of the
  rendered text that leaves room for the terminator, terminates it, touches no other cell, and
  returns the length of the whole text as an \<open>int\<close>; with a zero size it writes nothing.\<close>

theorem vsnprintf_correct:
  assumes "render (pieces fmt) ap = Some out" "short_args (pieces fmt) ap"
  shows "vsnprintf sz (Some fmt) ap buf =
    Some (sint (of_nat (length out) :: u32),
      \<lambda>i. if sz = 0 then buf i
          else if i < min (length out) (sz - 1) then out ! i
          else if i = min (length out) (sz - 1) then CHR 0x00
          else buf i)"
proof -
  have "(0, buf) = cursor_at sz buf []" by (simp add: cursor_at_def)
  then have "vsnprintf_loop sz fmt ap (0, buf) = Some (cursor_at sz buf out)"
    using vsnprintf_loop_at [OF assms, of sz buf "[]"] by simp
  then show ?thesis by (auto simp: vsnprintf_def cursor_at_def fun_eq_iff min_def)
qed

theorem vsnprintf_correct_witness:
  "\<exists>b. vsnprintf 8 (Some ''pid %d: %x'') [VInt (- 12), VInt 255] (\<lambda>_. CHR ''?'') = Some (11, b) \<and>
     map b [0..<9] = ''pid -12'' @ [CHR 0x00, CHR ''?'']"
proof -
  have r: "render (pieces ''pid %d: %x'') [VInt (- 12), VInt 255] = Some ''pid -12: ff''" by code_simp
  have s: "short_args (pieces ''pid %d: %x'') [VInt (- 12), VInt 255]" by code_simp
  show ?thesis unfolding vsnprintf_correct [OF r s] by (simp add: upt_rec numeral_eq_Suc)
qed

text \<open>the digit buffer of \<open>emit_ulong\<close> overflows.  \<open>%lu\<close> runs past the 16 cells of \<open>tmp\<close> exactly
  for the values from \<open>10 ^ 16\<close> on, although every \<open>unsigned long\<close> is a legal argument.\<close>

theorem vsnprintf_lu_overflow:
  "vsnprintf sz (Some ''%lu'') [VLong v] buf = None \<longleftrightarrow> 10 ^ 16 \<le> unat v"
proof -
  have l: "loop_step sz (CHR ''%'' # CHR ''l'' # CHR ''u'' # []) (Conv CLUInt) []"
    by (rule loop_long) (simp add: long_directives_def)
  have "emit_ulong sz v 10 False p = None \<longleftrightarrow> 10 ^ 16 \<le> unat v" for p
    by (auto simp: emit_ulong_def digit_loop_positional)
  then show ?thesis
    using l by (auto simp: vsnprintf_def loop_step_def simp del: split_paired_All vsnprintf_loop.simps(2) split: option.splits)
qed

end
