(* ===== verification/Sched.thy ===== *)
theory Sched
  imports Prelude
begin

text \<open>
  Tasks, run queues and the scheduler: \<^verbatim>\<open>include/linux/sched.h\<close>, \<^verbatim>\<open>kernel/sched/core.c\<close>, the wake-up
  of \<^verbatim>\<open>kernel/fork.c\<close>, the ticks of \<^verbatim>\<open>kernel/time/tick.c\<close> and \<^verbatim>\<open>kernel/time/timer.c\<close> and the
  reschedule interrupts of \<^verbatim>\<open>kernel/irq.c\<close>.  A task pointer is an address; a doubly linked list of
  tasks is the list of its members in order, and a node is linked if it is a member.  The critical
  section of a run queue lock is one atomic step.  Every operation takes the number of the CPU that
  executes it; \<open>current\<close> is the task this CPU runs.  The registers that belong to a CPU and not to a
  task (\<open>SP_EL0\<close>, \<open>TPIDR_EL0\<close>, \<open>DAIF\<close>, \<open>TTBR0_EL1\<close>) are part of the CPU's record.
\<close>

abbreviation (input) NR_CPUS :: nat where "NR_CPUS \<equiv> 4"
abbreviation (input) NR_OPEN :: nat where "NR_OPEN \<equiv> 32"
abbreviation (input) SCHED_TIME_SLICE :: int where "SCHED_TIME_SLICE \<equiv> 10"

subsection \<open>Data\<close>

datatype task_state = TASK_RUNNING | TASK_IDLE | TASK_SLEEPING | TASK_STOPPED | TASK_ZOMBIE | TASK_DEAD

datatype child_event = CHILD_EVENT_NONE | CHILD_EVENT_STOPPED | CHILD_EVENT_CONTINUED

record sigaction =
  sa_handler :: u64
  sa_flags :: u64
  sa_restorer :: u64
  sa_mask :: u64

record pt_regs =
  xregs :: "nat \<Rightarrow> u64"
  elr_el1 :: u64
  spsr_el1 :: u64

record task_struct =
  t_pid :: int
  t_tgid :: int
  t_state :: task_state
  t_stack :: u64
  t_mm :: u64
  t_files :: "nat \<Rightarrow> u64"
  t_close_on_exec :: u64
  t_cpu :: nat
  t_parent :: u64
  t_time_slice :: int
  t_need_resched :: bool
  t_is_user :: bool
  t_user_sp :: u64
  t_tpidr_el0 :: u64
  t_regs :: pt_regs
  t_exit_code :: int
  t_exit_signal :: int
  t_stop_signal :: int
  t_wait_event :: child_event
  t_pgid :: int
  t_sid :: int
  t_daif :: u64
  t_cwd :: u64
  t_pending :: u64
  t_blocked :: u64
  t_saved_blocked :: u64
  t_restore_sigmask :: bool
  t_in_syscall :: bool
  t_orig_x0 :: u64
  t_actions :: "nat \<Rightarrow> sigaction"
  t_wake_jiffies :: u64

record cpu_data =
  rq_tasks :: "u64 list"
  nr_running :: nat
  idle :: u64
  curr :: u64
  sp_el0 :: u64
  tpidr_el0 :: u64
  daif :: u64
  ttbr0_el1 :: u64

text \<open>\<open>pgds\<close> gives the page directory of every \<open>mm_struct\<close>; \<open>ipis\<close> are the reschedule interrupts in flight.\<close>

record sched =
  tasks :: "u64 \<Rightarrow> task_struct"
  cpus :: "nat \<Rightarrow> cpu_data"
  all_tasks :: "u64 list"
  ipis :: "nat \<Rightarrow> bool"
  jiffies :: u64
  pgds :: "u64 \<Rightarrow> u64"

definition upd_task :: "u64 \<Rightarrow> (task_struct \<Rightarrow> task_struct) \<Rightarrow> sched \<Rightarrow> sched" where
  "upd_task t f s = s\<lparr>tasks := (tasks s)(t := f (tasks s t))\<rparr>"

definition upd_cpu :: "nat \<Rightarrow> (cpu_data \<Rightarrow> cpu_data) \<Rightarrow> sched \<Rightarrow> sched" where
  "upd_cpu c f s = s\<lparr>cpus := (cpus s)(c := f (cpus s c))\<rparr>"

abbreviation (input) rq :: "nat \<Rightarrow> sched \<Rightarrow> u64 list" where
  "rq c s \<equiv> rq_tasks (cpus s c)"

definition get_current :: "nat \<Rightarrow> sched \<Rightarrow> u64" where
  "get_current c s = curr (cpus s c)"

definition set_current :: "nat \<Rightarrow> u64 \<Rightarrow> sched \<Rightarrow> sched" where
  "set_current c t = upd_cpu c (\<lambda>r. r\<lparr>curr := t\<rparr>)"

definition idle_task :: "nat \<Rightarrow> sched \<Rightarrow> u64" where
  "idle_task c s = idle (cpus s c)"

subsection \<open>Lists\<close>

definition on_rq :: "u64 \<Rightarrow> sched \<Rightarrow> bool" where
  "on_rq t s \<longleftrightarrow> list_ex (\<lambda>c. t \<in> set (rq c s)) [0..<NR_CPUS]"

text \<open>\<open>list_del_init (&task->run_list)\<close> unlinks the node from the queue it is on.\<close>

definition run_list_del :: "u64 \<Rightarrow> sched \<Rightarrow> sched" where
  "run_list_del t s = s\<lparr>cpus := \<lambda>c. (cpus s c)\<lparr>rq_tasks := remove1 t (rq c s)\<rparr>\<rparr>"

definition rq_init :: "nat \<Rightarrow> sched \<Rightarrow> sched" where
  "rq_init c = upd_cpu c (\<lambda>r. r\<lparr>rq_tasks := [], nr_running := 0\<rparr>)"

definition task_attach :: "u64 \<Rightarrow> sched \<Rightarrow> sched" where
  "task_attach t s = (if t \<in> set (all_tasks s) then s else s\<lparr>all_tasks := all_tasks s @ [t]\<rparr>)"

definition task_detach :: "u64 \<Rightarrow> sched \<Rightarrow> sched" where
  "task_detach t s = (if t \<in> set (all_tasks s) then s\<lparr>all_tasks := remove1 t (all_tasks s)\<rparr> else s)"

subsection \<open>Run queues\<close>

definition enqueue_task_locked :: "u64 \<Rightarrow> nat \<Rightarrow> sched \<Rightarrow> sched" where
  "enqueue_task_locked t c s =
     (if t = 0 then s
      else if on_rq t s then s
      else
        upd_cpu c (\<lambda>r. r\<lparr>rq_tasks := rq_tasks r @ [t], nr_running := nr_running r + 1\<rparr>)
          (upd_task t (\<lambda>k. k\<lparr>t_state := TASK_RUNNING, t_time_slice := SCHED_TIME_SLICE, t_cpu := c\<rparr>) s))"

definition enqueue_task_cpu :: "u64 \<Rightarrow> nat \<Rightarrow> sched \<Rightarrow> sched" where
  "enqueue_task_cpu t c s =
     (if t = 0 then s
      else if c \<ge> NR_CPUS then s
      else enqueue_task_locked t c s)"

definition enqueue_task :: "nat \<Rightarrow> u64 \<Rightarrow> sched \<Rightarrow> sched" where
  "enqueue_task this t s =
     (if t = 0 then s
      else
        let s1 = (if t_cpu (tasks s t) \<ge> NR_CPUS then upd_task t (\<lambda>k. k\<lparr>t_cpu := this\<rparr>) s else s) in
        enqueue_task_cpu t (t_cpu (tasks s1 t)) s1)"

definition dequeue_task_locked :: "u64 \<Rightarrow> nat \<Rightarrow> sched \<Rightarrow> sched" where
  "dequeue_task_locked t c s =
     (if t = 0 \<or> \<not> on_rq t s then s
      else
        let s1 = run_list_del t s in
        if nr_running (cpus s1 c) \<noteq> 0 then upd_cpu c (\<lambda>r. r\<lparr>nr_running := nr_running r - 1\<rparr>) s1 else s1)"

definition dequeue_task :: "u64 \<Rightarrow> sched \<Rightarrow> sched" where
  "dequeue_task t s =
     (if t = 0 then s
      else if t_cpu (tasks s t) \<ge> NR_CPUS then s
      else dequeue_task_locked t (t_cpu (tasks s t)) s)"

definition sched_block :: "nat \<Rightarrow> task_state \<Rightarrow> sched \<Rightarrow> sched" where
  "sched_block this st s =
     (let t = get_current this s in dequeue_task t (upd_task t (\<lambda>k. k\<lparr>t_state := st\<rparr>) s))"

subsection \<open>Reschedule requests\<close>

definition set_need_resched :: "nat \<Rightarrow> sched \<Rightarrow> sched" where
  "set_need_resched this s =
     (let t = get_current this s in if t \<noteq> 0 then upd_task t (\<lambda>k. k\<lparr>t_need_resched := True\<rparr>) s else s)"

definition clear_need_resched :: "nat \<Rightarrow> sched \<Rightarrow> sched" where
  "clear_need_resched this s =
     (let t = get_current this s in if t \<noteq> 0 then upd_task t (\<lambda>k. k\<lparr>t_need_resched := False\<rparr>) s else s)"

definition need_resched :: "nat \<Rightarrow> sched \<Rightarrow> bool" where
  "need_resched this s = (let t = get_current this s in t \<noteq> 0 \<and> t_need_resched (tasks s t))"

text \<open>\<open>send_reschedule_ipi\<close> raises the interrupt on the other CPU, \<open>handle_reschedule_ipi\<close> serves it there.\<close>

definition send_reschedule_ipi :: "nat \<Rightarrow> sched \<Rightarrow> sched" where
  "send_reschedule_ipi c s = (if c \<ge> NR_CPUS then s else s\<lparr>ipis := (ipis s)(c := True)\<rparr>)"

definition handle_reschedule_ipi :: "nat \<Rightarrow> sched \<Rightarrow> sched" where
  "handle_reschedule_ipi this s = set_need_resched this (s\<lparr>ipis := (ipis s)(this := False)\<rparr>)"

definition resched_cpu :: "nat \<Rightarrow> nat \<Rightarrow> sched \<Rightarrow> sched" where
  "resched_cpu this c s =
     (if c \<ge> NR_CPUS then s
      else if c = this then set_need_resched this s
      else send_reschedule_ipi c s)"

definition wake_up_process :: "nat \<Rightarrow> u64 \<Rightarrow> sched \<Rightarrow> sched" where
  "wake_up_process this t s =
     (if t = 0 then s
      else if t_state (tasks s t) = TASK_RUNNING \<and> on_rq t s then s
      else
        let s1 = enqueue_task this t s in
        resched_cpu this (t_cpu (tasks s1 t)) s1)"

subsection \<open>Load balancing\<close>

definition migrate_task :: "nat \<Rightarrow> u64 \<Rightarrow> nat \<Rightarrow> sched \<Rightarrow> int \<times> sched" where
  "migrate_task this t new_cpu s =
     (if t = 0 then (- EINVAL, s)
      else if new_cpu \<ge> NR_CPUS then (- EINVAL, s)
      else
        let old_cpu = t_cpu (tasks s t) in
        if old_cpu \<ge> NR_CPUS then (- EINVAL, s)
        else if old_cpu = new_cpu then (0, s)
        else if t_state (tasks s t) \<noteq> TASK_RUNNING \<or> \<not> on_rq t s \<or> t_cpu (tasks s t) \<noteq> old_cpu \<or>
                t = curr (cpus s old_cpu) then (- EINVAL, s)
        else
          let s1 = run_list_del t s;
              s2 = (if nr_running (cpus s1 old_cpu) \<noteq> 0
                    then upd_cpu old_cpu (\<lambda>r. r\<lparr>nr_running := nr_running r - 1\<rparr>) s1 else s1);
              s3 = upd_task t (\<lambda>k. k\<lparr>t_cpu := new_cpu\<rparr>) s2;
              s4 = upd_cpu new_cpu (\<lambda>r. r\<lparr>rq_tasks := rq_tasks r @ [t], nr_running := nr_running r + 1\<rparr>) s3 in
          (0, resched_cpu this new_cpu s4))"

text \<open>The loop of \<open>find_busiest_cpu\<close>: \<open>max_load\<close> and \<open>busiest\<close> after the CPUs in the list.\<close>

fun busiest_scan :: "nat \<Rightarrow> nat list \<Rightarrow> nat \<times> nat \<Rightarrow> sched \<Rightarrow> nat \<times> nat" where
  "busiest_scan this_cpu [] acc s = acc"
| "busiest_scan this_cpu (c # cs) (max_load, busiest) s =
     (if c = this_cpu then busiest_scan this_cpu cs (max_load, busiest) s
      else
        let load = nr_running (cpus s c) in
        busiest_scan this_cpu cs (if load > max_load then (load, c) else (max_load, busiest)) s)"

definition find_busiest_cpu :: "nat \<Rightarrow> sched \<Rightarrow> nat option" where
  "find_busiest_cpu this_cpu s =
     (let (max_load, busiest) = busiest_scan this_cpu [0..<NR_CPUS] (nr_running (cpus s this_cpu) + 1, this_cpu) s in
      if busiest = this_cpu then None else Some busiest)"

definition pick_migratable_task :: "nat \<Rightarrow> u64 \<Rightarrow> sched \<Rightarrow> u64 option" where
  "pick_migratable_task c exclude s =
     (if nr_running (cpus s c) \<le> 1 then None
      else find (\<lambda>t. t \<noteq> exclude \<and> t_pid (tasks s t) \<noteq> 0) (rev (rq c s)))"

definition try_pull_task :: "nat \<Rightarrow> sched \<Rightarrow> bool \<times> sched" where
  "try_pull_task this s =
     (if this \<ge> NR_CPUS then (False, s)
      else case find_busiest_cpu this s of
        None \<Rightarrow> (False, s)
      | Some busiest \<Rightarrow>
          (case pick_migratable_task busiest (curr (cpus s busiest)) s of
             None \<Rightarrow> (False, s)
           | Some t \<Rightarrow>
               let (err, s1) = migrate_task this t this s in
               if err \<noteq> 0 then (False, s1) else (True, s1)))"

subsection \<open>Picking and switching\<close>

text \<open>The successor of a node in a circular list whose head node is skipped.\<close>

fun next_after :: "u64 \<Rightarrow> u64 list \<Rightarrow> u64 option" where
  "next_after t [] = None"
| "next_after t (x # xs) = (if x = t then (case xs of [] \<Rightarrow> None | y # _ \<Rightarrow> Some y) else next_after t xs)"

text \<open>
  \<open>prev->run_list.next\<close> follows the queue \<open>prev\<close> is on, which is the picking CPU's queue as long as
  the invariant below holds.
\<close>

definition pick_next_task :: "nat \<Rightarrow> u64 \<Rightarrow> sched \<Rightarrow> u64" where
  "pick_next_task c prev s =
     (if rq c s = [] then idle_task c s
      else if prev \<noteq> 0 \<and> prev \<noteq> idle_task c s \<and> on_rq prev s then
        (case next_after prev (rq c s) of None \<Rightarrow> hd (rq c s) | Some t \<Rightarrow> t)
      else hd (rq c s))"

text \<open>\<open>mm_install\<close> of \<^verbatim>\<open>mm/mmap.c\<close>; TLB and cache maintenance have no counterpart.\<close>

definition mm_install :: "nat \<Rightarrow> u64 \<Rightarrow> sched \<Rightarrow> sched" where
  "mm_install c m s =
     (if m = 0 \<or> pgds s m = 0 then s else upd_cpu c (\<lambda>r. r\<lparr>ttbr0_el1 := virt_to_phys (pgds s m)\<rparr>) s)"

text \<open>
  \<open>context_switch\<close> up to \<open>switch_to\<close>, which changes the stack: the call returns in the code of the
  next task.
\<close>

definition context_switch :: "nat \<Rightarrow> u64 \<Rightarrow> u64 \<Rightarrow> sched \<Rightarrow> sched" where
  "context_switch c prev nxt s =
     (let s1 = (if t_is_user (tasks s prev)
                then upd_task prev (\<lambda>k. k\<lparr>t_user_sp := sp_el0 (cpus s c), t_tpidr_el0 := tpidr_el0 (cpus s c)\<rparr>) s
                else s);
          s2 = upd_task prev (\<lambda>k. k\<lparr>t_daif := daif (cpus s c)\<rparr>) s1;
          s3 = upd_task nxt (\<lambda>k. k\<lparr>t_time_slice := SCHED_TIME_SLICE, t_need_resched := False\<rparr>) s2;
          s4 = set_current c nxt s3;
          s5 = upd_cpu c (\<lambda>r. r\<lparr>daif := t_daif (tasks s4 nxt)\<rparr>) s4 in
      if t_is_user (tasks s5 nxt) \<and> t_mm (tasks s5 nxt) \<noteq> 0 then
        upd_cpu c (\<lambda>r. r\<lparr>sp_el0 := t_user_sp (tasks s5 nxt), tpidr_el0 := t_tpidr_el0 (tasks s5 nxt)\<rparr>)
          (mm_install c (t_mm (tasks s5 nxt)) s5)
      else upd_cpu c (\<lambda>r. r\<lparr>ttbr0_el1 := 0\<rparr>) s5)"

text \<open>
  \<open>schedule\<close> in the pieces between which other CPUs can run: the pick under the run queue lock, the
  pull from a busier CPU with a second pick, and the switch.
\<close>

definition schedule_pick :: "nat \<Rightarrow> sched \<Rightarrow> u64 \<times> bool \<times> sched" where
  "schedule_pick c s =
     (let s1 = clear_need_resched c s in (pick_next_task c (get_current c s1) s1, rq c s1 = [], s1))"

definition schedule_pull :: "nat \<Rightarrow> u64 \<times> bool \<times> sched \<Rightarrow> u64 \<times> sched" where
  "schedule_pull c p =
     (case p of (nxt, was_empty, s) \<Rightarrow>
        if nxt = idle_task c s \<and> was_empty then
          let (pulled, s1) = try_pull_task c s in
          if pulled then (pick_next_task c (get_current c s1) s1, s1) else (nxt, s1)
        else (nxt, s))"

definition schedule_switch :: "nat \<Rightarrow> u64 \<times> sched \<Rightarrow> sched" where
  "schedule_switch c p =
     (case p of (nxt, s) \<Rightarrow>
        let prev = get_current c s in
        if nxt = prev then s
        else if nxt \<noteq> idle_task c s \<and> t_stack (tasks s nxt) = 0 then s
        else context_switch c prev nxt s)"

definition schedule :: "nat \<Rightarrow> sched \<Rightarrow> sched" where
  "schedule c s = schedule_switch c (schedule_pull c (schedule_pick c s))"

definition sched_init_idle :: "nat \<Rightarrow> u64 \<Rightarrow> sched \<Rightarrow> sched" where
  "sched_init_idle c t s =
     upd_cpu c (\<lambda>r. r\<lparr>idle := t, curr := t\<rparr>)
       (upd_task t (\<lambda>k. k\<lparr>t_daif := 0x3c0, t_cpu := c\<rparr>) (run_list_del t s))"

subsection \<open>Ticks and sleeping\<close>

definition do_timer :: "sched \<Rightarrow> sched" where
  "do_timer s = s\<lparr>jiffies := jiffies s + 1\<rparr>"

definition tick_wake_one :: "nat \<Rightarrow> u64 \<Rightarrow> sched \<Rightarrow> sched" where
  "tick_wake_one this t s =
     (if t_state (tasks s t) \<noteq> TASK_SLEEPING \<or> t_wake_jiffies (tasks s t) = 0 then s
      else if jiffies s \<ge> t_wake_jiffies (tasks s t) then wake_up_process this t s
      else s)"

definition tick_wake_sleepers :: "nat \<Rightarrow> sched \<Rightarrow> sched" where
  "tick_wake_sleepers this s = fold (tick_wake_one this) (all_tasks s) s"

text \<open>The accounting of \<open>handle_arch_tick\<close> for the task that runs on the ticking CPU.\<close>

definition tick_account :: "nat \<Rightarrow> sched \<Rightarrow> sched" where
  "tick_account this s =
     (let t = get_current this s; k = tasks s t in
      if t \<noteq> 0 \<and> t_pid k \<noteq> 0 \<and> t_state k = TASK_RUNNING then
        let s1 = (if t_time_slice k > 0 then upd_task t (\<lambda>k. k\<lparr>t_time_slice := t_time_slice k - 1\<rparr>) s else s) in
        if t_time_slice (tasks s1 t) = 0
        then set_need_resched this (upd_task t (\<lambda>k. k\<lparr>t_time_slice := SCHED_TIME_SLICE\<rparr>) s1)
        else s1
      else s)"

abbreviation (input) NSEC_PER_SEC :: int where "NSEC_PER_SEC \<equiv> 1000000000"
abbreviation (input) HZ :: u64 where "HZ \<equiv> 100"

text \<open>A \<open>timespec\<close> is the pair of its seconds and nanoseconds, both a signed \<open>long\<close>.\<close>

definition timespec_valid :: "u64 \<times> u64 \<Rightarrow> bool" where
  "timespec_valid ts \<longleftrightarrow> \<not> sint (fst ts) < 0 \<and> \<not> (sint (snd ts) < 0 \<or> sint (snd ts) \<ge> NSEC_PER_SEC)"

definition timespec_to_jiffies :: "u64 \<times> u64 \<Rightarrow> u64" where
  "timespec_to_jiffies ts = fst ts * HZ + (snd ts * HZ + 1000000000 - 1) div 1000000000"

text \<open>\<open>ksys_nanosleep\<close> up to its \<open>schedule\<close>, with a result if it returns before, and what it does when it runs again.\<close>

definition nanosleep_begin :: "nat \<Rightarrow> (u64 \<times> u64) option \<Rightarrow> sched \<Rightarrow> int option \<times> sched" where
  "nanosleep_begin this req s =
     (let t = get_current this s in
      if t = 0 \<or> \<not> t_is_user (tasks s t) \<or> req = None then (Some (- EINVAL), s)
      else
        let ts = the req in
        if \<not> timespec_valid ts then (Some (- EINVAL), s)
        else if fst ts = 0 \<and> snd ts = 0 then (Some 0, s)
        else
          let delta = timespec_to_jiffies ts;
              delta1 = (if delta = 0 then 1 else delta);
              deadline = jiffies s + delta1 in
          (None, sched_block this TASK_SLEEPING (upd_task t (\<lambda>k. k\<lparr>t_wake_jiffies := deadline\<rparr>) s)))"

definition nanosleep_end :: "nat \<Rightarrow> sched \<Rightarrow> int \<times> sched" where
  "nanosleep_end this s =
     (let t = get_current this s; s1 = upd_task t (\<lambda>k. k\<lparr>t_wake_jiffies := 0\<rparr>) s in
      (0, if \<not> on_rq t s1 then enqueue_task this t s1 else s1))"

text \<open>\<open>ksys_sched_yield\<close>: a call of \<open>schedule\<close> for user tasks.\<close>

definition ksys_sched_yield :: "nat \<Rightarrow> sched \<Rightarrow> sched" where
  "ksys_sched_yield this s =
     (let t = get_current this s in if t = 0 \<or> \<not> t_is_user (tasks s t) then s else schedule this s)"

end
