(* ===== verification/Sched_Props.thy ===== *)
theory Sched_Props
  imports Sched
begin

text \<open>
  The scheduler's invariant and what follows from it: no task is on two queues or runs on two CPUs,
  round robin is fair, pulling moves work only from a clearly busier CPU, and a context switch
  keeps the registers that belong to the user.
\<close>

subsection \<open>Frames\<close>

lemma upd_simps [simp]:
  "tasks (upd_task t f s) u = (if u = t then f (tasks s t) else tasks s u)"
  "cpus (upd_task t f s) = cpus s" "all_tasks (upd_task t f s) = all_tasks s" "ipis (upd_task t f s) = ipis s"
  "jiffies (upd_task t f s) = jiffies s" "pgds (upd_task t f s) = pgds s"
  "cpus (upd_cpu c g s) d = (if d = c then g (cpus s c) else cpus s d)"
  "tasks (upd_cpu c g s) = tasks s" "all_tasks (upd_cpu c g s) = all_tasks s" "ipis (upd_cpu c g s) = ipis s"
  "jiffies (upd_cpu c g s) = jiffies s" "pgds (upd_cpu c g s) = pgds s"
  by (simp_all add: upd_task_def upd_cpu_def)

lemma run_list_del_simps [simp]:
  "tasks (run_list_del t s) = tasks s" "cpus (run_list_del t s) c = (cpus s c)\<lparr>rq_tasks := remove1 t (rq c s)\<rparr>"
  by (simp_all add: run_list_del_def)

lemma on_rq_iff: "on_rq t s \<longleftrightarrow> (\<exists>c<NR_CPUS. t \<in> set (rq c s))"
  by (auto simp: on_rq_def list_ex_iff)

subsection \<open>The invariant\<close>

definition rq_ok :: "sched \<Rightarrow> nat \<Rightarrow> bool" where
  "rq_ok s c \<longleftrightarrow> nr_running (cpus s c) = length (rq c s) \<and> distinct (rq c s) \<and>
     (\<forall>t\<in>set (rq c s). t \<noteq> 0 \<and> t_state (tasks s t) = TASK_RUNNING \<and> t_cpu (tasks s t) = c)"

definition cpu_ok :: "sched \<Rightarrow> nat \<Rightarrow> bool" where
  "cpu_ok s c \<longleftrightarrow> curr (cpus s c) \<noteq> 0 \<and> idle (cpus s c) \<noteq> 0 \<and> t_cpu (tasks s (curr (cpus s c))) = c \<and>
     t_cpu (tasks s (idle (cpus s c))) = c \<and> idle (cpus s c) \<notin> set (rq c s)"

definition sched_inv :: "sched \<Rightarrow> bool" where
  "sched_inv s \<longleftrightarrow> (\<forall>c<NR_CPUS. rq_ok s c \<and> cpu_ok s c)"

lemma sched_invD:
  assumes "sched_inv s" "c < NR_CPUS"
  shows "nr_running (cpus s c) = length (rq c s)" "distinct (rq c s)"
    "t \<in> set (rq c s) \<Longrightarrow> t \<noteq> 0 \<and> t_state (tasks s t) = TASK_RUNNING \<and> t_cpu (tasks s t) = c"
    "curr (cpus s c) \<noteq> 0" "idle (cpus s c) \<noteq> 0" "t_cpu (tasks s (curr (cpus s c))) = c"
    "t_cpu (tasks s (idle (cpus s c))) = c" "idle (cpus s c) \<notin> set (rq c s)"
  using assms by (auto simp: sched_inv_def rq_ok_def cpu_ok_def)

text \<open>A queued task is on the queue of its CPU only.\<close>

lemma on_rq_own:
  assumes "sched_inv s"
  shows "on_rq t s \<longleftrightarrow> t_cpu (tasks s t) < NR_CPUS \<and> t \<in> set (rq (t_cpu (tasks s t)) s)"
proof
  assume "on_rq t s"
  then obtain c where c: "c < NR_CPUS" "t \<in> set (rq c s)" by (auto simp: on_rq_iff)
  moreover have "t_cpu (tasks s t) = c" using sched_invD(3) [OF assms c(1)] c(2) by blast
  ultimately show "t_cpu (tasks s t) < NR_CPUS \<and> t \<in> set (rq (t_cpu (tasks s t)) s)" by simp
next
  assume "t_cpu (tasks s t) < NR_CPUS \<and> t \<in> set (rq (t_cpu (tasks s t)) s)"
  then show "on_rq t s" unfolding on_rq_iff by blast
qed

lemma rq_okI:
  assumes "rq c s = ts" "nr_running (cpus s c) = length ts" "distinct ts"
    and "\<And>u. u \<in> set ts \<Longrightarrow> u \<noteq> 0 \<and> t_state (tasks s u) = TASK_RUNNING \<and> t_cpu (tasks s u) = c"
  shows "rq_ok s c"
  unfolding rq_ok_def assms(1) using assms(2-4) by blast

text \<open>What a CPU's own record needs if the queue only shrinks and no task changes its CPU.\<close>

lemma cpu_ok_sub:
  assumes inv: "sched_inv s" and c: "c < NR_CPUS"
    and eq: "curr (cpus s' c) = curr (cpus s c)" "idle (cpus s' c) = idle (cpus s c)" "\<And>u. t_cpu (tasks s' u) = t_cpu (tasks s u)"
    and sub: "set (rq c s') \<subseteq> set (rq c s)"
  shows "cpu_ok s' c"
  unfolding cpu_ok_def eq using sched_invD(4-8) [OF inv c] sub by blast

text \<open>Changes that the invariant does not see.\<close>

lemma sched_inv_cong:
  assumes "sched_inv s"
    and "\<And>c. c < NR_CPUS \<Longrightarrow> rq_tasks (cpus s' c) = rq_tasks (cpus s c) \<and> nr_running (cpus s' c) = nr_running (cpus s c) \<and>
      idle (cpus s' c) = idle (cpus s c) \<and> curr (cpus s' c) = curr (cpus s c)"
    and "\<And>t. t_state (tasks s' t) = t_state (tasks s t) \<and> t_cpu (tasks s' t) = t_cpu (tasks s t)"
  shows "sched_inv s'"
  using assms unfolding sched_inv_def rq_ok_def cpu_ok_def by simp

definition is_idle :: "u64 \<Rightarrow> sched \<Rightarrow> bool" where
  "is_idle t s \<longleftrightarrow> (\<exists>c<NR_CPUS. t = idle (cpus s c))"

subsection \<open>Enqueueing and dequeueing\<close>

lemma enqueue_locked_inv:
  assumes inv: "sched_inv s" and c: "c < NR_CPUS" "t_cpu (tasks s t) = c \<or> t_cpu (tasks s t) \<ge> NR_CPUS"
    and i: "\<not> is_idle t s"
  shows "sched_inv (enqueue_task_locked t c s)"
proof (cases "t = 0 \<or> on_rq t s")
  case True
  then show ?thesis using inv by (auto simp: enqueue_task_locked_def)
next
  case False
  let ?s = "enqueue_task_locked t c s"
  have e: "?s = upd_cpu c (\<lambda>r. r\<lparr>rq_tasks := rq_tasks r @ [t], nr_running := nr_running r + 1\<rparr>)
      (upd_task t (\<lambda>k. k\<lparr>t_state := TASK_RUNNING, t_time_slice := 10, t_cpu := c\<rparr>) s)"
    using False by (simp add: enqueue_task_locked_def)
  have n: "t \<notin> set (rq d s)" if "d < NR_CPUS" for d using False that by (auto simp: on_rq_iff)
  have "rq_ok ?s d \<and> cpu_ok ?s d" if d: "d < NR_CPUS" for d
  proof
    show "rq_ok ?s d"
      using sched_invD(1,2) [OF inv d] sched_invD(3) [OF inv d] n [OF d] False
      by (auto simp: e rq_ok_def)
    have "t \<noteq> idle (cpus s d)" using i d by (auto simp: is_idle_def)
    then show "cpu_ok ?s d" using sched_invD(4-8) [OF inv d] c d by (auto simp: e cpu_ok_def)
  qed
  then show ?thesis by (simp add: sched_inv_def)
qed

lemma enqueue_task_inv:
  assumes "sched_inv s" "this < NR_CPUS" "\<not> is_idle t s"
  shows "sched_inv (enqueue_task this t s)"
proof -
  let ?s = "upd_task t (\<lambda>k. k\<lparr>t_cpu := this\<rparr>) s"
  show ?thesis
  proof (cases "t_cpu (tasks s t) < NR_CPUS")
    case True
    then show ?thesis using enqueue_locked_inv [OF assms(1) True _ assms(3)] assms(1)
      by (simp add: enqueue_task_def enqueue_task_cpu_def)
  next
    case False
    have "sched_inv ?s"
      unfolding sched_inv_def
    proof (intro allI impI conjI)
      fix c :: nat assume c: "c < NR_CPUS"
      note d = sched_invD [OF assms(1) c]
      have "t \<noteq> curr (cpus s c)" "t \<noteq> idle (cpus s c)" "t \<notin> set (rq c s)" using d(3,6,7) False c by auto
      then show "rq_ok ?s c" "cpu_ok ?s c" using d(1,2,4-8) d(3) by (auto simp: rq_ok_def cpu_ok_def)
    qed
    then show ?thesis using enqueue_locked_inv [of ?s this t] assms False
      by (simp add: enqueue_task_def enqueue_task_cpu_def is_idle_def)
  qed
qed

lemma on_rqE:
  assumes "sched_inv s" "on_rq t s"
  obtains c where "c < NR_CPUS" "t \<in> set (rq c s)" "t_cpu (tasks s t) = c" "t \<noteq> 0" "nr_running (cpus s c) \<noteq> 0"
    "t_state (tasks s t) = TASK_RUNNING"
proof -
  obtain c where c: "c < NR_CPUS" "t \<in> set (rq c s)" using assms(2) by (auto simp: on_rq_iff)
  moreover have "t_cpu (tasks s t) = c" "t \<noteq> 0" "t_state (tasks s t) = TASK_RUNNING"
    using sched_invD(3) [OF assms(1) c] by auto
  moreover have "nr_running (cpus s c) \<noteq> 0" using sched_invD(1) [OF assms(1) c(1)] c(2) by auto
  ultimately show thesis using that by blast
qed

text \<open>Leaving the queue, for a task whose state has been set to anything.\<close>

lemma dequeue_inv:
  assumes inv: "sched_inv s"
  shows "sched_inv (dequeue_task t (upd_task t (\<lambda>k. k\<lparr>t_state := st\<rparr>) s))"
proof -
  let ?u = "upd_task t (\<lambda>k. k\<lparr>t_state := st\<rparr>) s"
  let ?s = "dequeue_task t ?u"
  have on: "on_rq t ?u \<longleftrightarrow> on_rq t s" by (simp add: on_rq_def)
  show ?thesis
  proof (cases "on_rq t s")
    case True
    then obtain c where c: "c < NR_CPUS" "t \<in> set (rq c s)" "t_cpu (tasks s t) = c" "t \<noteq> 0" "nr_running (cpus s c) \<noteq> 0"
      using on_rqE [OF inv] by metis
    then have e: "?s = upd_cpu c (\<lambda>r. r\<lparr>nr_running := nr_running r - 1\<rparr>) (run_list_del t ?u)"
      using True on by (simp add: dequeue_task_def dequeue_task_locked_def)
    have "rq_ok ?s d \<and> cpu_ok ?s d" if d: "d < NR_CPUS" for d
    proof
      have n: "t \<notin> set (rq d s)" if "d \<noteq> c" using that sched_invD(3) [OF inv d, of t] c(3) by auto
      have m: "u \<in> set (remove1 t (rq d s)) \<Longrightarrow> u \<in> set (rq d s) \<and> u \<noteq> t" for u
        using sched_invD(2) [OF inv d] by (auto simp: set_remove1_eq)
      have q: "\<forall>u\<in>set (rq d s). u \<noteq> 0 \<and> t_state (tasks s u) = TASK_RUNNING \<and> t_cpu (tasks s u) = d"
        using sched_invD(3) [OF inv d] by blast
      show "rq_ok ?s d"
      proof (rule rq_okI)
        show "rq d ?s = remove1 t (rq d s)" by (simp add: e)
        show "nr_running (cpus ?s d) = length (remove1 t (rq d s))"
          using sched_invD(1) [OF inv d] n c(2) by (cases "d = c") (simp_all add: e length_remove1)
        show "distinct (remove1 t (rq d s))" using sched_invD(2) [OF inv d] by simp
        fix u assume "u \<in> set (remove1 t (rq d s))"
        from m [OF this] show "u \<noteq> 0 \<and> t_state (tasks ?s u) = TASK_RUNNING \<and> t_cpu (tasks ?s u) = d"
          using q by (simp add: e)
      qed
      show "cpu_ok ?s d" by (rule cpu_ok_sub [OF inv d]) (auto simp: e dest: set_mp [OF set_remove1_subset])
    qed
    then show ?thesis by (simp add: sched_inv_def)
  next
    case False
    then have n: "t \<notin> set (rq d s)" if "d < NR_CPUS" for d using that by (auto simp: on_rq_iff)
    have "?s = ?u" using False on by (simp add: dequeue_task_def dequeue_task_locked_def)
    moreover have "sched_inv ?u"
      unfolding sched_inv_def
    proof (intro allI impI conjI)
      fix d :: nat assume d: "d < NR_CPUS"
      have "\<forall>u\<in>set (rq d s). tasks ?u u = tasks s u" using n [OF d] by auto
      then show "rq_ok ?u d" using sched_invD(1,2) [OF inv d] sched_invD(3) [OF inv d] by (simp add: rq_ok_def)
      show "cpu_ok ?u d" by (rule cpu_ok_sub [OF inv d]) simp_all
    qed
    ultimately show ?thesis by simp
  qed
qed

lemma sched_block_inv: "sched_inv s \<Longrightarrow> sched_inv (sched_block this st s)"
  by (simp add: sched_block_def Let_def dequeue_inv)

subsection \<open>Requests and wake-ups\<close>

lemma resched_simps [simp]:
  "cpus (set_need_resched this s) = cpus s" "cpus (clear_need_resched this s) = cpus s"
  "cpus (send_reschedule_ipi c s) = cpus s" "cpus (resched_cpu this c s) = cpus s"
  "t_cpu (tasks (set_need_resched this s) u) = t_cpu (tasks s u)" "t_state (tasks (set_need_resched this s) u) = t_state (tasks s u)"
  "t_cpu (tasks (clear_need_resched this s) u) = t_cpu (tasks s u)" "t_state (tasks (clear_need_resched this s) u) = t_state (tasks s u)"
  "t_stack (tasks (clear_need_resched this s) u) = t_stack (tasks s u)"
  "tasks (send_reschedule_ipi c s) = tasks s"
  "t_cpu (tasks (resched_cpu this c s) u) = t_cpu (tasks s u)" "t_state (tasks (resched_cpu this c s) u) = t_state (tasks s u)"
  by (simp_all add: set_need_resched_def clear_need_resched_def send_reschedule_ipi_def resched_cpu_def Let_def)

lemma resched_inv [simp]:
  "sched_inv (set_need_resched this s) \<longleftrightarrow> sched_inv s" "sched_inv (clear_need_resched this s) \<longleftrightarrow> sched_inv s"
  "sched_inv (send_reschedule_ipi c s) \<longleftrightarrow> sched_inv s" "sched_inv (resched_cpu this c s) \<longleftrightarrow> sched_inv s"
proof -
  have eq: "sched_inv s' \<longleftrightarrow> sched_inv s"
    if "cpus s' = cpus s" "\<And>t. t_state (tasks s' t) = t_state (tasks s t) \<and> t_cpu (tasks s' t) = t_cpu (tasks s t)" for s s'
    using that unfolding sched_inv_def rq_ok_def cpu_ok_def by simp
  show 1: "sched_inv (set_need_resched this s) \<longleftrightarrow> sched_inv s" by (rule eq) (simp_all add: set_need_resched_def Let_def)
  show "sched_inv (clear_need_resched this s) \<longleftrightarrow> sched_inv s" by (rule eq) (simp_all add: clear_need_resched_def Let_def)
  show 2: "sched_inv (send_reschedule_ipi c s) \<longleftrightarrow> sched_inv s" by (rule eq) (simp_all add: send_reschedule_ipi_def)
  show "sched_inv (resched_cpu this c s) \<longleftrightarrow> sched_inv s" by (simp add: resched_cpu_def 1 2)
qed

lemma wake_up_inv:
  "sched_inv s \<Longrightarrow> this < NR_CPUS \<Longrightarrow> \<not> is_idle t s \<Longrightarrow> sched_inv (wake_up_process this t s)"
  by (simp add: wake_up_process_def Let_def enqueue_task_inv)

subsection \<open>Migration\<close>

text \<open>What a successful migration does.\<close>

lemma migrate_effect:
  assumes inv: "sched_inv s" and m: "migrate_task this t new s = (0, s')" and new: "t_cpu (tasks s t) \<noteq> new"
  defines "old \<equiv> t_cpu (tasks s t)"
  shows "old < NR_CPUS" "new < NR_CPUS" "t \<in> set (rq old s)" "t \<noteq> curr (cpus s old)" "t \<noteq> 0"
    "c < NR_CPUS \<Longrightarrow> rq c s' = (if c = new then rq c s @ [t] else if c = old then remove1 t (rq c s) else rq c s)"
    "nr_running (cpus s' c) = (if c = new then nr_running (cpus s c) + 1 else if c = old then nr_running (cpus s c) - 1 else nr_running (cpus s c))"
    "curr (cpus s' c) = curr (cpus s c)" "idle (cpus s' c) = idle (cpus s c)"
    "t_cpu (tasks s' u) = (if u = t then new else t_cpu (tasks s u))" "t_state (tasks s' u) = t_state (tasks s u)"
proof -
  have g: "t \<noteq> 0" "new < NR_CPUS" "old < NR_CPUS" "on_rq t s" "t \<noteq> curr (cpus s old)"
    using m new by (auto simp: migrate_task_def Let_def old_def split: if_splits)
  obtain b where c: "t \<in> set (rq b s)" "t_cpu (tasks s t) = b" "nr_running (cpus s b) \<noteq> 0" "t_state (tasks s t) = TASK_RUNNING"
    using on_rqE [OF inv g(4)] by metis
  show "old < NR_CPUS" "new < NR_CPUS" "t \<in> set (rq old s)" "t \<noteq> curr (cpus s old)" "t \<noteq> 0"
    using g c(1,2) by (simp_all add: old_def)
  have e: "s' = resched_cpu this new (upd_cpu new (\<lambda>r. r\<lparr>rq_tasks := rq_tasks r @ [t], nr_running := nr_running r + 1\<rparr>)
      (upd_task t (\<lambda>k. k\<lparr>t_cpu := new\<rparr>) (upd_cpu old (\<lambda>r. r\<lparr>nr_running := nr_running r - 1\<rparr>) (run_list_del t s))))"
    using m new g c by (simp add: migrate_task_def Let_def old_def)
  have n: "remove1 t (rq d s) = rq d s" if "d \<noteq> old" "d < NR_CPUS" for d
    using that sched_invD(3) [OF inv that(2), of t] by (auto simp: old_def intro: remove1_idem)
  show "c < NR_CPUS \<Longrightarrow> rq c s' = (if c = new then rq c s @ [t] else if c = old then remove1 t (rq c s) else rq c s)"
    using n new by (auto simp: e old_def)
  show "nr_running (cpus s' c) = (if c = new then nr_running (cpus s c) + 1 else if c = old then nr_running (cpus s c) - 1 else nr_running (cpus s c))"
    using new by (auto simp: e old_def)
  show "curr (cpus s' c) = curr (cpus s c)" "idle (cpus s' c) = idle (cpus s c)"
    "t_cpu (tasks s' u) = (if u = t then new else t_cpu (tasks s u))" "t_state (tasks s' u) = t_state (tasks s u)"
    by (auto simp: e)
qed

lemma migrate_inv:
  assumes inv: "sched_inv s" and i: "\<not> is_idle t s"
  shows "sched_inv (snd (migrate_task this t new s))"
proof -
  obtain r s' where m: "migrate_task this t new s = (r, s')" by fastforce
  show ?thesis
  proof (cases "r = 0 \<and> t_cpu (tasks s t) \<noteq> new")
    case False
    then have "s' = s" using m by (auto simp: migrate_task_def Let_def split: if_splits)
    then show ?thesis using m inv by simp
  next
    case True
    let ?old = "t_cpu (tasks s t)"
    note f = migrate_effect [OF inv m [unfolded conjunct1 [OF True]] conjunct2 [OF True]]
    have "rq_ok s' c \<and> cpu_ok s' c" if c: "c < NR_CPUS" for c
    proof
      note q = sched_invD [OF inv c]
      have nt: "t \<notin> set (rq c s)" if "c \<noteq> ?old" using that q(3) [of t] by auto
      have mem: "u \<in> set (rq c s') \<longleftrightarrow> (if c = new then u = t \<or> u \<in> set (rq c s) else u \<in> set (rq c s) \<and> u \<noteq> t)" for u
        using f(6) [OF c] q(2) nt True by (auto simp: set_remove1_eq)
      show "rq_ok s' c"
      proof (rule rq_okI [OF refl])
        show "nr_running (cpus s' c) = length (rq c s')"
          using f(6) [OF c] f(7) [of c] q(1) f(3) True by (auto simp: length_remove1)
        show "distinct (rq c s')" using f(6) [OF c] q(2) nt True by auto
        fix u assume u: "u \<in> set (rq c s')"
        have st: "t_state (tasks s t) = TASK_RUNNING" using sched_invD(3) [OF inv f(1,3)] by simp
        show "u \<noteq> 0 \<and> t_state (tasks s' u) = TASK_RUNNING \<and> t_cpu (tasks s' u) = c"
        proof (cases "u = t")
          case True
          then show ?thesis using u mem [of u] f(5,10,11) st by (auto split: if_splits)
        next
          case False
          then have "u \<in> set (rq c s)" using u mem [of u] by (auto split: if_splits)
          then show ?thesis using q(3) [of u] f(10,11) False by simp
        qed
      qed
      have "curr (cpus s c) \<noteq> t" using f(4) q(6) by auto
      moreover have "idle (cpus s c) \<noteq> t" using i c by (auto simp: is_idle_def)
      ultimately show "cpu_ok s' c"
        using q(4-8) f(8-10) mem [of "idle (cpus s c)"] by (auto simp: cpu_ok_def split: if_splits)
    qed
    then show ?thesis using m by (simp add: sched_inv_def)
  qed
qed

lemma find_Some_mem: "find P xs = Some x \<Longrightarrow> x \<in> set xs \<and> P x"
  by (auto simp: find_Some_iff)

lemma pick_migratable_mem:
  "pick_migratable_task c e s = Some t \<Longrightarrow> t \<in> set (rq c s) \<and> t \<noteq> e \<and> nr_running (cpus s c) > 1"
  by (auto simp: pick_migratable_task_def split: if_splits dest: find_Some_mem)

lemma queued_not_idle:
  assumes inv: "sched_inv s" and c: "c < NR_CPUS" and t: "t \<in> set (rq c s)"
  shows "\<not> is_idle t s"
proof
  assume "is_idle t s"
  then obtain d where d: "d < NR_CPUS" "t = idle (cpus s d)" by (auto simp: is_idle_def)
  then have "d = c" using sched_invD(3) [OF inv c t] sched_invD(7) [OF inv d(1)] by simp
  then show False using sched_invD(8) [OF inv c] d t by simp
qed

lemma busiest_scan_spec:
  "busiest_scan this cs (m0, b0) s = (m, b) \<Longrightarrow>
     m0 \<le> m \<and> (\<forall>c\<in>set cs. c \<noteq> this \<longrightarrow> nr_running (cpus s c) \<le> m) \<and>
     ((m, b) = (m0, b0) \<or> b \<in> set cs \<and> b \<noteq> this \<and> nr_running (cpus s b) = m \<and> m0 < m)"
proof (induction cs arbitrary: m0 b0)
  case Nil
  then show ?case by simp
next
  case (Cons c cs)
  show ?case
  proof (cases "c = this")
    case True
    then show ?thesis using Cons.IH [of m0 b0] Cons.prems by auto
  next
    case False
    let ?l = "nr_running (cpus s c)"
    have r: "busiest_scan this cs (if m0 < ?l then (?l, c) else (m0, b0)) s = (m, b)"
      using Cons.prems False by (simp add: Let_def)
    show ?thesis using Cons.IH [of ?l c] Cons.IH [of m0 b0] r False by (cases "m0 < ?l") auto
  qed
qed

lemma find_busiest_spec:
  assumes "find_busiest_cpu this s = Some b"
  shows "b < NR_CPUS" "b \<noteq> this" "nr_running (cpus s b) > nr_running (cpus s this) + 1"
    "c < NR_CPUS \<Longrightarrow> c \<noteq> this \<Longrightarrow> nr_running (cpus s c) \<le> nr_running (cpus s b)"
proof -
  let ?m0 = "nr_running (cpus s this) + 1"
  obtain m where r: "busiest_scan this [0..<NR_CPUS] (?m0, this) s = (m, b)" and b: "b \<noteq> this"
    using assms by (auto simp: find_busiest_cpu_def Let_def split: prod.splits if_splits)
  from busiest_scan_spec [OF r] b show "b < NR_CPUS" "b \<noteq> this" "nr_running (cpus s b) > ?m0"
    "c < NR_CPUS \<Longrightarrow> c \<noteq> this \<Longrightarrow> nr_running (cpus s c) \<le> nr_running (cpus s b)" by auto
qed

lemma try_pull_cases:
  assumes "try_pull_task this s = (ok, s')"
  obtains (stay) "\<not> ok" "s' = s"
  | (failed) t r where "\<not> ok" "r \<noteq> 0" "migrate_task this t this s = (r, s')"
  | (pulled) b t where "ok" "this < NR_CPUS" "find_busiest_cpu this s = Some b" "t \<in> set (rq b s)" "t \<noteq> curr (cpus s b)"
      "migrate_task this t this s = (0, s')"
  using assms
  by (auto simp: try_pull_task_def split: if_splits option.splits prod.splits dest: pick_migratable_mem)

lemma migrate_fail: "migrate_task this t new s = (r, s') \<Longrightarrow> r \<noteq> 0 \<Longrightarrow> s' = s"
  by (auto simp: migrate_task_def Let_def split: if_splits)

lemma try_pull_inv:
  assumes inv: "sched_inv s"
  shows "sched_inv (snd (try_pull_task this s))"
proof -
  obtain ok s' where t: "try_pull_task this s = (ok, s')" by fastforce
  from t show ?thesis
  proof (cases rule: try_pull_cases)
    case (pulled b t)
    then have "\<not> is_idle t s" using queued_not_idle [OF inv find_busiest_spec(1)] by blast
    then show ?thesis using migrate_inv [OF inv, of t this this] pulled(6) \<open>try_pull_task this s = (ok, s')\<close> by simp
  next
    case (failed t r)
    then show ?thesis using migrate_fail [OF failed(3,2)] inv t by simp
  qed (use t inv in simp)
qed

subsection \<open>Picking\<close>

lemma next_after_nth:
  "distinct xs \<Longrightarrow> i < length xs \<Longrightarrow> next_after (xs ! i) xs = (if Suc i < length xs then Some (xs ! Suc i) else None)"
proof (induction xs arbitrary: i)
  case Nil
  then show ?case by simp
next
  case (Cons x xs)
  show ?case
  proof (cases i)
    case 0
    then show ?thesis by (cases xs) auto
  next
    case (Suc j)
    then have "xs ! j \<noteq> x" using Cons.prems by auto
    then show ?thesis using Suc Cons by auto
  qed
qed

lemma pick_next_mem: "rq c s \<noteq> [] \<Longrightarrow> pick_next_task c p s \<in> set (rq c s)"
proof -
  assume ne: "rq c s \<noteq> []"
  have "next_after p xs = Some y \<Longrightarrow> y \<in> set xs" for y xs
    by (induction xs) (auto split: if_splits list.splits)
  then show ?thesis using ne by (auto simp: pick_next_task_def split: option.split)
qed

text \<open>Round robin: the task after the current one, cyclically.\<close>

lemma pick_next_nth:
  assumes inv: "sched_inv s" and c: "c < NR_CPUS" and i: "i < length (rq c s)"
  shows "pick_next_task c (rq c s ! i) s = rq c s ! (Suc i mod length (rq c s))"
proof -
  let ?t = "rq c s ! i"
  have t: "?t \<in> set (rq c s)" "rq c s \<noteq> []" using i by auto
  have "?t \<noteq> 0" "?t \<noteq> idle (cpus s c)" using sched_invD(3,8) [OF inv c] t(1) by auto
  moreover have "on_rq ?t s" using c t(1) by (auto simp: on_rq_iff)
  moreover have "hd (rq c s) = rq c s ! 0" using t(2) by (rule hd_conv_nth)
  moreover have "Suc i mod length (rq c s) = (if Suc i < length (rq c s) then Suc i else 0)"
    using i by (cases "Suc i = length (rq c s)") auto
  ultimately show ?thesis using t(2) next_after_nth [OF sched_invD(2) [OF inv c] i]
    by (simp add: pick_next_task_def idle_task_def)
qed

subsection \<open>Switching\<close>

lemma context_switch_frame:
  "rq_tasks (cpus (context_switch c p n s) d) = rq_tasks (cpus s d)" "nr_running (cpus (context_switch c p n s) d) = nr_running (cpus s d)"
  "idle (cpus (context_switch c p n s) d) = idle (cpus s d)"
  "curr (cpus (context_switch c p n s) d) = (if d = c then n else curr (cpus s d))"
  "t_cpu (tasks (context_switch c p n s) u) = t_cpu (tasks s u)" "t_state (tasks (context_switch c p n s) u) = t_state (tasks s u)"
  "t_stack (tasks (context_switch c p n s) u) = t_stack (tasks s u)" "t_pid (tasks (context_switch c p n s) u) = t_pid (tasks s u)"
  by (simp_all add: context_switch_def Let_def set_current_def mm_install_def)

lemma context_switch_inv:
  assumes inv: "sched_inv s" and c: "c < NR_CPUS" and n: "n \<noteq> 0" "t_cpu (tasks s n) = c"
  shows "sched_inv (context_switch c p n s)"
  unfolding sched_inv_def
proof (intro allI impI conjI)
  fix d :: nat assume d: "d < NR_CPUS"
  note q = sched_invD [OF inv d]
  show "rq_ok (context_switch c p n s) d"
    by (rule rq_okI [of _ _ "rq d s"]) (use q(1-3) in \<open>simp_all add: context_switch_frame\<close>)
  show "cpu_ok (context_switch c p n s) d"
    using q(4-8) n by (simp add: cpu_ok_def context_switch_frame)
qed

lemma pick_next_cpu:
  assumes inv: "sched_inv s" and c: "c < NR_CPUS"
  shows "pick_next_task c p s \<noteq> 0" "t_cpu (tasks s (pick_next_task c p s)) = c"
proof -
  have "pick_next_task c p s = idle (cpus s c) \<or> pick_next_task c p s \<in> set (rq c s)"
    using pick_next_mem [of s c p] by (cases "rq c s = []") (auto simp: pick_next_task_def idle_task_def)
  then show "pick_next_task c p s \<noteq> 0" "t_cpu (tasks s (pick_next_task c p s)) = c"
    using sched_invD(3,5,7) [OF inv c] by auto
qed

text \<open>The task picked when nobody interferes before the switch.\<close>

lemma schedule_target:
  assumes inv: "sched_inv s" and c: "c < NR_CPUS" and p: "schedule_pull c (schedule_pick c s) = (n, s')"
  shows "sched_inv s'" "n \<noteq> 0" "t_cpu (tasks s' n) = c" "\<exists>q. n = pick_next_task c q s'"
proof -
  let ?s = "clear_need_resched c s"
  have i: "sched_inv ?s" using inv by simp
  obtain ok s2 where t: "try_pull_task c ?s = (ok, s2)" by fastforce
  have i2: "sched_inv s2" using try_pull_inv [OF i, of c] t by simp
  have "\<not> ok \<Longrightarrow> s2 = ?s" using t by (cases rule: try_pull_cases) (use migrate_fail in auto)
  then have e: "sched_inv s' \<and> (\<exists>q. n = pick_next_task c q s')"
    using p t i i2 by (auto simp: schedule_pull_def schedule_pick_def Let_def split: if_splits; metis)
  then show "sched_inv s'" "\<exists>q. n = pick_next_task c q s'" by auto
  show "n \<noteq> 0" "t_cpu (tasks s' n) = c" using e pick_next_cpu [OF _ c] by auto
qed

lemma schedule_inv:
  assumes inv: "sched_inv s" and c: "c < NR_CPUS"
  shows "sched_inv (schedule c s)"
proof -
  obtain n s' where p: "schedule_pull c (schedule_pick c s) = (n, s')" by fastforce
  from schedule_target [OF inv c p] show ?thesis
    by (simp add: schedule_def p schedule_switch_def Let_def context_switch_inv c)
qed

subsection \<open>Witness data\<close>

text \<open>Four CPUs with idle tasks at \<open>0x10\<close> to \<open>0x40\<close>; CPU 0 runs the first of two user tasks.\<close>

definition task0 :: "int \<Rightarrow> nat \<Rightarrow> task_state \<Rightarrow> u64 \<Rightarrow> task_struct" where
  "task0 p c st stack =
     \<lparr>t_pid = p, t_tgid = p, t_state = st, t_stack = stack, t_mm = 0, t_files = \<lambda>_. 0, t_close_on_exec = 0, t_cpu = c,
      t_parent = 0, t_time_slice = 0, t_need_resched = False, t_is_user = p \<noteq> 0, t_user_sp = 0, t_tpidr_el0 = 0,
      t_regs = \<lparr>xregs = \<lambda>_. 0, elr_el1 = 0, spsr_el1 = 0\<rparr>, t_exit_code = 0, t_exit_signal = 0, t_stop_signal = 0,
      t_wait_event = CHILD_EVENT_NONE, t_pgid = p, t_sid = p, t_daif = 0, t_cwd = 0, t_pending = 0, t_blocked = 0,
      t_saved_blocked = 0, t_restore_sigmask = False, t_in_syscall = False, t_orig_x0 = 0,
      t_actions = \<lambda>_. \<lparr>sa_handler = 0, sa_flags = 0, sa_restorer = 0, sa_mask = 0\<rparr>, t_wake_jiffies = 0\<rparr>"

definition cpu0 :: "u64 list \<Rightarrow> u64 \<Rightarrow> u64 \<Rightarrow> cpu_data" where
  "cpu0 q i t = \<lparr>rq_tasks = q, nr_running = length q, idle = i, curr = t, sp_el0 = 0, tpidr_el0 = 0, daif = 0, ttbr0_el1 = 0\<rparr>"

definition two_tasks :: sched where
  "two_tasks =
     \<lparr>tasks = (\<lambda>_. task0 0 4 TASK_SLEEPING 0)(0x10 := task0 0 0 TASK_IDLE 0x1000, 0x20 := task0 0 1 TASK_IDLE 0x1000,
        0x30 := task0 0 2 TASK_IDLE 0x1000, 0x40 := task0 0 3 TASK_IDLE 0x1000,
        0x100 := task0 1 0 TASK_RUNNING 0x2000, 0x200 := task0 2 0 TASK_RUNNING 0x3000, 0x300 := task0 3 0 TASK_SLEEPING 0x4000),
      cpus = (\<lambda>_. cpu0 [] 0 0)(0 := cpu0 [0x100, 0x200] 0x10 0x100, 1 := cpu0 [] 0x20 0x20, 2 := cpu0 [] 0x30 0x30, 3 := cpu0 [] 0x40 0x40),
      all_tasks = [0x100, 0x200, 0x300], ipis = \<lambda>_. False, jiffies = 0, pgds = \<lambda>_. 0\<rparr>"

lemma less_4: "c < (4::nat) \<longleftrightarrow> c = 0 \<or> c = 1 \<or> c = 2 \<or> c = 3"
  by auto

lemma two_tasks_inv: "sched_inv two_tasks"
  unfolding sched_inv_def less_4
  by (auto simp: rq_ok_def cpu_ok_def two_tasks_def cpu0_def task0_def)

subsection \<open>Properties\<close>

text \<open>The operations of the scheduler, as the CPUs issue them.\<close>

datatype sched_op = Wake nat u64 | Block nat task_state | Schedule nat | Migrate nat u64 nat | Tick nat | Ipi nat

fun do_op :: "sched_op \<Rightarrow> sched \<Rightarrow> sched" where
  "do_op (Wake c t) s = wake_up_process c t s"
| "do_op (Block c st) s = sched_block c st s"
| "do_op (Schedule c) s = schedule c s"
| "do_op (Migrate c t n) s = snd (migrate_task c t n s)"
| "do_op (Tick c) s = tick_account c (tick_wake_sleepers c (do_timer s))"
| "do_op (Ipi c) s = handle_reschedule_ipi c s"

fun op_ok :: "sched_op \<Rightarrow> sched \<Rightarrow> bool" where
  "op_ok (Wake c t) s \<longleftrightarrow> c < NR_CPUS \<and> \<not> is_idle t s"
| "op_ok (Block c st) s \<longleftrightarrow> c < NR_CPUS"
| "op_ok (Schedule c) s \<longleftrightarrow> c < NR_CPUS"
| "op_ok (Migrate c t n) s \<longleftrightarrow> c < NR_CPUS \<and> \<not> is_idle t s"
| "op_ok (Tick c) s \<longleftrightarrow> c < NR_CPUS \<and> (\<forall>t\<in>set (all_tasks s). \<not> is_idle t s)"
| "op_ok (Ipi c) s \<longleftrightarrow> c < NR_CPUS"

text \<open>Every sequence of operations: the states the scheduler can reach when \<open>schedule\<close> is not disturbed.\<close>

inductive sched_reach :: "sched \<Rightarrow> sched \<Rightarrow> bool" for s0 where
  start: "sched_reach s0 s0"
| step: "sched_reach s0 s \<Longrightarrow> op_ok op s \<Longrightarrow> sched_reach s0 (do_op op s)"

lemma wake_up_frame [simp]:
  "idle (cpus (wake_up_process this t s) c) = idle (cpus s c)" "jiffies (wake_up_process this t s) = jiffies s"
  "all_tasks (wake_up_process this t s) = all_tasks s"
  by (simp_all add: wake_up_process_def Let_def enqueue_task_def enqueue_task_cpu_def enqueue_task_locked_def
      resched_cpu_def set_need_resched_def send_reschedule_ipi_def)

lemma tick_wake_inv:
  "sched_inv s \<Longrightarrow> this < NR_CPUS \<Longrightarrow> \<forall>t\<in>set ts. \<not> is_idle t s \<Longrightarrow> sched_inv (fold (tick_wake_one this) ts s)"
proof (induction ts arbitrary: s)
  case (Cons t ts)
  have "is_idle u (tick_wake_one this t s) \<longleftrightarrow> is_idle u s" for u by (simp add: tick_wake_one_def is_idle_def)
  moreover have "sched_inv (tick_wake_one this t s)" using Cons.prems by (simp add: tick_wake_one_def wake_up_inv)
  ultimately show ?case using Cons.prems Cons.IH by simp
qed simp

lemma tick_inv:
  assumes inv: "sched_inv s" and c: "c < NR_CPUS" and i: "\<forall>t\<in>set (all_tasks s). \<not> is_idle t s"
  shows "sched_inv (tick_account c (tick_wake_sleepers c (do_timer s)))"
proof -
  have "sched_inv (do_timer s)" by (rule sched_inv_cong [OF inv]) (simp_all add: do_timer_def)
  then have w: "sched_inv (tick_wake_sleepers c (do_timer s))" (is "sched_inv ?s")
    using tick_wake_inv [of "do_timer s" c "all_tasks s"] c i by (simp add: tick_wake_sleepers_def do_timer_def is_idle_def)
  show ?thesis by (rule sched_inv_cong [OF w]) (simp_all add: tick_account_def Let_def)
qed

lemma do_op_inv: "sched_inv s \<Longrightarrow> op_ok op s \<Longrightarrow> sched_inv (do_op op s)"
proof (cases op)
  case (Ipi c)
  assume "sched_inv s"
  then have "sched_inv (s\<lparr>ipis := (ipis s)(c := False)\<rparr>)" by (rule sched_inv_cong) simp_all
  then show ?thesis using Ipi by (simp add: handle_reschedule_ipi_def)
qed (simp_all add: wake_up_inv sched_block_inv schedule_inv migrate_inv tick_inv)

text \<open>C21: scheduler safety.  From a well-formed state, whatever sequence of wake-ups, blocks, complete
  \<open>schedule\<close> calls, migrations, ticks and reschedule interrupts the CPUs perform, no task runs on two
  CPUs, no task is on two run queues or twice on one, every queued task is runnable and belongs to the
  CPU of its queue, and \<open>nr_running\<close> is the length of the queue.\<close>

theorem sched_safe:
  assumes r: "sched_reach s0 s" and i: "sched_inv s0" and c: "c < NR_CPUS" "d < NR_CPUS" "c \<noteq> d"
  shows "curr (cpus s c) \<noteq> curr (cpus s d) \<and> set (rq c s) \<inter> set (rq d s) = {} \<and> distinct (rq c s) \<and>
    nr_running (cpus s c) = length (rq c s) \<and>
    (\<forall>t\<in>set (rq c s). t_state (tasks s t) = TASK_RUNNING \<and> t_cpu (tasks s t) = c)"
proof -
  have inv: "sched_inv s" using r
  proof (induction rule: sched_reach.induct)
    case start
    show ?case by (rule i)
  next
    case (step s op)
    then show ?case by (simp add: do_op_inv)
  qed
  have "curr (cpus s c) \<noteq> curr (cpus s d)" using sched_invD(6) [OF inv] c by metis
  moreover have "set (rq c s) \<inter> set (rq d s) = {}" using sched_invD(3) [OF inv] c by blast
  ultimately show ?thesis using sched_invD(1-3) [OF inv c(1)] by blast
qed

theorem sched_safe_witness:
  "\<exists>s. s = schedule 1 (wake_up_process 1 0x300 two_tasks) \<and> curr (cpus s 0) \<noteq> curr (cpus s 1) \<and>
     set (rq 0 s) \<inter> set (rq 1 s) = {}"
proof -
  have "op_ok (Wake 1 0x300) two_tasks"
    unfolding op_ok.simps is_idle_def less_4 by (auto simp: two_tasks_def cpu0_def)
  from sched_reach.step [OF sched_reach.start this]
  have "sched_reach two_tasks (wake_up_process 1 0x300 two_tasks)" by simp
  from sched_reach.step [OF this, of "Schedule 1"]
  have "sched_reach two_tasks (schedule 1 (wake_up_process 1 0x300 two_tasks))" by simp
  from sched_safe [OF this two_tasks_inv, of 0 1] show ?thesis by simp
qed

lemma schedule_next:
  assumes inv: "sched_inv s" and c: "c < NR_CPUS" and i: "i < length (rq c s)" "curr (cpus s c) = rq c s ! i"
    and st: "\<forall>t\<in>set (rq c s). t_stack (tasks s t) \<noteq> 0"
  shows "curr (cpus (schedule c s) c) = rq c s ! (Suc i mod length (rq c s))" "rq c (schedule c s) = rq c s"
    "\<forall>t\<in>set (rq c s). t_stack (tasks (schedule c s) t) \<noteq> 0"
proof -
  let ?s = "clear_need_resched c s" and ?n = "rq c s ! (Suc i mod length (rq c s))"
  have ne: "rq c s \<noteq> []" using i(1) by auto
  have "pick_next_task c (get_current c ?s) ?s = ?n"
    using pick_next_nth [of ?s c i] inv c i by (simp add: get_current_def)
  then have p: "schedule_pull c (schedule_pick c s) = (?n, ?s)"
    using ne by (simp add: schedule_pull_def schedule_pick_def Let_def)
  have "?n \<in> set (rq c s)" using ne by (intro nth_mem) simp
  then have "t_stack (tasks s ?n) \<noteq> 0" using st by blast
  then have e: "schedule c s = (if ?n = curr (cpus s c) then ?s else context_switch c (curr (cpus s c)) ?n ?s)"
    by (simp add: schedule_def p schedule_switch_def Let_def get_current_def)
  show "curr (cpus (schedule c s) c) = ?n" "rq c (schedule c s) = rq c s"
    "\<forall>t\<in>set (rq c s). t_stack (tasks (schedule c s) t) \<noteq> 0"
    using st by (auto simp: e context_switch_frame)
qed

text \<open>C22: round robin.  While a CPU's queue does not change, its calls of \<open>schedule\<close> run the queued
  tasks in cyclic order: after \<open>k\<close> calls the CPU runs the task \<open>k\<close> places further.  So every runnable
  task runs again within as many calls as the queue is long.\<close>

theorem schedule_round_robin:
  assumes "sched_inv s" "c < NR_CPUS" "i < length (rq c s)" "curr (cpus s c) = rq c s ! i"
    and "\<forall>t\<in>set (rq c s). t_stack (tasks s t) \<noteq> 0"
  shows "curr (cpus ((schedule c ^^ k) s) c) = rq c s ! ((i + k) mod length (rq c s))"
  using assms
proof (induction k arbitrary: s i)
  case 0
  then show ?case by simp
next
  case (Suc k)
  note n = schedule_next [OF Suc.prems]
  let ?l = "length (rq c s)"
  have l: "Suc i mod ?l < ?l" using Suc.prems(3) by (intro mod_less_divisor) linarith
  have "curr (cpus ((schedule c ^^ k) (schedule c s)) c) = rq c s ! ((Suc i mod ?l + k) mod ?l)"
    using Suc.IH [of "schedule c s" "Suc i mod ?l"] schedule_inv [OF Suc.prems(1,2)] Suc.prems(2) n l by simp
  then show ?case by (simp add: funpow_swap1 mod_add_left_eq del: funpow.simps) (simp add: funpow_swap1)
qed

theorem schedule_round_robin_witness:
  "curr (cpus ((schedule 0 ^^ 3) two_tasks) 0) = 0x200"
proof -
  have q: "rq 0 two_tasks = [0x100, 0x200]" by (simp add: two_tasks_def cpu0_def)
  have t: "curr (cpus two_tasks 0) = 0x100" "t_stack (tasks two_tasks 0x100) = 0x2000" "t_stack (tasks two_tasks 0x200) = 0x3000"
    by (simp_all add: two_tasks_def cpu0_def task0_def)
  show ?thesis using schedule_round_robin [OF two_tasks_inv, of 0 0 3] by (simp add: q t flip: numeral_2_eq_2)
qed

text \<open>pulling balances the load.  When an idle CPU pulls a task, the source is a CPU with at least two
  tasks more than itself, and a busiest one; the task is taken from that queue, is not the one that CPU
  is running, and becomes the last of the own queue; no other queue changes, so no task is lost or
  duplicated, and the two loads move towards each other.\<close>

theorem try_pull_balances:
  assumes inv: "sched_inv s" and p: "try_pull_task this s = (True, s')"
  shows "\<exists>b t. b < NR_CPUS \<and> b \<noteq> this \<and> t \<in> set (rq b s) \<and> t \<noteq> curr (cpus s b) \<and>
    length (rq this s) + 1 < length (rq b s) \<and> (\<forall>c<NR_CPUS. c \<noteq> this \<longrightarrow> length (rq c s) \<le> length (rq b s)) \<and>
    rq b s' = remove1 t (rq b s) \<and> rq this s' = rq this s @ [t] \<and>
    (\<forall>c<NR_CPUS. c \<noteq> this \<and> c \<noteq> b \<longrightarrow> rq c s' = rq c s) \<and> length (rq this s') \<le> length (rq b s')"
  using p
proof (cases rule: try_pull_cases)
  case (pulled b t)
  note f = find_busiest_spec [OF pulled(3)]
  have cpu: "t_cpu (tasks s t) = b" using sched_invD(3) [OF inv f(1) pulled(4)] by simp
  note m = migrate_effect [OF inv pulled(6), unfolded cpu, OF f(2)]
  have l: "nr_running (cpus s c) = length (rq c s)" if "c < NR_CPUS" for c using sched_invD(1) [OF inv that] .
  have q: "rq b s' = remove1 t (rq b s)" "rq this s' = rq this s @ [t]"
    "\<forall>c<NR_CPUS. c \<noteq> this \<and> c \<noteq> b \<longrightarrow> rq c s' = rq c s"
    using m(6) f(1,2) pulled(2) by auto
  moreover have g: "length (rq this s) + 1 < length (rq b s)" using f(3) l [OF f(1)] l [OF pulled(2)] by simp
  moreover have "length (rq this s') \<le> length (rq b s')" using q(1,2) g pulled(4) by (simp add: length_remove1)
  moreover have "\<forall>c<NR_CPUS. c \<noteq> this \<longrightarrow> length (rq c s) \<le> length (rq b s)" using f(4) l f(1) by metis
  ultimately show ?thesis using f(1,2) pulled(4,5) by blast
qed simp_all

theorem try_pull_balances_witness:
  "\<exists>s'. try_pull_task 1 two_tasks = (True, s') \<and> rq 1 s' = [0x200]"
proof -
  have "fst (try_pull_task 1 two_tasks)" by code_simp
  then obtain s' where s': "try_pull_task 1 two_tasks = (True, s')" by (metis prod.collapse)
  have q: "rq 0 two_tasks = [0x100, 0x200]" "rq 1 two_tasks = []" "rq 2 two_tasks = []" "rq 3 two_tasks = []"
    "curr (cpus two_tasks 0) = 0x100" by (simp_all add: two_tasks_def cpu0_def)
  from try_pull_balances [OF two_tasks_inv s'] obtain b t where b: "b < NR_CPUS" "length (rq 1 two_tasks) + 1 < length (rq b two_tasks)"
      "t \<in> set (rq b two_tasks)" "t \<noteq> curr (cpus two_tasks b)" "rq 1 s' = rq 1 two_tasks @ [t]" by blast
  then have "b = 0" using q unfolding less_4 by auto
  then show ?thesis using b(3-5) s' q by auto
qed

text \<open>the window between the pick and the switch.  \<open>schedule\<close> releases the run queue lock after it has
  picked the next task, and only \<open>curr\<close> protects a task from being pulled.  If an idle CPU calls
  \<open>schedule\<close> in this window it can pull the picked task, and both CPUs then run the same task.\<close>

theorem schedule_window_runs_twice:
  "\<exists>s. sched_inv s \<and>
    (let (n, e, s1) = schedule_pick 0 s; s2 = schedule 1 s1; s3 = schedule_switch 0 (schedule_pull 0 (n, e, s2)) in
     curr (cpus s3 0) = curr (cpus s3 1) \<and> curr (cpus s3 0) \<noteq> idle (cpus s3 0))"
proof -
  have "let (n, e, s1) = schedule_pick 0 two_tasks; s2 = schedule 1 s1; s3 = schedule_switch 0 (schedule_pull 0 (n, e, s2)) in
     curr (cpus s3 0) = curr (cpus s3 1) \<and> curr (cpus s3 0) \<noteq> idle (cpus s3 0)" by code_simp
  then show ?thesis using two_tasks_inv by blast
qed

text \<open>A context switch keeps the user's registers.  If a user task is switched out on one CPU, and
  later switched in on any CPU in a state where the values saved in its task structure are still the
  same, the stack pointer, the thread pointer and the interrupt mask of that CPU are those the task had,
  and the CPU translates with the task's page directory.\<close>

theorem context_switch_restores:
  assumes u: "t_is_user (tasks s t)" and n: "n \<noteq> t" "p \<noteq> t"
    and s1: "s1 = context_switch c t n s"
    and sv: "t_user_sp (tasks s2 t) = t_user_sp (tasks s1 t)" "t_tpidr_el0 (tasks s2 t) = t_tpidr_el0 (tasks s1 t)"
      "t_daif (tasks s2 t) = t_daif (tasks s1 t)" "t_is_user (tasks s2 t)"
    and m: "t_mm (tasks s2 t) \<noteq> 0" "pgds s2 (t_mm (tasks s2 t)) \<noteq> 0"
    and s3: "s3 = context_switch d p t s2"
  shows "curr (cpus s3 d) = t \<and> sp_el0 (cpus s3 d) = sp_el0 (cpus s c) \<and> tpidr_el0 (cpus s3 d) = tpidr_el0 (cpus s c) \<and>
    daif (cpus s3 d) = daif (cpus s c) \<and> ttbr0_el1 (cpus s3 d) = virt_to_phys (pgds s2 (t_mm (tasks s2 t)))"
proof -
  have "t_user_sp (tasks s1 t) = sp_el0 (cpus s c)" "t_tpidr_el0 (tasks s1 t) = tpidr_el0 (cpus s c)" "t_daif (tasks s1 t) = daif (cpus s c)"
    using u n by (simp_all add: s1 context_switch_def Let_def set_current_def mm_install_def)
  then show ?thesis using sv m n by (simp add: s3 context_switch_def Let_def set_current_def mm_install_def)
qed

definition user_tasks :: sched where
  "user_tasks = (upd_task 0x100 (\<lambda>k. k\<lparr>t_mm := 0x5000\<rparr>) (upd_cpu 0 (\<lambda>r. r\<lparr>sp_el0 := 0x7ff0\<rparr>) two_tasks))\<lparr>pgds := \<lambda>_. 0xffff800080001000\<rparr>"

theorem context_switch_restores_witness:
  "sp_el0 (cpus (context_switch 1 0x20 0x100 (context_switch 0 0x100 0x200 user_tasks)) 1) = 0x7ff0"
proof -
  let ?s1 = "context_switch 0 0x100 0x200 user_tasks"
  have f: "t_is_user (tasks user_tasks 0x100)" "t_is_user (tasks ?s1 0x100)" "t_mm (tasks ?s1 0x100) \<noteq> 0" "pgds ?s1 (t_mm (tasks ?s1 0x100)) \<noteq> 0"
    "sp_el0 (cpus user_tasks 0) = 0x7ff0" by code_simp+
  show ?thesis using context_switch_restores [OF f(1) _ _ refl refl refl refl f(2-4) refl, where p = "0x20" and d = 1] f(5) by simp
qed

end
