(* ===== verification/Signal.thy ===== *)
theory Signal
  imports Sched Mmap
begin

text \<open>
  Signals (\<^verbatim>\<open>kernel/signal.c\<close>, with \<open>notify_parent\<close> of \<^verbatim>\<open>kernel/exit.c\<close>): sending, the choice of the
  next signal, delivery on the return to user space, the user frame and the system calls.  Delivery
  ends in one of the outcomes of \<open>sig_outcome\<close>: the code that follows it (\<open>do_exit\<close>, the stop in
  \<open>schedule\<close>, the shutdown) belongs to other components.  The user memory a frame is written to is a
  function from addresses to eight-byte words; the registers are those of the trap frame, and
  \<open>SP_EL0\<close> is the CPU's register.
\<close>

abbreviation (input) NSIG :: int where "NSIG \<equiv> 64"
abbreviation (input) SIGKILL :: int where "SIGKILL \<equiv> 9"
abbreviation (input) SIGUSR1 :: int where "SIGUSR1 \<equiv> 10"
abbreviation (input) SIGSEGV :: int where "SIGSEGV \<equiv> 11"
abbreviation (input) SIGUSR2 :: int where "SIGUSR2 \<equiv> 12"
abbreviation (input) SIGTERM :: int where "SIGTERM \<equiv> 15"
abbreviation (input) SIGCHLD :: int where "SIGCHLD \<equiv> 17"
abbreviation (input) SIGCONT :: int where "SIGCONT \<equiv> 18"
abbreviation (input) SIGSTOP :: int where "SIGSTOP \<equiv> 19"
abbreviation (input) SIGTSTP :: int where "SIGTSTP \<equiv> 20"
abbreviation (input) SIGTTIN :: int where "SIGTTIN \<equiv> 21"
abbreviation (input) SIGTTOU :: int where "SIGTTOU \<equiv> 22"
abbreviation (input) SIGURG :: int where "SIGURG \<equiv> 23"
abbreviation (input) SIGWINCH :: int where "SIGWINCH \<equiv> 28"
abbreviation (input) SIG_DFL :: u64 where "SIG_DFL \<equiv> 0"
abbreviation (input) SIG_IGN :: u64 where "SIG_IGN \<equiv> 1"
abbreviation (input) SA_RESTART :: u64 where "SA_RESTART \<equiv> 0x10000000"
abbreviation (input) SA_NODEFER :: u64 where "SA_NODEFER \<equiv> 0x40000000"
abbreviation (input) SA_RESETHAND :: u64 where "SA_RESETHAND \<equiv> 0x80000000"

subsection \<open>Masks\<close>

definition SIG_BIT :: "int \<Rightarrow> u64" where
  "SIG_BIT sig = push_bit (nat sig - 1) 1"

definition SIG_UNBLOCKABLE :: u64 where
  "SIG_UNBLOCKABLE = SIG_BIT SIGKILL OR SIG_BIT SIGSTOP"

definition SIG_STOP_MASK :: u64 where
  "SIG_STOP_MASK = SIG_BIT SIGSTOP OR SIG_BIT SIGTSTP OR SIG_BIT SIGTTIN OR SIG_BIT SIGTTOU"

definition signal_valid :: "int \<Rightarrow> bool" where
  "signal_valid sig \<longleftrightarrow> sig \<ge> 0 \<and> sig < NSIG"

definition sig_kernel_stop :: "int \<Rightarrow> bool" where
  "sig_kernel_stop sig \<longleftrightarrow> sig = SIGSTOP \<or> sig = SIGTSTP \<or> sig = SIGTTIN \<or> sig = SIGTTOU"

definition signal_pending :: "task_struct \<Rightarrow> bool" where
  "signal_pending k =
     (let blocked = t_blocked k AND NOT SIG_UNBLOCKABLE; ready = t_pending k AND NOT blocked in ready \<noteq> 0)"

definition next_pending_signal :: "u64 \<Rightarrow> u64 \<Rightarrow> int" where
  "next_pending_signal pending blocked0 =
     (let blocked = blocked0 AND NOT SIG_UNBLOCKABLE; ready = pending AND NOT blocked in
      if ready AND SIG_BIT SIGKILL \<noteq> 0 then SIGKILL
      else if ready AND SIG_BIT SIGSTOP \<noteq> 0 then SIGSTOP
      else case find (\<lambda>sig. ready AND SIG_BIT sig \<noteq> 0) [1..63] of Some sig \<Rightarrow> sig | None \<Rightarrow> 0)"

subsection \<open>Finding tasks\<close>

definition find_task_by_pid :: "int \<Rightarrow> sched \<Rightarrow> u64 option" where
  "find_task_by_pid pid s =
     (if pid \<le> 0 then None
      else find (\<lambda>t. t_pid (tasks s t) = pid \<and> t_is_user (tasks s t) \<and> t_state (tasks s t) \<noteq> TASK_DEAD) (all_tasks s))"

subsection \<open>Sending\<close>

text \<open>
  Continuing a stopped task notifies its parent, which is again a signal.  The recursion ends because
  each level has set one more stopped task running.
\<close>

lemma stopped_decreases:
  assumes "t_state (tasks s t) = TASK_STOPPED"
  shows "card {u. t_state (tasks (upd_task t (\<lambda>k. f k\<lparr>t_state := TASK_RUNNING, t_wait_event := e\<rparr>) s) u) = TASK_STOPPED} <
    card {u. t_state (tasks s u) = TASK_STOPPED}"
proof (rule psubset_card_mono)
  show "{u. t_state (tasks (upd_task t (\<lambda>k. f k\<lparr>t_state := TASK_RUNNING, t_wait_event := e\<rparr>) s) u) = TASK_STOPPED} \<subset>
    {u. t_state (tasks s u) = TASK_STOPPED}"
    using assms by (auto simp: upd_task_def)
qed simp

definition queue_bits :: "int \<Rightarrow> u64 \<Rightarrow> u64" where
  "queue_bits sig pending =
     (let p = pending OR SIG_BIT sig in
      if sig = SIGCONT then p AND NOT SIG_STOP_MASK
      else if sig_kernel_stop sig then p AND NOT (SIG_BIT SIGCONT)
      else p)"

definition parent_signal :: "task_struct \<Rightarrow> int" where
  "parent_signal k = (if t_exit_signal k = 0 then SIGCHLD else t_exit_signal k)"

function signal_queue :: "nat \<Rightarrow> u64 \<Rightarrow> int \<Rightarrow> sched \<Rightarrow> sched" where
  "signal_queue this t sig s =
     (if t = 0 \<or> \<not> signal_valid sig \<or> sig = 0 then s
      else
        let s1 = upd_task t (\<lambda>k. k\<lparr>t_pending := queue_bits sig (t_pending k)\<rparr>) s in
        if t_state (tasks s t) = TASK_STOPPED \<and> sig = SIGCONT then
          let s2 = upd_task t (\<lambda>k. k\<lparr>t_pending := queue_bits sig (t_pending k)\<rparr>\<lparr>t_state := TASK_RUNNING, t_wait_event := CHILD_EVENT_CONTINUED\<rparr>) s;
              parent = t_parent (tasks s t);
              s3 = (if parent = 0 then s2
                    else
                      let s' = signal_queue this parent (parent_signal (tasks s t)) s2 in
                      if t_state (tasks s' parent) = TASK_SLEEPING then wake_up_process this parent s' else s') in
          wake_up_process this t s3
        else if t_state (tasks s1 t) = TASK_SLEEPING \<and> signal_pending (tasks s1 t) then wake_up_process this t s1
        else if t_state (tasks s1 t) = TASK_STOPPED \<and> sig = SIGKILL then wake_up_process this t s1
        else s1)"
  by pat_completeness auto
termination
  by (relation "measure (\<lambda>(_, _, _, s). card {u. t_state (tasks s u) = TASK_STOPPED})") (auto intro: stopped_decreases)

declare signal_queue.simps [simp del]

definition signal_send :: "nat \<Rightarrow> u64 \<Rightarrow> int \<Rightarrow> sched \<Rightarrow> sched" where
  "signal_send = signal_queue"

definition notify_parent :: "nat \<Rightarrow> u64 \<Rightarrow> sched \<Rightarrow> sched" where
  "notify_parent this child s =
     (if child = 0 then s
      else
        let parent = t_parent (tasks s child) in
        if parent = 0 then s
        else
          let s' = signal_send this parent (parent_signal (tasks s child)) s in
          if t_state (tasks s' parent) = TASK_SLEEPING then wake_up_process this parent s' else s')"

definition signal_one_process :: "nat \<Rightarrow> int \<Rightarrow> int \<Rightarrow> sched \<Rightarrow> int \<times> sched" where
  "signal_one_process this pid sig s =
     (case find_task_by_pid pid s of
        None \<Rightarrow> (- ESRCH, s)
      | Some t \<Rightarrow> if sig = 0 then (0, s) else (0, signal_send this t sig s))"

text \<open>The two loops over all tasks: \<open>found\<close> and the state after the tasks in the list.\<close>

fun signal_tasks :: "nat \<Rightarrow> int \<Rightarrow> (task_struct \<Rightarrow> u64 \<Rightarrow> bool) \<Rightarrow> u64 list \<Rightarrow> bool \<Rightarrow> sched \<Rightarrow> bool \<times> sched" where
  "signal_tasks this sig sel [] found s = (found, s)"
| "signal_tasks this sig sel (t # ts) found s =
     (if \<not> sel (tasks s t) t then signal_tasks this sig sel ts found s
      else signal_tasks this sig sel ts True (if sig \<noteq> 0 then signal_send this t sig s else s))"

definition signal_process_group :: "nat \<Rightarrow> int \<Rightarrow> int \<Rightarrow> sched \<Rightarrow> int \<times> sched" where
  "signal_process_group this pgid sig s =
     (if pgid \<le> 0 then (- ESRCH, s)
      else
        let (found, s1) = signal_tasks this sig
              (\<lambda>k t. t_is_user k \<and> t_state k \<noteq> TASK_ZOMBIE \<and> t_state k \<noteq> TASK_DEAD \<and> t_pgid k = pgid) (all_tasks s) False s in
        (if found then 0 else - ESRCH, s1))"

text \<open>\<open>pid\<close> is a \<open>long\<close>; a \<open>pid_t\<close> is its low 32 bits.\<close>

definition pid_t :: "int \<Rightarrow> int" where
  "pid_t x = sint (word_of_int x :: u32)"

definition ksys_kill :: "nat \<Rightarrow> int \<Rightarrow> int \<Rightarrow> sched \<Rightarrow> int \<times> sched" where
  "ksys_kill this pid sig s =
     (let cur = get_current this s in
      if \<not> signal_valid sig then (- EINVAL, s)
      else if pid > 0 then signal_one_process this (pid_t pid) sig s
      else if pid = 0 then
        (if cur = 0 then (- ESRCH, s) else signal_process_group this (t_pgid (tasks s cur)) sig s)
      else if pid < - 1 then signal_process_group this (pid_t (- pid)) sig s
      else
        let (found, s1) = signal_tasks this sig (\<lambda>k t. t_is_user k \<and> t \<noteq> cur \<and> t_state k \<noteq> TASK_DEAD) (all_tasks s) False s in
        (if found then 0 else - ESRCH, s1))"

subsection \<open>The user frame\<close>

type_synonym umem = "u64 \<Rightarrow> u64"

abbreviation (input) frame_size :: u64 where "frame_size \<equiv> 280"

definition write_user_sp :: "nat \<Rightarrow> u64 \<Rightarrow> sched \<Rightarrow> sched" where
  "write_user_sp this sp s =
     (let cur = get_current this s; s1 = upd_cpu this (\<lambda>r. r\<lparr>sp_el0 := sp\<rparr>) s in
      if cur \<noteq> 0 then upd_task cur (\<lambda>k. k\<lparr>t_user_sp := sp\<rparr>) s1 else s1)"

definition signal_frame_ok :: "mm_struct option \<Rightarrow> u64 \<Rightarrow> bool" where
  "signal_frame_ok mm sp =
     (if sp = 0 \<or> sp AND 15 \<noteq> 0 then False
      else if sp > NOT 0 - frame_size then False
      else case mm of
        None \<Rightarrow> False
      | Some m \<Rightarrow>
          let frame_end = sp + frame_size in
          if (case find_vma (mmap m) sp of
                None \<Rightarrow> False
              | Some v \<Rightarrow> sp \<ge> vm_start v \<and> frame_end \<le> vm_end v \<and> vm_flags v AND MAP_PROT_WRITE \<noteq> 0) then True
          else if stack_top m \<noteq> 0 then
            let top = stack_top m; bot = top - 0x10000 in sp \<ge> bot \<and> frame_end \<le> top
          else False)"

text \<open>The words of a \<open>signal_frame\<close>: 31 registers, \<open>ELR\<close>, \<open>SPSR\<close>, the stack pointer and the mask.\<close>

definition frame_words :: "pt_regs \<Rightarrow> u64 \<Rightarrow> u64 \<Rightarrow> u64 list" where
  "frame_words regs sp blocked = map (xregs regs) [0..<31] @ [elr_el1 regs, spsr_el1 regs, sp, blocked]"

fun store_words :: "u64 \<Rightarrow> u64 list \<Rightarrow> umem \<Rightarrow> umem" where
  "store_words a [] m = m"
| "store_words a (w # ws) m = store_words (a + 8) ws (m(a := w))"

definition load_word :: "umem \<Rightarrow> u64 \<Rightarrow> nat \<Rightarrow> u64" where
  "load_word m a i = m (a + of_nat (8 * i))"

definition setup_signal_frame ::
  "nat \<Rightarrow> mm_struct option \<Rightarrow> pt_regs \<Rightarrow> int \<Rightarrow> u64 \<Rightarrow> u64 \<Rightarrow> u64 \<Rightarrow> umem \<Rightarrow> sched \<Rightarrow> int \<times> pt_regs \<times> umem \<times> sched" where
  "setup_signal_frame this mm regs sig handler restorer old_blocked m s =
     (if restorer = 0 then (- EINVAL, regs, m, s)
      else
        let sp = sp_el0 (cpus s this) in
        if sp < frame_size \<or> sp AND 15 \<noteq> 0 then (- EFAULT, regs, m, s)
        else
          let frame = frame_words regs sp old_blocked;
              sp1 = (sp - frame_size) AND NOT 15 in
          if \<not> signal_frame_ok mm sp1 then (- EFAULT, regs, m, s)
          else
            (0, regs\<lparr>xregs := (xregs regs)(0 := word_of_int sig, 30 := restorer), elr_el1 := handler\<rparr>,
             store_words sp1 frame m, write_user_sp this sp1 s))"

definition ksys_rt_sigreturn :: "nat \<Rightarrow> mm_struct option \<Rightarrow> pt_regs \<Rightarrow> umem \<Rightarrow> sched \<Rightarrow> int \<times> pt_regs \<times> sched" where
  "ksys_rt_sigreturn this mm regs m s =
     (let sp = sp_el0 (cpus s this) in
      if \<not> signal_frame_ok mm sp then (- EFAULT, regs, s)
      else
        let w = load_word m sp;
            regs1 = regs\<lparr>xregs := \<lambda>i. if i < 31 then w i else xregs regs i, elr_el1 := w 31, spsr_el1 := w 32\<rparr>;
            s1 = write_user_sp this (w 33) s;
            cur = get_current this s1 in
        (0, regs1, if cur \<noteq> 0 then upd_task cur (\<lambda>k. k\<lparr>t_blocked := w 34 AND NOT SIG_UNBLOCKABLE\<rparr>) s1 else s1))"

subsection \<open>Delivery\<close>

datatype sig_outcome = Sig_Return | Sig_Stop int | Sig_Exit int | Sig_Shutdown int

text \<open>\<open>do_signal_stop\<close> up to its \<open>schedule\<close>, and from there on.\<close>

definition signal_stop_begin :: "nat \<Rightarrow> int \<Rightarrow> sched \<Rightarrow> sched" where
  "signal_stop_begin this sig s =
     (let t = get_current this s in
      sched_block this TASK_STOPPED
        (notify_parent this t (upd_task t (\<lambda>k. k\<lparr>t_stop_signal := sig, t_wait_event := CHILD_EVENT_STOPPED\<rparr>) s)))"

definition signal_stop_end :: "nat \<Rightarrow> sched \<Rightarrow> sched" where
  "signal_stop_end this s =
     (let t = get_current this s in
      if \<not> on_rq t s then enqueue_task this t s else upd_task t (\<lambda>k. k\<lparr>t_state := TASK_RUNNING\<rparr>) s)"

definition apply_syscall_restart :: "nat \<Rightarrow> bool \<Rightarrow> sched \<Rightarrow> pt_regs \<Rightarrow> pt_regs" where
  "apply_syscall_restart this restart s regs =
     (let cur = get_current this s in
      if cur = 0 \<or> \<not> t_in_syscall (tasks s cur) then regs
      else if sint (xregs regs 0) \<noteq> - ERESTARTSYS then regs
      else if restart then regs\<lparr>xregs := (xregs regs)(0 := t_orig_x0 (tasks s cur)), elr_el1 := elr_el1 regs - 4\<rparr>
      else regs\<lparr>xregs := (xregs regs)(0 := word_of_int (- EINTR))\<rparr>)"

definition syscall_exit_restart :: "nat \<Rightarrow> sched \<Rightarrow> pt_regs \<Rightarrow> pt_regs" where
  "syscall_exit_restart this = apply_syscall_restart this True"

definition handle_signal ::
  "nat \<Rightarrow> mm_struct option \<Rightarrow> pt_regs \<Rightarrow> int \<Rightarrow> sigaction \<Rightarrow> umem \<Rightarrow> sched \<Rightarrow> sig_outcome \<times> pt_regs \<times> umem \<times> sched" where
  "handle_signal this mm regs sig ka m s =
     (if sa_handler ka = SIG_DFL \<or> sa_handler ka = SIG_IGN then (Sig_Return, regs, m, s)
      else
        let t = get_current this s; k = tasks s t;
            old_blocked = (if t_restore_sigmask k then t_saved_blocked k else t_blocked k);
            s1 = upd_task t (\<lambda>k. k\<lparr>t_restore_sigmask := False\<rparr>) s;
            b1 = t_blocked k OR sa_mask ka;
            b2 = (if sa_flags ka AND SA_NODEFER = 0 then b1 OR SIG_BIT sig else b1);
            new_blocked = b2 AND NOT SIG_UNBLOCKABLE;
            (err, regs1, m1, s2) = setup_signal_frame this mm regs sig (sa_handler ka) (sa_restorer ka) old_blocked m s1 in
        if err < 0 then (Sig_Exit SIGSEGV, regs1, m1, s2)
        else (Sig_Return, regs1, m1, upd_task t (\<lambda>k. k\<lparr>t_blocked := new_blocked\<rparr>) s2))"

lemma next_pending_bit:
  assumes "next_pending_signal p b \<noteq> 0"
  shows "p AND SIG_BIT (next_pending_signal p b) \<noteq> 0" "1 \<le> next_pending_signal p b" "next_pending_signal p b \<le> 63"
proof -
  let ?r = "p AND NOT (b AND NOT SIG_UNBLOCKABLE)" and ?n = "next_pending_signal p b"
  have "?r AND SIG_BIT ?n \<noteq> 0 \<and> 1 \<le> ?n \<and> ?n \<le> 63"
    using assms
    by (auto simp: next_pending_signal_def Let_def find_Some_iff split: if_splits option.splits)
  moreover have "?r AND SIG_BIT ?n = (p AND SIG_BIT ?n) AND NOT (b AND NOT SIG_UNBLOCKABLE)" by (simp add: ac_simps)
  ultimately show "p AND SIG_BIT ?n \<noteq> 0" "1 \<le> ?n" "?n \<le> 63" by auto
qed

lemma clear_bit_less:
  assumes "(p :: u64) AND b \<noteq> 0"
  shows "p AND NOT b < p"
proof -
  have "p AND NOT b \<noteq> p"
  proof
    assume "p AND NOT b = p"
    then have "p AND b = (p AND NOT b) AND b" by (simp only:)
    also have "\<dots> = 0" by (simp add: and.assoc)
    finally show False using assms by simp
  qed
  then show ?thesis using word_and_le1 [of p "NOT b"] word_and_le2 [of p "NOT b"] by (simp add: order_less_le)
qed

text \<open>
  One pass of the loop takes one signal; the passes that ignore their signal continue.  After a stop
  the code continues with the next pass when it runs again, which is another call.
\<close>

function do_signal ::
  "nat \<Rightarrow> mm_struct option \<Rightarrow> pt_regs \<Rightarrow> umem \<Rightarrow> sched \<Rightarrow> sig_outcome \<times> pt_regs \<times> umem \<times> sched" where
  "do_signal this mm regs m s =
     (let t = get_current this s; k = tasks s t in
      if t = 0 \<or> \<not> t_is_user k then (Sig_Return, regs, m, s)
      else
        let sig = next_pending_signal (t_pending k) (t_blocked k) in
        if sig = 0 then (Sig_Return, regs, m, s)
        else
          let s1 = upd_task t (\<lambda>k. k\<lparr>t_pending := t_pending k AND NOT (SIG_BIT sig)\<rparr>) s;
              ka = t_actions k (nat sig) in
          if sig = SIGKILL then (Sig_Exit SIGKILL, regs, m, s1)
          else if sig = SIGSTOP then (Sig_Stop SIGSTOP, regs, m, s1)
          else if sa_handler ka = SIG_IGN then do_signal this mm regs m s1
          else if sa_handler ka = SIG_DFL then
            (if sig_kernel_stop sig then (Sig_Stop sig, regs, m, s1)
             else if t_pid k = 1 \<and> (sig = SIGUSR1 \<or> sig = SIGUSR2 \<or> sig = SIGTERM) then (Sig_Shutdown sig, regs, m, s1)
             else if sig = SIGCHLD \<or> sig = SIGCONT \<or> sig = SIGURG \<or> sig = SIGWINCH then do_signal this mm regs m s1
             else (Sig_Exit (sig AND 0x7f), regs, m, s1))
          else
            let s2 = (if sa_flags ka AND SA_RESETHAND \<noteq> 0
                      then upd_task t (\<lambda>k. k\<lparr>t_actions := (t_actions k)(nat sig := t_actions k (nat sig)\<lparr>sa_handler := SIG_DFL\<rparr>)\<rparr>) s1
                      else s1);
                regs1 = apply_syscall_restart this (sa_flags ka AND SA_RESTART \<noteq> 0) s2 regs in
            handle_signal this mm regs1 sig ka m s2)"
  by pat_completeness auto
termination
proof (relation "measure (\<lambda>(this, _, _, _, s). unat (t_pending (tasks s (get_current this s))))", goal_cases)
  case 1
  show ?case by simp
qed (auto simp: upd_task_def get_current_def word_less_nat_alt [symmetric] intro!: clear_bit_less next_pending_bit(1))

declare do_signal.simps [simp del]

subsection \<open>System calls\<close>

text \<open>\<open>act\<close> is the action to install; the old one is the second component of the result.\<close>

definition ksys_rt_sigaction :: "nat \<Rightarrow> int \<Rightarrow> sigaction option \<Rightarrow> u64 \<Rightarrow> sched \<Rightarrow> int \<times> sigaction option \<times> sched" where
  "ksys_rt_sigaction this sig act sigsetsize s =
     (let t = get_current this s in
      if t = 0 \<or> \<not> t_is_user (tasks s t) then (- EINVAL, None, s)
      else if sigsetsize \<noteq> 8 then (- EINVAL, None, s)
      else if sig \<le> 0 \<or> sig \<ge> NSIG then (- EINVAL, None, s)
      else if sig = SIGKILL \<or> sig = SIGSTOP then (- EINVAL, None, s)
      else
        let old = t_actions (tasks s t) (nat sig) in
        (0, Some old,
         case act of
           None \<Rightarrow> s
         | Some new \<Rightarrow>
             upd_task t (\<lambda>k. k\<lparr>t_actions := (t_actions k)(nat sig := new\<lparr>sa_mask := sa_mask new AND NOT SIG_UNBLOCKABLE\<rparr>)\<rparr>) s))"

definition ksys_rt_sigprocmask :: "nat \<Rightarrow> int \<Rightarrow> u64 option \<Rightarrow> u64 \<Rightarrow> sched \<Rightarrow> int \<times> u64 option \<times> sched" where
  "ksys_rt_sigprocmask this how set0 sigsetsize s =
     (let t = get_current this s in
      if t = 0 \<or> \<not> t_is_user (tasks s t) then (- EINVAL, None, s)
      else if sigsetsize \<noteq> 8 then (- EINVAL, None, s)
      else
        let old = t_blocked (tasks s t) in
        case set0 of
          None \<Rightarrow> (0, Some old, s)
        | Some new0 \<Rightarrow>
            let new = new0 AND NOT SIG_UNBLOCKABLE;
                mask = (if how = 0 then Some (old OR new) else if how = 1 then Some (old AND NOT new)
                        else if how = 2 then Some new else None) in
            (case mask of
               None \<Rightarrow> (- EINVAL, None, s)
             | Some mk \<Rightarrow> (0, Some old, upd_task t (\<lambda>k. k\<lparr>t_blocked := mk\<rparr>) s)))"

definition ksys_rt_sigpending :: "nat \<Rightarrow> bool \<Rightarrow> u64 \<Rightarrow> sched \<Rightarrow> int \<times> u64 option" where
  "ksys_rt_sigpending this have_set sigsetsize s =
     (let t = get_current this s in
      if t = 0 \<or> \<not> t_is_user (tasks s t) then (- EINVAL, None)
      else if sigsetsize \<noteq> 8 then (- EINVAL, None)
      else if \<not> have_set then (- EFAULT, None)
      else (0, Some (t_pending (tasks s t) AND t_blocked (tasks s t))))"

text \<open>\<open>ksys_rt_sigsuspend\<close> installs the mask; then each pass of its loop returns or blocks in \<open>schedule\<close>.\<close>

definition sigsuspend_begin :: "nat \<Rightarrow> u64 option \<Rightarrow> u64 \<Rightarrow> sched \<Rightarrow> int option \<times> sched" where
  "sigsuspend_begin this newset sigsetsize s =
     (let t = get_current this s in
      if t = 0 \<or> \<not> t_is_user (tasks s t) then (Some (- EINVAL), s)
      else if sigsetsize \<noteq> 8 then (Some (- EINVAL), s)
      else case newset of
        None \<Rightarrow> (Some (- EFAULT), s)
      | Some ns \<Rightarrow>
          (None, upd_task t (\<lambda>k. k\<lparr>t_saved_blocked := t_blocked k, t_restore_sigmask := True,
                                  t_blocked := ns AND NOT SIG_UNBLOCKABLE\<rparr>) s))"

definition sigsuspend_pass :: "nat \<Rightarrow> sched \<Rightarrow> int option \<times> sched" where
  "sigsuspend_pass this s =
     (let t = get_current this s in
      if signal_pending (tasks s t) then (Some (- EINTR), s) else (None, sched_block this TASK_SLEEPING s))"

definition sigsuspend_resume :: "nat \<Rightarrow> sched \<Rightarrow> sched" where
  "sigsuspend_resume this s =
     (let t = get_current this s in if \<not> on_rq t s then enqueue_task this t s else s)"

end
