(* ===== verification/Signal_Props.thy ===== *)
theory Signal_Props
  imports Signal Sched_Props
begin

text \<open>
  Properties of signals: which signal is delivered next, that a kill cannot be held off, that a
  handler's return restores the interrupted context, and that a signal makes its target runnable.
\<close>

subsection \<open>Bits\<close>

lemma SIG_BIT_and: "x AND SIG_BIT sig \<noteq> 0 \<longleftrightarrow> bit x (nat sig - 1)"
  by (simp add: SIG_BIT_def bit_iff_and_push_bit_not_eq_0)

lemma bit_SIG_BIT: "1 \<le> sig \<Longrightarrow> sig \<le> 64 \<Longrightarrow> bit (SIG_BIT sig) n \<longleftrightarrow> n = nat sig - 1"
  by (auto simp: SIG_BIT_def bit_simps)

lemma bit_UNBLOCKABLE: "bit SIG_UNBLOCKABLE n \<longleftrightarrow> n = 8 \<or> n = 18"
  by (auto simp: SIG_UNBLOCKABLE_def bit_simps bit_SIG_BIT)

text \<open>The signals that can be delivered: pending, and not blocked unless they cannot be blocked.\<close>

definition deliverable :: "u64 \<Rightarrow> u64 \<Rightarrow> int \<Rightarrow> bool" where
  "deliverable pending blocked sig \<longleftrightarrow> 1 \<le> sig \<and> sig \<le> 63 \<and> bit pending (nat sig - 1) \<and>
     (sig = SIGKILL \<or> sig = SIGSTOP \<or> \<not> bit blocked (nat sig - 1))"

lemma ready_bit:
  "1 \<le> sig \<Longrightarrow> sig \<le> 63 \<Longrightarrow>
    (p AND NOT (b AND NOT SIG_UNBLOCKABLE)) AND SIG_BIT sig \<noteq> 0 \<longleftrightarrow> deliverable p b sig"
  by (auto simp: SIG_BIT_and deliverable_def bit_simps bit_UNBLOCKABLE nat_eq_iff)

lemma find_upto_least:
  "find P [i..j] = Some n \<Longrightarrow> P n \<and> i \<le> n \<and> n \<le> j \<and> (\<forall>m. i \<le> m \<and> m < n \<longrightarrow> \<not> P m)"
proof -
  assume "find P [i..j] = Some n"
  then obtain k where k: "k < length [i..j]" "P ([i..j] ! k)" "n = [i..j] ! k" "\<And>l. l < k \<Longrightarrow> \<not> P ([i..j] ! l)"
    by (auto simp: find_Some_iff)
  have nth: "[i..j] ! l = i + int l" if "l \<le> k" for l using that k(1) by (intro nth_upto) auto
  have "\<not> P m" if "i \<le> m" "m < n" for m
    using k(4) [of "nat (m - i)"] nth [of "nat (m - i)"] nth [of k] k(3) that by auto
  then show ?thesis using k nth [of k] by auto
qed

lemma next_pending_spec:
  "let sig = next_pending_signal p b in
     (sig = 0 \<longleftrightarrow> (\<forall>n. \<not> deliverable p b n)) \<and>
     (sig \<noteq> 0 \<longrightarrow> deliverable p b sig) \<and>
     (deliverable p b SIGKILL \<longrightarrow> sig = SIGKILL) \<and>
     (deliverable p b SIGSTOP \<and> \<not> deliverable p b SIGKILL \<longrightarrow> sig = SIGSTOP) \<and>
     (\<not> deliverable p b SIGKILL \<and> \<not> deliverable p b SIGSTOP \<longrightarrow> (\<forall>n. deliverable p b n \<longrightarrow> sig \<le> n))"
proof -
  let ?r = "p AND NOT (b AND NOT SIG_UNBLOCKABLE)" and ?f = "find (\<lambda>sig. (p AND NOT (b AND NOT SIG_UNBLOCKABLE)) AND SIG_BIT sig \<noteq> 0) [1..63]"
  have k: "?r AND SIG_BIT 9 \<noteq> 0 \<longleftrightarrow> deliverable p b 9" "?r AND SIG_BIT 19 \<noteq> 0 \<longleftrightarrow> deliverable p b 19"
    by (rule ready_bit; simp)+
  have n: "next_pending_signal p b = (if deliverable p b 9 then 9 else if deliverable p b 19 then 19
      else case ?f of Some sig \<Rightarrow> sig | None \<Rightarrow> 0)"
    unfolding next_pending_signal_def Let_def k ..
  show ?thesis
  proof (cases ?f)
    case None
    then have "\<not> deliverable p b n" for n
      using ready_bit [of n p b] by (cases "1 \<le> n \<and> n \<le> 63") (auto simp: find_None_iff deliverable_def)
    then show ?thesis unfolding Let_def n using None by auto
  next
    case (Some m)
    note l = find_upto_least [OF Some]
    then have "deliverable p b m" using ready_bit [of m p b] by blast
    moreover have "m \<le> n" if "deliverable p b n" for n
    proof (rule ccontr)
      assume "\<not> m \<le> n"
      moreover have "1 \<le> n" "n \<le> 63" using that by (auto simp: deliverable_def)
      ultimately show False using l ready_bit [of n p b] that by auto
    qed
    moreover have "m \<noteq> 0" using l by simp
    ultimately show ?thesis unfolding Let_def n Some by auto
  qed
qed

lemma deliverable_clear:
  "1 \<le> sig \<Longrightarrow> sig \<le> 63 \<Longrightarrow> deliverable (p AND NOT (SIG_BIT sig)) b n \<longleftrightarrow> deliverable p b n \<and> n \<noteq> sig"
  by (auto simp: deliverable_def bit_simps bit_SIG_BIT nat_eq_iff)

text \<open>C23: the choice of the signal to deliver.  \<open>next_pending_signal\<close> returns \<open>0\<close> exactly if no signal can be
  delivered; otherwise SIGKILL if it is pending, whatever the mask says, else SIGSTOP if it is pending,
  else the deliverable signal with the least number.\<close>

theorem next_pending_signal_correct:
  "let sig = next_pending_signal p b in
     (sig = 0 \<longleftrightarrow> (\<forall>n. \<not> deliverable p b n)) \<and>
     (sig \<noteq> 0 \<longrightarrow> deliverable p b sig) \<and>
     (deliverable p b SIGKILL \<longrightarrow> sig = SIGKILL) \<and>
     (deliverable p b SIGSTOP \<and> \<not> deliverable p b SIGKILL \<longrightarrow> sig = SIGSTOP) \<and>
     (\<not> deliverable p b SIGKILL \<and> \<not> deliverable p b SIGSTOP \<longrightarrow> (\<forall>n. deliverable p b n \<longrightarrow> sig \<le> n))"
  by (rule next_pending_spec)

theorem next_pending_signal_correct_witness:
  "next_pending_signal (SIG_BIT 9 OR SIG_BIT 2) (SIG_BIT 9) = 9"
proof -
  have "deliverable (SIG_BIT 9 OR SIG_BIT 2) (SIG_BIT 9) 9" by (simp add: deliverable_def bit_simps bit_SIG_BIT)
  then show ?thesis using next_pending_signal_correct [of "SIG_BIT 9 OR SIG_BIT 2" "SIG_BIT 9"] by (simp add: Let_def)
qed

text \<open>C24: a kill cannot be held off.  If SIGKILL is pending for the current user task, the next return to user
  space ends the task with this signal, whatever the task's mask and actions are.\<close>

theorem sigkill_delivered:
  assumes "get_current this s \<noteq> 0" "t_is_user (tasks s (get_current this s))"
    and "bit (t_pending (tasks s (get_current this s))) 8"
  shows "fst (do_signal this mm regs m s) = Sig_Exit SIGKILL"
proof -
  have "deliverable (t_pending (tasks s (get_current this s))) b SIGKILL" for b
    using assms(3) by (simp add: deliverable_def)
  then have "next_pending_signal (t_pending (tasks s (get_current this s))) (t_blocked (tasks s (get_current this s))) = SIGKILL"
    using ready_bit [of SIGKILL "t_pending (tasks s (get_current this s))"] by (simp add: next_pending_signal_def Let_def)
  then show ?thesis using assms by (simp add: do_signal.simps Let_def)
qed

definition killed_task :: sched where
  "killed_task = upd_task 0x100 (\<lambda>k. k\<lparr>t_pending := 0x100, t_blocked := NOT 0\<rparr>) two_tasks"

theorem sigkill_delivered_witness:
  "fst (do_signal 0 None \<lparr>xregs = \<lambda>_. 0, elr_el1 = 0, spsr_el1 = 0\<rparr> (\<lambda>_. 0) killed_task) = Sig_Exit 9"
proof -
  have "get_current 0 killed_task = 0x100" "t_is_user (tasks killed_task 0x100)" "t_pending (tasks killed_task 0x100) = 0x100"
    by code_simp+
  then show ?thesis using sigkill_delivered [of 0 killed_task] by (simp add: bit_simps)
qed

subsection \<open>The frame\<close>

lemma store_words_other:
  "(\<And>i. i < length ws \<Longrightarrow> x \<noteq> a + of_nat (8 * i)) \<Longrightarrow> store_words a ws m x = m x"
proof (induction ws arbitrary: a m)
  case (Cons w ws)
  have "(m(a := w)) x = m x" using Cons.prems [of 0] by simp
  moreover have "x \<noteq> a + 8 + of_nat (8 * i)" if "i < length ws" for i
    using Cons.prems [of "Suc i"] that by (simp add: algebra_simps)
  ultimately show ?case using Cons.IH [of "a + 8" "m(a := w)"] by (simp del: fun_upd_apply)
qed simp

lemma store_words_nth:
  assumes "i < length ws" "8 * length ws < 2 ^ 64"
  shows "store_words a ws m (a + of_nat (8 * i)) = ws ! i"
  using assms
proof (induction ws arbitrary: a m i)
  case (Cons w ws)
  show ?case
  proof (cases i)
    case 0
    have "a \<noteq> a + 8 + of_nat (8 * j)" if "j < length ws" for j
    proof
      assume "a = a + 8 + of_nat (8 * j)"
      then have "(of_nat (8 * Suc j) :: u64) = 0" by (simp add: algebra_simps)
      moreover have "unat (of_nat (8 * Suc j) :: u64) = 8 * Suc j" using that Cons.prems(2) by (intro unat_of_nat_less) simp
      ultimately show False by (metis unat_0 mult_eq_0_iff nat.distinct(1) numeral_neq_zero)
    qed
    then show ?thesis using 0 store_words_other [of ws a "a + 8" "m(a := w)"] by simp
  next
    case (Suc j)
    have "store_words (a + 8) ws (m(a := w)) (a + 8 + of_nat (8 * j)) = ws ! j"
      using Cons.IH [of j "a + 8" "m(a := w)"] Suc Cons.prems by (simp del: fun_upd_apply)
    then show ?thesis using Suc by (simp add: algebra_simps)
  qed
qed simp

lemma frame_words_nth:
  "length (frame_words r sp b) = 35" "i < 31 \<Longrightarrow> frame_words r sp b ! i = xregs r i" "frame_words r sp b ! 31 = elr_el1 r"
  "frame_words r sp b ! 32 = spsr_el1 r" "frame_words r sp b ! 33 = sp" "frame_words r sp b ! 34 = b"
  by (auto simp: frame_words_def nth_append)

lemma setup_frame_ok:
  assumes "setup_signal_frame this mm regs sig h rest b m s = (err, regs1, m1, s1)" "\<not> err < 0"
  obtains sp1 where "signal_frame_ok mm sp1" "m1 = store_words sp1 (frame_words regs (sp_el0 (cpus s this)) b) m"
    "s1 = write_user_sp this sp1 s"
  using assms by (auto simp: setup_signal_frame_def Let_def split: if_splits)

lemma write_user_sp_simps [simp]:
  "sp_el0 (cpus (write_user_sp this sp s) this) = sp" "curr (cpus (write_user_sp this sp s) c) = curr (cpus s c)"
  "get_current c (write_user_sp this sp s) = get_current c s"
  "t_blocked (tasks (write_user_sp this sp s) t) = t_blocked (tasks s t)"
  by (simp_all add: write_user_sp_def Let_def get_current_def)

lemma sigreturn_frame:
  assumes h: "handle_signal this mm regs sig ka m s = (Sig_Return, regs1, m1, s1)"
    and a: "sa_handler ka \<noteq> SIG_DFL" "sa_handler ka \<noteq> SIG_IGN"
    and cur: "get_current this s \<noteq> 0" "get_current this s2 = get_current this s"
    and sp: "sp_el0 (cpus s2 this) = sp_el0 (cpus s1 this)"
    and fr: "\<And>i. i < 35 \<Longrightarrow> load_word m2 (sp_el0 (cpus s1 this)) i = load_word m1 (sp_el0 (cpus s1 this)) i"
    and old: "old = (let k = tasks s (get_current this s) in if t_restore_sigmask k then t_saved_blocked k else t_blocked k)"
  shows "\<exists>regs3 s3. ksys_rt_sigreturn this mm regs2 m2 s2 = (0, regs3, s3) \<and>
    (\<forall>i<31. xregs regs3 i = xregs regs i) \<and> elr_el1 regs3 = elr_el1 regs \<and> spsr_el1 regs3 = spsr_el1 regs \<and>
    sp_el0 (cpus s3 this) = sp_el0 (cpus s this) \<and> t_blocked (tasks s3 (get_current this s)) = old AND NOT SIG_UNBLOCKABLE"
proof -
  let ?t = "get_current this s" and ?s = "upd_task (get_current this s) (\<lambda>k. k\<lparr>t_restore_sigmask := False\<rparr>) s"
  obtain err r1 mm1 s' where f: "setup_signal_frame this mm regs sig (sa_handler ka) (sa_restorer ka) old m ?s = (err, r1, mm1, s')"
    by (metis prod_cases4)
  have e: "\<not> err < 0" "m1 = mm1" "sp_el0 (cpus s1 this) = sp_el0 (cpus s' this)"
    using h a f old by (auto simp: handle_signal_def Let_def split: if_splits)
  from f e(1) obtain sp1 where s': "signal_frame_ok mm sp1" "mm1 = store_words sp1 (frame_words regs (sp_el0 (cpus s this)) old) m"
      "s' = write_user_sp this sp1 ?s"
    by (rule setup_frame_ok) simp
  have sp1: "sp_el0 (cpus s2 this) = sp1" "sp_el0 (cpus s1 this) = sp1" using sp e(3) s'(3) by simp_all
  have w: "load_word m2 sp1 i = frame_words regs (sp_el0 (cpus s this)) old ! i" if "i < 35" for i
    using fr [OF that] that store_words_nth [of i "frame_words regs (sp_el0 (cpus s this)) old" sp1 m]
    unfolding sp1(2) e(2) s'(2) load_word_def by (simp add: frame_words_nth)
  show ?thesis
    using s'(1) cur w by (simp add: ksys_rt_sigreturn_def Let_def sp1(1) frame_words_nth)
qed

text \<open>C25: returning from a handler.  If a handler is started for the current task and later calls
  \<open>rt_sigreturn\<close> with the stack pointer it was started with and the frame unchanged, the call succeeds
  and restores every general register, the program counter and the status of the interrupted context,
  its stack pointer and its signal mask.\<close>

theorem sigreturn_restores:
  assumes h: "handle_signal this mm regs sig ka m s = (Sig_Return, regs1, m1, s1)"
    and a: "sa_handler ka \<noteq> SIG_DFL" "sa_handler ka \<noteq> SIG_IGN"
    and cur: "get_current this s \<noteq> 0" "get_current this s2 = get_current this s"
    and sp: "sp_el0 (cpus s2 this) = sp_el0 (cpus s1 this)"
    and fr: "\<And>i. i < 35 \<Longrightarrow> load_word m2 (sp_el0 (cpus s1 this)) i = load_word m1 (sp_el0 (cpus s1 this)) i"
    and old: "old = (let k = tasks s (get_current this s) in if t_restore_sigmask k then t_saved_blocked k else t_blocked k)"
  shows "\<exists>regs3 s3. ksys_rt_sigreturn this mm regs2 m2 s2 = (0, regs3, s3) \<and>
    (\<forall>i<31. xregs regs3 i = xregs regs i) \<and> elr_el1 regs3 = elr_el1 regs \<and> spsr_el1 regs3 = spsr_el1 regs \<and>
    sp_el0 (cpus s3 this) = sp_el0 (cpus s this) \<and> t_blocked (tasks s3 (get_current this s)) = old AND NOT SIG_UNBLOCKABLE"
  using h a cur sp fr old by (rule sigreturn_frame)

definition stack_mm :: mm_struct where
  "stack_mm = \<lparr>mm_ptr = 0x1000, mmap = [], pgd = 0, entry = 0, stack_top = 0x80000000, start_brk = 0, brk = 0,
     mmap_base = 0x2000000, users = 1\<rparr>"

definition handler_task :: sched where
  "handler_task = upd_cpu 0 (\<lambda>r. r\<lparr>sp_el0 := 0x7ffffff0\<rparr>) two_tasks"

theorem sigreturn_restores_witness:
  "\<exists>regs1 m1 s1 regs3 s3.
     handle_signal 0 (Some stack_mm) \<lparr>xregs = \<lambda>i. of_nat i, elr_el1 = 0x400, spsr_el1 = 0\<rparr> 10
       \<lparr>sa_handler = 0x500, sa_flags = 0, sa_restorer = 0x600, sa_mask = 0\<rparr> (\<lambda>_. 0) handler_task = (Sig_Return, regs1, m1, s1) \<and>
     ksys_rt_sigreturn 0 (Some stack_mm) regs1 m1 s1 = (0, regs3, s3) \<and> elr_el1 regs3 = 0x400 \<and> xregs regs3 30 = 30 \<and>
     sp_el0 (cpus s3 0) = 0x7ffffff0"
proof -
  let ?r = "\<lparr>xregs = \<lambda>i. of_nat i, elr_el1 = 0x400, spsr_el1 = 0\<rparr> :: pt_regs"
    and ?k = "\<lparr>sa_handler = 0x500, sa_flags = 0, sa_restorer = 0x600, sa_mask = 0\<rparr> :: sigaction"
  have "fst (handle_signal 0 (Some stack_mm) ?r 10 ?k (\<lambda>_. 0) handler_task) = Sig_Return" by code_simp
  then obtain regs1 m1 s1 where h: "handle_signal 0 (Some stack_mm) ?r 10 ?k (\<lambda>_. 0) handler_task = (Sig_Return, regs1, m1, s1)"
    by (metis prod.collapse)
  have c: "get_current 0 handler_task \<noteq> 0" "sp_el0 (cpus handler_task 0) = 0x7ffffff0" by code_simp+
  have "get_current 0 s1 = get_current 0 handler_task"
    using h by (auto simp: handle_signal_def Let_def setup_signal_frame_def get_current_def split: if_splits prod.splits)
  from sigreturn_restores [OF h _ _ c(1) this refl refl refl, of regs1] c(2) h show ?thesis by fastforce
qed

subsection \<open>Sending\<close>

text \<open>Only user tasks are parents, never an idle task.\<close>

definition parents_ok :: "sched \<Rightarrow> bool" where
  "parents_ok s \<longleftrightarrow> (\<forall>t. \<not> is_idle (t_parent (tasks s t)) s)"

lemma set_fields_inv:
  assumes inv: "sched_inv s" and f: "\<And>k. t_cpu (f k) = t_cpu k" "\<And>k. t_state (f k) = t_state k \<or> t_state (f k) = TASK_RUNNING"
  shows "sched_inv (upd_task t f s)"
  unfolding sched_inv_def
proof (intro allI impI conjI)
  fix c :: nat assume c: "c < NR_CPUS"
  show "rq_ok (upd_task t f s) c"
  proof (rule rq_okI [of _ _ "rq c s"])
    fix u assume "u \<in> set (rq c s)"
    from sched_invD(3) [OF inv c this]
    show "u \<noteq> 0 \<and> t_state (tasks (upd_task t f s) u) = TASK_RUNNING \<and> t_cpu (tasks (upd_task t f s) u) = c"
      using f(1) [of "tasks s u"] f(2) [of "tasks s u"] by auto
  qed (use sched_invD(1,2) [OF inv c] in simp_all)
  show "cpu_ok (upd_task t f s) c" by (rule cpu_ok_sub [OF inv c]) (simp_all add: f(1))
qed

text \<open>Fields of a task that queueing and rescheduling do not touch.\<close>

definition quiet :: "(task_struct \<Rightarrow> 'a) \<Rightarrow> bool" where
  "quiet g \<longleftrightarrow> (\<forall>k a b c. g (k\<lparr>t_state := a, t_time_slice := b, t_cpu := c\<rparr>) = g k) \<and> (\<forall>k c. g (k\<lparr>t_cpu := c\<rparr>) = g k) \<and>
     (\<forall>k d. g (k\<lparr>t_need_resched := d\<rparr>) = g k)"

lemma wake_up_quiet:
  assumes "quiet g"
  shows "g (tasks (wake_up_process this t s) u) = g (tasks s u)"
proof -
  have a: "g (k\<lparr>t_state := a, t_time_slice := b, t_cpu := c\<rparr>) = g k" "g (k\<lparr>t_cpu := c\<rparr>) = g k" "g (k\<lparr>t_need_resched := d\<rparr>) = g k"
    for k a b c d using assms unfolding quiet_def by blast+
  have l: "g (tasks (enqueue_task_locked t c s) u) = g (tasks s u)" for c s by (simp add: enqueue_task_locked_def a(1))
  have e: "g (tasks (enqueue_task this t s) u) = g (tasks s u)" for s
    by (simp add: enqueue_task_def enqueue_task_cpu_def Let_def l a(2))
  have n: "g (tasks (set_need_resched this s) u) = g (tasks s u)" for s by (simp add: set_need_resched_def Let_def a(3))
  have "g (tasks (resched_cpu this c s) u) = g (tasks s u)" for c s by (simp add: resched_cpu_def n)
  then show ?thesis using e by (simp add: wake_up_process_def Let_def)
qed

lemma wake_up_parent [simp]: "t_parent (tasks (wake_up_process this t s) u) = t_parent (tasks s u)"
  by (rule wake_up_quiet) (simp add: quiet_def)

lemma parents_ok_frame:
  "parents_ok (wake_up_process this t s) \<longleftrightarrow> parents_ok s"
  "(\<And>k. t_parent (f k) = t_parent k) \<Longrightarrow> parents_ok (upd_task t f s) \<longleftrightarrow> parents_ok s"
  "is_idle u (wake_up_process this t s) \<longleftrightarrow> is_idle u s" "is_idle u (upd_task t f s) \<longleftrightarrow> is_idle u s"
  by (auto simp: parents_ok_def is_idle_def)

text \<open>The two forms of a delivery, with the notification of the parent as \<open>notify_parent\<close> does it.\<close>

definition queued :: "u64 \<Rightarrow> int \<Rightarrow> sched \<Rightarrow> sched" where
  "queued t sig s = upd_task t (\<lambda>k. k\<lparr>t_pending := queue_bits sig (t_pending k)\<rparr>) s"

definition continued :: "u64 \<Rightarrow> int \<Rightarrow> sched \<Rightarrow> sched" where
  "continued t sig s = upd_task t (\<lambda>k. k\<lparr>t_pending := queue_bits sig (t_pending k)\<rparr>\<lparr>t_state := TASK_RUNNING,
     t_wait_event := CHILD_EVENT_CONTINUED\<rparr>) s"

lemma signal_queue_cont:
  assumes "t \<noteq> 0" "t_state (tasks s t) = TASK_STOPPED"
  shows "signal_queue this t SIGCONT s = wake_up_process this t (notify_parent this t (continued t SIGCONT s))"
proof -
  have v: "\<not> (t = 0 \<or> \<not> signal_valid SIGCONT \<or> SIGCONT = 0)" using assms(1) by (simp add: signal_valid_def)
  have "parent_signal (tasks (continued t SIGCONT s) t) = parent_signal (tasks s t)"
    "t_parent (tasks (continued t SIGCONT s) t) = t_parent (tasks s t)"
    by (simp_all add: continued_def parent_signal_def)
  then show ?thesis
    unfolding signal_queue.simps [of this t SIGCONT s] if_not_P [OF v] Let_def
    using assms by (simp add: notify_parent_def signal_send_def continued_def [symmetric] Let_def)
qed

lemma signal_queue_other:
  assumes v: "t \<noteq> 0" "signal_valid sig" "sig \<noteq> 0" and n: "\<not> (t_state (tasks s t) = TASK_STOPPED \<and> sig = SIGCONT)"
  shows "signal_queue this t sig s =
    (if t_state (tasks s t) = TASK_SLEEPING \<and> signal_pending (tasks (queued t sig s) t) \<or>
        t_state (tasks s t) = TASK_STOPPED \<and> sig = SIGKILL then wake_up_process this t (queued t sig s) else queued t sig s)"
proof -
  have v': "\<not> (t = 0 \<or> \<not> signal_valid sig \<or> sig = 0)" using v by simp
  have "t_state (tasks (queued t sig s) t) = t_state (tasks s t)" by (simp add: queued_def)
  then show ?thesis
    unfolding signal_queue.simps [of this t sig s] if_not_P [OF v'] Let_def if_not_P [OF n] queued_def [symmetric] by auto
qed

lemma signal_queue_inv:
  "sched_inv s \<Longrightarrow> this < NR_CPUS \<Longrightarrow> \<not> is_idle t s \<Longrightarrow> parents_ok s \<Longrightarrow>
    sched_inv (signal_queue this t sig s) \<and> parents_ok (signal_queue this t sig s) \<and>
    (\<forall>u. is_idle u (signal_queue this t sig s) \<longleftrightarrow> is_idle u s)"
proof (induction this t sig s rule: signal_queue.induct)
  case (1 this t sig s)
  have s1: "sched_inv (queued t sig s)" and s2: "sched_inv (continued t sig s)"
    using 1(2) by (auto simp: queued_def continued_def intro: set_fields_inv)
  have pk: "parents_ok (queued t sig s)" "parents_ok (continued t sig s)"
    using 1(5) by (simp_all add: queued_def continued_def parents_ok_frame)
  have id: "is_idle u (queued t sig s) \<longleftrightarrow> is_idle u s" "is_idle u (continued t sig s) \<longleftrightarrow> is_idle u s" for u
    by (simp_all add: queued_def continued_def parents_ok_frame)
  have par: "\<not> is_idle (t_parent (tasks s t)) s" using 1(5) by (simp add: parents_ok_def)
  show ?case
  proof (cases "t = 0 \<or> \<not> signal_valid sig \<or> sig = 0")
    case True
    then show ?thesis using 1 by (simp add: signal_queue.simps)
  next
    case v: False
    show ?thesis
    proof (cases "t_state (tasks s t) = TASK_STOPPED \<and> sig = SIGCONT")
      case True
      let ?q = "t_parent (tasks s t)" and ?n = "notify_parent this t (continued t sig s)"
      let ?s' = "signal_queue this ?q (parent_signal (tasks s t)) (continued t sig s)"
      have IH: "?q \<noteq> 0 \<Longrightarrow> sched_inv ?s' \<and> parents_ok ?s' \<and> (\<forall>u. is_idle u ?s' \<longleftrightarrow> is_idle u s)"
        using 1(1) [OF v refl True refl refl, folded continued_def] s2 1(3) par pk id by simp
      have "t_parent (tasks (continued t sig s) t) = ?q" "parent_signal (tasks (continued t sig s) t) = parent_signal (tasks s t)"
        by (simp_all add: continued_def parent_signal_def)
      then have "sched_inv ?n \<and> parents_ok ?n \<and> (\<forall>u. is_idle u ?n \<longleftrightarrow> is_idle u s)"
        using IH s2 pk id par 1(3) wake_up_inv [of ?s' this ?q] by (auto simp: notify_parent_def Let_def signal_send_def parents_ok_frame)
      moreover have "signal_queue this t sig s = wake_up_process this t ?n" using signal_queue_cont [of t s this] v True by simp
      ultimately show ?thesis using wake_up_inv [of ?n this t] 1(3,4) by (simp add: parents_ok_frame)
    next
      case False
      have "signal_queue this t sig s = queued t sig s \<or> signal_queue this t sig s = wake_up_process this t (queued t sig s)"
        using signal_queue_other [OF _ _ _ False] v by auto
      moreover have "sched_inv (wake_up_process this t (queued t sig s))" using wake_up_inv [OF s1 1(3)] 1(4) id(1) by simp
      ultimately show ?thesis using s1 pk(1) id(1) parents_ok_frame(1,3) by metis
    qed
  qed
qed

lemma enqueue_runs:
  assumes "t \<noteq> 0" "this < NR_CPUS" "\<not> on_rq t s"
  shows "on_rq t (enqueue_task this t s) \<and> t_state (tasks (enqueue_task this t s) t) = TASK_RUNNING"
proof -
  have n: "on_rq t (upd_task u f s) \<longleftrightarrow> on_rq t s" for u f by (simp add: on_rq_def)
  have r: "on_rq t (upd_cpu c (\<lambda>r. r\<lparr>rq_tasks := rq_tasks r @ [t], nr_running := nr_running r + 1\<rparr>) s')" if "c < NR_CPUS" for c s'
    using that by (auto simp: on_rq_iff)
  show ?thesis using assms
    by (auto simp: enqueue_task_def Let_def enqueue_task_cpu_def enqueue_task_locked_def n intro!: r [simplified])
qed

lemma wake_up_runs:
  assumes inv: "sched_inv s" and t: "t \<noteq> 0" "this < NR_CPUS"
  shows "on_rq t (wake_up_process this t s) \<and> t_state (tasks (wake_up_process this t s) t) = TASK_RUNNING"
proof (cases "on_rq t s")
  case True
  then show ?thesis using on_rqE [OF inv True] by (simp add: wake_up_process_def) blast
next
  case False
  have "on_rq t (resched_cpu this c s') \<longleftrightarrow> on_rq t s'" for c s' by (simp add: on_rq_def)
  then show ?thesis using enqueue_runs [OF t False] False t(1) by (simp add: wake_up_process_def Let_def)
qed

lemma notify_parent_inv:
  assumes "sched_inv s" "this < NR_CPUS" "parents_ok s"
  shows "sched_inv (notify_parent this t s)" "parents_ok (notify_parent this t s)"
proof -
  let ?q = "t_parent (tasks s t)" and ?s' = "signal_queue this (t_parent (tasks s t)) (parent_signal (tasks s t)) s"
  have q: "\<not> is_idle ?q s" using assms(3) by (simp add: parents_ok_def)
  note i = signal_queue_inv [OF assms(1,2) q assms(3), of "parent_signal (tasks s t)"]
  show "sched_inv (notify_parent this t s)" "parents_ok (notify_parent this t s)"
    using assms i q wake_up_inv [of ?s' this ?q] by (auto simp: notify_parent_def Let_def signal_send_def parents_ok_frame)
qed

text \<open>The effect on the pending set of the bits the code computes.\<close>

lemma queue_bits_sent:
  assumes "1 \<le> sig" "sig < NSIG"
  shows "bit (queue_bits sig p) (nat sig - 1)"
  using assms by (auto simp: queue_bits_def Let_def SIG_STOP_MASK_def bit_simps bit_SIG_BIT sig_kernel_stop_def)

lemma signal_pending_iff: "signal_pending k \<longleftrightarrow> (\<exists>n<64. bit (t_pending k) n \<and> (n = 8 \<or> n = 18 \<or> \<not> bit (t_blocked k) n))"
proof -
  let ?r = "t_pending k AND NOT (t_blocked k AND NOT SIG_UNBLOCKABLE)"
  have "?r \<noteq> 0 \<longleftrightarrow> (\<exists>n<64. bit ?r n)" by (auto simp: bit_eq_iff intro: bit_imp_le_length dest: bit_imp_le_length)
  then show ?thesis by (auto simp: signal_pending_def Let_def bit_simps bit_UNBLOCKABLE)
qed

text \<open>C26: a signal makes its target run.  Sending SIGCONT or SIGKILL to a stopped task, or a signal that is not
  blocked to a sleeping task, leaves the task runnable on a run queue, with the scheduler's invariant
  intact.\<close>

theorem signal_wakes_target:
  assumes inv: "sched_inv s" "parents_ok s" and t: "t \<noteq> 0" "this < NR_CPUS" "\<not> is_idle t s" and sig: "1 \<le> sig" "sig < NSIG"
    and st: "t_state (tasks s t) = TASK_STOPPED \<and> (sig = SIGCONT \<or> sig = SIGKILL) \<or>
      t_state (tasks s t) = TASK_SLEEPING \<and> \<not> bit (t_blocked (tasks s t)) (nat sig - 1)"
  shows "on_rq t (signal_send this t sig s) \<and> t_state (tasks (signal_send this t sig s) t) = TASK_RUNNING \<and>
    sched_inv (signal_send this t sig s)"
proof -
  have v: "signal_valid sig" "sig \<noteq> 0" using sig by (simp_all add: signal_valid_def)
  have "\<exists>s'. sched_inv s' \<and> signal_queue this t sig s = wake_up_process this t s'"
  proof (cases "t_state (tasks s t) = TASK_STOPPED \<and> sig = SIGCONT")
    case True
    have "sched_inv (continued t sig s)" "parents_ok (continued t sig s)"
      using inv by (auto simp: continued_def parents_ok_frame intro: set_fields_inv)
    then show ?thesis using notify_parent_inv(1) [OF _ t(2)] signal_queue_cont [OF t(1)] True by blast
  next
    case False
    have "signal_pending (tasks (queued t sig s) t)" if "\<not> bit (t_blocked (tasks s t)) (nat sig - 1)"
      unfolding signal_pending_iff using queue_bits_sent [OF sig] that sig by (auto simp: queued_def intro!: exI [of _ "nat sig - 1"])
    then have "signal_queue this t sig s = wake_up_process this t (queued t sig s)"
      using signal_queue_other [OF t(1) v False] st False by auto
    moreover have "sched_inv (queued t sig s)" using inv(1) by (auto simp: queued_def intro: set_fields_inv)
    ultimately show ?thesis by blast
  qed
  then obtain s' where s': "sched_inv s'" "signal_queue this t sig s = wake_up_process this t s'" by blast
  show ?thesis
    using wake_up_runs [OF s'(1) t(1,2)] signal_queue_inv [OF inv(1) t(2,3) inv(2), of sig] by (simp add: signal_send_def s'(2))
qed

theorem signal_wakes_target_witness:
  "on_rq 0x300 (signal_send 0 0x300 15 two_tasks) \<and> t_state (tasks (signal_send 0 0x300 15 two_tasks) 0x300) = TASK_RUNNING"
proof -
  have f: "t_state (tasks two_tasks 0x300) = TASK_SLEEPING" "t_blocked (tasks two_tasks 0x300) = 0"
    "\<And>t. t_parent (tasks two_tasks t) = 0"
    by (simp_all add: two_tasks_def task0_def)
  have i: "\<not> is_idle 0x300 two_tasks" "\<not> is_idle 0 two_tasks"
    unfolding is_idle_def less_4 by (auto simp: two_tasks_def cpu0_def)
  then have "parents_ok two_tasks" by (simp add: parents_ok_def f(3))
  then show ?thesis using signal_wakes_target [OF two_tasks_inv _ _ _ i(1), of 0 15] f by simp
qed

end
