(* ===== verification/Path.thy ===== *)
theory Path
  imports Prelude
begin

text \<open>
  The path strings of \<^verbatim>\<open>fs/namei.c\<close>: resolving a path against a base directory and splitting a path
  into its parent and its last component.  A C string is the list of its characters up to the
  terminator; the buffers have \<open>PATH_MAX\<close> bytes and the code's tests against \<open>PATH_MAX\<close> and
  \<open>DNAME_INLINE_LEN\<close> are kept.  The pointer arguments are arrays of the callers, so the tests for
  \<open>NULL\<close> do not fire.  A result \<open>Inl e\<close> is an error number, \<open>Inr s\<close> the string written out.
\<close>

abbreviation (input) PATH_MAX :: nat where "PATH_MAX \<equiv> 256"
abbreviation (input) DNAME_INLINE_LEN :: nat where "DNAME_INLINE_LEN \<equiv> 256"

abbreviation (input) slash :: char where "slash \<equiv> CHR ''/''"

subsection \<open>The functions of the source\<close>

definition str_copy :: "string \<Rightarrow> nat \<Rightarrow> string" where
  "str_copy src m = take (m - 1) src"

text \<open>The scans over a path: past the slashes, and up to and after the end of a component.\<close>

definition skip_slash :: "string \<Rightarrow> string" where
  "skip_slash p = dropWhile (\<lambda>c. c = slash) p"

definition first_name :: "string \<Rightarrow> string" where
  "first_name p = takeWhile (\<lambda>c. c \<noteq> slash) p"

definition after_name :: "string \<Rightarrow> string" where
  "after_name p = dropWhile (\<lambda>c. c \<noteq> slash) p"

text \<open>The two loops of \<open>path_resolve\<close> on a component \<open>..\<close>: back to the last slash, and over it.\<close>

definition stack_pop :: "string \<Rightarrow> string" where
  "stack_pop st = rev (tl (dropWhile (\<lambda>c. c \<noteq> slash) (rev st)))"

definition stack_push :: "string \<Rightarrow> string \<Rightarrow> string" where
  "stack_push st nm = (if st = [] \<or> last st \<noteq> slash then st @ [slash] else st) @ nm"

function resolve_loop :: "string \<Rightarrow> string \<Rightarrow> int + string" where
  "resolve_loop st p =
     (let q = skip_slash p in
      if q = [] then Inr st
      else
        let nm = first_name q; rest = after_name q in
        if length nm \<ge> PATH_MAX then Inl (- ENAMETOOLONG)
        else if nm = ''.'' then resolve_loop st rest
        else if nm = ''..'' then resolve_loop (stack_pop st) rest
        else if length st + 1 + length nm \<ge> PATH_MAX then Inl (- ENAMETOOLONG)
        else resolve_loop (stack_push st nm) rest)"
  by auto

lemma skip_slash_hd: "skip_slash p \<noteq> [] \<Longrightarrow> hd (skip_slash p) \<noteq> slash"
  using hd_dropWhile [of "\<lambda>c. c = slash" p] by (simp add: skip_slash_def)

lemma after_name_hd: "after_name p = [] \<or> hd (after_name p) = slash"
  using hd_dropWhile [of "\<lambda>c. c \<noteq> slash" p] by (auto simp: after_name_def)

lemma name_parts: "first_name p @ after_name p = p"
  by (simp add: first_name_def after_name_def)

lemma skip_slash_length: "length (skip_slash p) \<le> length p"
  by (simp add: skip_slash_def length_dropWhile_le)

lemma first_name_nonempty: "skip_slash p \<noteq> [] \<Longrightarrow> first_name (skip_slash p) \<noteq> []"
  using skip_slash_hd [of p] by (cases "skip_slash p") (simp_all add: first_name_def)

lemma first_name_no_slash: "slash \<notin> set (first_name p)"
  by (auto simp: first_name_def dest: set_takeWhileD)

lemma component_shrinks:
  assumes "skip_slash p \<noteq> []"
  shows "length (after_name (skip_slash p)) < length p"
proof -
  have "length (first_name (skip_slash p)) + length (after_name (skip_slash p)) = length (skip_slash p)"
    by (simp add: name_parts flip: length_append)
  then show ?thesis using first_name_nonempty [OF assms] skip_slash_length [of p] by (simp flip: length_greater_0_conv)
qed

termination resolve_loop
  by (relation "measure (length \<circ> snd)") (auto simp: component_shrinks)

declare resolve_loop.simps [simp del]

definition path_resolve :: "string \<Rightarrow> string \<Rightarrow> int + string" where
  "path_resolve base path =
     (if path = [] then Inl (- ENOENT)
      else if hd path \<noteq> slash \<and> (base = [] \<or> hd base \<noteq> slash) then Inl (- EINVAL)
      else
        case resolve_loop (if hd path = slash then [] else str_copy base PATH_MAX) path of
          Inl e \<Rightarrow> Inl e
        | Inr st \<Rightarrow> Inr (if st = [] then ''/'' else str_copy st PATH_MAX))"

text \<open>Trailing slashes are cut off, but never the first character.\<close>

definition trim_slashes :: "string \<Rightarrow> string" where
  "trim_slashes path =
     (case path of [] \<Rightarrow> [] | c # p \<Rightarrow> c # rev (dropWhile (\<lambda>c. c = slash) (rev p)))"

definition path_parent_name :: "string \<Rightarrow> int + string \<times> string" where
  "path_parent_name path =
     (if path = [] \<or> hd path \<noteq> slash then Inl (- EINVAL)
      else
        let p = trim_slashes path in
        if length p \<le> 1 then Inl (- ENOENT)
        else
          let name = rev (takeWhile (\<lambda>c. c \<noteq> slash) (rev p));
              parent = take (length p - length name - 1) p in
          if parent \<noteq> [] \<and> length parent \<ge> PATH_MAX then Inl (- ENAMETOOLONG)
          else
            let name = take (DNAME_INLINE_LEN - 1) name in
            if name = [] then Inl (- ENOENT)
            else Inr (if parent = [] then ''/'' else parent, name))"

definition is_dotname :: "string \<Rightarrow> bool" where
  "is_dotname name \<longleftrightarrow> name = ''.'' \<or> name = ''..''"

subsection \<open>The specification\<close>

text \<open>
  A path denotes a list of components.  \<open>components\<close> reads them off a string, \<open>abs_path\<close> writes an
  absolute path, and \<open>normal\<close> gives \<open>.\<close> and \<open>..\<close> their meaning.
\<close>

function components :: "string \<Rightarrow> string list" where
  "components p =
     (let q = skip_slash p in if q = [] then [] else first_name q # components (after_name q))"
  by auto
termination components by (relation "measure length") (auto simp: component_shrinks)

declare components.simps [simp del]

definition steps :: "string list \<Rightarrow> string" where
  "steps cs = concat (map (\<lambda>c. slash # c) cs)"

definition abs_path :: "string list \<Rightarrow> string" where
  "abs_path cs = (if cs = [] then ''/'' else steps cs)"

fun normal :: "string list \<Rightarrow> string list \<Rightarrow> string list" where
  "normal dir [] = dir"
| "normal dir (c # cs) =
     (if c = ''.'' then normal dir cs
      else if c = ''..'' then normal (butlast dir) cs
      else normal (dir @ [c]) cs)"

definition comp_ok :: "string \<Rightarrow> bool" where
  "comp_ok c \<longleftrightarrow> c \<noteq> [] \<and> slash \<notin> set c"

definition name_ok :: "string \<Rightarrow> bool" where
  "name_ok c \<longleftrightarrow> comp_ok c \<and> c \<noteq> ''.'' \<and> c \<noteq> ''..''"

subsection \<open>Lemmas\<close>

lemma steps_simps [simp]:
  "steps [] = []" "steps (c # cs) = slash # c @ steps cs" "steps (cs @ ds) = steps cs @ steps ds"
  by (simp_all add: steps_def)

lemma components_Nil: "skip_slash p = [] \<Longrightarrow> components p = []"
  by (subst components.simps) simp

lemma components_Cons:
  "skip_slash p \<noteq> [] \<Longrightarrow> components p = first_name (skip_slash p) # components (after_name (skip_slash p))"
  by (subst components.simps) (simp add: Let_def)

lemma components_ok: "c \<in> set (components p) \<Longrightarrow> comp_ok c"
proof (induction p rule: components.induct)
  case (1 p)
  show ?case
  proof (cases "skip_slash p = []")
    case False
    then show ?thesis
      using 1 components_Cons [OF False] first_name_nonempty [OF False] first_name_no_slash
      by (auto simp: comp_ok_def)
  qed (use 1 components_Nil in auto)
qed

lemma first_name_append:
  assumes "comp_ok c" "p = [] \<or> hd p = slash"
  shows "first_name (c @ p) = c" "after_name (c @ p) = p"
  using assms by (cases p; auto simp: comp_ok_def first_name_def after_name_def takeWhile_append dropWhile_append)+

lemma skip_slash_name: "comp_ok c \<Longrightarrow> skip_slash (c @ p) = c @ p"
  by (cases c) (auto simp: comp_ok_def skip_slash_def)

lemma skip_slash_Cons [simp]: "skip_slash (slash # p) = skip_slash p" "skip_slash [] = []"
  by (simp_all add: skip_slash_def)

lemma components_step:
  assumes "comp_ok c" "p = [] \<or> hd p = slash"
  shows "components (slash # c @ p) = c # components p"
proof -
  have q: "skip_slash (slash # c @ p) = c @ p" "c @ p \<noteq> []" using assms by (auto simp: skip_slash_name comp_ok_def)
  then show ?thesis using components_Cons [of "slash # c @ p"] first_name_append [OF assms] by simp
qed

lemma components_of_steps: "\<forall>c\<in>set cs. comp_ok c \<Longrightarrow> components (steps cs) = cs"
proof (induction cs)
  case Nil
  show ?case by (simp add: components_Nil)
next
  case (Cons c cs)
  have "steps cs = [] \<or> hd (steps cs) = slash" by (cases cs) simp_all
  then show ?case using Cons components_step [of c "steps cs"] by simp
qed

lemma components_abs_path: "\<forall>c\<in>set cs. comp_ok c \<Longrightarrow> components (abs_path cs) = cs"
  by (cases "cs = []") (simp_all add: abs_path_def components_of_steps components_Nil)

lemma normal_ok: "\<forall>c\<in>set dir. name_ok c \<Longrightarrow> \<forall>c\<in>set cs. comp_ok c \<Longrightarrow> \<forall>c\<in>set (normal dir cs). name_ok c"
proof (induction dir cs rule: normal.induct)
  case (2 dir c cs)
  have b: "\<forall>d\<in>set (butlast dir). name_ok d" using 2(4) by (auto dest: in_set_butlastD)
  have r: "\<forall>d\<in>set cs. comp_ok d" and c: "comp_ok c" using 2(5) by simp_all
  consider "c = ''.''" | "c = ''..''" | "c \<noteq> ''.''" "c \<noteq> ''..''" by blast
  then show ?case
  proof cases
    case 1
    show ?thesis unfolding normal.simps if_P [OF 1] by (rule 2(1) [OF 1 2(4) r])
  next
    case n: 2
    then have "c \<noteq> ''.''" by simp
    then show ?thesis unfolding normal.simps if_P [OF n] by (simp only: if_False) (rule 2(2) [OF _ n b r])
  next
    case 3
    then have "\<forall>d\<in>set (dir @ [c]). name_ok d" using 2(4) c by (simp add: name_ok_def)
    from 2(3) [OF 3 this r] show ?thesis unfolding normal.simps if_not_P [OF 3(1)] if_not_P [OF 3(2)] .
  qed
qed simp

text \<open>The buffer \<open>stack\<close> of \<open>path_resolve\<close> while it stands for the directory \<open>cs\<close>; the root is empty or a slash.\<close>

definition stands_for :: "string \<Rightarrow> string list \<Rightarrow> bool" where
  "stands_for st cs \<longleftrightarrow> (st = steps cs \<or> st = ''/'' \<and> cs = []) \<and> (\<forall>c\<in>set cs. name_ok c) \<and> length st < PATH_MAX"

lemma stands_for_Nil [simp]: "stands_for st [] \<longleftrightarrow> st = [] \<or> st = ''/''"
  by (auto simp: stands_for_def)

lemma stands_for_snoc:
  "stands_for st (ds @ [d]) \<longleftrightarrow>
     st = steps ds @ slash # d \<and> (\<forall>c\<in>set ds. name_ok c) \<and> name_ok d \<and> length st < PATH_MAX"
  by (simp add: stands_for_def conj_ac)

lemma stack_pop_stands:
  assumes "stands_for st cs"
  shows "stands_for (stack_pop st) (butlast cs)"
proof (cases cs rule: rev_cases)
  case Nil
  then show ?thesis using assms by (auto simp: stack_pop_def)
next
  case (snoc ds d)
  note st = assms [unfolded snoc stands_for_snoc]
  then have d: "slash \<notin> set d" by (simp add: name_ok_def comp_ok_def)
  then have "dropWhile (\<lambda>c. c \<noteq> slash) (rev d @ slash # rev (steps ds)) = slash # rev (steps ds)"
    by (subst dropWhile_append2) auto
  then have "stack_pop st = steps ds" using st by (simp add: stack_pop_def)
  moreover have "length (steps ds) < PATH_MAX" using st by auto
  ultimately show ?thesis using st snoc by (simp add: stands_for_def)
qed

lemma stack_push_stands:
  assumes "stands_for st cs" "name_ok d" "length st + 1 + length d < PATH_MAX"
  shows "stands_for (stack_push st d) (cs @ [d])"
proof (cases cs rule: rev_cases)
  case Nil
  then have "stack_push st d = slash # d" using assms by (auto simp: stack_push_def)
  then show ?thesis unfolding Nil using assms(2,3) stands_for_snoc [of _ "[]" d] by simp
next
  case (snoc ds e)
  note st = assms(1) [unfolded snoc stands_for_snoc]
  then have e: "e \<noteq> []" "slash \<notin> set e" by (simp_all add: name_ok_def comp_ok_def)
  then have "last e \<noteq> slash" by (metis last_in_set)
  then have "stack_push st d = steps (ds @ [e]) @ slash # d" using st e by (simp add: stack_push_def)
  then show ?thesis using st snoc assms(2,3) by (simp add: stands_for_def)
qed

lemma resolve_loop_Nil: "skip_slash p = [] \<Longrightarrow> resolve_loop st p = Inr st"
  by (subst resolve_loop.simps) simp

lemma resolve_loop_Cons:
  assumes "skip_slash p \<noteq> []"
  defines "c \<equiv> first_name (skip_slash p)" and "r \<equiv> after_name (skip_slash p)"
  shows "resolve_loop st p =
    (if length c \<ge> PATH_MAX then Inl (- ENAMETOOLONG)
     else if c = ''.'' then resolve_loop st r
     else if c = ''..'' then resolve_loop (stack_pop st) r
     else if length st + 1 + length c \<ge> PATH_MAX then Inl (- ENAMETOOLONG)
     else resolve_loop (stack_push st c) r)"
  using assms by (subst resolve_loop.simps) (simp add: Let_def)

lemma resolve_loop_stands:
  assumes "stands_for st cs" "resolve_loop st p = Inr out"
  shows "stands_for out (normal cs (components p))"
  using assms
proof (induction st p arbitrary: cs rule: resolve_loop.induct)
  case (1 st p)
  let ?q = "skip_slash p"
  let ?c = "first_name ?q" and ?r = "after_name ?q"
  show ?case
  proof (cases "?q = []")
    case False
    note cp = components_Cons [OF False]
    have c: "comp_ok ?c" using components_ok [of ?c p] cp by simp
    note l = "1.prems"(2) [unfolded resolve_loop_Cons [OF False]]
    have short: "\<not> length ?c \<ge> PATH_MAX" using l by (auto split: if_splits)
    consider "?c = ''.''" | "?c = ''..''" | "?c \<noteq> ''.''" "?c \<noteq> ''..''" by blast
    then show ?thesis
    proof cases
      case 1
      then show ?thesis using "1.IH"(1) [OF refl False refl refl short 1 "1.prems"(1)] l cp by simp
    next
      case 2
      then show ?thesis
        using "1.IH"(2) [OF refl False refl refl short _ 2 stack_pop_stands [OF "1.prems"(1)]] l cp short by simp
    next
      case 3
      then have s: "\<not> length st + 1 + length ?c \<ge> PATH_MAX" using l short by (auto split: if_splits)
      have n: "name_ok ?c" using c 3 by (simp add: name_ok_def)
      have "stands_for (stack_push st ?c) (cs @ [?c])" using stack_push_stands [OF "1.prems"(1) n] s by simp
      then show ?thesis using "1.IH"(3) [OF refl False refl refl short 3 s] l cp short 3 s by simp
    qed
  next
    case True
    then show ?thesis using 1 by (simp add: components_Nil resolve_loop_Nil)
  qed
qed

definition needs :: "string \<Rightarrow> nat" where
  "needs p = length p + (if p = [] \<or> hd p = slash then 0 else 1)"

lemma needs_component:
  assumes "skip_slash p \<noteq> []"
  shows "length (first_name (skip_slash p)) + 1 +
    needs (after_name (skip_slash p)) \<le> needs p"
proof -
  let ?q = "skip_slash p"
  let ?r = "after_name ?q"
  have r: "needs ?r = length ?r" using after_name_hd by (auto simp: needs_def)
  have q: "length (first_name ?q) + length ?r = length ?q" by (simp add: name_parts flip: length_append)
  have "length ?q + 1 \<le> needs p"
  proof (cases p)
    case (Cons c t)
    then show ?thesis using skip_slash_length [of p] skip_slash_length [of t] by (auto simp: needs_def)
  qed (use assms in simp)
  then show ?thesis using q r by linarith
qed

lemma resolve_loop_total:
  assumes "stands_for st cs" "length st + needs p < PATH_MAX"
  shows "\<exists>out. resolve_loop st p = Inr out"
  using assms
proof (induction st p arbitrary: cs rule: resolve_loop.induct)
  case (1 st p)
  let ?q = "skip_slash p"
  let ?c = "first_name ?q" and ?r = "after_name ?q"
  show ?case
  proof (cases "?q = []")
    case False
    have c: "comp_ok ?c" using components_ok [of ?c p] components_Cons [OF False] by simp
    note q = needs_component [OF False]
    have short: "\<not> length ?c \<ge> PATH_MAX" using q "1.prems"(2) by linarith
    have s: "\<not> length st + 1 + length ?c \<ge> PATH_MAX" using q "1.prems"(2) by linarith
    note l = resolve_loop_Cons [OF False, of st]
    consider "?c = ''.''" | "?c = ''..''" | "?c \<noteq> ''.''" "?c \<noteq> ''..''" by blast
    then show ?thesis
    proof cases
      case 1
      then show ?thesis using "1.IH"(1) [OF refl False refl refl short 1 "1.prems"(1)] l q "1.prems"(2) by simp
    next
      case 2
      have "length (stack_pop st) \<le> length st" 
        using length_dropWhile_le [of "\<lambda>c. c \<noteq> slash" "rev st"] by (simp add: stack_pop_def)
      then show ?thesis
        using "1.IH"(2) [OF refl False refl refl short _ 2 stack_pop_stands [OF "1.prems"(1)]] l q "1.prems"(2) 2 by simp
    next
      case 3
      have n: "name_ok ?c" using c 3 by (simp add: name_ok_def)
      have st: "stands_for (stack_push st ?c) (cs @ [?c])" using stack_push_stands [OF "1.prems"(1) n] s by simp
      have "length (stack_push st ?c) \<le> length st + 1 + length ?c" by (simp add: stack_push_def)
      then have "length (stack_push st ?c) + needs ?r < PATH_MAX" using q "1.prems"(2) by linarith
      then show ?thesis using "1.IH"(3) [OF refl False refl refl short 3 s st] l 3 s by simp
    qed
  next
    case True
    then show ?thesis by (simp add: resolve_loop_Nil)
  qed
qed

subsection \<open>Correctness\<close>

text \<open>C33: path resolution.  Against a base that is an absolute path without \<open>.\<close> and \<open>..\<close>, a non-empty
  path resolves to the absolute path of the directory its components lead to: an absolute path starts
  at the root, a relative one at the base, \<open>.\<close> stays, \<open>..\<close> goes to the parent and stays at the root.
  The result is again absolute and free of \<open>.\<close>, \<open>..\<close> and empty components, and fits the buffer.  If base
  and path together fit, the resolution succeeds.\<close>

theorem path_resolve_correct:
  assumes base: "\<forall>c\<in>set dir. name_ok c" "length (abs_path dir) < PATH_MAX" and p: "path \<noteq> []"
  defines "cs \<equiv> normal (if hd path = slash then [] else dir) (components path)"
  shows "(\<forall>out. path_resolve (abs_path dir) path = Inr out \<longrightarrow>
       out = abs_path cs \<and> (\<forall>c\<in>set cs. name_ok c) \<and> length out < PATH_MAX) \<and>
    (length (abs_path dir) + length path + 1 < PATH_MAX \<longrightarrow> (\<exists>out. path_resolve (abs_path dir) path = Inr out))"
proof -
  let ?st = "if hd path = slash then [] else abs_path dir"
  have copy: "str_copy st PATH_MAX = st" if "length st < PATH_MAX" for st using that by (simp add: str_copy_def)
  have st: "stands_for ?st (if hd path = slash then [] else dir)"
    using base by (auto simp: abs_path_def stands_for_def)
  have hd: "abs_path dir \<noteq> []" "hd (abs_path dir) = slash" by (cases dir; simp add: abs_path_def)+
  have eq: "path_resolve (abs_path dir) path =
      (case resolve_loop ?st path of Inl e \<Rightarrow> Inl e | Inr st \<Rightarrow> Inr (if st = [] then ''/'' else str_copy st PATH_MAX))"
    using p hd copy [OF base(2)] by (simp add: path_resolve_def)
  have out: "out = abs_path cs \<and> (\<forall>c\<in>set cs. name_ok c) \<and> length out < PATH_MAX"
    if o: "path_resolve (abs_path dir) path = Inr out" for out
  proof -
    obtain r where r: "resolve_loop ?st path = Inr r" and out: "out = (if r = [] then ''/'' else str_copy r PATH_MAX)"
      using o eq by (auto split: sum.splits)
    have s: "stands_for r cs" using resolve_loop_stands [OF st r] by (simp add: cs_def)
    then have l: "length r < PATH_MAX" "\<forall>c\<in>set cs. name_ok c" by (simp_all add: stands_for_def)
    have "cs = [] \<Longrightarrow> out = ''/''" using s out copy [OF l(1)] by auto
    moreover have "cs \<noteq> [] \<Longrightarrow> out = steps cs" using s out copy [OF l(1)] by (cases cs) (auto simp: stands_for_def)
    moreover have "length out < PATH_MAX" using out copy [OF l(1)] l(1) by simp
    ultimately show ?thesis using l(2) by (simp add: abs_path_def)
  qed
  have "\<exists>out. path_resolve (abs_path dir) path = Inr out" if "length (abs_path dir) + length path + 1 < PATH_MAX"
  proof -
    have "length ?st + needs path < PATH_MAX" using that by (simp add: needs_def)
    then obtain r where "resolve_loop ?st path = Inr r" using resolve_loop_total [OF st, of path] by blast
    then show ?thesis using eq by simp
  qed
  then show ?thesis using out by blast
qed

theorem path_resolve_correct_witness:
  "path_resolve ''/usr/bin'' ''../lib/./x'' = Inr ''/usr/lib/x''"
proof -
  have ok: "\<forall>c\<in>set [''usr'', ''bin'']. name_ok c" by (simp add: name_ok_def comp_ok_def)
  have base: "abs_path [''usr'', ''bin''] = ''/usr/bin''" by (simp add: abs_path_def)
  have n: "abs_path (normal [''usr'', ''bin''] (components ''../lib/./x'')) = ''/usr/lib/x''" by code_simp
  show ?thesis using path_resolve_correct [OF ok, of "''../lib/./x''"] n by (auto simp: base)
qed

text \<open>Splitting inverts joining.  The parent and the name of an absolute path are its directory and its
  last component, trailing slashes ignored; the root has no name.\<close>

theorem path_parent_name_correct:
  assumes cs: "\<forall>c\<in>set cs. comp_ok c" and c: "comp_ok c" "length c < DNAME_INLINE_LEN"
    and l: "length (steps cs) < PATH_MAX"
  shows "path_parent_name (steps (cs @ [c]) @ replicate n slash) = Inr (abs_path cs, c) \<and>
    path_parent_name (slash # replicate n slash) = Inl (- ENOENT)"
proof -
  have rep: "dropWhile (\<lambda>c. c = slash) (replicate n slash @ xs) = dropWhile (\<lambda>c. c = slash) xs" for xs
    by (subst dropWhile_append2) simp_all
  have nc: "c \<noteq> []" "slash \<notin> set c" using c by (simp_all add: comp_ok_def)
  obtain a b where ab: "rev c = a # b" using nc(1) by (cases "rev c") auto
  then have "a \<in> set c" by (metis list.set_intros(1) set_rev)
  then have a: "a \<noteq> slash" using nc(2) by auto
  obtain t where t: "steps (cs @ [c]) = slash # t" "rev t = rev c @ (if cs = [] then [] else slash # rev (tl (steps cs)))"
    by (cases cs) auto
  have "dropWhile (\<lambda>c. c = slash) (rev t) = rev t" using t(2) ab a by simp
  then have trim: "trim_slashes (steps (cs @ [c]) @ replicate n slash) = steps (cs @ [c])"
    by (simp only: t(1)) (simp add: trim_slashes_def rep)
  have name: "takeWhile (\<lambda>c. c \<noteq> slash) (rev (steps (cs @ [c]))) = rev c"
    using nc(2) by (simp add: takeWhile_append)
  have "hd (steps (cs @ [c]) @ replicate n slash) = slash" using t(1) by simp
  then have "path_parent_name (steps (cs @ [c]) @ replicate n slash) = Inr (abs_path cs, c)"
    using trim name nc l c(2) unfolding path_parent_name_def by (auto simp: Let_def abs_path_def) (cases cs; simp)
  moreover have "path_parent_name (slash # replicate n slash) = Inl (- ENOENT)"
    using rep [of "[]"] by (simp add: path_parent_name_def trim_slashes_def)
  ultimately show ?thesis ..
qed

theorem path_parent_name_correct_witness:
  "path_parent_name ''/usr/lib/x'' = Inr (''/usr/lib'', ''x'')"
  using path_parent_name_correct [of "[''usr'', ''lib'']" "''x''" 0] by (simp add: comp_ok_def abs_path_def)

end
