(* ===== verification/Inode.thy ===== *)
theory Inode
  imports Slub_Correct Kstring Path "HOL-Library.Monad_Syntax"
begin

text \<open>
  Inodes and the memory file system's nodes: \<^verbatim>\<open>struct inode\<close> of \<^verbatim>\<open>include/linux/fs.h\<close>, \<^verbatim>\<open>struct
  ramfs_inode\<close> and \<^verbatim>\<open>struct ramfs_dentry\<close> of \<^verbatim>\<open>fs/ramfs.c\<close>, \<^verbatim>\<open>struct proc_inode\<close> of \<^verbatim>\<open>fs/procfs.c\<close>, the
  reference counts of \<^verbatim>\<open>fs/inode.c\<close> and the two functions behind the pointer \<open>i_free\<close>.  An inode pointer
  is an address; the generic part, the part of ramfs and the part of procfs are tables keyed by it,
  since \<open>container_of\<close> keeps the address.  A list of directory entries is a list.  File contents are
  bytes of the memory \<open>ram\<close>, allocated from the slab allocator \<open>heap\<close>.  An operation that may fail to
  return is a function into an option: \<open>None\<close> means that the kernel never comes back.
\<close>

subsection \<open>Data\<close>

type_synonym umode = "16 word"

abbreviation (input) S_IFMT :: umode where "S_IFMT \<equiv> 0xF000"
abbreviation (input) S_IFIFO :: umode where "S_IFIFO \<equiv> 0x1000"
abbreviation (input) S_IFCHR :: umode where "S_IFCHR \<equiv> 0x2000"
abbreviation (input) S_IFDIR :: umode where "S_IFDIR \<equiv> 0x4000"
abbreviation (input) S_IFLNK :: umode where "S_IFLNK \<equiv> 0xA000"
abbreviation (input) S_IFREG :: umode where "S_IFREG \<equiv> 0x8000"
abbreviation (input) I_PERSISTENT :: u32 where "I_PERSISTENT \<equiv> 1"
abbreviation (input) RAMFS_NAME_MAX :: nat where "RAMFS_NAME_MAX \<equiv> 255"
abbreviation (input) PROC_MAGIC :: u64 where "PROC_MAGIC \<equiv> 0x50524f43"

text \<open>The \<open>file_ops\<close> tables of the kernel, and the functions an \<open>i_free\<close> points to.\<close>

datatype file_ops = Ramfs_File_Ops | Ramfs_Dir_Ops | Proc_Root_Ops | Proc_Pid_Dir_Ops | Proc_File_Ops |
  Pipe_Read_Ops | Pipe_Write_Ops | Tty_Fops | Devnull_Fops | Serial_Fops

datatype i_free_fn = Ramfs_I_Free | Proc_I_Free

record inode =
  ino :: u64
  i_size :: u64
  i_type :: umode
  i_mode :: umode
  i_rdev :: u32
  i_op :: bool
  i_fop :: "file_ops option"
  i_private :: u64
  nlink :: u32
  i_count :: u32
  i_flags :: u32
  i_free :: "i_free_fn option"

record ramfs_dentry =
  d_at :: u64
  d_name :: string
  d_inode :: u64

record ramfs_inode =
  r_parent :: u64
  r_children :: "ramfs_dentry list"
  r_data :: u64
  r_capacity :: u64

record proc_inode =
  p_magic :: u64
  p_pid :: int
  p_kind :: nat
  p_text :: string

record fs =
  heap :: kmem
  ram :: bytes
  inodes :: "u64 \<Rightarrow> inode"
  rnodes :: "u64 \<Rightarrow> ramfs_inode"
  pnodes :: "u64 \<Rightarrow> proc_inode"
  root_inode :: u64
  next_ino :: u64

definition upd_inode :: "u64 \<Rightarrow> (inode \<Rightarrow> inode) \<Rightarrow> fs \<Rightarrow> fs" where
  "upd_inode i f s = s\<lparr>inodes := (inodes s)(i := f (inodes s i))\<rparr>"

definition upd_rnode :: "u64 \<Rightarrow> (ramfs_inode \<Rightarrow> ramfs_inode) \<Rightarrow> fs \<Rightarrow> fs" where
  "upd_rnode i f s = s\<lparr>rnodes := (rnodes s)(i := f (rnodes s i))\<rparr>"

definition fs_kfree :: "u64 \<Rightarrow> fs \<Rightarrow> fs" where
  "fs_kfree a s = s\<lparr>heap := kfree a (heap s)\<rparr>"

definition fs_kmalloc :: "u64 \<Rightarrow> fs \<Rightarrow> u64 option \<times> fs" where
  "fs_kmalloc n s = (case kmalloc n (heap s) of (r, h) \<Rightarrow> (r, s\<lparr>heap := h\<rparr>))"

definition inode_is_dir :: "u64 \<Rightarrow> fs \<Rightarrow> bool" where
  "inode_is_dir i s \<longleftrightarrow> i \<noteq> 0 \<and> i_type (inodes s i) = S_IFDIR"

definition inode_is_reg :: "u64 \<Rightarrow> fs \<Rightarrow> bool" where
  "inode_is_reg i s \<longleftrightarrow> i \<noteq> 0 \<and> i_type (inodes s i) = S_IFREG"

definition inode_is_lnk :: "u64 \<Rightarrow> fs \<Rightarrow> bool" where
  "inode_is_lnk i s \<longleftrightarrow> i \<noteq> 0 \<and> i_type (inodes s i) = S_IFLNK"

definition inode_is_chr :: "u64 \<Rightarrow> fs \<Rightarrow> bool" where
  "inode_is_chr i s \<longleftrightarrow> i \<noteq> 0 \<and> i_type (inodes s i) = S_IFCHR"

subsection \<open>Freeing a node\<close>

text \<open>
  \<open>ramfs_free_inode\<close> calls itself for every child of a directory; the calls still to be made and the
  blocks still to be freed are a list.  On a cyclic graph the recursion would not end.
\<close>

datatype free_item = Free_Inode u64 | Free_Dentry u64 | Free_Node u64

definition free_node :: "u64 \<Rightarrow> fs \<Rightarrow> fs" where
  "free_node ri s =
     (let s1 = (if r_data (rnodes s ri) \<noteq> 0 then fs_kfree (r_data (rnodes s ri)) s else s) in
      if ri \<noteq> root_inode s1 then fs_kfree ri s1 else s1)"

definition child_items :: "u64 \<Rightarrow> fs \<Rightarrow> free_item list" where
  "child_items ri s =
     (if i_type (inodes s ri) = S_IFDIR
      then concat (map (\<lambda>d. [Free_Inode (d_inode d), Free_Dentry (d_at d)]) (r_children (rnodes s ri))) else [])"

partial_function (option) free_items :: "free_item list \<Rightarrow> fs \<Rightarrow> fs option" where
  "free_items w s =
     (case w of
        [] \<Rightarrow> Some s
      | x # r \<Rightarrow>
          (case x of
             Free_Inode ri \<Rightarrow> if ri = 0 then free_items r s else free_items (child_items ri s @ Free_Node ri # r) s
           | Free_Dentry d \<Rightarrow> free_items r (fs_kfree d s)
           | Free_Node ri \<Rightarrow> free_items r (free_node ri s)))"

declare free_items.simps [code]

definition ramfs_free_inode :: "u64 \<Rightarrow> fs \<Rightarrow> fs option" where
  "ramfs_free_inode ri s = free_items [Free_Inode ri] s"

definition proc_is_inode :: "u64 \<Rightarrow> fs \<Rightarrow> bool" where
  "proc_is_inode i s \<longleftrightarrow> i \<noteq> 0 \<and>
     (i_fop (inodes s i) = Some Proc_Pid_Dir_Ops \<or> i_fop (inodes s i) = Some Proc_File_Ops)"

definition proc_i_free :: "u64 \<Rightarrow> fs \<Rightarrow> fs" where
  "proc_i_free i s =
     (if \<not> proc_is_inode i s then s
      else if p_magic (pnodes s i) \<noteq> PROC_MAGIC then s
      else fs_kfree i (s\<lparr>pnodes := (pnodes s)(i := (pnodes s i)\<lparr>p_magic := 0\<rparr>)\<rparr>))"

definition run_i_free :: "u64 \<Rightarrow> fs \<Rightarrow> fs option" where
  "run_i_free i s =
     (case i_free (inodes s i) of
        None \<Rightarrow> Some s
      | Some Ramfs_I_Free \<Rightarrow> ramfs_free_inode i s
      | Some Proc_I_Free \<Rightarrow> Some (proc_i_free i s))"

subsection \<open>Reference counts\<close>

definition iget :: "u64 \<Rightarrow> fs \<Rightarrow> fs" where
  "iget i s = (if i \<noteq> 0 then upd_inode i (\<lambda>n. n\<lparr>i_count := i_count n + 1\<rparr>) s else s)"

definition inode_maybe_evict :: "u64 \<Rightarrow> fs \<Rightarrow> fs option" where
  "inode_maybe_evict i s =
     (if i = 0 \<or> i_count (inodes s i) \<noteq> 0 then Some s
      else if i_flags (inodes s i) AND I_PERSISTENT \<noteq> 0 \<and> nlink (inodes s i) \<noteq> 0 then Some s
      else run_i_free i s)"

definition drop_nlink :: "u64 \<Rightarrow> fs \<Rightarrow> fs option" where
  "drop_nlink i s =
     (if i = 0 then Some s
      else inode_maybe_evict i
        (if nlink (inodes s i) \<noteq> 0 then upd_inode i (\<lambda>n. n\<lparr>nlink := nlink n - 1\<rparr>) s else s))"

definition clear_nlink :: "u64 \<Rightarrow> fs \<Rightarrow> fs option" where
  "clear_nlink i s =
     (if i = 0 then Some s else inode_maybe_evict i (upd_inode i (\<lambda>n. n\<lparr>nlink := 0\<rparr>) s))"

definition iput :: "u64 \<Rightarrow> fs \<Rightarrow> fs option" where
  "iput i s =
     (if i = 0 \<or> i_count (inodes s i) = 0 then Some s
      else inode_maybe_evict i (upd_inode i (\<lambda>n. n\<lparr>i_count := i_count n - 1\<rparr>) s))"

end
