(* ===== verification/Ramfs.thy ===== *)
theory Ramfs
  imports Inode
begin

text \<open>
  The memory file system of \<^verbatim>\<open>fs/ramfs.c\<close> with the dispatching functions \<^verbatim>\<open>vfs_mkdir\<close> to \<^verbatim>\<open>vfs_rename\<close>
  of \<^verbatim>\<open>fs/namei.c\<close> that its path-based entry points call.  A name argument is the string in the
  caller's dentry; the inode an operation stores in that dentry is part of its result, as is the error
  number.  The buffer a read fills or a write takes is a list of bytes.
\<close>

subsection \<open>Nodes\<close>

abbreviation (input) sizeof_ramfs_inode :: u64 where "sizeof_ramfs_inode \<equiv> 112"
abbreviation (input) sizeof_ramfs_dentry :: u64 where "sizeof_ramfs_dentry \<equiv> 272"

fun ramfs_streq :: "string \<Rightarrow> string \<Rightarrow> bool" where
  "ramfs_streq [] [] \<longleftrightarrow> True"
| "ramfs_streq (a # as) (b # bs) \<longleftrightarrow> a = b \<and> ramfs_streq as bs"
| "ramfs_streq _ _ \<longleftrightarrow> False"

definition ramfs_default_perm :: "umode \<Rightarrow> umode" where
  "ramfs_default_perm t =
     (if t = S_IFDIR \<or> t = S_IFREG then 0x1ED
      else if t = S_IFLNK then 0x1FF
      else if t = S_IFCHR then 0x1B6
      else 0x1A4)"

definition ramfs_apply_mode :: "u64 \<Rightarrow> umode \<Rightarrow> fs \<Rightarrow> fs" where
  "ramfs_apply_mode i mode = upd_inode i (\<lambda>n. n\<lparr>i_mode := i_type n OR (mode AND 0x1FF)\<rparr>)"

definition ramfs_inode_init :: "u64 \<Rightarrow> umode \<Rightarrow> fs \<Rightarrow> fs" where
  "ramfs_inode_init ri t s =
     s\<lparr>inodes := (inodes s)(ri :=
          \<lparr>ino = next_ino s, i_size = 0, i_type = t, i_mode = t OR ramfs_default_perm t, i_rdev = 0,
           i_op = (t = S_IFDIR),
           i_fop = (if t = S_IFREG then Some Ramfs_File_Ops else if t = S_IFDIR then Some Ramfs_Dir_Ops else None),
           i_private = 0, nlink = (if t = S_IFDIR then 2 else 1), i_count = 0, i_flags = I_PERSISTENT,
           i_free = Some Ramfs_I_Free\<rparr>),
       rnodes := (rnodes s)(ri := \<lparr>r_parent = 0, r_children = [], r_data = 0, r_capacity = 0\<rparr>),
       next_ino := next_ino s + 1\<rparr>"

definition ramfs_alloc_inode :: "umode \<Rightarrow> fs \<Rightarrow> u64 option \<times> fs" where
  "ramfs_alloc_inode t s =
     (case fs_kmalloc sizeof_ramfs_inode s of
        (None, s1) \<Rightarrow> (None, s1)
      | (Some ri, s1) \<Rightarrow> (Some ri, ramfs_inode_init ri t s1))"

subsection \<open>Directory entries\<close>

definition ramfs_find_child :: "u64 \<Rightarrow> string \<Rightarrow> fs \<Rightarrow> ramfs_dentry option" where
  "ramfs_find_child dir name s =
     (if dir = 0 \<or> i_type (inodes s dir) \<noteq> S_IFDIR then None
      else find (\<lambda>d. ramfs_streq (d_name d) name) (r_children (rnodes s dir)))"

definition ramfs_set_name :: "string \<Rightarrow> string" where
  "ramfs_set_name src = take RAMFS_NAME_MAX src"

definition ramfs_add_child :: "u64 \<Rightarrow> string \<Rightarrow> u64 \<Rightarrow> fs \<Rightarrow> int \<times> fs" where
  "ramfs_add_child dir name ri s =
     (if dir = 0 \<or> i_type (inodes s dir) \<noteq> S_IFDIR then (- ENOTDIR, s)
      else if ramfs_find_child dir name s \<noteq> None then (- EEXIST, s)
      else case fs_kmalloc sizeof_ramfs_dentry s of
        (None, s1) \<Rightarrow> (- ENOMEM, s1)
      | (Some a, s1) \<Rightarrow>
          let s2 = (if i_type (inodes s1 ri) = S_IFDIR then upd_rnode ri (\<lambda>n. n\<lparr>r_parent := dir\<rparr>) s1 else s1);
              d = \<lparr>d_at = a, d_name = ramfs_set_name name, d_inode = ri\<rparr> in
          (0, upd_rnode dir (\<lambda>n. n\<lparr>r_children := d # r_children n\<rparr>) s2))"

text \<open>\<open>ramfs_remove_child\<close> also returns the inode of the entry it has unlinked.\<close>

definition ramfs_remove_child :: "u64 \<Rightarrow> string \<Rightarrow> fs \<Rightarrow> int \<times> u64 \<times> fs" where
  "ramfs_remove_child dir name s =
     (if dir = 0 \<or> i_type (inodes s dir) \<noteq> S_IFDIR then (- ENOTDIR, 0, s)
      else case find (\<lambda>d. ramfs_streq (d_name d) name) (r_children (rnodes s dir)) of
        None \<Rightarrow> (- ENOENT, 0, s)
      | Some d \<Rightarrow>
          (0, d_inode d, fs_kfree (d_at d) (upd_rnode dir (\<lambda>n. n\<lparr>r_children := remove1 d (r_children n)\<rparr>) s)))"

subsection \<open>Inode operations\<close>

definition ramfs_inode_mkdir :: "u64 \<Rightarrow> string \<Rightarrow> umode \<Rightarrow> fs \<Rightarrow> int \<times> u64 \<times> fs" where
  "ramfs_inode_mkdir dir name mode s =
     (if dir = 0 \<or> name = [] then (- EINVAL, 0, s)
      else if \<not> inode_is_dir dir s then (- ENOTDIR, 0, s)
      else if ramfs_find_child dir name s \<noteq> None then (- EEXIST, 0, s)
      else case ramfs_alloc_inode S_IFDIR s of
        (None, s1) \<Rightarrow> (- ENOMEM, 0, s1)
      | (Some ri, s1) \<Rightarrow>
          let (err, s2) = ramfs_add_child dir name ri (ramfs_apply_mode ri mode s1) in
          if err \<noteq> 0 then (err, 0, fs_kfree ri s2) else (0, ri, s2))"

definition ramfs_inode_mknod :: "u64 \<Rightarrow> string \<Rightarrow> umode \<Rightarrow> u32 \<Rightarrow> fs \<Rightarrow> int \<times> u64 \<times> fs" where
  "ramfs_inode_mknod dir name mode rdev s =
     (if dir = 0 \<or> name = [] then (- EINVAL, 0, s)
      else if \<not> inode_is_dir dir s then (- ENOTDIR, 0, s)
      else if mode AND S_IFMT \<noteq> S_IFCHR then (- EPERM, 0, s)
      else if ramfs_find_child dir name s \<noteq> None then (- EEXIST, 0, s)
      else case ramfs_alloc_inode S_IFCHR s of
        (None, s1) \<Rightarrow> (- ENOMEM, 0, s1)
      | (Some ri, s1) \<Rightarrow>
          let s2 = upd_inode ri (\<lambda>n. n\<lparr>i_rdev := rdev\<rparr>) (ramfs_apply_mode ri mode s1);
              (err, s3) = ramfs_add_child dir name ri s2 in
          if err \<noteq> 0 then (err, 0, fs_kfree ri s3) else (0, ri, s3))"

definition ramfs_inode_unlink :: "u64 \<Rightarrow> string \<Rightarrow> fs \<Rightarrow> (int \<times> fs) option" where
  "ramfs_inode_unlink dir name s =
     (if dir = 0 \<or> name = [] then Some (- EINVAL, s)
      else if \<not> inode_is_dir dir s then Some (- ENOTDIR, s)
      else
        let (err, ri, s1) = ramfs_remove_child dir name s in
        if err \<noteq> 0 then Some (err, s1)
        else if i_type (inodes s1 ri) = S_IFDIR then Some (- EISDIR, snd (ramfs_add_child dir name ri s1))
        else do { s2 \<leftarrow> drop_nlink ri s1; Some (0, s2) })"

definition ramfs_inode_link :: "u64 \<Rightarrow> u64 \<Rightarrow> string \<Rightarrow> fs \<Rightarrow> int \<times> u64 \<times> fs" where
  "ramfs_inode_link old dir name s =
     (if old = 0 \<or> dir = 0 \<or> name = [] then (- EINVAL, 0, s)
      else if \<not> inode_is_dir dir s then (- ENOTDIR, 0, s)
      else if inode_is_dir old s then (- EPERM, 0, s)
      else if ramfs_find_child dir name s \<noteq> None then (- EEXIST, 0, s)
      else
        let (err, s1) = ramfs_add_child dir name old s in
        if err \<noteq> 0 then (err, 0, s1)
        else (0, old, upd_inode old (\<lambda>n. n\<lparr>nlink := nlink n + 1\<rparr>) s1))"

text \<open>The bytes of a C string, and storing bytes at an address.\<close>

definition string_bytes :: "string \<Rightarrow> u8 list" where
  "string_bytes xs = map (\<lambda>c. of_nat (of_char c)) xs"

definition bytes_string :: "u8 list \<Rightarrow> string" where
  "bytes_string bs = map (\<lambda>b. char_of (unat b)) (takeWhile (\<lambda>b. b \<noteq> 0) bs)"

fun put_bytes :: "u64 \<Rightarrow> u8 list \<Rightarrow> bytes \<Rightarrow> bytes" where
  "put_bytes a [] m = m"
| "put_bytes a (b # bs) m = put_bytes (a + 1) bs (m(a := b))"

definition ramfs_inode_symlink :: "u64 \<Rightarrow> string \<Rightarrow> string \<Rightarrow> fs \<Rightarrow> int \<times> u64 \<times> fs" where
  "ramfs_inode_symlink dir name target s =
     (if dir = 0 \<or> name = [] then (- EINVAL, 0, s)
      else if \<not> inode_is_dir dir s then (- ENOTDIR, 0, s)
      else if length target \<ge> PATH_MAX then (- ENAMETOOLONG, 0, s)
      else if ramfs_find_child dir name s \<noteq> None then (- EEXIST, 0, s)
      else case ramfs_alloc_inode S_IFLNK s of
        (None, s1) \<Rightarrow> (- ENOMEM, 0, s1)
      | (Some ri, s1) \<Rightarrow>
          let len = of_nat (length target) :: u64;
              (ok, s2) =
                (if len > 0 then
                   case fs_kmalloc (len + 1) s1 of
                     (None, s2) \<Rightarrow> (False, fs_kfree ri s2)
                   | (Some a, s2) \<Rightarrow>
                       (True, upd_inode ri (\<lambda>n. n\<lparr>i_size := len\<rparr>)
                          (upd_rnode ri (\<lambda>n. n\<lparr>r_data := a, r_capacity := len + 1\<rparr>)
                            (s2\<lparr>ram := put_bytes a (string_bytes target @ [0]) (ram s2)\<rparr>)))
                 else (True, s1)) in
          if \<not> ok then (- ENOMEM, 0, s2)
          else
            let (err, s3) = ramfs_add_child dir name ri s2 in
            if err \<noteq> 0 then
              (err, 0, fs_kfree ri (if r_data (rnodes s3 ri) \<noteq> 0 then fs_kfree (r_data (rnodes s3 ri)) s3 else s3))
            else (0, ri, s3))"

definition ramfs_inode_rmdir :: "u64 \<Rightarrow> string \<Rightarrow> fs \<Rightarrow> (int \<times> fs) option" where
  "ramfs_inode_rmdir dir name s =
     (if dir = 0 \<or> name = [] then Some (- EINVAL, s)
      else if \<not> inode_is_dir dir s then Some (- ENOTDIR, s)
      else
        let (err, ri, s1) = ramfs_remove_child dir name s in
        if err \<noteq> 0 then Some (err, s1)
        else if i_type (inodes s1 ri) \<noteq> S_IFDIR then Some (- ENOTDIR, snd (ramfs_add_child dir name ri s1))
        else if r_children (rnodes s1 ri) \<noteq> [] then Some (- ENOTEMPTY, snd (ramfs_add_child dir name ri s1))
        else do { s2 \<leftarrow> clear_nlink ri s1; Some (0, s2) })"

text \<open>\<open>ramfs_inode_rename\<close>: is \<open>src\<close> the directory \<open>p\<close> or above it?  The loop follows the parent pointers.\<close>

partial_function (option) is_ancestor :: "u64 \<Rightarrow> fs \<Rightarrow> u64 \<Rightarrow> bool option" where
  "is_ancestor src s p =
     (if p = 0 then Some False else if p = src then Some True else is_ancestor src s (r_parent (rnodes s p)))"

declare is_ancestor.simps [code]

text \<open>The entry that is replaced goes first; its inode loses its last name.\<close>

definition rename_replace :: "u64 \<Rightarrow> u64 \<Rightarrow> string \<Rightarrow> ramfs_dentry option \<Rightarrow> fs \<Rightarrow> (int \<times> fs) option" where
  "rename_replace src new_dir new_name dst s =
     (case dst of
        None \<Rightarrow> Some (0, s)
      | Some d \<Rightarrow>
          let t = i_type (inodes s (d_inode d)) in
          if i_type (inodes s src) = S_IFDIR \<and> t \<noteq> S_IFDIR then Some (- ENOTDIR, s)
          else if i_type (inodes s src) = S_IFDIR \<and> r_children (rnodes s (d_inode d)) \<noteq> [] then Some (- ENOTEMPTY, s)
          else if i_type (inodes s src) \<noteq> S_IFDIR \<and> t = S_IFDIR then Some (- EISDIR, s)
          else
            let (err, ri, s1) = ramfs_remove_child new_dir new_name s in
            if err \<noteq> 0 then Some (err, s1)
            else do {
              s2 \<leftarrow> (if i_type (inodes s1 ri) = S_IFDIR then clear_nlink ri s1 else drop_nlink ri s1);
              Some (0, s2) })"

text \<open>The entry that moves keeps its place in its own directory and is removed and added otherwise.\<close>

definition rename_move :: "u64 \<Rightarrow> string \<Rightarrow> ramfs_dentry \<Rightarrow> u64 \<Rightarrow> string \<Rightarrow> fs \<Rightarrow> int \<times> fs" where
  "rename_move old_dir old_name src_de new_dir new_name s =
     (if old_dir = new_dir then
        (0, upd_rnode old_dir (\<lambda>n. n\<lparr>r_children :=
              map (\<lambda>d. if d_at d = d_at src_de then d\<lparr>d_name := ramfs_set_name new_name\<rparr> else d) (r_children n)\<rparr>) s)
      else
        let (err, src, s1) = ramfs_remove_child old_dir old_name s in
        if err \<noteq> 0 then (err, s1)
        else
          let (err, s2) = ramfs_add_child new_dir new_name src s1 in
          if err \<noteq> 0 then (err, snd (ramfs_add_child old_dir old_name src s2)) else (0, s2))"

definition ramfs_inode_rename :: "u64 \<Rightarrow> string \<Rightarrow> u64 \<Rightarrow> string \<Rightarrow> fs \<Rightarrow> (int \<times> fs) option" where
  "ramfs_inode_rename old_dir old_name new_dir new_name s =
     (if old_dir = 0 \<or> new_dir = 0 then Some (- EINVAL, s)
      else if \<not> inode_is_dir old_dir s \<or> \<not> inode_is_dir new_dir s then Some (- ENOTDIR, s)
      else if old_name = [] \<or> new_name = [] then Some (- ENOENT, s)
      else if is_dotname old_name \<or> is_dotname new_name then Some (- EBUSY, s)
      else case ramfs_find_child old_dir old_name s of
        None \<Rightarrow> Some (- ENOENT, s)
      | Some src_de \<Rightarrow>
          let src = d_inode src_de; dst = ramfs_find_child new_dir new_name s in
          if map_option d_inode dst = Some src then Some (0, s)
          else do {
            loop \<leftarrow> (if i_type (inodes s src) = S_IFDIR then is_ancestor src s new_dir else Some False);
            if loop then Some (- EINVAL, s)
            else do {
              (err, s1) \<leftarrow> rename_replace src new_dir new_name dst s;
              if err \<noteq> 0 then Some (err, s1)
              else Some (rename_move old_dir old_name src_de new_dir new_name s1) } })"

subsection \<open>The generic layer\<close>

text \<open>All operations of \<open>ramfs_dir_inode_ops\<close> are present, so a table is as good as its pointer.\<close>

definition vfs_mkdir :: "u64 \<Rightarrow> string \<Rightarrow> umode \<Rightarrow> fs \<Rightarrow> int \<times> u64 \<times> fs" where
  "vfs_mkdir dir name mode s =
     (if dir = 0 then (- EINVAL, 0, s)
      else if \<not> inode_is_dir dir s then (- ENOTDIR, 0, s)
      else if \<not> i_op (inodes s dir) then (- EPERM, 0, s)
      else ramfs_inode_mkdir dir name mode s)"

definition vfs_mknod :: "u64 \<Rightarrow> string \<Rightarrow> umode \<Rightarrow> u32 \<Rightarrow> fs \<Rightarrow> int \<times> u64 \<times> fs" where
  "vfs_mknod dir name mode rdev s =
     (if dir = 0 then (- EINVAL, 0, s)
      else if \<not> inode_is_dir dir s then (- ENOTDIR, 0, s)
      else if \<not> i_op (inodes s dir) then (- EPERM, 0, s)
      else if mode AND S_IFMT \<noteq> S_IFCHR then (- EINVAL, 0, s)
      else ramfs_inode_mknod dir name mode rdev s)"

text \<open>The argument after the name is \<open>dentry->inode\<close>.\<close>

definition vfs_unlink :: "u64 \<Rightarrow> string \<Rightarrow> u64 \<Rightarrow> fs \<Rightarrow> (int \<times> fs) option" where
  "vfs_unlink dir name i s =
     (if dir = 0 then Some (- EINVAL, s)
      else if \<not> inode_is_dir dir s then Some (- ENOTDIR, s)
      else if \<not> i_op (inodes s dir) then Some (- EPERM, s)
      else if i \<noteq> 0 \<and> inode_is_dir i s then Some (- EISDIR, s)
      else ramfs_inode_unlink dir name s)"

definition vfs_rmdir :: "u64 \<Rightarrow> string \<Rightarrow> u64 \<Rightarrow> fs \<Rightarrow> (int \<times> fs) option" where
  "vfs_rmdir dir name i s =
     (if dir = 0 then Some (- EINVAL, s)
      else if \<not> inode_is_dir dir s then Some (- ENOTDIR, s)
      else if \<not> i_op (inodes s dir) then Some (- EPERM, s)
      else if i \<noteq> 0 \<and> \<not> inode_is_dir i s then Some (- ENOTDIR, s)
      else ramfs_inode_rmdir dir name s)"

definition vfs_link :: "u64 \<Rightarrow> u64 \<Rightarrow> string \<Rightarrow> fs \<Rightarrow> int \<times> u64 \<times> fs" where
  "vfs_link old dir name s =
     (if old = 0 \<or> dir = 0 then (- EINVAL, 0, s)
      else if \<not> inode_is_dir dir s then (- ENOTDIR, 0, s)
      else if \<not> i_op (inodes s dir) then (- EPERM, 0, s)
      else if inode_is_dir old s then (- EPERM, 0, s)
      else ramfs_inode_link old dir name s)"

definition vfs_symlink :: "string \<Rightarrow> u64 \<Rightarrow> string \<Rightarrow> fs \<Rightarrow> int \<times> u64 \<times> fs" where
  "vfs_symlink target dir name s =
     (if dir = 0 then (- EINVAL, 0, s)
      else if \<not> inode_is_dir dir s then (- ENOTDIR, 0, s)
      else if \<not> i_op (inodes s dir) then (- EPERM, 0, s)
      else ramfs_inode_symlink dir name target s)"

definition vfs_rename :: "u64 \<Rightarrow> string \<Rightarrow> u64 \<Rightarrow> string \<Rightarrow> fs \<Rightarrow> (int \<times> fs) option" where
  "vfs_rename old_dir old_name new_dir new_name s =
     (if old_dir = 0 \<or> new_dir = 0 then Some (- EINVAL, s)
      else if \<not> inode_is_dir old_dir s \<or> \<not> inode_is_dir new_dir s then Some (- ENOTDIR, s)
      else if \<not> i_op (inodes s old_dir) then Some (- EPERM, s)
      else if i_op (inodes s old_dir) \<noteq> i_op (inodes s new_dir) then Some (- EXDEV, s)
      else ramfs_inode_rename old_dir old_name new_dir new_name s)"

subsection \<open>Path lookup\<close>

text \<open>The loop of \<open>ramfs_lookup_at\<close>; the path is not empty and does not begin with a slash.\<close>

function lookup_loop :: "fs \<Rightarrow> u64 \<Rightarrow> string \<Rightarrow> u64 option" where
  "lookup_loop s dir path =
     (let name = take RAMFS_NAME_MAX (first_name path) in
      if name = [] then None
      else
        let rest = skip_slash (drop (length name) path) in
        if name = ''.'' then (if rest = [] then Some dir else lookup_loop s dir rest)
        else if name = ''..'' then
          let up = (if r_parent (rnodes s dir) \<noteq> 0 then r_parent (rnodes s dir) else dir) in
          if rest = [] then Some up else lookup_loop s up rest
        else case ramfs_find_child dir name s of
          None \<Rightarrow> None
        | Some d \<Rightarrow>
            if rest = [] then Some (d_inode d)
            else if i_type (inodes s (d_inode d)) \<noteq> S_IFDIR then None
            else lookup_loop s (d_inode d) rest)"
  by auto

lemma rest_shorter:
  "take 255 (first_name path) \<noteq> [] \<Longrightarrow>
   length (skip_slash (drop (length (take 255 (first_name path))) path)) < length path"
proof -
  assume a: "take 255 (first_name path) \<noteq> []"
  then have "length (skip_slash (drop (length (take 255 (first_name path))) path)) \<le>
      length path - length (take 255 (first_name path))"
    using skip_slash_length [of "drop (length (take 255 (first_name path))) path"] by simp
  moreover have "0 < length (take 255 (first_name path))" using a by (simp add: first_name_def)
  moreover have "0 < length path" using a by (cases path) (auto simp: first_name_def)
  ultimately show ?thesis by linarith
qed

termination lookup_loop
  by (relation "measure (\<lambda>(s, dir, path). length path)") (use rest_shorter in auto)

declare lookup_loop.simps [simp del]

definition ramfs_lookup_at :: "u64 \<Rightarrow> string \<Rightarrow> fs \<Rightarrow> u64 option" where
  "ramfs_lookup_at dir path s =
     (let p = skip_slash path in if p = [] then Some dir else lookup_loop s dir p)"

text \<open>
  The loop of \<open>ramfs_lookup_parent\<close>: it descends as long as a component is followed by a slash and
  remembers where the last component began.
\<close>

function parent_loop :: "fs \<Rightarrow> u64 \<Rightarrow> string option \<Rightarrow> string \<Rightarrow> (u64 \<times> string option) option" where
  "parent_loop s dir lst p =
     (let q = skip_slash p in
      if q = [] then Some (dir, lst)
      else if after_name q = [] then Some (dir, Some q)
      else
        let name = take RAMFS_NAME_MAX (first_name q); rest = after_name q in
        if name = ''.'' then parent_loop s dir (Some q) rest
        else if name = ''..'' then
          parent_loop s (if r_parent (rnodes s dir) \<noteq> 0 then r_parent (rnodes s dir) else dir) (Some q) rest
        else case ramfs_find_child dir name s of
          None \<Rightarrow> None
        | Some d \<Rightarrow> if i_type (inodes s (d_inode d)) \<noteq> S_IFDIR then None else parent_loop s (d_inode d) (Some q) rest)"
  by auto
termination parent_loop
  by (relation "measure (\<lambda>(s, dir, lst, p). length p)") (auto simp: component_shrinks)

declare parent_loop.simps [simp del]

definition ramfs_lookup_parent :: "string \<Rightarrow> fs \<Rightarrow> (u64 \<times> string) option" where
  "ramfs_lookup_parent path s =
     (case parent_loop s (root_inode s) None path of
        Some (dir, Some q) \<Rightarrow>
          let name = first_name q in
          if name = [] \<or> length name > RAMFS_NAME_MAX then None else Some (dir, name)
      | _ \<Rightarrow> None)"

definition ramfs_init :: "fs \<Rightarrow> fs" where
  "ramfs_init s = ramfs_inode_init (root_inode s) S_IFDIR (s\<lparr>next_ino := 1\<rparr>)"

definition ramfs_name_in_parent :: "u64 \<Rightarrow> u64 \<Rightarrow> fs \<Rightarrow> string option" where
  "ramfs_name_in_parent parent child s =
     (if parent = 0 \<or> child = 0 then None
      else map_option d_name (find (\<lambda>d. d_inode d = child) (r_children (rnodes s parent))))"

text \<open>The first loop of \<open>ramfs_inode_path\<close>: the nodes from \<open>p\<close> up to the root; \<open>k\<close> entries of \<open>chain\<close> are free.\<close>

fun path_chain :: "nat \<Rightarrow> u64 \<Rightarrow> fs \<Rightarrow> int + u64 list" where
  "path_chain k p s =
     (if p = 0 then Inl (- ENOTDIR)
      else if p = root_inode s then Inr []
      else case k of
        0 \<Rightarrow> Inl (- ENAMETOOLONG)
      | Suc k \<Rightarrow>
          (case path_chain k (r_parent (rnodes s p)) s of Inl e \<Rightarrow> Inl e | Inr c \<Rightarrow> Inr (p # c)))"

declare path_chain.simps [simp del]

text \<open>The second loop, over the nodes from the top down.\<close>

fun path_names :: "nat \<Rightarrow> u64 list \<Rightarrow> string \<Rightarrow> fs \<Rightarrow> int + string" where
  "path_names sz [] buf s = Inr buf"
| "path_names sz (c # cs) buf s =
     (let parent = (if r_parent (rnodes s c) \<noteq> 0 then r_parent (rnodes s c) else root_inode s) in
      case ramfs_name_in_parent parent c s of
        None \<Rightarrow> Inl (- ENOENT)
      | Some name \<Rightarrow>
          if length buf > 1 \<and> length buf + 1 \<ge> sz then Inl (- ENAMETOOLONG)
          else
            let buf1 = (if length buf > 1 then buf @ [slash] else buf) in
            if length buf1 + length name \<ge> sz then Inl (- ENAMETOOLONG)
            else path_names sz cs (buf1 @ name) s)"

definition ramfs_inode_path :: "u64 \<Rightarrow> nat \<Rightarrow> fs \<Rightarrow> int + string" where
  "ramfs_inode_path i sz s =
     (if i = 0 \<or> sz < 2 then Inl (- EINVAL)
      else if \<not> inode_is_dir i s then Inl (- ENOTDIR)
      else if i = root_inode s then Inr ''/''
      else case path_chain 64 i s of
        Inl e \<Rightarrow> Inl e
      | Inr chain \<Rightarrow> path_names sz (rev chain) ''/'' s)"

definition ramfs_lookup :: "string \<Rightarrow> fs \<Rightarrow> u64 option" where
  "ramfs_lookup path s =
     (if path = [] \<or> hd path \<noteq> slash then None else ramfs_lookup_at (root_inode s) path s)"

definition ramfs_lookup_child :: "u64 \<Rightarrow> string \<Rightarrow> fs \<Rightarrow> u64 option" where
  "ramfs_lookup_child dir name s =
     (if dir = 0 \<or> \<not> inode_is_dir dir s \<or> name = [] then None
      else map_option d_inode (ramfs_find_child dir name s))"

subsection \<open>Entry points with a path\<close>

definition ramfs_mkdir :: "string \<Rightarrow> fs \<Rightarrow> int \<times> fs" where
  "ramfs_mkdir path s =
     (if path = [] \<or> hd path \<noteq> slash then (- EINVAL, s)
      else case ramfs_lookup_parent path s of
        None \<Rightarrow> (- ENOENT, s)
      | Some (parent, name) \<Rightarrow> let (err, i, s1) = vfs_mkdir parent name 0x1ED s in (err, s1))"

definition ramfs_create :: "string \<Rightarrow> umode \<Rightarrow> fs \<Rightarrow> int \<times> fs" where
  "ramfs_create path mode s =
     (if path = [] \<or> hd path \<noteq> slash then (- EINVAL, s)
      else case ramfs_lookup_parent path s of
        None \<Rightarrow> (- ENOENT, s)
      | Some (parent, name) \<Rightarrow>
          if ramfs_find_child parent name s \<noteq> None then (- EEXIST, s)
          else case ramfs_alloc_inode S_IFREG s of
            (None, s1) \<Rightarrow> (- ENOMEM, s1)
          | (Some ri, s1) \<Rightarrow>
              let (err, s2) = ramfs_add_child parent name ri (ramfs_apply_mode ri mode s1) in
              if err \<noteq> 0 then (err, fs_kfree ri s2) else (0, s2))"

definition ramfs_mknod :: "string \<Rightarrow> umode \<Rightarrow> u32 \<Rightarrow> fs \<Rightarrow> int \<times> fs" where
  "ramfs_mknod path mode rdev s =
     (if path = [] \<or> hd path \<noteq> slash then (- EINVAL, s)
      else case ramfs_lookup_parent path s of
        None \<Rightarrow> (- ENOENT, s)
      | Some (parent, name) \<Rightarrow> let (err, i, s1) = vfs_mknod parent name mode rdev s in (err, s1))"

definition ramfs_symlink :: "string \<Rightarrow> string \<Rightarrow> fs \<Rightarrow> int \<times> fs" where
  "ramfs_symlink path target s =
     (if path = [] \<or> hd path \<noteq> slash then (- EINVAL, s)
      else case ramfs_lookup_parent path s of
        None \<Rightarrow> (- ENOENT, s)
      | Some (parent, name) \<Rightarrow>
          if ramfs_find_child parent name s \<noteq> None then (- EEXIST, s)
          else let (err, i, s1) = vfs_symlink target parent name s in (err, s1))"

definition ramfs_unlink :: "string \<Rightarrow> fs \<Rightarrow> (int \<times> fs) option" where
  "ramfs_unlink path s =
     (if path = [] \<or> hd path \<noteq> slash then Some (- EINVAL, s)
      else case ramfs_lookup_parent path s of
        None \<Rightarrow> Some (- ENOENT, s)
      | Some (parent, name) \<Rightarrow> vfs_unlink parent name 0 s)"

definition ramfs_rmdir :: "string \<Rightarrow> fs \<Rightarrow> (int \<times> fs) option" where
  "ramfs_rmdir path s =
     (if path = [] \<or> hd path \<noteq> slash then Some (- EINVAL, s)
      else case ramfs_lookup_parent path s of
        None \<Rightarrow> Some (- ENOENT, s)
      | Some (parent, name) \<Rightarrow>
          (case ramfs_find_child parent name s of
             None \<Rightarrow> Some (- ENOENT, s)
           | Some child \<Rightarrow> vfs_rmdir parent name (d_inode child) s))"

subsection \<open>File contents\<close>

text \<open>The doubling loop of \<open>ramfs_ensure_capacity\<close>; the capacity is an \<open>unsigned long\<close> and can be shifted to zero.\<close>

partial_function (option) grow_cap :: "u64 \<Rightarrow> u64 \<Rightarrow> u64 option" where
  "grow_cap cap need = (if cap < need then grow_cap (push_bit 1 cap) need else Some cap)"

declare grow_cap.simps [code]

definition ramfs_ensure_capacity :: "u64 \<Rightarrow> u64 \<Rightarrow> fs \<Rightarrow> (int \<times> fs) option" where
  "ramfs_ensure_capacity ri need s =
     (let n = rnodes s ri in
      if i_type (inodes s ri) \<noteq> S_IFREG then Some (- EISDIR, s)
      else if need \<le> r_capacity n then Some (0, s)
      else do {
        new_cap \<leftarrow> grow_cap (if r_capacity n \<noteq> 0 then r_capacity n else PAGE_SIZE) need;
        (case fs_kmalloc new_cap s of
           (None, s1) \<Rightarrow> Some (- ENOMEM, s1)
         | (Some a, s1) \<Rightarrow>
             let s2 = (if r_data n \<noteq> 0 \<and> i_size (inodes s1 ri) \<noteq> 0
                       then s1\<lparr>ram := memcpy a (r_data n) (unat (i_size (inodes s1 ri))) (ram s1)\<rparr> else s1);
                 s3 = (if r_data n \<noteq> 0 then fs_kfree (r_data n) s2 else s2) in
             Some (0, upd_rnode ri (\<lambda>m. m\<lparr>r_data := a, r_capacity := new_cap\<rparr>) s3)) })"

text \<open>A read returns the count and the bytes it puts into the buffer.\<close>

definition ramfs_read :: "u64 \<Rightarrow> u64 \<Rightarrow> u64 \<Rightarrow> fs \<Rightarrow> int \<times> u8 list" where
  "ramfs_read i len off s =
     (if i = 0 then (- EINVAL, [])
      else if i_type (inodes s i) \<noteq> S_IFREG then (- EISDIR, [])
      else if off \<ge> i_size (inodes s i) then (0, [])
      else
        let avail = i_size (inodes s i) - off; n = (if len > avail then avail else len) in
        (sint n, if n \<noteq> 0 \<and> r_data (rnodes s i) \<noteq> 0 then bytes_at (ram s) (r_data (rnodes s i) + off) (unat n) else []))"

definition ramfs_write :: "u64 \<Rightarrow> u8 list \<Rightarrow> u64 \<Rightarrow> fs \<Rightarrow> (int \<times> fs) option" where
  "ramfs_write i buf off s =
     (let len = of_nat (length buf); e = off + len in
      if i = 0 then Some (- EINVAL, s)
      else if i_type (inodes s i) \<noteq> S_IFREG then Some (- EISDIR, s)
      else if e < off then Some (- EINVAL, s)
      else do {
        (err, s1) \<leftarrow> ramfs_ensure_capacity i e s;
        if err \<noteq> 0 then Some (err, s1)
        else
          let s2 = s1\<lparr>ram := put_bytes (r_data (rnodes s1 i) + off) buf (ram s1)\<rparr> in
          Some (sint len, if e > i_size (inodes s2 i) then upd_inode i (\<lambda>n. n\<lparr>i_size := e\<rparr>) s2 else s2) })"

definition ramfs_truncate :: "u64 \<Rightarrow> u64 \<Rightarrow> fs \<Rightarrow> int \<times> fs" where
  "ramfs_truncate i sz s =
     (if i = 0 then (- EINVAL, s)
      else if i_type (inodes s i) \<noteq> S_IFREG then (- EISDIR, s)
      else if sz > r_capacity (rnodes s i) then (- EINVAL, s)
      else (0, upd_inode i (\<lambda>n. n\<lparr>i_size := sz\<rparr>) s))"

text \<open>The calls \<open>ramfs_readdir\<close> makes to its callback.\<close>

definition ramfs_readdir :: "u64 \<Rightarrow> fs \<Rightarrow> int \<times> (string \<times> u64) list" where
  "ramfs_readdir dir s =
     (if dir = 0 then (- EINVAL, [])
      else if i_type (inodes s dir) \<noteq> S_IFDIR then (- ENOTDIR, [])
      else (0, map (\<lambda>d. (d_name d, d_inode d)) (r_children (rnodes s dir))))"

definition ramfs_data :: "u64 \<Rightarrow> fs \<Rightarrow> u64" where
  "ramfs_data i s = (if i = 0 \<or> i_type (inodes s i) \<noteq> S_IFREG then 0 else r_data (rnodes s i))"

definition ramfs_readlink :: "u64 \<Rightarrow> u64 \<Rightarrow> fs \<Rightarrow> int \<times> u8 list" where
  "ramfs_readlink i bufsiz s =
     (if i = 0 then (- EFAULT, [])
      else if bufsiz = 0 then (- EINVAL, [])
      else if i_type (inodes s i) \<noteq> S_IFLNK then (- EINVAL, [])
      else
        let len = (if i_size (inodes s i) > bufsiz then bufsiz else i_size (inodes s i)) in
        (sint len, if len \<noteq> 0 \<and> r_data (rnodes s i) \<noteq> 0 then bytes_at (ram s) (r_data (rnodes s i)) (unat len) else []))"

subsection \<open>File operations\<close>

text \<open>\<open>pos\<close> is a \<open>long\<close>; the results are the count, the bytes read and the new position.\<close>

definition ramfs_file_read :: "u64 \<Rightarrow> u64 \<Rightarrow> u64 \<Rightarrow> fs \<Rightarrow> int \<times> u8 list \<times> u64" where
  "ramfs_file_read i count pos s =
     (if i = 0 then (- EINVAL, [], pos)
      else let (n, bs) = ramfs_read i count pos s in (n, bs, if n > 0 then pos + of_int n else pos))"

definition ramfs_file_write :: "u64 \<Rightarrow> u8 list \<Rightarrow> u64 \<Rightarrow> fs \<Rightarrow> (int \<times> u64 \<times> fs) option" where
  "ramfs_file_write i buf pos s =
     (if i = 0 then Some (- EINVAL, pos, s)
      else do { (n, s1) \<leftarrow> ramfs_write i buf pos s; Some (n, if n > 0 then pos + of_int n else pos, s1) })"

definition ramfs_dtype :: "umode \<Rightarrow> u8" where
  "ramfs_dtype t =
     (if t = S_IFREG then 8 else if t = S_IFDIR then 4 else if t = S_IFCHR then 2
      else if t = S_IFIFO then 1 else if t = S_IFLNK then 10 else 0)"

text \<open>A \<open>struct linux_dirent64\<close>: inode number, offset, record length, type and the name, in little endian.\<close>

definition le_bytes :: "nat \<Rightarrow> u64 \<Rightarrow> u8 list" where
  "le_bytes n w = map (\<lambda>i. ucast (drop_bit (8 * i) w)) [0..<n]"

definition dirent_reclen :: "string \<Rightarrow> u64" where
  "dirent_reclen name = (19 + of_nat (length name) + 1 + 7) AND NOT 7"

definition dirent_bytes :: "u64 \<Rightarrow> u64 \<Rightarrow> u8 \<Rightarrow> string \<Rightarrow> u8 list" where
  "dirent_bytes i off t name =
     (let bs = le_bytes 8 i @ le_bytes 8 off @ le_bytes 2 (dirent_reclen name) @ [t] @ string_bytes name in
      bs @ replicate (unat (dirent_reclen name) - length bs) 0)"

text \<open>The loop of \<open>ramfs_dir_readdir\<close> over the entries; the results are the count, \<open>f_pos\<close> and the user's memory.\<close>

fun readdir_loop :: "u64 \<Rightarrow> u64 \<Rightarrow> u64 \<Rightarrow> fs \<Rightarrow> ramfs_dentry list \<Rightarrow> u64 \<Rightarrow> u64 \<Rightarrow> u64 \<Rightarrow> bytes \<Rightarrow> int \<times> u64 \<times> bytes" where
  "readdir_loop dirp count index s [] pos written f_pos m = (sint written, f_pos, m)"
| "readdir_loop dirp count index s (d # ds) pos written f_pos m =
     (if pos <s index then readdir_loop dirp count index s ds (pos + 1) written f_pos m
      else
        let reclen = dirent_reclen (d_name d) in
        if reclen > 287 then (- EINVAL, f_pos, m)
        else if written + reclen > count then (if written = 0 then - EINVAL else sint written, f_pos, m)
        else
          let i = inodes s (d_inode d);
              kbuf = dirent_bytes (ino i) (pos + 1) (ramfs_dtype (i_type i)) (d_name d) in
          readdir_loop dirp count index s ds (pos + 1) (written + reclen) (pos + 1)
            (put_bytes (dirp + written) kbuf m))"

definition ramfs_dir_readdir :: "u64 \<Rightarrow> u64 \<Rightarrow> u64 \<Rightarrow> u64 \<Rightarrow> fs \<Rightarrow> int \<times> u64 \<times> fs" where
  "ramfs_dir_readdir i f_pos dirp count s =
     (if i = 0 \<or> \<not> inode_is_dir i s then (- ENOTDIR, f_pos, s)
      else if dirp = 0 then (- EFAULT, f_pos, s)
      else if count = 0 then (0, f_pos, s)
      else
        let (r, p, m) = readdir_loop dirp count f_pos s (r_children (rnodes s i)) 0 0 f_pos (ram s) in
        (r, p, s\<lparr>ram := m\<rparr>))"

end
