(* ===== verification/Ramfs_Data.thy ===== *)
theory Ramfs_Data
  imports Ramfs Slub_Props
begin

text \<open>
  Regular files of ramfs refine byte strings: the contents of a file are the first \<open>i_size\<close> bytes of
  its data block, \<open>ramfs_write\<close> overwrites a piece of them, \<open>ramfs_read\<close> returns a piece, and neither
  touches any other allocated block.  The two places where the code goes beyond this contract are
  stated as well: a write behind the end of the file exposes whatever the memory held, and a write
  behind \<open>2 ^ 63\<close> never returns.
\<close>

subsection \<open>Blocks of memory\<close>

lemma sint_small:
  assumes "unat (w :: u64) < 2 ^ 63"
  shows "sint w = int (unat w)"
proof -
  have u: "uint w = int (unat w)" by (rule uint_nat)
  have "int (unat w) < int (2 ^ 63)" using assms by (simp only: of_nat_less_iff)
  then have "int (unat w) < 2 ^ 63" by (simp only: of_nat_power of_nat_numeral)
  then have "signed_take_bit 63 (uint w) = uint w"
    unfolding u by (intro signed_take_bit_int_eq_self) linarith+
  moreover have "LENGTH(64) - Suc 0 = 63" by simp
  ultimately show ?thesis by (simp only: sint_uint u)
qed

lemma kvalid_nowrap:
  assumes inv: "slub_inv h" and v: "kvalid h r x"
  shows "unat x + rlen r < 2 ^ 64"
proof -
  obtain b k where k: "block_valid (pg h) (slab_order k) b" "kextent r x \<subseteq> block_extent (slab_order k) b"
    using kvalidE [OF inv v] by metis
  have l: "unat b + 4096 * 2 ^ slab_order k < 2 ^ 64" using block_valid_addr(2) [OF slub_invD(1) [OF inv] k(1)] .
  have "0 < rlen r" using kvalid_nonempty [OF inv v] by (simp add: kextent_def)
  then have "unat x + rlen r - 1 \<in> kextent r x" by (simp add: kextent_def)
  then have "unat x + rlen r - 1 < unat b + 4096 * 2 ^ slab_order k" using k(2) by (auto simp: block_extent_def)
  then show ?thesis using l \<open>0 < rlen r\<close> by linarith
qed

lemma kvalid_nonzero: "slub_inv h \<Longrightarrow> kvalid h r x \<Longrightarrow> x \<noteq> 0"
  by (erule (1) kvalidE)

lemma mem_region_iff:
  assumes "unat a + n < 2 ^ 64"
  shows "x \<in> region a n \<longleftrightarrow> unat x \<in> {unat a ..< unat a + n}"
proof
  assume "x \<in> region a n"
  then obtain i where "i < n" "x = a + of_nat i" by (auto simp: region_def)
  moreover have "unat (a + of_nat i) = unat a + i" if "i < n" for i
    using assms that by (subst unat_add_lem [THEN iffD1]) (simp_all add: unat_of_nat_less)
  ultimately show "unat x \<in> {unat a ..< unat a + n}" by simp
next
  assume x: "unat x \<in> {unat a ..< unat a + n}"
  have d: "unat (of_nat (unat x - unat a) :: u64) = unat x - unat a" using x assms by (intro unat_of_nat_less) auto
  have "unat (a + of_nat (unat x - unat a)) = unat x"
    using x assms by (subst unat_add_lem [THEN iffD1]) (simp_all only: d, auto)
  then have "x = a + of_nat (unat x - unat a)" by (simp only: word_unat_eq_iff)
  then show "x \<in> region a n" using x in_region [of "unat x - unat a" n a] by auto
qed

lemma region_sub: "i + n \<le> m \<Longrightarrow> region (a + of_nat i) n \<subseteq> region a m"
proof
  fix x assume i: "i + n \<le> m" and "x \<in> region (a + of_nat i) n"
  then obtain j where "j < n" "x = a + of_nat (i + j)" by (auto simp: region_def algebra_simps)
  then show "x \<in> region a m" using i in_region [of "i + j" m a] by simp
qed

lemma put_bytes_eq:
  "length bs < 2 ^ 64 \<Longrightarrow> put_bytes a bs m x = (if x \<in> region a (length bs) then bs ! unat (x - a) else m x)"
proof (induction bs arbitrary: a m)
  case (Cons b bs)
  have r: "a \<notin> region (a + 1) (length bs)" using Cons.prems by (intro region_start) simp
  have n: "unat (x - a) = Suc (unat (x - (a + 1)))" if "x \<in> region (a + 1) (length bs)"
  proof -
    from that obtain i where i: "i < length bs" "x = a + 1 + of_nat i" by (auto simp: region_def)
    then have x: "x - a = of_nat (Suc i)" "x - (a + 1) = of_nat i" by simp_all
    have "Suc i < 2 ^ 64" using i Cons.prems by simp
    then have "unat (of_nat (Suc i) :: u64) = Suc i" "unat (of_nat i :: u64) = i"
      using unat_of_nat_less [of "Suc i"] unat_of_nat_less [of i] by (simp_all del: of_nat_Suc)
    then show ?thesis unfolding x by simp
  qed
  show ?case using Cons r n by (auto simp: region_Suc)
qed simp

lemma bytes_at_nth [simp]: "length (bytes_at m a n) = n" "i < n \<Longrightarrow> bytes_at m a n ! i = m (a + of_nat i)"
  by (simp_all add: bytes_at_def)

lemma bytes_at_0 [simp]: "bytes_at m a 0 = []"
  by (simp add: bytes_at_def)

lemma bytes_at_cong: "(\<And>x. x \<in> region a n \<Longrightarrow> m x = m' x) \<Longrightarrow> bytes_at m a n = bytes_at m' a n"
  by (simp add: bytes_at_def in_region)

lemma bytes_at_take: "k \<le> n \<Longrightarrow> take k (bytes_at m a n) = bytes_at m a k"
  by (simp add: bytes_at_def take_map)

lemma bytes_at_drop: "k \<le> n \<Longrightarrow> drop k (bytes_at m a n) = bytes_at m (a + of_nat k) (n - k)"
  by (intro nth_equalityI) (simp_all add: algebra_simps)

subsection \<open>Allocation\<close>

lemma fs_kmalloc_some:
  assumes inv: "slub_inv (heap s)" and n: "unat n + 40 \<le> 2 ^ 27" and a: "fs_kmalloc n s = (Some x, s')"
  shows "s' = s\<lparr>heap := heap s'\<rparr>" "slub_inv (heap s')" "kvalid (heap s') (Kmalloc n) x" "x \<noteq> 0"
    "kvalid (heap s) q y \<Longrightarrow> kvalid (heap s') q y \<and> y \<noteq> x"
proof -
  obtain h where h: "kmalloc n (heap s) = (Some x, h)" "s' = s\<lparr>heap := h\<rparr>"
    using a by (auto simp: fs_kmalloc_def split: prod.splits)
  then have al: "allocates (heap s) (Kmalloc n) x h" using kalloc_correct [OF inv, of "Kmalloc n"] n by simp
  then have v: "slub_inv h" "kvalid h (Kmalloc n) x" by (auto simp: allocates_def)
  then show "s' = s\<lparr>heap := heap s'\<rparr>" "slub_inv (heap s')" "kvalid (heap s') (Kmalloc n) x" "x \<noteq> 0"
    using h(2) kvalidE [OF v] by auto
  assume y: "kvalid (heap s) q y"
  then have "kvalid h q y" "kextent (Kmalloc n) x \<inter> kextent q y = {}" using al by (auto simp: allocates_def)
  then show "kvalid (heap s') q y \<and> y \<noteq> x"
    using h(2) kvalid_nonempty [OF inv y] kvalid_nonempty [OF v] by auto
qed

lemma fs_kmalloc_none:
  assumes inv: "slub_inv (heap s)" and n: "unat n + 40 \<le> 2 ^ 27" and a: "fs_kmalloc n s = (None, s')"
  shows "s' = s"
proof -
  obtain h where h: "kmalloc n (heap s) = (None, h)" "s' = s\<lparr>heap := h\<rparr>"
    using a by (auto simp: fs_kmalloc_def split: prod.splits)
  then show ?thesis using kalloc_none [OF inv, of "Kmalloc n"] n by simp
qed

lemma fs_kfree_keeps:
  assumes inv: "slub_inv (heap s)" and v: "kvalid (heap s) (Kmalloc n) x"
  shows "slub_inv (heap (fs_kfree x s))"
    "kvalid (heap s) q y \<Longrightarrow> y \<noteq> x \<Longrightarrow> kvalid (heap (fs_kfree x s)) q y"
  using krelease_correct [OF inv v] kvalid_disjoint [OF inv v] by (auto simp: releases_def fs_kfree_def)

lemma fs_kfree_simps [simp]:
  "ram (fs_kfree x s) = ram s" "inodes (fs_kfree x s) = inodes s" "rnodes (fs_kfree x s) = rnodes s"
  "root_inode (fs_kfree x s) = root_inode s" "pnodes (fs_kfree x s) = pnodes s" "next_ino (fs_kfree x s) = next_ino s"
  by (simp_all add: fs_kfree_def)

lemma upd_node_simps [simp]:
  "heap (upd_inode i f s) = heap s" "ram (upd_inode i f s) = ram s" "rnodes (upd_inode i f s) = rnodes s"
  "root_inode (upd_inode i f s) = root_inode s" "inodes (upd_inode i f s) j = (if j = i then f (inodes s i) else inodes s j)"
  "heap (upd_rnode i g s) = heap s" "ram (upd_rnode i g s) = ram s" "inodes (upd_rnode i g s) = inodes s"
  "root_inode (upd_rnode i g s) = root_inode s" "rnodes (upd_rnode i g s) j = (if j = i then g (rnodes s i) else rnodes s j)"
  by (simp_all add: upd_inode_def upd_rnode_def)

subsection \<open>Growing a file\<close>

definition contents :: "u64 \<Rightarrow> fs \<Rightarrow> u8 list" where
  "contents i s = bytes_at (ram s) (r_data (rnodes s i)) (unat (i_size (inodes s i)))"

text \<open>The data block of a regular file: none, or one of the capacity, a power of two from a page on.\<close>

definition file_ok :: "u64 \<Rightarrow> fs \<Rightarrow> bool" where
  "file_ok i s \<longleftrightarrow> i \<noteq> 0 \<and> i_type (inodes s i) = S_IFREG \<and> i_size (inodes s i) \<le> r_capacity (rnodes s i) \<and>
     (r_capacity (rnodes s i) = 0 \<and> r_data (rnodes s i) = 0 \<or>
      (\<exists>k. 12 \<le> k \<and> k \<le> 26 \<and> r_capacity (rnodes s i) = 2 ^ k \<and>
         kvalid (heap s) (Kmalloc (2 ^ k)) (r_data (rnodes s i))))"

text \<open>Every other allocated block is still allocated and holds what it held.\<close>

definition untouched :: "u64 \<Rightarrow> fs \<Rightarrow> fs \<Rightarrow> bool" where
  "untouched i s s' \<longleftrightarrow> (\<forall>q y. kvalid (heap s) q y \<and> y \<noteq> r_data (rnodes s i) \<longrightarrow>
     kvalid (heap s') q y \<and> y \<noteq> r_data (rnodes s' i) \<and> (\<forall>x. unat x \<in> kextent q y \<longrightarrow> ram s' x = ram s x))"

lemma grow_cap_some:
  assumes "k \<le> 63" "need \<le> 2 ^ 63"
  shows "\<exists>j. k \<le> j \<and> j \<le> 63 \<and> grow_cap (2 ^ k) need = Some (2 ^ j) \<and> need \<le> 2 ^ j \<and> (j = k \<or> 2 ^ (j - 1) < need)"
  using assms(1)
proof (induction "63 - k" arbitrary: k)
  case 0
  then have "k = 63" by simp
  then show ?case using assms(2) by (subst grow_cap.simps) (auto simp: not_less)
next
  case (Suc n)
  show ?case
  proof (cases "2 ^ k < need")
    case True
    have sh: "push_bit 1 (2 ^ k :: u64) = 2 ^ Suc k" by (simp add: push_bit_eq_mult)
    obtain j where j: "Suc k \<le> j" "j \<le> 63" "grow_cap (2 ^ Suc k) need = Some (2 ^ j)" "need \<le> 2 ^ j"
        "j = Suc k \<or> 2 ^ (j - 1) < need"
    proof -
      have "n = 63 - Suc k" "Suc k \<le> 63" using Suc(2) by auto
      from Suc(1) [OF this] that show thesis by blast
    qed
    have "grow_cap (2 ^ k) need = Some (2 ^ j)" using True j(3) unfolding grow_cap.simps [of "2 ^ k"] sh by simp
    then show ?thesis using j True by (intro exI [of _ j]) auto
  next
    case False
    then show ?thesis by (subst grow_cap.simps) (use Suc in auto)
  qed
qed


lemma file_ok_cap:
  assumes "file_ok i s"
  shows "unat (r_capacity (rnodes s i)) \<le> 2 ^ 26" "unat (i_size (inodes s i)) \<le> unat (r_capacity (rnodes s i))"
proof -
  have "unat (2 ^ k :: u64) \<le> 2 ^ 26" if "k \<le> 26" for k
    using that unat_pow2 [of k] power_increasing [of k 26 "2::nat"] by simp
  then show "unat (r_capacity (rnodes s i)) \<le> 2 ^ 26" using assms by (auto simp: file_ok_def)
  show "unat (i_size (inodes s i)) \<le> unat (r_capacity (rnodes s i))" using assms by (simp add: file_ok_def word_le_nat_alt)
qed

lemma untouchedD:
  assumes "untouched i s s'" "kvalid (heap s) q y" "y \<noteq> r_data (rnodes s i)"
  shows "kvalid (heap s') q y" "y \<noteq> r_data (rnodes s' i)" "unat x \<in> kextent q y \<Longrightarrow> ram s' x = ram s x"
  using assms by (auto simp: untouched_def)

lemma untouched_trans:
  assumes "untouched i s t" "untouched i t u"
  shows "untouched i s u"
  unfolding untouched_def
proof (intro allI impI, elim conjE)
  fix q y assume y: "kvalid (heap s) q y" "y \<noteq> r_data (rnodes s i)"
  note t = untouchedD [OF assms(1) y]
  note u = untouchedD [OF assms(2) t(1,2)]
  show "kvalid (heap u) q y \<and> y \<noteq> r_data (rnodes u i) \<and> (\<forall>x. unat x \<in> kextent q y \<longrightarrow> ram u x = ram s x)"
    using t(3) u by simp
qed

text \<open>What \<open>ramfs_ensure_capacity\<close> leaves behind when it has grown the block.\<close>

definition grown :: "u64 \<Rightarrow> fs \<Rightarrow> fs \<Rightarrow> bool" where
  "grown i s s1 \<longleftrightarrow> slub_inv (heap s1) \<and> file_ok i s1 \<and> inodes s1 = inodes s \<and> contents i s1 = contents i s \<and>
     untouched i s s1 \<and> (\<forall>j. j \<noteq> i \<longrightarrow> rnodes s1 j = rnodes s j)"

lemma copy_block:
  assumes inv: "slub_inv h" and a: "kvalid h (Kmalloc n) a" and d: "kvalid h (Kmalloc c) d" and ne: "a \<noteq> d"
    and k: "k \<le> unat n" "k \<le> unat c"
  shows "bytes_at (memcpy a d k m) a k = bytes_at m d k"
    "kvalid h q y \<Longrightarrow> y \<noteq> a \<Longrightarrow> unat x \<in> kextent q y \<Longrightarrow> memcpy a d k m x = m x"
proof -
  have la: "unat a + k < 2 ^ 64" and ld: "unat d + k < 2 ^ 64"
    using kvalid_nowrap [OF inv a] kvalid_nowrap [OF inv d] k by auto
  have ra: "region a k \<subseteq> {x. unat x \<in> kextent (Kmalloc n) a}"
    using k(1) by (auto simp: mem_region_iff [OF la] kextent_def)
  have rd: "region d k \<subseteq> {x. unat x \<in> kextent (Kmalloc c) d}"
    using k(2) by (auto simp: mem_region_iff [OF ld] kextent_def)
  have dis: "region a k \<inter> region d k = {}" using ra rd kvalid_disjoint [OF inv a d ne] by blast
  have eq: "memcpy a d k m x = (if x \<in> region a k then m (d + (x - a)) else m x)" for x
    using la by (intro memcpy_eq [OF _ dis]) simp
  show "bytes_at (memcpy a d k m) a k = bytes_at m d k"
    by (intro nth_equalityI) (simp_all add: eq in_region)
  assume "kvalid h q y" "y \<noteq> a" "unat x \<in> kextent q y"
  then have "x \<notin> region a k" using ra kvalid_disjoint [OF inv a, of q y] by blast
  then show "memcpy a d k m x = m x" by (simp add: eq)
qed

lemma new_cap_bounds:
  assumes ok: "file_ok i s" and need: "unat need \<le> 2 ^ 26" "\<not> need \<le> r_capacity (rnodes s i)"
  obtains j where "12 \<le> j" "j \<le> 26" "need \<le> 2 ^ j"
    "grow_cap (if r_capacity (rnodes s i) \<noteq> 0 then r_capacity (rnodes s i) else PAGE_SIZE) need = Some (2 ^ j)"
    "r_capacity (rnodes s i) \<le> 2 ^ j"
proof -
  let ?c = "if r_capacity (rnodes s i) \<noteq> 0 then r_capacity (rnodes s i) else PAGE_SIZE"
  obtain k where k: "12 \<le> k" "k \<le> 26" "?c = 2 ^ k"
  proof (cases "r_capacity (rnodes s i) = 0")
    case True
    then show thesis using that [of 12] by simp
  next
    case False
    then show thesis using that ok by (auto simp: file_ok_def)
  qed
  have n63: "need \<le> 2 ^ 63" using need(1) unat_pow2 [of 63] by (simp add: word_le_nat_alt)
  obtain j where j: "k \<le> j" "j \<le> 63" "grow_cap (2 ^ k) need = Some (2 ^ j)" "need \<le> 2 ^ j"
      "j = k \<or> 2 ^ (j - 1) < need"
    using grow_cap_some [OF _ n63, of k] k(2) by auto
  have "j \<le> 26"
  proof (cases "j = k")
    case False
    then have "(2::nat) ^ (j - 1) < 2 ^ 26"
      using j(2,5) need(1) unat_pow2 [of "j - 1"] by (simp add: word_less_nat_alt)
    then show ?thesis using power_strict_increasing_iff [of "2::nat" "j - 1" 26] by simp
  qed (use k in simp)
  moreover have "r_capacity (rnodes s i) \<le> 2 ^ j"
    using need(2) j(4) by simp
  ultimately show thesis using that [of j] k j by simp
qed

lemma untouched_refl: "untouched i s s"
  by (simp add: untouched_def)

lemma grown_block:
  assumes inv: "slub_inv (heap s)" and ok: "file_ok i s" and j: "12 \<le> j" "j \<le> 26" "r_capacity (rnodes s i) \<le> 2 ^ j"
    and al: "fs_kmalloc (2 ^ j) s = (Some a, t)"
  defines "d \<equiv> r_data (rnodes s i)"
  defines "t2 \<equiv> (if d \<noteq> 0 \<and> i_size (inodes t i) \<noteq> 0
                  then t\<lparr>ram := memcpy a d (unat (i_size (inodes t i))) (ram t)\<rparr> else t)"
  defines "t3 \<equiv> (if d \<noteq> 0 then fs_kfree d t2 else t2)"
  shows "grown i s (upd_rnode i (\<lambda>m. m\<lparr>r_data := a, r_capacity := 2 ^ j\<rparr>) t3)"
proof -
  have n: "unat (2 ^ j :: u64) = 2 ^ j" "(2::nat) ^ j \<le> 2 ^ 26" using j unat_pow2 [of j] power_increasing [of j 26 "2::nat"] by simp_all
  then have "unat (2 ^ j :: u64) + 40 \<le> 2 ^ 27" by simp
  note m = fs_kmalloc_some [OF inv this al]
  have t: "inodes t = inodes s" "rnodes t = rnodes s" "ram t = ram s"
    using arg_cong [OF m(1), of inodes] arg_cong [OF m(1), of rnodes] arg_cong [OF m(1), of ram] by simp_all
  have size: "i_size (inodes s i) \<le> 2 ^ j" using ok j(3) unfolding file_ok_def by (blast intro: order_trans)
  show ?thesis
  proof (cases "d = 0")
    case True
    then have "r_capacity (rnodes s i) = 0"
      using ok kvalid_nonzero [OF inv] unfolding file_ok_def d_def by blast
    then have z: "i_size (inodes s i) = 0" using ok by (simp add: file_ok_def)
    have "t3 = t" using True by (simp add: t3_def t2_def)
    then show ?thesis
      using ok m(2,3,5) j(1,2) z t by (auto simp: grown_def file_ok_def contents_def untouched_def)
  next
    case False
    then obtain k where k: "12 \<le> k" "k \<le> 26" "r_capacity (rnodes s i) = 2 ^ k" "kvalid (heap s) (Kmalloc (2 ^ k)) d"
      using ok by (auto simp: file_ok_def d_def)
    have ne: "a \<noteq> d" and kd: "kvalid (heap t) (Kmalloc (2 ^ k)) d" using m(5) [OF k(4)] by auto
    let ?z = "unat (i_size (inodes s i))"
    have z: "?z \<le> unat (2 ^ j :: u64)" "?z \<le> unat (2 ^ k :: u64)"
      using size ok k(3) by (simp_all add: word_le_nat_alt file_ok_def)
    note cb = copy_block [OF m(2,3) kd ne z, where m = "ram s"]
    have t2: "heap t2 = heap t" "inodes t2 = inodes s" "rnodes t2 = rnodes s" "ram t2 = memcpy a d ?z (ram s)"
      using t False by (auto simp: t2_def)
    have t3: "t3 = fs_kfree d t2" using False by (simp add: t3_def)
    have fr: "slub_inv (heap t3)" "\<And>q y. kvalid (heap t) q y \<Longrightarrow> y \<noteq> d \<Longrightarrow> kvalid (heap t3) q y"
      using fs_kfree_keeps [of t2 "2 ^ k" d] m(2) kd t2(1) t3 by auto
    have un: "untouched i s (upd_rnode i (\<lambda>m. m\<lparr>r_data := a, r_capacity := 2 ^ j\<rparr>) t3)"
      unfolding untouched_def
    proof (intro allI impI, elim conjE)
      fix q y assume y: "kvalid (heap s) q y" "y \<noteq> r_data (rnodes s i)"
      note v = m(5) [OF y(1)]
      have "ram t2 x = ram s x" if "unat x \<in> kextent q y" for x using cb(2) [of q y x] v that t2(4) by simp
      then show "kvalid (heap (upd_rnode i (\<lambda>m. m\<lparr>r_data := a, r_capacity := 2 ^ j\<rparr>) t3)) q y \<and>
          y \<noteq> r_data (rnodes (upd_rnode i (\<lambda>m. m\<lparr>r_data := a, r_capacity := 2 ^ j\<rparr>) t3) i) \<and>
          (\<forall>x. unat x \<in> kextent q y \<longrightarrow> ram (upd_rnode i (\<lambda>m. m\<lparr>r_data := a, r_capacity := 2 ^ j\<rparr>) t3) x = ram s x)"
        using v fr(2) y(2) d_def t3 by simp
    qed
    have "file_ok i (upd_rnode i (\<lambda>m. m\<lparr>r_data := a, r_capacity := 2 ^ j\<rparr>) t3)"
      using ok j(1,2) size fr(2) [OF m(3) ne] t2 t3 unfolding file_ok_def by auto
    then show ?thesis
      using un fr(1) t2 t3 cb(1) unfolding grown_def contents_def d_def by simp
  qed
qed

lemma ensure_capacity_cases:
  assumes inv: "slub_inv (heap s)" and ok: "file_ok i s" and need: "unat need \<le> 2 ^ 26"
  obtains "ramfs_ensure_capacity i need s = Some (- ENOMEM, s)"
  | s1 where "ramfs_ensure_capacity i need s = Some (0, s1)" "grown i s s1" "need \<le> r_capacity (rnodes s1 i)"
proof (cases "need \<le> r_capacity (rnodes s i)")
  case True
  moreover have "grown i s s" using inv ok by (simp add: grown_def untouched_refl)
  ultimately show thesis using that(2) [of s] ok by (simp add: ramfs_ensure_capacity_def file_ok_def)
next
  case False
  obtain j where j: "12 \<le> j" "j \<le> 26" "need \<le> 2 ^ j"
    "grow_cap (if r_capacity (rnodes s i) \<noteq> 0 then r_capacity (rnodes s i) else PAGE_SIZE) need = Some (2 ^ j)"
    "r_capacity (rnodes s i) \<le> 2 ^ j" by (rule new_cap_bounds [OF ok need False])
  have ty: "i_type (inodes s i) = S_IFREG" using ok by (simp add: file_ok_def)
  obtain r t where al: "fs_kmalloc (2 ^ j) s = (r, t)" by (cases "fs_kmalloc (2 ^ j) s")
  have "unat (2 ^ j :: u64) + 40 \<le> 2 ^ 27"
    using j unat_pow2 [of j] power_increasing [of j 26 "2::nat"] by simp
  note none = fs_kmalloc_none [OF inv this]
  show thesis
  proof (cases r)
    case None
    then show thesis using that(1) none al j(4) False ty by (simp add: ramfs_ensure_capacity_def Let_def)
  next
    case (Some a)
    note g = grown_block [OF inv ok j(1,2,5) al [unfolded Some]]
    show thesis
      by (rule that(2) [OF _ g]) (use al Some j(3,4) False ty in \<open>simp_all add: ramfs_ensure_capacity_def Let_def\<close>)
  qed
qed

subsection \<open>Reading and writing\<close>

text \<open>Storing bytes inside the data block of a file.\<close>

lemma put_in_file:
  assumes inv: "slub_inv (heap s)" and ok: "file_ok i s" and fit: "unat off + length buf \<le> unat (r_capacity (rnodes s i))"
  defines "d \<equiv> r_data (rnodes s i)"
  defines "m \<equiv> put_bytes (d + off) buf (ram s)"
  shows "k < unat (r_capacity (rnodes s i)) \<Longrightarrow>
      m (d + of_nat k) = (if unat off \<le> k \<and> k < unat off + length buf then buf ! (k - unat off) else ram s (d + of_nat k))"
    "kvalid (heap s) q y \<Longrightarrow> y \<noteq> d \<Longrightarrow> unat x \<in> kextent q y \<Longrightarrow> m x = ram s x"
proof -
  let ?c = "unat (r_capacity (rnodes s i))"
  have c: "?c \<le> 2 ^ 26" using file_ok_cap [OF ok] by simp
  then have len: "length buf < 2 ^ 64" using fit by simp
  have off: "d + off = d + of_nat (unat off)" by simp
  have eq: "m x = (if x \<in> region (d + off) (length buf) then buf ! unat (x - (d + off)) else ram s x)" for x
    unfolding m_def by (rule put_bytes_eq [OF len])
  {
    assume k: "k < ?c"
    have small: "unat (of_nat n :: u64) = n" if "n \<le> 2 ^ 26" for n using that by (intro unat_of_nat_less) simp
    have "d + of_nat k \<in> region (d + off) (length buf) \<longleftrightarrow> unat off \<le> k \<and> k < unat off + length buf"
    proof
      assume "d + of_nat k \<in> region (d + off) (length buf)"
      then obtain n where n: "n < length buf" "(of_nat k :: u64) = of_nat (unat off + n)"
        by (auto simp: region_def algebra_simps)
      then have "k = unat off + n" using small [of k] small [of "unat off + n"] k c fit by simp
      then show "unat off \<le> k \<and> k < unat off + length buf" using n by simp
    next
      assume "unat off \<le> k \<and> k < unat off + length buf"
      then have "d + of_nat k = d + off + of_nat (k - unat off)" "k - unat off < length buf" by auto
      then show "d + of_nat k \<in> region (d + off) (length buf)" using in_region by metis
    qed
    moreover have "unat (d + of_nat k - (d + off)) = k - unat off" if "unat off \<le> k"
    proof -
      have "d + of_nat k - (d + off) = of_nat (k - unat off)" using that by simp
      then show ?thesis using small [of "k - unat off"] k c by simp
    qed
    ultimately show "m (d + of_nat k) =
        (if unat off \<le> k \<and> k < unat off + length buf then buf ! (k - unat off) else ram s (d + of_nat k))"
      unfolding eq by auto
  next
    assume y: "kvalid (heap s) q y" "y \<noteq> d" "unat x \<in> kextent q y"
    show "m x = ram s x"
    proof (cases "buf = []")
      case False
      then have "0 < ?c" using fit by (cases buf) simp_all
      then have "r_capacity (rnodes s i) \<noteq> 0" by auto
      then obtain k where k: "r_capacity (rnodes s i) = 2 ^ k" and v: "kvalid (heap s) (Kmalloc (2 ^ k)) d"
        using ok by (auto simp: file_ok_def d_def)
      have w: "unat d + ?c < 2 ^ 64" using kvalid_nowrap [OF inv v] k by simp
      have "region (d + off) (length buf) \<subseteq> region d ?c" unfolding off by (rule region_sub [OF fit])
      also have "\<dots> \<subseteq> {x. unat x \<in> kextent (Kmalloc (2 ^ k)) d}"
        using mem_region_iff [OF w] by (auto simp: kextent_def k)
      finally have "x \<notin> region (d + off) (length buf)" using y kvalid_disjoint [OF inv v y(1)] by blast
      then show ?thesis by (simp add: eq)
    qed (simp add: m_def)
  }
qed

definition overwrite :: "nat \<Rightarrow> u8 list \<Rightarrow> u8 list \<Rightarrow> u8 list" where
  "overwrite p bs xs = take p xs @ bs @ drop (p + length bs) xs"

lemma overwrite_nth:
  assumes "p \<le> length xs"
  shows "length (overwrite p bs xs) = max (length xs) (p + length bs)"
    "k < length (overwrite p bs xs) \<Longrightarrow>
      overwrite p bs xs ! k = (if p \<le> k \<and> k < p + length bs then bs ! (k - p) else xs ! k)"
  using assms by (auto simp: overwrite_def nth_append)

lemma write_effect:
  assumes inv: "slub_inv (heap s)" and ok: "file_ok i s" and bound: "unat off + length buf \<le> 2 ^ 26"
  obtains "ramfs_write i buf off s = Some (- ENOMEM, s)"
  | s1 s' where "ramfs_write i buf off s = Some (int (length buf), s')" "grown i s s1"
      "unat off + length buf \<le> unat (r_capacity (rnodes s1 i))"
      "ram s' = put_bytes (r_data (rnodes s1 i) + off) buf (ram s1)" "heap s' = heap s1" "rnodes s' = rnodes s1"
      "\<forall>j. j \<noteq> i \<longrightarrow> inodes s' j = inodes s j" "i_type (inodes s' i) = S_IFREG"
      "unat (i_size (inodes s' i)) = max (unat (i_size (inodes s i))) (unat off + length buf)"
proof -
  let ?e = "off + of_nat (length buf)"
  have l: "unat (of_nat (length buf) :: u64) = length buf" using bound by (intro unat_of_nat_less) simp
  have e: "unat ?e = unat off + length buf" using bound l by (subst unat_add_lem [THEN iffD1]) simp_all
  have nw: "\<not> ?e < off" using e by (simp add: word_less_nat_alt)
  have ty: "i \<noteq> 0" "i_type (inodes s i) = S_IFREG" using ok by (simp_all add: file_ok_def)
  have sl: "sint (of_nat (length buf) :: u64) = int (length buf)"
    using bound l sint_small [of "of_nat (length buf)"] by simp
  have eb: "unat ?e \<le> 2 ^ 26" using e bound by simp
  from inv ok eb show thesis
  proof (cases rule: ensure_capacity_cases)
    case 1
    then show thesis using that(1) nw ty by (simp add: ramfs_write_def Let_def)
  next
    case (2 s1)
    have i1: "inodes s1 = inodes s" using 2(2) by (simp add: grown_def)
    have fit: "unat off + length buf \<le> unat (r_capacity (rnodes s1 i))" using 2(3) e by (simp add: word_le_nat_alt)
    define s2 where "s2 = s1\<lparr>ram := put_bytes (r_data (rnodes s1 i) + off) buf (ram s1)\<rparr>"
    define s' where "s' = (if ?e > i_size (inodes s2 i) then upd_inode i (\<lambda>n. n\<lparr>i_size := ?e\<rparr>) s2 else s2)"
    have w: "ramfs_write i buf off s = Some (int (length buf), s')"
      using 2(1) nw ty sl by (simp add: ramfs_write_def Let_def s'_def s2_def)
    show thesis
      by (rule that(2) [OF w 2(2) fit]) (use i1 e ty in \<open>auto simp: s'_def s2_def word_less_nat_alt max_def\<close>)
  qed
qed

text \<open>What a read returns is a piece of the contents.\<close>

lemma data_present:
  assumes "slub_inv (heap s)" "file_ok i s" "0 < unat (i_size (inodes s i))"
  shows "r_data (rnodes s i) \<noteq> 0"
proof -
  have "r_capacity (rnodes s i) \<noteq> 0" using assms(2,3) by (auto simp: file_ok_def)
  then obtain k where "kvalid (heap s) (Kmalloc (2 ^ k)) (r_data (rnodes s i))" using assms(2) by (auto simp: file_ok_def)
  then show ?thesis by (rule kvalid_nonzero [OF assms(1)])
qed

lemma read_contents:
  assumes inv: "slub_inv (heap s)" and ok: "file_ok i s"
  shows "ramfs_read i n p s = (let piece = take (unat n) (drop (unat p) (contents i s)) in (int (length piece), piece))"
proof -
  let ?z = "unat (i_size (inodes s i))" and ?d = "r_data (rnodes s i)"
  have ty: "i \<noteq> 0" "i_type (inodes s i) = S_IFREG" and z: "?z \<le> 2 ^ 26"
    using ok file_ok_cap [OF ok] by (simp_all add: file_ok_def)
  show ?thesis
  proof (cases "i_size (inodes s i) \<le> p")
    case True
    then show ?thesis using ty by (simp add: ramfs_read_def contents_def word_le_nat_alt)
  next
    case False
    let ?a = "i_size (inodes s i) - p"
    let ?n = "if n > ?a then ?a else n"
    have a: "unat ?a = ?z - unat p" using False by (simp add: unat_sub_if' word_le_nat_alt)
    have n: "unat ?n = min (unat n) (?z - unat p)" using a by (auto simp: word_less_nat_alt min_def)
    have d: "?d \<noteq> 0" using data_present [OF inv ok] False by (simp add: word_le_nat_alt)
    have piece: "take (unat n) (drop (unat p) (contents i s)) = bytes_at (ram s) (?d + p) (unat ?n)"
      using False n by (simp add: contents_def bytes_at_drop word_le_nat_alt) (simp add: bytes_at_def take_map min_def)
    have "ramfs_read i n p s = (sint ?n, if ?n \<noteq> 0 \<and> ?d \<noteq> 0 then bytes_at (ram s) (?d + p) (unat ?n) else [])"
      unfolding ramfs_read_def Let_def using ty False by (simp only: simp_thms if_False)
    moreover have "sint ?n = int (unat ?n)" using n z by (intro sint_small) simp
    ultimately show ?thesis unfolding piece Let_def using d by (cases "?n = 0") simp_all
  qed
qed

lemma write_contents:
  assumes inv: "slub_inv (heap s)" and ok: "file_ok i s" and off: "unat off \<le> unat (i_size (inodes s i))"
    and bound: "unat off + length buf \<le> 2 ^ 26"
  obtains "ramfs_write i buf off s = Some (- ENOMEM, s)"
  | s' where "ramfs_write i buf off s = Some (int (length buf), s')" "slub_inv (heap s')" "file_ok i s'"
      "untouched i s s'" "contents i s' = overwrite (unat off) buf (contents i s)"
proof -
  from inv ok bound show thesis
  proof (cases rule: write_effect)
    case 1
    then show thesis by (rule that(1))
  next
    case (2 s1 s')
    have g: "slub_inv (heap s1)" "file_ok i s1" "inodes s1 = inodes s" "contents i s1 = contents i s" "untouched i s s1"
      using 2(2) by (simp_all add: grown_def)
    note cap = file_ok_cap [OF g(2)]
    note put = put_in_file [OF g(1,2) 2(3), folded 2(4)]
    have ok': "file_ok i s'"
      using g(2) 2(3,5,6,8,9) cap(2) unfolding file_ok_def by (simp add: word_le_nat_alt g(3))
    have "untouched i s1 s'" unfolding untouched_def using put(2) 2(5,6) by auto
    then have un: "untouched i s s'" by (rule untouched_trans [OF g(5)])
    have off1: "unat off \<le> length (contents i s1)" using off g(3) by (simp add: contents_def)
    have len: "length (contents i s') = length (overwrite (unat off) buf (contents i s1))"
      using overwrite_nth(1) [OF off1] 2(9) g(3) by (simp add: contents_def)
    have nth: "contents i s' ! k = overwrite (unat off) buf (contents i s1) ! k" if k: "k < length (contents i s')" for k
    proof -
      have k': "k < unat (i_size (inodes s' i))" using k by (simp add: contents_def)
      then have kc: "k < unat (r_capacity (rnodes s1 i))" using 2(3,9) cap(2) g(3) by simp
      have l: "contents i s' ! k = ram s' (r_data (rnodes s1 i) + of_nat k)" using k' 2(6) by (simp add: contents_def)
      show ?thesis
      proof (cases "unat off \<le> k \<and> k < unat off + length buf")
        case True
        then show ?thesis using put(1) [OF kc] overwrite_nth(2) [OF off1, of k buf] k len l by simp
      next
        case False
        then have "k < unat (i_size (inodes s1 i))" using k' off 2(9) g(3) by auto
        then have "contents i s1 ! k = ram s1 (r_data (rnodes s1 i) + of_nat k)" by (simp add: contents_def)
        then show ?thesis using put(1) [OF kc] overwrite_nth(2) [OF off1, of k buf] k len l False by simp
      qed
    qed
    have c: "contents i s' = overwrite (unat off) buf (contents i s)"
      unfolding g(4) [symmetric] by (rule nth_equalityI [OF len nth])
    have inv': "slub_inv (heap s')" using 2(5) g(1) by simp
    show thesis by (rule that(2) [OF 2(1) inv' ok' un c])
  qed
qed


text \<open>A fresh regular file on a freshly booted allocator.\<close>

definition sample_fs :: fs where
  "sample_fs = ramfs_inode_init 0x1000 S_IFREG
     \<lparr>heap = small_kmem, ram = (\<lambda>_. 0),
      inodes = (\<lambda>_. \<lparr>ino = 0, i_size = 0, i_type = 0, i_mode = 0, i_rdev = 0, i_op = False, i_fop = None,
        i_private = 0, nlink = 0, i_count = 0, i_flags = 0, i_free = None\<rparr>),
      rnodes = (\<lambda>_. \<lparr>r_parent = 0, r_children = [], r_data = 0, r_capacity = 0\<rparr>),
      pnodes = (\<lambda>_. \<lparr>p_magic = 0, p_pid = 0, p_kind = 0, p_text = []\<rparr>), root_inode = 0x2000, next_ino = 1\<rparr>"

lemma sample_fs_file:
  "slub_inv (heap sample_fs)" "file_ok 0x1000 sample_fs" "contents 0x1000 sample_fs = []"
  "i_size (inodes sample_fs 0x1000) = 0" "r_capacity (rnodes sample_fs 0x1000) = 0"
  by (simp_all add: sample_fs_def ramfs_inode_init_def small_kmem_inv file_ok_def contents_def)

lemma sample_fs_grow: "map_option fst (ramfs_ensure_capacity 0x1000 3 sample_fs) = Some 0"
  by code_simp

lemma sample_fs_write:
  obtains s' where "ramfs_write 0x1000 [7, 8, 9] 0 sample_fs = Some (3, s')" "slub_inv (heap s')"
    "file_ok 0x1000 s'" "contents 0x1000 s' = [7, 8, 9]"
proof -
  obtain e t where e: "ramfs_ensure_capacity 0x1000 3 sample_fs = Some (e, t)" "e = 0"
    using sample_fs_grow by (cases "ramfs_ensure_capacity 0x1000 3 sample_fs") auto
  then obtain r where w: "ramfs_write 0x1000 [7, 8, 9] 0 sample_fs = Some (3, r)"
    using sample_fs_file by (simp add: ramfs_write_def file_ok_def Let_def)
  show thesis
    by (rule write_contents [OF sample_fs_file(1,2), of 0 "[7, 8, 9]"])
      (use w that in \<open>auto simp: sample_fs_file overwrite_def\<close>)
qed


subsection \<open>Beyond the contract\<close>

lemma grow_cap_shift:
  assumes "grow_cap cap need = Some r"
  shows "need \<le> r \<and> (\<exists>n. r = push_bit n cap)"
proof (rule grow_cap.raw_induct [where P = "\<lambda>cap need r. need \<le> r \<and> (\<exists>n. r = push_bit n cap)", OF _ assms])
  fix f :: "u64 \<Rightarrow> u64 \<Rightarrow> u64 option" and cap need r
  assume IH: "\<And>cap need r. f cap need = Some r \<Longrightarrow> need \<le> r \<and> (\<exists>n. r = push_bit n cap)"
    and r: "(if cap < need then f (push_bit 1 cap) need else Some cap) = Some r"
  show "need \<le> r \<and> (\<exists>n. r = push_bit n cap)"
  proof (cases "cap < need")
    case True
    then have "f (push_bit 1 cap) need = Some r" using r by simp
    then obtain n where n: "need \<le> r" "r = push_bit n (push_bit 1 cap)" using IH by blast
    then have "r = push_bit (n + 1) cap" by (simp only: push_bit_push_bit)
    then show ?thesis using n(1) by blast
  next
    case False
    then have "r = push_bit 0 cap" "need \<le> r" using r by simp_all
    then show ?thesis by blast
  qed
qed

lemma grow_cap_none:
  assumes "k \<le> 63" "2 ^ 63 < need"
  shows "grow_cap (2 ^ k) need = None"
proof (cases "grow_cap (2 ^ k) need")
  case (Some r)
  then obtain n where n: "need \<le> r" "r = push_bit n (2 ^ k)" using grow_cap_shift by blast
  have r: "r = 2 ^ (k + n)" using n(2) by (simp add: push_bit_eq_mult power_add mult.commute)
  have "r \<le> 2 ^ 63"
  proof (cases "k + n \<le> 63")
    case True
    then show ?thesis
      using unat_pow2 [of "k + n"] unat_pow2 [of 63] power_increasing [of "k + n" 63 "2::nat"]
      by (simp add: r word_le_nat_alt)
  next
    case False
    then have "r = 0" by (simp add: r exp_eq_zero_iff)
    then show ?thesis by simp
  qed
  then show ?thesis using n(1) assms(2) by simp
qed simp

text \<open>C34: a write behind the end of the address range never returns.  For a regular file, \<open>ramfs_write\<close>
  returns to its caller if and only if the end of the write wraps around (which is refused) or is at
  most \<open>2 ^ 63\<close>; otherwise the doubling of the capacity shifts the one bit out and loops for ever.  A
  user program reaches that offset with \<open>lseek\<close>.\<close>

theorem ramfs_write_returns_iff:
  assumes ok: "file_ok i s"
  shows "ramfs_write i buf off s \<noteq> None \<longleftrightarrow>
    off + of_nat (length buf) < off \<or> off + of_nat (length buf) \<le> 2 ^ 63"
proof -
  let ?e = "off + of_nat (length buf)" and ?n = "rnodes s i"
  have ty: "i \<noteq> 0" "i_type (inodes s i) = S_IFREG" using ok by (simp_all add: file_ok_def)
  obtain k where k: "k \<le> 26" "(if r_capacity ?n \<noteq> 0 then r_capacity ?n else PAGE_SIZE) = 2 ^ k"
    using ok unfolding file_ok_def by (cases "r_capacity ?n = 0") (auto intro: that [of 12])
  have cap: "?e \<le> r_capacity ?n \<Longrightarrow> ?e \<le> 2 ^ 63"
    using file_ok_cap(1) [OF ok] unat_pow2 [of 63] by (simp add: word_le_nat_alt)
  have "ramfs_ensure_capacity i ?e s \<noteq> None \<longleftrightarrow> ?e \<le> 2 ^ 63"
  proof (cases "?e \<le> r_capacity ?n")
    case True
    then show ?thesis using cap ty by (simp add: ramfs_ensure_capacity_def)
  next
    case False
    have "grow_cap (2 ^ k) ?e \<noteq> None \<longleftrightarrow> ?e \<le> 2 ^ 63"
      using grow_cap_none [of k ?e] grow_cap_some [of k ?e] k(1) by (cases "?e \<le> 2 ^ 63") auto
    then show ?thesis
      using False ty unfolding ramfs_ensure_capacity_def Let_def k(2)
      by (auto simp: bind_eq_None_conv split: option.splits prod.splits)
  qed
  then show ?thesis
    using ty by (cases "ramfs_ensure_capacity i ?e s") (auto simp: ramfs_write_def Let_def split: prod.splits)
qed

theorem ramfs_write_returns_iff_witness:
  "ramfs_write 0x1000 [1, 2] 0x7fffffffffffffff sample_fs = None"
  using ramfs_write_returns_iff [OF sample_fs_file(2), of "[1, 2]" "0x7fffffffffffffff"]
  by (cases "ramfs_write 0x1000 [1, 2] 0x7fffffffffffffff sample_fs") auto

text \<open>truncation does not erase.  After a file has been truncated to nothing, a write at an offset
  within its old block brings the old bytes before that offset back, where a reader is promised zeros.\<close>

theorem ramfs_truncate_not_erased:
  assumes ok: "file_ok i s" and off: "unat off \<le> unat (i_size (inodes s i))"
    and fit: "unat off + length buf \<le> unat (r_capacity (rnodes s i))" and inv: "slub_inv (heap s)" and b: "buf \<noteq> []"
  shows "\<exists>s1 s2. ramfs_truncate i 0 s = (0, s1) \<and> contents i s1 = [] \<and>
    ramfs_write i buf off s1 = Some (int (length buf), s2) \<and> contents i s2 = take (unat off) (contents i s) @ buf"
proof -
  define s1 where "s1 = upd_inode i (\<lambda>n. n\<lparr>i_size := 0\<rparr>) s"
  have t: "ramfs_truncate i 0 s = (0, s1)" using ok by (simp add: ramfs_truncate_def s1_def file_ok_def)
  have ok1: "file_ok i s1" using ok by (simp add: s1_def file_ok_def)
  have bound: "unat off + length buf \<le> 2 ^ 26" using fit file_ok_cap(1) [OF ok] by simp
  let ?e = "off + of_nat (length buf)"
  have l: "unat (of_nat (length buf) :: u64) = length buf" using bound by (intro unat_of_nat_less) simp
  have e: "unat ?e = unat off + length buf" using bound l by (subst unat_add_lem [THEN iffD1]) simp_all
  have ne: "0 < ?e" using e b by (simp add: word_less_nat_alt)
  have ens: "ramfs_ensure_capacity i ?e s1 = Some (0, s1)"
    using ok fit e by (simp add: ramfs_ensure_capacity_def s1_def file_ok_def word_le_nat_alt)
  define s2 where "s2 = upd_inode i (\<lambda>n. n\<lparr>i_size := ?e\<rparr>) (s1\<lparr>ram := put_bytes (r_data (rnodes s i) + off) buf (ram s)\<rparr>)"
  have "\<not> ?e < off" using e by (simp add: word_less_nat_alt)
  moreover have "sint (of_nat (length buf) :: u64) = int (length buf)"
    using bound l sint_small [of "of_nat (length buf)"] by simp
  ultimately have w: "ramfs_write i buf off s1 = Some (int (length buf), s2)"
    using ens ok ne by (simp add: ramfs_write_def s1_def s2_def file_ok_def Let_def)
  note put = put_in_file [OF inv ok fit]
  have "contents i s2 = take (unat off) (contents i s) @ buf"
  proof (rule nth_equalityI)
    show "length (contents i s2) = length (take (unat off) (contents i s) @ buf)"
      using e off by (simp add: contents_def s2_def)
    fix k assume "k < length (contents i s2)"
    then have k: "k < unat off + length buf" using e by (simp add: contents_def s2_def)
    then have "contents i s2 ! k = put_bytes (r_data (rnodes s i) + off) buf (ram s) (r_data (rnodes s i) + of_nat k)"
      using e by (simp add: contents_def s2_def s1_def)
    then show "contents i s2 ! k = (take (unat off) (contents i s) @ buf) ! k"
      using put(1) [of k] k fit off by (simp add: nth_append contents_def)
  qed
  then show ?thesis using t w by (intro exI [of _ s1] exI [of _ s2]) (simp add: contents_def s1_def)
qed

theorem ramfs_truncate_not_erased_witness:
  "\<exists>s s1 s2. ramfs_truncate 0x1000 0 s = (0, s1) \<and> contents 0x1000 s1 = [] \<and>
     ramfs_write 0x1000 [1] 2 s1 = Some (1, s2) \<and> contents 0x1000 s2 = [7, 8, 1]"
proof -
  obtain s where s: "slub_inv (heap s)" "file_ok 0x1000 s" "contents 0x1000 s = [7, 8, 9]" by (rule sample_fs_write)
  have z: "unat (i_size (inodes s 0x1000)) = 3" using arg_cong [OF s(3), of length] by (simp add: contents_def)
  then have "3 \<le> unat (r_capacity (rnodes s 0x1000))" using file_ok_cap(2) [OF s(2)] by simp
  then show ?thesis using ramfs_truncate_not_erased [OF s(2) _ _ s(1), of 2 "[1]"] z s(3) by auto
qed

end
