(* ===== verification/Ramfs_Tree.thy ===== *)
theory Ramfs_Tree
  imports Ramfs Slub_Props
begin

text \<open>
  The directory tree of ramfs: what a well-formed tree is, path lookup as a walk along the components
  of a path, and \<open>ramfs_inode_path\<close> as the inverse of \<open>ramfs_lookup\<close>.
\<close>

subsection \<open>Well-formed trees\<close>

inductive reach :: "fs \<Rightarrow> u64 \<Rightarrow> bool" for s where
  root: "reach s (root_inode s)"
| child: "reach s p \<Longrightarrow> i_type (inodes s p) = S_IFDIR \<Longrightarrow> d \<in> set (r_children (rnodes s p)) \<Longrightarrow> reach s (d_inode d)"

definition entry_ok :: "ramfs_dentry \<Rightarrow> bool" where
  "entry_ok d \<longleftrightarrow> name_ok (d_name d) \<and> length (d_name d) \<le> RAMFS_NAME_MAX \<and> d_inode d \<noteq> 0"

definition dir_ok :: "fs \<Rightarrow> u64 \<Rightarrow> bool" where
  "dir_ok s p \<longleftrightarrow> distinct (map d_name (r_children (rnodes s p))) \<and>
     (\<forall>d\<in>set (r_children (rnodes s p)). entry_ok d \<and>
        (i_type (inodes s (d_inode d)) = S_IFDIR \<longrightarrow> r_parent (rnodes s (d_inode d)) = p \<and> d_inode d \<noteq> root_inode s \<and>
           (\<forall>e\<in>set (r_children (rnodes s p)). d_inode e = d_inode d \<longrightarrow> e = d)))"

definition tree_ok :: "fs \<Rightarrow> bool" where
  "tree_ok s \<longleftrightarrow> root_inode s \<noteq> 0 \<and> i_type (inodes s (root_inode s)) = S_IFDIR \<and> r_parent (rnodes s (root_inode s)) = 0 \<and>
     (\<forall>p. reach s p \<and> i_type (inodes s p) = S_IFDIR \<longrightarrow> dir_ok s p)"

lemma ramfs_streq_eq [simp]: "ramfs_streq a b \<longleftrightarrow> a = b"
  by (induction a b rule: ramfs_streq.induct) auto

lemma find_child_Some:
  "ramfs_find_child p name s = Some d \<Longrightarrow>
     p \<noteq> 0 \<and> i_type (inodes s p) = S_IFDIR \<and> d \<in> set (r_children (rnodes s p)) \<and> d_name d = name"
  by (auto simp: ramfs_find_child_def find_Some_iff split: if_splits)

lemma find_child_entry:
  assumes "dir_ok s p" "p \<noteq> 0" "i_type (inodes s p) = S_IFDIR" "d \<in> set (r_children (rnodes s p))"
  shows "ramfs_find_child p (d_name d) s = Some d"
proof -
  let ?xs = "r_children (rnodes s p)"
  have dist: "distinct (map d_name ?xs)" using assms(1) by (simp add: dir_ok_def)
  obtain e where e: "find (\<lambda>x. d_name x = d_name d) ?xs = Some e"
    using assms(4) by (cases "find (\<lambda>x. d_name x = d_name d) ?xs") (auto simp: find_None_iff)
  then have "e \<in> set ?xs" "d_name e = d_name d" by (auto simp: find_Some_iff)
  then have "e = d" using dist assms(4) by (simp add: distinct_map inj_on_def)
  then show ?thesis using e assms(2,3) by (simp add: ramfs_find_child_def)
qed

lemma reach_entry:
  assumes ok: "tree_ok s" and r: "reach s i" and d: "i_type (inodes s i) = S_IFDIR" and n: "i \<noteq> root_inode s"
  obtains e where "reach s (r_parent (rnodes s i))" "i_type (inodes s (r_parent (rnodes s i))) = S_IFDIR"
    "e \<in> set (r_children (rnodes s (r_parent (rnodes s i))))" "d_inode e = i" "r_parent (rnodes s i) \<noteq> 0"
  using r
proof cases
  case root
  then show thesis using n by simp
next
  case (child p e)
  have "dir_ok s p" using ok child(2,3) by (simp add: tree_ok_def)
  then have p: "r_parent (rnodes s i) = p" using child(1,4) d by (auto simp: dir_ok_def)
  have "p \<noteq> 0"
    using child(2)
  proof cases
    case root
    then show ?thesis using ok by (simp add: tree_ok_def)
  next
    case c: (child q f)
    then have "dir_ok s q" using ok by (simp add: tree_ok_def)
    then show ?thesis using c by (auto simp: dir_ok_def entry_ok_def)
  qed
  then show thesis using that child p by blast
qed

subsection \<open>Lookup as a walk\<close>

fun walk :: "fs \<Rightarrow> u64 \<Rightarrow> string list \<Rightarrow> u64 option" where
  "walk s dir [] = Some dir"
| "walk s dir (c # cs) = (case ramfs_find_child dir c s of None \<Rightarrow> None | Some d \<Rightarrow> walk s (d_inode d) cs)"

lemma walk_append: "walk s dir (cs @ ds) = Option.bind (walk s dir cs) (\<lambda>p. walk s p ds)"
  by (induction cs arbitrary: dir) (auto split: option.splits)

lemma walk_not_dir: "i_type (inodes s dir) \<noteq> S_IFDIR \<Longrightarrow> cs \<noteq> [] \<Longrightarrow> walk s dir cs = None"
  by (cases cs) (simp_all add: ramfs_find_child_def)

definition short_name :: "string \<Rightarrow> bool" where
  "short_name c \<longleftrightarrow> name_ok c \<and> length c \<le> RAMFS_NAME_MAX"

lemma lookup_loop_name:
  assumes "short_name c" "rest = [] \<or> hd rest = slash"
  shows "lookup_loop s dir (c @ rest) =
    (case ramfs_find_child dir c s of
       None \<Rightarrow> None
     | Some d \<Rightarrow>
         if skip_slash rest = [] then Some (d_inode d)
         else if i_type (inodes s (d_inode d)) \<noteq> S_IFDIR then None
         else lookup_loop s (d_inode d) (skip_slash rest))"
proof -
  have c: "comp_ok c" "c \<noteq> []" "c \<noteq> ''.''" "c \<noteq> ''..''" "take RAMFS_NAME_MAX c = c"
    using assms(1) by (simp_all add: short_name_def name_ok_def comp_ok_def)
  have "take RAMFS_NAME_MAX (first_name (c @ rest)) = c" using first_name_append(1) [OF c(1) assms(2)] c(5) by simp
  then show ?thesis using c by (subst lookup_loop.simps) (simp add: Let_def)
qed

lemma lookup_steps:
  "cs \<noteq> [] \<Longrightarrow> \<forall>c\<in>set cs. short_name c \<Longrightarrow> lookup_loop s dir (tl (steps cs)) = walk s dir cs"
proof (induction cs arbitrary: dir)
  case (Cons c cs)
  have c: "short_name c" and cs: "\<forall>c\<in>set cs. short_name c" using Cons.prems by simp_all
  have rest: "steps cs = [] \<or> hd (steps cs) = slash" by (cases cs) simp_all
  have skip: "skip_slash (steps cs) = tl (steps cs)"
  proof (cases cs)
    case (Cons e es)
    then have "comp_ok e" using cs by (simp add: short_name_def name_ok_def)
    then show ?thesis using Cons skip_slash_name [of e "steps es"] by simp
  qed simp
  show ?case
  proof (cases "cs = []")
    case True
    then show ?thesis using lookup_loop_name [OF c, of "[]" s dir] by (simp split: option.splits)
  next
    case False
    then have ne: "tl (steps cs) \<noteq> []" using cs by (cases cs) (auto simp: short_name_def name_ok_def comp_ok_def)
    have IH: "lookup_loop s d (tl (steps cs)) = walk s d cs" for d using Cons.IH [OF False cs] .
    show ?thesis
      using lookup_loop_name [OF c rest, of s dir] skip ne IH walk_not_dir [OF _ False, of s]
      by (simp split: option.splits)
  qed
qed simp

text \<open>On an absolute path without \<open>.\<close> and \<open>..\<close>, which is what \<open>path_resolve\<close> produces, lookup is the walk from the root.\<close>

lemma ramfs_lookup_walk:
  assumes "\<forall>c\<in>set cs. short_name c"
  shows "ramfs_lookup (abs_path cs) s = walk s (root_inode s) cs"
proof (cases cs)
  case Nil
  then show ?thesis by (simp add: ramfs_lookup_def ramfs_lookup_at_def abs_path_def)
next
  case (Cons c ds)
  then have c: "comp_ok c" using assms by (simp add: short_name_def name_ok_def)
  then have "skip_slash (steps cs) = tl (steps cs)" "tl (steps cs) \<noteq> []"
    using Cons skip_slash_name [of c "steps ds"] by (auto simp: comp_ok_def)
  moreover have "c \<noteq> []" using c by (simp add: comp_ok_def)
  ultimately show ?thesis
    using lookup_steps [of cs s "root_inode s"] assms Cons
    by (simp add: ramfs_lookup_def ramfs_lookup_at_def abs_path_def)
qed

subsection \<open>The path of a directory\<close>

lemma path_names_append:
  "path_names sz (xs @ ys) buf s =
     (case path_names sz xs buf s of Inl e \<Rightarrow> Inl e | Inr b \<Rightarrow> path_names sz ys b s)"
  by (induction xs arbitrary: buf) (auto simp: Let_def split: option.splits)

lemma abs_path_length: "length (abs_path cs) > 1 \<longleftrightarrow> cs \<noteq> []" if "\<forall>c\<in>set cs. name_ok c"
  using that by (cases cs) (auto simp: abs_path_def name_ok_def comp_ok_def)

lemma path_of_chain:
  assumes ok: "tree_ok s" and "reach s i" "i_type (inodes s i) = S_IFDIR"
    "path_chain k i s = Inr chain" "path_names sz (rev chain) ''/'' s = Inr p"
  shows "\<exists>cs. p = abs_path cs \<and> (\<forall>c\<in>set cs. short_name c) \<and> walk s (root_inode s) cs = Some i"
  using assms(2-)
proof (induction k arbitrary: i chain p)
  case (0 i)
  then show ?case by (intro exI [of _ "[]"]) (auto simp: path_chain.simps [of 0] abs_path_def split: if_splits)
next
  case (Suc k i)
  show ?case
  proof (cases "i = root_inode s")
    case True
    then show ?thesis using Suc.prems
      by (intro exI [of _ "[]"]) (auto simp: path_chain.simps [of "Suc k"] abs_path_def split: if_splits)
  next
    case False
    let ?q = "r_parent (rnodes s i)"
    obtain e where e: "reach s ?q" "i_type (inodes s ?q) = S_IFDIR" "e \<in> set (r_children (rnodes s ?q))"
        "d_inode e = i" "?q \<noteq> 0" by (rule reach_entry [OF ok Suc.prems(1,2) False])
    obtain c where c: "path_chain k ?q s = Inr c" "chain = i # c" "i \<noteq> 0"
      using Suc.prems(3) False by (auto simp: path_chain.simps [of "Suc k"] split: if_splits sum.splits)
    obtain b where b: "path_names sz (rev c) ''/'' s = Inr b" "path_names sz [i] b s = Inr p"
      using Suc.prems(4) c(2) by (auto simp: path_names_append split: sum.splits)
    obtain cs where cs: "b = abs_path cs" "\<forall>c\<in>set cs. short_name c" "walk s (root_inode s) cs = Some ?q"
      using Suc.IH [OF e(1,2) c(1) b(1)] by blast
    obtain f where f: "find (\<lambda>d. d_inode d = i) (r_children (rnodes s ?q)) = Some f"
      using e(3,4) by (cases "find (\<lambda>d. d_inode d = i) (r_children (rnodes s ?q))") (auto simp: find_None_iff)
    then have fi: "f \<in> set (r_children (rnodes s ?q))" "d_inode f = i" by (auto simp: find_Some_iff)
    have dok: "dir_ok s ?q" using ok e(1,2) by (simp add: tree_ok_def)
    then have short: "short_name (d_name f)" using fi(1) by (simp add: dir_ok_def entry_ok_def short_name_def)
    have name: "ramfs_name_in_parent ?q i s = Some (d_name f)" using f e(5) c(3) by (simp add: ramfs_name_in_parent_def)
    have len: "length b > 1 \<longleftrightarrow> cs \<noteq> []" using abs_path_length [of cs] cs(1,2) by (simp add: short_name_def)
    have "p = (if length b > 1 then b @ [slash] else b) @ d_name f"
      using b(2) name e(5) by (auto simp: Let_def split: if_splits)
    then have "p = abs_path (cs @ [d_name f])" using len cs(1) by (auto simp: abs_path_def)
    moreover have "walk s (root_inode s) (cs @ [d_name f]) = Some i"
      using cs(3) find_child_entry [OF dok e(5,2) fi(1)] fi(2) by (simp add: walk_append)
    ultimately show ?thesis using cs(2) short by (intro exI [of _ "cs @ [d_name f]"]) simp
  qed
qed

text \<open>C32: the path of a directory leads back to it.  In a well-formed tree, whenever \<open>ramfs_inode_path\<close> finds
  a path for a directory, looking that path up from the root finds exactly this directory again; the
  path is absolute, has no \<open>.\<close> or \<open>..\<close> and names every directory on the way.\<close>

theorem ramfs_inode_path_lookup:
  assumes "tree_ok s" "reach s i" "ramfs_inode_path i sz s = Inr p"
  shows "ramfs_lookup p s = Some i \<and> (\<exists>cs. p = abs_path cs \<and> (\<forall>c\<in>set cs. name_ok c))"
proof (cases "i = root_inode s")
  case True
  then have "p = abs_path []" using assms(3) by (auto simp: ramfs_inode_path_def abs_path_def split: if_splits)
  then show ?thesis using ramfs_lookup_walk [of "[]" s] True by (auto intro: exI [of _ "[]"])
next
  case False
  then obtain chain where "i_type (inodes s i) = S_IFDIR" "path_chain 64 i s = Inr chain"
      "path_names sz (rev chain) ''/'' s = Inr p"
    using assms(3) by (auto simp: ramfs_inode_path_def inode_is_dir_def split: if_splits sum.splits)
  from path_of_chain [OF assms(1,2) this] show ?thesis
    using ramfs_lookup_walk by (fastforce simp: short_name_def)
qed

text \<open>The tree with the directory \<open>/usr/lib\<close>.\<close>

definition dir_inode :: inode where
  "dir_inode = \<lparr>ino = 1, i_size = 0, i_type = S_IFDIR, i_mode = 0x41ED, i_rdev = 0, i_op = True,
     i_fop = Some Ramfs_Dir_Ops, i_private = 0, nlink = 2, i_count = 0, i_flags = I_PERSISTENT, i_free = Some Ramfs_I_Free\<rparr>"

definition dir_node :: "u64 \<Rightarrow> ramfs_dentry list \<Rightarrow> ramfs_inode" where
  "dir_node p ds = \<lparr>r_parent = p, r_children = ds, r_data = 0, r_capacity = 0\<rparr>"

definition sample_tree :: fs where
  "sample_tree =
     \<lparr>heap = small_kmem, ram = (\<lambda>_. 0), inodes = (\<lambda>_. dir_inode),
      rnodes = (\<lambda>i. if i = 0x2000 then dir_node 0 [\<lparr>d_at = 0x5000, d_name = ''usr'', d_inode = 0x3000\<rparr>]
        else if i = 0x3000 then dir_node 0x2000 [\<lparr>d_at = 0x6000, d_name = ''lib'', d_inode = 0x4000\<rparr>]
        else dir_node 0x3000 []),
      pnodes = (\<lambda>_. \<lparr>p_magic = 0, p_pid = 0, p_kind = 0, p_text = []\<rparr>), root_inode = 0x2000, next_ino = 4\<rparr>"

lemma sample_tree_reach: "reach sample_tree i \<Longrightarrow> i = 0x2000 \<or> i = 0x3000 \<or> i = 0x4000"
  by (induction rule: reach.induct) (auto simp: sample_tree_def dir_node_def)

lemma sample_tree_ok: "tree_ok sample_tree"
  unfolding tree_ok_def dir_ok_def entry_ok_def name_ok_def comp_ok_def
  by (auto dest!: sample_tree_reach simp: sample_tree_def dir_node_def dir_inode_def)

lemma sample_tree_lib: "reach sample_tree 0x4000"
proof -
  have "reach sample_tree 0x2000" using reach.root [of sample_tree] by (simp add: sample_tree_def)
  from reach.child [OF this, of "\<lparr>d_at = 0x5000, d_name = ''usr'', d_inode = 0x3000\<rparr>"]
  have "reach sample_tree 0x3000" by (simp add: sample_tree_def dir_inode_def dir_node_def)
  from reach.child [OF this, of "\<lparr>d_at = 0x6000, d_name = ''lib'', d_inode = 0x4000\<rparr>"]
  show ?thesis by (simp add: sample_tree_def dir_inode_def dir_node_def)
qed

theorem ramfs_inode_path_lookup_witness:
  "ramfs_lookup ''/usr/lib'' sample_tree = Some 0x4000"
proof -
  have p: "ramfs_inode_path 0x4000 256 sample_tree = Inr ''/usr/lib''"
    by (simp add: ramfs_inode_path_def inode_is_dir_def path_chain.simps ramfs_name_in_parent_def
        sample_tree_def dir_inode_def dir_node_def)
  show ?thesis using ramfs_inode_path_lookup [OF sample_tree_ok sample_tree_lib p] by simp
qed

end
