(* ===== verification/Wait.thy ===== *)
theory Wait
  imports Signal
begin

text \<open>
  Wait queues: \<^verbatim>\<open>include/linux/wait.h\<close> and \<^verbatim>\<open>kernel/sched/wait.c\<close>.  An entry lives on the stack of the task
  that waits; it is the pair of its address and its task, and a queue is the list of its entries from
  the head.  A call that waits is cut where it gives up the CPU: the part up to \<open>schedule\<close>, and the part
  after it.  The outcome \<open>None\<close> of a part means that the loop goes on, \<open>Some r\<close> that it has returned.
\<close>

abbreviation (input) POLLIN :: u32 where "POLLIN \<equiv> 0x1"
abbreviation (input) POLLOUT :: u32 where "POLLOUT \<equiv> 0x4"
abbreviation (input) POLLERR :: u32 where "POLLERR \<equiv> 0x8"
abbreviation (input) POLLHUP :: u32 where "POLLHUP \<equiv> 0x10"
abbreviation (input) POLLNVAL :: u32 where "POLLNVAL \<equiv> 0x20"
abbreviation (input) POLLRDNORM :: u32 where "POLLRDNORM \<equiv> 0x40"
abbreviation (input) POLLWRNORM :: u32 where "POLLWRNORM \<equiv> 0x100"

type_synonym wait_queue_head = "(u64 \<times> u64) list"

definition waitqueue_contains :: "u64 \<Rightarrow> wait_queue_head \<Rightarrow> bool" where
  "waitqueue_contains e wq \<longleftrightarrow> list_ex (\<lambda>(a, t). a = e) wq"

definition init_waitqueue_head :: wait_queue_head where
  "init_waitqueue_head = []"

definition add_wait_queue :: "u64 \<times> u64 \<Rightarrow> wait_queue_head \<Rightarrow> wait_queue_head" where
  "add_wait_queue e wq = e # wq"

fun remove_wait_queue :: "u64 \<Rightarrow> wait_queue_head \<Rightarrow> wait_queue_head" where
  "remove_wait_queue e [] = []"
| "remove_wait_queue e ((a, t) # wq) = (if a = e then wq else (a, t) # remove_wait_queue e wq)"

text \<open>All callers initialise the entry with the current task.\<close>

definition prepare_to_wait :: "nat \<Rightarrow> u64 \<Rightarrow> wait_queue_head \<Rightarrow> sched \<Rightarrow> wait_queue_head \<times> sched" where
  "prepare_to_wait c e wq s =
     (let t = get_current c s in
      (if waitqueue_contains e wq then wq else (e, t) # wq,
       dequeue_task t (upd_task t (\<lambda>k. k\<lparr>t_state := TASK_SLEEPING\<rparr>) s)))"

definition finish_wait :: "nat \<Rightarrow> u64 \<Rightarrow> wait_queue_head \<Rightarrow> sched \<Rightarrow> wait_queue_head \<times> sched" where
  "finish_wait c e wq s =
     (let t = get_current c s in
      (remove_wait_queue e wq,
       if \<not> on_rq t s then enqueue_task c t s else upd_task t (\<lambda>k. k\<lparr>t_state := TASK_RUNNING\<rparr>) s))"

fun wake_up :: "nat \<Rightarrow> wait_queue_head \<Rightarrow> sched \<Rightarrow> sched" where
  "wake_up c [] s = s"
| "wake_up c ((e, t) # wq) s =
     wake_up c wq (if t \<noteq> 0 \<and> t_state (tasks s t) = TASK_SLEEPING then wake_up_process c t s else s)"

text \<open>One round of \<open>wait_event\<close> and \<open>wait_event_interruptible\<close>; the condition has been evaluated.\<close>

definition wait_event_round :: "nat \<Rightarrow> bool \<Rightarrow> u64 \<Rightarrow> wait_queue_head \<Rightarrow> sched \<Rightarrow> int option \<times> wait_queue_head \<times> sched" where
  "wait_event_round c cond e wq s =
     (if cond then (Some 0, wq, s) else let (wq', s') = prepare_to_wait c e wq s in (None, wq', s'))"

definition wait_event_interruptible_round ::
    "nat \<Rightarrow> bool \<Rightarrow> u64 \<Rightarrow> wait_queue_head \<Rightarrow> sched \<Rightarrow> int option \<times> wait_queue_head \<times> sched" where
  "wait_event_interruptible_round c cond e wq s =
     (if cond then (Some 0, wq, s)
      else if signal_pending (tasks s (get_current c s)) then (Some (- ERESTARTSYS), wq, s)
      else let (wq', s') = prepare_to_wait c e wq s in (None, wq', s'))"

definition wait_event_interruptible_resume ::
    "nat \<Rightarrow> u64 \<Rightarrow> wait_queue_head \<Rightarrow> sched \<Rightarrow> int option \<times> wait_queue_head \<times> sched" where
  "wait_event_interruptible_resume c e wq s =
     (let (wq', s') = finish_wait c e wq s in
      (if signal_pending (tasks s' (get_current c s')) then Some (- ERESTARTSYS) else None, wq', s'))"

end
