(* ===== verification/Ring.thy ===== *)
theory Ring
  imports Kstring
begin

text \<open>
  Ring buffers.  The pipe and the terminal keep bytes in an array with a position to write and a
  position to read; both advance by one and start again at zero at the end of the array.  The
  interface of such a queue is a locale: what it holds is a list, a byte is put at its end and taken
  from its front.  The loops that put and get several bytes are verified once, inside the locale.
\<close>

text \<open>The positions after one step, and the bytes from a position on.\<close>

definition ring_next :: "nat \<Rightarrow> nat \<Rightarrow> nat" where
  "ring_next n i = (if i + 1 = n then 0 else i + 1)"

definition ring_data :: "nat \<Rightarrow> (nat \<Rightarrow> 'a) \<Rightarrow> nat \<Rightarrow> nat \<Rightarrow> 'a list" where
  "ring_data n buf tail len = map (\<lambda>i. buf ((tail + i) mod n)) [0..<len]"

lemma ring_next_mod: "i < n \<Longrightarrow> ring_next n i = (i + 1) mod n"
  by (auto simp: ring_next_def)

lemma ring_next_less: "i < n \<Longrightarrow> ring_next n i < n"
  by (auto simp: ring_next_def)

lemma ring_data_length [simp]: "length (ring_data n buf tail len) = len"
  by (simp add: ring_data_def)

lemma ring_data_Suc: "ring_data n buf tail (Suc len) = ring_data n buf tail len @ [buf ((tail + len) mod n)]"
  by (simp add: ring_data_def)

lemma ring_data_Cons:
  assumes "tail < n"
  shows "ring_data n buf tail (Suc len) = buf tail # ring_data n buf (ring_next n tail) len"
proof -
  have "(tail + Suc i) mod n = (ring_next n tail + i) mod n" for i
    using assms by (simp add: ring_next_mod mod_simps)
  then show ?thesis using assms by (simp add: ring_data_def map_upt_Suc del: upt_Suc)
qed

lemma ring_data_put:
  assumes "tail < n" "len < n"
  shows "ring_data n (buf((tail + len) mod n := c)) tail len = ring_data n buf tail len"
proof -
  have "(tail + i) mod n \<noteq> (tail + len) mod n" if "i < len" for i
  proof
    assume eq: "(tail + i) mod n = (tail + len) mod n"
    then have "n dvd (tail + len) - (tail + i)" using that by (metis mod_eq_dvd_iff_nat nat_add_left_cancel_le less_imp_le)
    then show False using that assms(2) by (auto dest: dvd_imp_le)
  qed
  then show ?thesis by (simp add: ring_data_def)
qed

fun put_all :: "('a \<Rightarrow> 'q \<Rightarrow> 'q) \<Rightarrow> 'a list \<Rightarrow> 'q \<Rightarrow> 'q" where
  "put_all put [] q = q"
| "put_all put (c # cs) q = put_all put cs (put c q)"

fun get_all :: "('q \<Rightarrow> 'a \<times> 'q) \<Rightarrow> nat \<Rightarrow> 'q \<Rightarrow> 'a list \<times> 'q" where
  "get_all get 0 q = ([], q)"
| "get_all get (Suc n) q = (let (c, q1) = get q; (cs, q2) = get_all get n q1 in (c # cs, q2))"

locale byte_queue =
  fixes put :: "'a \<Rightarrow> 'q \<Rightarrow> 'q" and get :: "'q \<Rightarrow> 'a \<times> 'q" and holds :: "'q \<Rightarrow> 'a list \<Rightarrow> bool" and cap :: nat
  assumes put_law: "holds q xs \<Longrightarrow> length xs < cap \<Longrightarrow> holds (put c q) (xs @ [c])"
    and get_law: "holds q (x # xs) \<Longrightarrow> fst (get q) = x \<and> holds (snd (get q)) xs"
begin

lemma put_all_holds:
  "holds q xs \<Longrightarrow> length xs + length cs \<le> cap \<Longrightarrow> holds (put_all put cs q) (xs @ cs)"
proof (induction cs arbitrary: q xs)
  case (Cons c cs)
  have "holds (put c q) (xs @ [c])" using Cons.prems by (intro put_law) simp_all
  from Cons.IH [OF this] show ?case using Cons.prems by simp
qed simp

lemma get_all_holds:
  "holds q (xs @ ys) \<Longrightarrow> length xs = n \<Longrightarrow> fst (get_all get n q) = xs \<and> holds (snd (get_all get n q)) ys"
proof (induction n arbitrary: q xs)
  case (Suc n)
  then obtain z zs where xs: "xs = z # zs" by (cases xs) auto
  then have "fst (get q) = z \<and> holds (snd (get q)) (zs @ ys)" using Suc.prems get_law [of q z "zs @ ys"] by simp
  then show ?case using Suc xs by (auto simp: case_prod_beta)
qed simp

end

end
