(* ===== verification/Pipe.thy ===== *)
theory Pipe
  imports Wait Ring
begin

text \<open>
  Pipes: \<^verbatim>\<open>struct pipe\<close> and the operations of \<^verbatim>\<open>fs/pipe.c\<close> on it.  \<open>head\<close>, \<open>tail\<close> and \<open>len\<close> are \<open>unsigned
  int\<close>s that stay within the buffer, so they are natural numbers here.  A read or a write is one attempt
  with the interrupts off; when it has to wait, \<open>pipe_wait\<close> follows, cut at \<open>schedule\<close>, and then the next
  attempt.  An attempt that waits returns \<open>None\<close>.
\<close>

abbreviation (input) PIPE_SIZE :: nat where "PIPE_SIZE \<equiv> 1024"
abbreviation (input) O_WRONLY :: u32 where "O_WRONLY \<equiv> 1"
abbreviation (input) O_ACCMODE :: u32 where "O_ACCMODE \<equiv> 3"
abbreviation (input) O_NONBLOCK :: u32 where "O_NONBLOCK \<equiv> 0x800"

record pipe =
  p_head :: nat
  p_tail :: nat
  p_len :: nat
  p_readers :: int
  p_writers :: int
  p_read_wait :: wait_queue_head
  p_write_wait :: wait_queue_head
  p_buf :: "nat \<Rightarrow> u8"

text \<open>The bodies of the two copying loops.\<close>

definition pipe_put1 :: "u8 \<Rightarrow> pipe \<Rightarrow> pipe" where
  "pipe_put1 c p = p\<lparr>p_buf := (p_buf p)(p_head p := c), p_head := ring_next PIPE_SIZE (p_head p)\<rparr>"

definition pipe_get1 :: "pipe \<Rightarrow> u8 \<times> pipe" where
  "pipe_get1 p = (p_buf p (p_tail p), p\<lparr>p_tail := ring_next PIPE_SIZE (p_tail p)\<rparr>)"

definition pipe_read :: "nat \<Rightarrow> u32 \<Rightarrow> nat \<Rightarrow> pipe \<Rightarrow> sched \<Rightarrow> (int \<times> u8 list) option \<times> pipe \<times> sched" where
  "pipe_read c flags count p s =
     (if p_len p = 0 then
        if p_writers p = 0 then (Some (0, []), p, s)
        else if flags AND O_NONBLOCK \<noteq> 0 then (Some (- EAGAIN, []), p, s)
        else if signal_pending (tasks s (get_current c s)) then (Some (- ERESTARTSYS, []), p, s)
        else (None, p, s)
      else
        let n = (if count > p_len p then p_len p else count);
            (bs, p1) = get_all pipe_get1 n p;
            p2 = p1\<lparr>p_len := p_len p - n\<rparr> in
        (Some (int n, bs), p2, wake_up c (p_write_wait p2) s))"

definition pipe_write :: "nat \<Rightarrow> u32 \<Rightarrow> u8 list \<Rightarrow> pipe \<Rightarrow> sched \<Rightarrow> int option \<times> pipe \<times> sched" where
  "pipe_write c flags buf p s =
     (if p_readers p = 0 then (Some (- EPIPE), p, s)
      else if p_len p = PIPE_SIZE then
        if flags AND O_NONBLOCK \<noteq> 0 then (Some (- EAGAIN), p, s)
        else if signal_pending (tasks s (get_current c s)) then (Some (- ERESTARTSYS), p, s)
        else (None, p, s)
      else
        let n = (if length buf > PIPE_SIZE - p_len p then PIPE_SIZE - p_len p else length buf);
            p1 = put_all pipe_put1 (take n buf) p;
            p2 = p1\<lparr>p_len := p_len p + n\<rparr> in
        (Some (int n), p2, wake_up c (p_read_wait p2) s))"

text \<open>\<open>pipe_wait\<close> of a reader and of a writer: up to \<open>schedule\<close>, and after it with the test for signals.\<close>

definition pipe_read_wait_begin :: "nat \<Rightarrow> u64 \<Rightarrow> pipe \<Rightarrow> sched \<Rightarrow> pipe \<times> sched" where
  "pipe_read_wait_begin c e p s =
     (let (wq, s1) = prepare_to_wait c e (p_read_wait p) s in (p\<lparr>p_read_wait := wq\<rparr>, s1))"

definition pipe_read_wait_end :: "nat \<Rightarrow> u64 \<Rightarrow> pipe \<Rightarrow> sched \<Rightarrow> int option \<times> pipe \<times> sched" where
  "pipe_read_wait_end c e p s =
     (let (wq, s1) = finish_wait c e (p_read_wait p) s in
      (if signal_pending (tasks s1 (get_current c s1)) then Some (- ERESTARTSYS) else None, p\<lparr>p_read_wait := wq\<rparr>, s1))"

definition pipe_write_wait_begin :: "nat \<Rightarrow> u64 \<Rightarrow> pipe \<Rightarrow> sched \<Rightarrow> pipe \<times> sched" where
  "pipe_write_wait_begin c e p s =
     (let (wq, s1) = prepare_to_wait c e (p_write_wait p) s in (p\<lparr>p_write_wait := wq\<rparr>, s1))"

definition pipe_write_wait_end :: "nat \<Rightarrow> u64 \<Rightarrow> pipe \<Rightarrow> sched \<Rightarrow> int option \<times> pipe \<times> sched" where
  "pipe_write_wait_end c e p s =
     (let (wq, s1) = finish_wait c e (p_write_wait p) s in
      (if signal_pending (tasks s1 (get_current c s1)) then Some (- ERESTARTSYS) else None, p\<lparr>p_write_wait := wq\<rparr>, s1))"

text \<open>\<open>pipe_release\<close> on a pipe; the first component says that the last end is gone and the pipe is freed.\<close>

definition pipe_close_end :: "nat \<Rightarrow> u32 \<Rightarrow> pipe \<Rightarrow> sched \<Rightarrow> bool \<times> pipe \<times> sched" where
  "pipe_close_end c flags p s =
     (let p1 = (if flags AND O_ACCMODE = 0
                then if p_readers p > 0 then p\<lparr>p_readers := p_readers p - 1\<rparr> else p
                else if p_writers p > 0 then p\<lparr>p_writers := p_writers p - 1\<rparr> else p);
          s1 = (if p_readers p1 = 0 then wake_up c (p_write_wait p1) s else s);
          s2 = (if p_writers p1 = 0 then wake_up c (p_read_wait p1) s1 else s1) in
      (p_readers p1 = 0 \<and> p_writers p1 = 0, p1, s2))"

text \<open>\<open>poll_wait\<close> puts the next entry of the table on the queue, unless there is no table or it is full.\<close>

definition pipe_read_poll :: "(u64 \<times> u64) option \<Rightarrow> pipe \<Rightarrow> u32 \<times> pipe" where
  "pipe_read_poll w p =
     ((if p_len p \<noteq> 0 then POLLIN OR POLLRDNORM else 0) OR (if p_writers p = 0 then POLLHUP else 0),
      case w of None \<Rightarrow> p | Some e \<Rightarrow> p\<lparr>p_read_wait := add_wait_queue e (p_read_wait p)\<rparr>)"

definition pipe_write_poll :: "(u64 \<times> u64) option \<Rightarrow> pipe \<Rightarrow> u32 \<times> pipe" where
  "pipe_write_poll w p =
     (if p_readers p = 0 then POLLERR else if p_len p < PIPE_SIZE then POLLOUT OR POLLWRNORM else 0,
      case w of None \<Rightarrow> p | Some e \<Rightarrow> p\<lparr>p_write_wait := add_wait_queue e (p_write_wait p)\<rparr>)"

definition pipe_init :: "(nat \<Rightarrow> u8) \<Rightarrow> pipe" where
  "pipe_init junk =
     \<lparr>p_head = 0, p_tail = 0, p_len = 0, p_readers = 1, p_writers = 1,
      p_read_wait = init_waitqueue_head, p_write_wait = init_waitqueue_head, p_buf = junk\<rparr>"

end
