(* ===== verification/Pipe_Props.thy ===== *)
theory Pipe_Props
  imports Pipe Signal_Props
begin

text \<open>
  Pipes refine queues of at most 1024 bytes: the bytes come out in the order in which they went in, a
  successful transfer wakes every task that waits at the other end, and the one flaw of the protocol:
  on two CPUs a reader can go to sleep although the data has arrived.
\<close>

subsection \<open>The ring\<close>

definition pipe_holds :: "pipe \<Rightarrow> u8 list \<Rightarrow> bool" where
  "pipe_holds p xs \<longleftrightarrow> p_tail p < PIPE_SIZE \<and> length xs \<le> PIPE_SIZE \<and> p_head p = (p_tail p + length xs) mod PIPE_SIZE \<and>
     xs = ring_data PIPE_SIZE (p_buf p) (p_tail p) (length xs)"

definition pipe_data :: "pipe \<Rightarrow> u8 list" where
  "pipe_data p = ring_data PIPE_SIZE (p_buf p) (p_tail p) (p_len p)"

definition pipe_inv :: "pipe \<Rightarrow> bool" where
  "pipe_inv p \<longleftrightarrow> pipe_holds p (pipe_data p)"

interpretation pq: byte_queue pipe_put1 pipe_get1 pipe_holds PIPE_SIZE
proof
  fix p xs c assume h: "pipe_holds p xs" and l: "length xs < PIPE_SIZE"
  let ?p = "pipe_put1 c p"
  have d: "ring_data PIPE_SIZE (p_buf ?p) (p_tail ?p) (length xs) = xs"
    using h l ring_data_put [of "p_tail p" PIPE_SIZE "length xs" "p_buf p" c] by (simp add: pipe_holds_def pipe_put1_def)
  have "ring_data PIPE_SIZE (p_buf ?p) (p_tail ?p) (length (xs @ [c])) = xs @ [c]"
    using h d by (simp add: ring_data_Suc pipe_holds_def pipe_put1_def)
  moreover have "p_head ?p = (p_tail ?p + length (xs @ [c])) mod PIPE_SIZE"
    using h by (simp add: pipe_holds_def pipe_put1_def ring_next_mod mod_simps)
  ultimately show "pipe_holds ?p (xs @ [c])" using h l by (simp add: pipe_holds_def pipe_put1_def)
next
  fix p x and xs :: "u8 list" assume h: "pipe_holds p (x # xs)"
  then have t: "p_tail p < PIPE_SIZE" by (simp add: pipe_holds_def)
  have e: "x # xs = p_buf p (p_tail p) # ring_data PIPE_SIZE (p_buf p) (ring_next PIPE_SIZE (p_tail p)) (length xs)"
    using h ring_data_Cons [OF t] by (simp add: pipe_holds_def)
  then have x: "p_buf p (p_tail p) = x" "xs = ring_data PIPE_SIZE (p_buf p) (ring_next PIPE_SIZE (p_tail p)) (length xs)"
    by simp_all
  have "p_head p = (ring_next PIPE_SIZE (p_tail p) + length xs) mod PIPE_SIZE"
    using h t by (simp add: pipe_holds_def ring_next_mod mod_simps)
  then show "fst (pipe_get1 p) = x \<and> pipe_holds (snd (pipe_get1 p)) xs"
    using h t x by (simp add: pipe_holds_def pipe_get1_def ring_next_less)
qed

lemma put_frame [simp]:
  "p_len (put_all pipe_put1 cs p) = p_len p" "p_tail (put_all pipe_put1 cs p) = p_tail p"
  by (induction cs arbitrary: p) (simp_all add: pipe_put1_def)

lemma get_frame [simp]: "p_len (snd (get_all pipe_get1 n p)) = p_len p"
  by (induction n arbitrary: p) (simp_all add: pipe_get1_def case_prod_beta)

lemma holds_data: "pipe_holds p xs \<Longrightarrow> p_len p = length xs \<Longrightarrow> pipe_data p = xs \<and> pipe_inv p"
  by (simp add: pipe_inv_def pipe_data_def pipe_holds_def)

lemma holds_len [simp]: "pipe_holds (p\<lparr>p_len := n\<rparr>) xs \<longleftrightarrow> pipe_holds p xs"
  by (simp add: pipe_holds_def)

lemma pipe_inv_len: "pipe_inv p \<Longrightarrow> length (pipe_data p) = p_len p \<and> p_len p \<le> PIPE_SIZE"
  by (simp add: pipe_inv_def pipe_holds_def pipe_data_def)

subsection \<open>Reading and writing\<close>

lemma pipe_read_data:
  assumes inv: "pipe_inv p" and r: "pipe_read c flags count p s = (r, p', s')"
  shows "pipe_inv p' \<and> pipe_data p = (case r of None \<Rightarrow> [] | Some (n, bs) \<Rightarrow> bs) @ pipe_data p' \<and>
    (case r of None \<Rightarrow> True | Some (n, bs) \<Rightarrow> n \<ge> 0 \<longrightarrow> n = int (length bs))"
proof (cases "p_len p = 0")
  case True
  then show ?thesis using inv r by (auto simp: pipe_read_def split: if_splits)
next
  case False
  define n where "n = (if count > p_len p then p_len p else count)"
  have l: "length (pipe_data p) = p_len p" "n \<le> p_len p" using pipe_inv_len [OF inv] by (simp_all add: n_def)
  have "pipe_holds p (take n (pipe_data p) @ drop n (pipe_data p))" using inv by (simp add: pipe_inv_def)
  from pq.get_all_holds [OF this, of n]
  have g: "fst (get_all pipe_get1 n p) = take n (pipe_data p)" "pipe_holds (snd (get_all pipe_get1 n p)) (drop n (pipe_data p))"
    using l by simp_all
  have r': "r = Some (int n, take n (pipe_data p))" "p' = (snd (get_all pipe_get1 n p))\<lparr>p_len := p_len p - n\<rparr>"
    using r False g(1) by (auto simp: pipe_read_def n_def Let_def case_prod_beta split: if_splits)
  have "pipe_data p' = drop n (pipe_data p) \<and> pipe_inv p'" using r'(2) g(2) l by (intro holds_data) simp_all
  then show ?thesis using r'(1) l by simp
qed

lemma pipe_write_data:
  assumes inv: "pipe_inv p" and w: "pipe_write c flags buf p s = (r, p', s')"
  shows "pipe_inv p' \<and> (case r of None \<Rightarrow> pipe_data p' = pipe_data p
    | Some n \<Rightarrow> pipe_data p' = pipe_data p @ take (nat n) buf \<and> (n \<ge> 0 \<longrightarrow> nat n \<le> length buf))"
proof (cases "p_readers p = 0 \<or> p_len p = PIPE_SIZE")
  case True
  then show ?thesis using inv w by (auto simp: pipe_write_def split: if_splits)
next
  case False
  define n where "n = (if length buf > PIPE_SIZE - p_len p then PIPE_SIZE - p_len p else length buf)"
  have l: "length (pipe_data p) = p_len p" "p_len p \<le> PIPE_SIZE" using pipe_inv_len [OF inv] by simp_all
  then have n: "n \<le> length buf" "p_len p + n \<le> PIPE_SIZE" by (auto simp: n_def)
  have h: "pipe_holds (put_all pipe_put1 (take n buf) p) (pipe_data p @ take n buf)"
    using inv l n by (intro pq.put_all_holds) (simp_all add: pipe_inv_def)
  have r: "r = Some (int n)" "p' = (put_all pipe_put1 (take n buf) p)\<lparr>p_len := p_len p + n\<rparr>"
    using w False by (auto simp: pipe_write_def n_def Let_def split: if_splits)
  have "pipe_data p' = pipe_data p @ take n buf \<and> pipe_inv p'" using r(2) h l n by (intro holds_data) simp_all
  then show ?thesis using r(1) n by simp
qed

text \<open>The attempts of readers and writers on one pipe, in any order, and what they transfer.\<close>

datatype pipe_op = Read_Op nat u32 nat | Write_Op nat u32 "u8 list"

fun pipe_run :: "pipe_op list \<Rightarrow> pipe \<Rightarrow> sched \<Rightarrow> u8 list \<times> u8 list \<times> pipe \<times> sched" where
  "pipe_run [] p s = ([], [], p, s)"
| "pipe_run (Read_Op c flags count # ops) p s =
     (let (r, p1, s1) = pipe_read c flags count p s;
          (i, out, p2, s2) = pipe_run ops p1 s1 in
      (i, (case r of None \<Rightarrow> [] | Some (n, bs) \<Rightarrow> bs) @ out, p2, s2))"
| "pipe_run (Write_Op c flags buf # ops) p s =
     (let (r, p1, s1) = pipe_write c flags buf p s;
          (i, out, p2, s2) = pipe_run ops p1 s1 in
      ((case r of None \<Rightarrow> [] | Some n \<Rightarrow> take (nat n) buf) @ i, out, p2, s2))"

text \<open>C35: a pipe is a first-in first-out queue.  Whatever attempts to read and write follow each other on a
  pipe, the bytes that were inside, followed by those the writes reported as accepted, are the bytes
  the reads returned, followed by those still inside: nothing is lost, duplicated or reordered, and the
  pipe never holds more than 1024 bytes.\<close>

theorem pipe_stream:
  assumes "pipe_inv p" "pipe_run ops p s = (accepted, returned, p', s')"
  shows "pipe_data p @ accepted = returned @ pipe_data p' \<and> pipe_inv p' \<and> length (pipe_data p') \<le> PIPE_SIZE"
  using assms
proof (induction ops arbitrary: p s accepted returned)
  case Nil
  then show ?case using pipe_inv_len [of p] by simp
next
  case (Cons op ops)
  show ?case
  proof (cases op)
    case (Read_Op c flags count)
    obtain r p1 s1 where a: "pipe_read c flags count p s = (r, p1, s1)" by (cases "pipe_read c flags count p s") auto
    obtain i out where b: "pipe_run ops p1 s1 = (i, out, p', s')"
        "accepted = i" "returned = (case r of None \<Rightarrow> [] | Some (n, bs) \<Rightarrow> bs) @ out"
      using Cons.prems(2) Read_Op a by (auto simp: Let_def split: prod.splits)
    note d = pipe_read_data [OF Cons.prems(1) a]
    then show ?thesis using Cons.IH [OF _ b(1)] b(2,3) by simp
  next
    case (Write_Op c flags buf)
    obtain r p1 s1 where a: "pipe_write c flags buf p s = (r, p1, s1)" by (cases "pipe_write c flags buf p s") auto
    obtain i out where b: "pipe_run ops p1 s1 = (i, out, p', s')"
        "accepted = (case r of None \<Rightarrow> [] | Some n \<Rightarrow> take (nat n) buf) @ i" "returned = out"
      using Cons.prems(2) Write_Op a by (auto simp: Let_def split: prod.splits)
    note d = pipe_write_data [OF Cons.prems(1) a]
    then show ?thesis using Cons.IH [OF _ b(1)] b(2,3) by (auto split: option.splits)
  qed
qed

definition greeting :: "u8 list" where
  "greeting = [104, 101, 108, 108, 111]"

theorem pipe_stream_witness:
  "fst (pipe_run [Write_Op 0 0 greeting, Read_Op 0 0 2, Write_Op 0 0 [33], Read_Op 0 0 9] (pipe_init (\<lambda>_. 0)) two_tasks) = greeting @ [33] \<and>
   fst (snd (pipe_run [Write_Op 0 0 greeting, Read_Op 0 0 2, Write_Op 0 0 [33], Read_Op 0 0 9] (pipe_init (\<lambda>_. 0)) two_tasks)) = greeting @ [33]"
    (is "fst (pipe_run ?ops ?p _) = _ \<and> _")
proof -
  obtain p' s' i out where r: "pipe_run ?ops ?p two_tasks = (i, out, p', s')" by (cases "pipe_run ?ops ?p two_tasks") auto
  have "fst (pipe_run ?ops ?p two_tasks) = greeting @ [33]" "p_len (fst (snd (snd (pipe_run ?ops ?p two_tasks)))) = 0" by code_simp+
  then have v: "i = greeting @ [33]" and l: "p_len p' = 0" by (simp_all only: r fst_conv snd_conv)
  have "pipe_inv ?p" by (simp add: pipe_inv_def pipe_holds_def pipe_data_def pipe_init_def ring_data_def)
  from pipe_stream [OF this r] v l have "out = greeting @ [33]" by (simp add: pipe_data_def ring_data_def pipe_init_def)
  then show ?thesis unfolding r v by simp
qed

subsection \<open>Waking up\<close>

lemma enqueue_on_rq: "on_rq t s \<Longrightarrow> on_rq t (enqueue_task_locked u c s)"
  by (auto simp: on_rq_iff enqueue_task_locked_def upd_cpu_def split: if_splits)

lemma wake_up_on_rq:
  assumes "on_rq t s"
  shows "on_rq t (wake_up_process c u s)"
proof -
  have f: "on_rq t (upd_task u g s) \<longleftrightarrow> on_rq t s" "on_rq t (resched_cpu c d s) \<longleftrightarrow> on_rq t s" for s g d
    by (simp_all add: on_rq_def)
  show ?thesis using assms
    by (auto simp: wake_up_process_def enqueue_task_def enqueue_task_cpu_def Let_def f enqueue_on_rq)
qed

lemma wake_up_is_idle [simp]: "is_idle u (wake_up_process c t s) \<longleftrightarrow> is_idle u s"
  by (simp add: is_idle_def)

lemma wake_up_other_state:
  assumes "t \<noteq> u"
  shows "t_state (tasks (wake_up_process c u s) t) = t_state (tasks s t)"
  using assms by (simp add: wake_up_process_def enqueue_task_def enqueue_task_cpu_def enqueue_task_locked_def Let_def)

lemma wake_up_queue:
  assumes "sched_inv s" "c < NR_CPUS" "list_all (\<lambda>(e, t). \<not> is_idle t s) wq"
  shows "sched_inv (wake_up c wq s) \<and> (on_rq t s \<longrightarrow> on_rq t (wake_up c wq s)) \<and>
    ((e, t) \<in> set wq \<and> t \<noteq> 0 \<and> t_state (tasks s t) = TASK_SLEEPING \<longrightarrow> on_rq t (wake_up c wq s))"
  using assms
proof (induction wq arbitrary: s)
  case Nil
  then show ?case by simp
next
  case (Cons x wq)
  obtain e' u where x: "x = (e', u)" by (cases x)
  define s1 where "s1 = (if u \<noteq> 0 \<and> t_state (tasks s u) = TASK_SLEEPING then wake_up_process c u s else s)"
  have inv: "sched_inv s1" "list_all (\<lambda>(e, t). \<not> is_idle t s1) wq" "on_rq t s \<longrightarrow> on_rq t s1"
    using Cons.prems x by (simp_all add: s1_def wake_up_inv wake_up_on_rq list_all_iff)
  note IH = Cons.IH [OF inv(1) Cons.prems(2) inv(2)]
  have "on_rq t s1 \<or> t_state (tasks s1 t) = TASK_SLEEPING" if "t \<noteq> 0" "t_state (tasks s t) = TASK_SLEEPING"
    using that wake_up_runs [OF Cons.prems(1) that(1) Cons.prems(2)] by (cases "t = u") (auto simp: s1_def wake_up_other_state)
  moreover have "on_rq t s1" if "u = t" "t \<noteq> 0" "t_state (tasks s t) = TASK_SLEEPING"
    using that wake_up_runs [OF Cons.prems(1) that(2) Cons.prems(2)] by (simp add: s1_def)
  ultimately show ?case using IH inv(3) x by (auto simp: s1_def [symmetric])
qed

lemma wake_up_queue_idle: "is_idle u (wake_up c wq s) \<longleftrightarrow> is_idle u s"
  by (induction c wq s rule: wake_up.induct) simp_all

lemma wake_up_sleeping:
  assumes "sched_inv s" "c < NR_CPUS" "list_all (\<lambda>(e, t). \<not> is_idle t s) wq" "t \<noteq> 0" "t_state (tasks s t) = TASK_SLEEPING"
  shows "on_rq t (wake_up c wq s) \<or> t_state (tasks (wake_up c wq s) t) = TASK_SLEEPING"
proof (cases "\<exists>e. (e, t) \<in> set wq")
  case True
  then show ?thesis using wake_up_queue [OF assms(1-3)] assms(4,5) by blast
next
  case False
  then have "t_state (tasks (wake_up c wq s) t) = t_state (tasks s t)"
  proof (induction wq arbitrary: s)
    case (Cons x wq)
    then show ?case by (cases x) (auto simp: wake_up_other_state)
  qed simp
  then show ?thesis using assms(5) by simp
qed

text \<open>C36: a transfer wakes the other end.  When a write is accepted, every task sleeping on the queue of the
  readers is on a run queue afterwards and will run; so is every sleeping writer after a successful read,
  and every sleeping reader when the last writer closes its end.\<close>

theorem pipe_wakes_other_end:
  assumes inv: "sched_inv s" "c < NR_CPUS" and t: "t \<noteq> 0" "t_state (tasks s t) = TASK_SLEEPING"
    and q: "list_all (\<lambda>(e, t). \<not> is_idle t s) (p_read_wait p @ p_write_wait p)"
  shows "((e, t) \<in> set (p_read_wait p) \<and> pipe_write c fl buf p s = (Some n, p', s') \<and> n \<ge> 0 \<longrightarrow> on_rq t s') \<and>
    ((e, t) \<in> set (p_write_wait p) \<and> p_len p > 0 \<and> pipe_read c fl count p s = (Some r, p'', s'') \<longrightarrow> on_rq t s'') \<and>
    ((e, t) \<in> set (p_read_wait p) \<and> p_writers p = 1 \<and> pipe_close_end c O_WRONLY p s = (b, p3, s3) \<longrightarrow> on_rq t s3)"
proof (intro conjI impI; elim conjE)
  have q': "list_all (\<lambda>(e, t). \<not> is_idle t s) (p_read_wait p)" "list_all (\<lambda>(e, t). \<not> is_idle t s) (p_write_wait p)"
    using q by simp_all
  have f: "p_read_wait (put_all pipe_put1 cs p) = p_read_wait p" for cs p
    by (induction cs arbitrary: p) (simp_all add: pipe_put1_def)
  have g: "p_write_wait (snd (get_all pipe_get1 n p)) = p_write_wait p" for n p
    by (induction n arbitrary: p) (simp_all add: pipe_get1_def case_prod_beta)
  { assume m: "(e, t) \<in> set (p_read_wait p)" and w: "pipe_write c fl buf p s = (Some n, p', s')" "n \<ge> 0"
    then have "s' = wake_up c (p_read_wait p) s" by (auto simp: pipe_write_def Let_def f split: if_splits)
    then show "on_rq t s'" using wake_up_queue [OF inv q'(1)] m t by blast }
  { assume m: "(e, t) \<in> set (p_write_wait p)" and r: "p_len p > 0" "pipe_read c fl count p s = (Some r, p'', s'')"
    then have "s'' = wake_up c (p_write_wait p) s" by (auto simp: pipe_read_def Let_def g case_prod_beta split: if_splits)
    then show "on_rq t s''" using wake_up_queue [OF inv q'(2)] m t by blast }
  { assume m: "(e, t) \<in> set (p_read_wait p)" and r: "p_writers p = 1" "pipe_close_end c O_WRONLY p s = (b, p3, s3)"
    define s1 where "s1 = (if p_readers p = 0 then wake_up c (p_write_wait p) s else s)"
    have i: "sched_inv s1" "list_all (\<lambda>(e, t). \<not> is_idle t s1) (p_read_wait p)" "on_rq t s1 \<or> t_state (tasks s1 t) = TASK_SLEEPING"
      using q' inv t wake_up_queue [OF inv q'(2)] wake_up_sleeping [OF inv q'(2) t] by (simp_all add: s1_def wake_up_queue_idle)
    have "s3 = wake_up c (p_read_wait p) s1" using r by (auto simp: pipe_close_end_def Let_def s1_def split: if_splits)
    then show "on_rq t s3" using wake_up_queue [OF i(1) inv(2) i(2)] i(3) m t(1) by blast }
qed

definition reader_asleep :: pipe where
  "reader_asleep = (pipe_init (\<lambda>_. 0))\<lparr>p_read_wait := [(0x9000, 0x300)]\<rparr>"

theorem pipe_wakes_other_end_witness:
  "on_rq 0x300 (snd (snd (pipe_write 0 0 greeting reader_asleep two_tasks)))"
proof -
  obtain n p' s' where w: "pipe_write 0 0 greeting reader_asleep two_tasks = (n, p', s')" by (cases "pipe_write 0 0 greeting reader_asleep two_tasks")
  have "fst (pipe_write 0 0 greeting reader_asleep two_tasks) = Some 5" by code_simp
  then have n: "n = Some 5" by (simp only: w fst_conv)
  have i: "\<not> is_idle 0x300 two_tasks" unfolding is_idle_def less_4 by (auto simp: two_tasks_def cpu0_def)
  have "t_state (tasks two_tasks 0x300) = TASK_SLEEPING" by (simp add: two_tasks_def task0_def)
  from pipe_wakes_other_end [OF two_tasks_inv _ _ this, where c = 0 and p = reader_asleep and e = "0x9000" and fl = 0 and buf = greeting and n = 5 and p' = p' and s' = s'] w n i show ?thesis
    by (simp add: reader_asleep_def pipe_init_def init_waitqueue_head_def)
qed

text \<open>the lost wake-up.  A reader that found the pipe empty announces itself on the wait queue only later.
  If on another CPU a write is accepted in between, the writer finds no one to wake, and then the reader
  goes to sleep: it is off every run queue although there is data in the pipe.\<close>

theorem pipe_lost_wakeup:
  assumes inv: "sched_inv s" and r: "t = get_current c s" "t \<noteq> 0" "\<not> signal_pending (tasks s t)"
    and p: "p_len p = 0" "p_readers p > 0" "p_writers p > 0" "p_read_wait p = []" "buf \<noteq> []"
    and ops: "pipe_read c 0 count p s = (r0, p0, s0)" "pipe_write w 0 buf p0 s0 = (r1, p1, s1)"
      "pipe_read_wait_begin c e p1 s1 = (p2, s2)"
  shows "r0 = None \<and> r1 = Some (int (p_len p2)) \<and> p_len p2 > 0 \<and> t_state (tasks s2 t) = TASK_SLEEPING \<and> \<not> on_rq t s2"
proof -
  have 0: "r0 = None" "p0 = p" "s0 = s" using ops(1) r p by (auto simp: pipe_read_def)
  have f: "p_read_wait (put_all pipe_put1 cs q) = p_read_wait q" for cs q
    by (induction cs arbitrary: q) (simp_all add: pipe_put1_def)
  have 1: "r1 = Some (int (p_len p1))" "p_len p1 > 0" "s1 = s"
    using ops(2) p 0 by (auto simp: pipe_write_def Let_def f split: if_splits)
  have 2: "p_len p2 = p_len p1" "s2 = dequeue_task t (upd_task t (\<lambda>k. k\<lparr>t_state := TASK_SLEEPING\<rparr>) s)"
    using ops(3) r 1(3) by (auto simp: pipe_read_wait_begin_def prepare_to_wait_def Let_def)
  have "t_state (tasks s2 t) = TASK_SLEEPING"
    by (simp add: 2 dequeue_task_def dequeue_task_locked_def run_list_del_def Let_def)
  moreover have "sched_inv s2" using dequeue_inv [OF inv] 2(2) by simp
  ultimately show ?thesis using 0 1 2(1) on_rqE [of s2 t] by auto
qed

theorem pipe_lost_wakeup_witness:
  "\<exists>p1 s1 p2 s2. pipe_write 1 0 greeting (pipe_init (\<lambda>_. 0)) two_tasks = (Some 5, p1, s1) \<and>
     pipe_read_wait_begin 0 0x9000 p1 s1 = (p2, s2) \<and> p_len p2 = 5 \<and> t_state (tasks s2 0x100) = TASK_SLEEPING \<and> \<not> on_rq 0x100 s2"
proof -
  let ?p = "pipe_init (\<lambda>_. 0)"
  obtain r0 p0 s0 where a: "pipe_read 0 0 9 ?p two_tasks = (r0, p0, s0)" by (cases "pipe_read 0 0 9 ?p two_tasks")
  obtain r1 p1 s1 where b: "pipe_write 1 0 greeting p0 s0 = (r1, p1, s1)" by (cases "pipe_write 1 0 greeting p0 s0")
  obtain p2 s2 where d: "pipe_read_wait_begin 0 0x9000 p1 s1 = (p2, s2)" by (cases "pipe_read_wait_begin 0 0x9000 p1 s1")
  have g: "get_current 0 two_tasks = 0x100" "\<not> signal_pending (tasks two_tasks 0x100)" by code_simp+
  have e: "p0 = ?p" "s0 = two_tasks" using a g by (auto simp: pipe_read_def pipe_init_def)
  have "fst (pipe_write 1 0 greeting ?p two_tasks) = Some 5" by code_simp
  then have "r1 = Some 5" using b e by simp
  moreover from pipe_lost_wakeup [OF two_tasks_inv g(1) [symmetric] _ g(2) _ _ _ _ _ a b d]
  have "r1 = Some (int (p_len p2)) \<and> t_state (tasks s2 0x100) = TASK_SLEEPING \<and> \<not> on_rq 0x100 s2"
    by (simp add: pipe_init_def init_waitqueue_head_def greeting_def)
  ultimately show ?thesis using b d e by auto
qed

end
