(* ===== verification/Tty.thy ===== *)
theory Tty
  imports Wait Ring
begin

text \<open>
  The console: the PL011 driver of \<^verbatim>\<open>drivers/tty/serial.c\<close> and the terminal of \<^verbatim>\<open>drivers/tty/tty.c\<close>.  The device is
  a parameter of the environment: \<open>rx\<close> are the bytes that it still has to deliver when the interrupt is
  handled, \<open>tx\<close> those it was given, and the loop that waits for room in the transmitter ends.  Sections under
  \<open>tty0.lock\<close> and \<open>uart_lock\<close> are atomic.  A \<open>char\<close> is unsigned on this machine.
\<close>

abbreviation (input) TTY_RX_SIZE :: nat where "TTY_RX_SIZE \<equiv> 256"
abbreviation (input) TCGETS :: u32 where "TCGETS \<equiv> 0x5401"
abbreviation (input) TCSETS :: u32 where "TCSETS \<equiv> 0x5402"
abbreviation (input) TIOCGPGRP :: u32 where "TIOCGPGRP \<equiv> 0x540F"
abbreviation (input) TIOCSPGRP :: u32 where "TIOCSPGRP \<equiv> 0x5410"
abbreviation (input) TIOCSCTTY :: u32 where "TIOCSCTTY \<equiv> 0x540E"
abbreviation (input) TIOCGSID :: u32 where "TIOCGSID \<equiv> 0x5429"
abbreviation (input) TIOCNOTTY :: u32 where "TIOCNOTTY \<equiv> 0x5422"
abbreviation (input) TIOCGWINSZ :: u32 where "TIOCGWINSZ \<equiv> 0x5413"
abbreviation (input) ICRNL :: u32 where "ICRNL \<equiv> 0x0400"
abbreviation (input) OPOST :: u32 where "OPOST \<equiv> 0x0001"
abbreviation (input) ONLCR :: u32 where "ONLCR \<equiv> 0x0004"
abbreviation (input) CS8 :: u32 where "CS8 \<equiv> 0x0030"
abbreviation (input) CREAD :: u32 where "CREAD \<equiv> 0x0800"
abbreviation (input) HUPCL :: u32 where "HUPCL \<equiv> 0x0400"
abbreviation (input) ISIG :: u32 where "ISIG \<equiv> 0x0001"
abbreviation (input) ICANON :: u32 where "ICANON \<equiv> 0x0002"
abbreviation (input) ECHO :: u32 where "ECHO \<equiv> 0x0008"
abbreviation (input) ECHOE :: u32 where "ECHOE \<equiv> 0x0010"
abbreviation (input) ECHOK :: u32 where "ECHOK \<equiv> 0x0020"
abbreviation (input) IEXTEN :: u32 where "IEXTEN \<equiv> 0x8000"
abbreviation (input) SIGINT :: int where "SIGINT \<equiv> 2"
abbreviation (input) NL :: u8 where "NL \<equiv> 10"
abbreviation (input) CR :: u8 where "CR \<equiv> 13"

subsection \<open>The serial line\<close>

record uart =
  rx :: "u8 list"
  tx :: "u8 list"
  uart_cr :: u32
  uart_lcrh :: u32
  uart_imsc :: u32
  uart_icr :: u32

definition serial_putc_unlocked :: "u8 \<Rightarrow> uart \<Rightarrow> uart" where
  "serial_putc_unlocked c u = u\<lparr>tx := tx u @ (if c = NL then [CR, NL] else [c])\<rparr>"

definition serial_rx_ready :: "uart \<Rightarrow> bool" where
  "serial_rx_ready u \<longleftrightarrow> rx u \<noteq> []"

definition serial_write_n :: "u8 list \<Rightarrow> uart \<Rightarrow> uart" where
  "serial_write_n buf u = fold serial_putc_unlocked buf u"

text \<open>The bytes of a string up to its terminating zero.\<close>

definition uart_write :: "u8 list \<Rightarrow> uart \<Rightarrow> uart" where
  "uart_write s u = fold serial_putc_unlocked (takeWhile (\<lambda>c. c \<noteq> 0) s) u"

definition serial_rx_enable :: "uart \<Rightarrow> uart" where
  "serial_rx_enable u = u\<lparr>rx := [], uart_icr := 0x7ff, uart_imsc := push_bit 4 1 OR push_bit 6 1\<rparr>"

definition serial_init :: "uart \<Rightarrow> uart" where
  "serial_init u = u\<lparr>uart_icr := 0x7ff, uart_lcrh := push_bit 5 3, uart_cr := push_bit 0 1 OR push_bit 8 1 OR push_bit 9 1\<rparr>"

subsection \<open>The terminal\<close>

record user_termios =
  c_iflag :: u32
  c_oflag :: u32
  c_cflag :: u32
  c_lflag :: u32
  c_line :: u8
  c_cc :: "nat \<Rightarrow> u8"
  ispeed :: u32
  ospeed :: u32

record tty =
  rx_buf :: "nat \<Rightarrow> u8"
  rx_head :: nat
  rx_tail :: nat
  session_id :: int
  foreground_pgid :: int
  echo :: bool
  canonical :: bool
  isig :: bool
  termios :: user_termios
  read_wait :: wait_queue_head

definition tty_rx_count :: "tty \<Rightarrow> nat" where
  "tty_rx_count t = (if rx_head t \<ge> rx_tail t then rx_head t - rx_tail t else TTY_RX_SIZE - rx_tail t + rx_head t)"

text \<open>The loop of \<open>tty_rx_line_length_locked\<close>.  From a position within the ring it meets \<open>rx_head\<close> within one turn;
  the first argument bounds the turns.\<close>

fun line_length :: "nat \<Rightarrow> nat \<Rightarrow> nat \<Rightarrow> tty \<Rightarrow> nat" where
  "line_length 0 n i t = 0"
| "line_length (Suc k) n i t =
     (if i = rx_head t then 0
      else if rx_buf t i = NL then n + 1
      else line_length k (n + 1) (ring_next TTY_RX_SIZE i) t)"

definition tty_rx_line_length :: "tty \<Rightarrow> nat" where
  "tty_rx_line_length t = line_length TTY_RX_SIZE 0 (rx_tail t) t"

definition tty_read_ready :: "tty \<Rightarrow> bool" where
  "tty_read_ready t \<longleftrightarrow> (if canonical t then tty_rx_line_length t > 0 else tty_rx_count t > 0)"

definition tty_wake_reader :: "nat \<Rightarrow> tty \<Rightarrow> sched \<Rightarrow> sched" where
  "tty_wake_reader c t s = wake_up c (read_wait t) s"

definition tty_apply_termios :: "nat \<Rightarrow> user_termios \<Rightarrow> tty \<Rightarrow> sched \<Rightarrow> tty \<times> sched" where
  "tty_apply_termios c tm t s =
     (let t1 = t\<lparr>termios := tm, canonical := c_lflag tm AND ICANON \<noteq> 0, echo := c_lflag tm AND ECHO \<noteq> 0,
                 isig := c_lflag tm AND ISIG \<noteq> 0\<rparr> in
      (t1, tty_wake_reader c t1 s))"

definition tty_default_termios :: user_termios where
  "tty_default_termios =
     \<lparr>c_iflag = ICRNL, c_oflag = OPOST OR ONLCR, c_cflag = CS8 OR CREAD OR HUPCL,
      c_lflag = ISIG OR ICANON OR ECHO OR ECHOE OR ECHOK OR IEXTEN, c_line = 0,
      c_cc = (\<lambda>_. 0)(4 := 4, 6 := 1, 5 := 0), ispeed = 0, ospeed = 0\<rparr>"

text \<open>The ring: a byte is dropped when the ring is full.\<close>

definition tty_put1 :: "u8 \<Rightarrow> tty \<Rightarrow> tty" where
  "tty_put1 c t =
     (let nxt = ring_next TTY_RX_SIZE (rx_head t) in
      if nxt \<noteq> rx_tail t then t\<lparr>rx_buf := (rx_buf t)(rx_head t := c), rx_head := nxt\<rparr> else t)"

definition tty_get1 :: "tty \<Rightarrow> u8 \<times> tty" where
  "tty_get1 t = (rx_buf t (rx_tail t), t\<lparr>rx_tail := ring_next TTY_RX_SIZE (rx_tail t)\<rparr>)"

definition tty_receive_char :: "nat \<Rightarrow> u8 \<Rightarrow> tty \<times> uart \<times> sched \<Rightarrow> tty \<times> uart \<times> sched" where
  "tty_receive_char cpu c0 = (\<lambda>(t, u, s).
     let c = (if c0 = CR then NL else c0) in
     if c = 0x03 then
       if isig t \<and> foreground_pgid t \<noteq> 0 then (t, u, snd (ksys_kill cpu (- foreground_pgid t) SIGINT s)) else (t, u, s)
     else if c = 0x1a then
       if isig t \<and> foreground_pgid t \<noteq> 0 then (t, u, snd (ksys_kill cpu (- foreground_pgid t) SIGTSTP s)) else (t, u, s)
     else
       let t1 = tty_put1 c t;
           u1 = (if echo t1 then serial_putc_unlocked c u else u) in
       (t1, u1, tty_wake_reader cpu t1 s))"

text \<open>The interrupt handler empties the receiver.\<close>

fun serial_irq_loop :: "nat \<Rightarrow> u8 list \<Rightarrow> tty \<times> uart \<times> sched \<Rightarrow> tty \<times> uart \<times> sched" where
  "serial_irq_loop cpu [] x = x"
| "serial_irq_loop cpu (c # cs) (t, u, s) = serial_irq_loop cpu cs (tty_receive_char cpu c (t, u\<lparr>rx := cs\<rparr>, s))"

definition serial_irq :: "nat \<Rightarrow> tty \<times> uart \<times> sched \<Rightarrow> tty \<times> uart \<times> sched" where
  "serial_irq cpu = (\<lambda>(t, u, s).
     let (t1, u1, s1) = serial_irq_loop cpu (rx u) (t, u, s) in (t1, u1\<lparr>uart_icr := 0x7ff\<rparr>, s1))"

text \<open>\<open>tty_read\<close>: the round of the wait, its resumption, and the copy once it is over.\<close>

definition tty_read_wait :: "nat \<Rightarrow> u64 \<Rightarrow> tty \<Rightarrow> sched \<Rightarrow> int option \<times> tty \<times> sched" where
  "tty_read_wait cpu e t s =
     (let (r, wq, s1) = wait_event_interruptible_round cpu (tty_read_ready t) e (read_wait t) s in (r, t\<lparr>read_wait := wq\<rparr>, s1))"

definition tty_read_resume :: "nat \<Rightarrow> u64 \<Rightarrow> tty \<Rightarrow> sched \<Rightarrow> int option \<times> tty \<times> sched" where
  "tty_read_resume cpu e t s =
     (let (r, wq, s1) = wait_event_interruptible_resume cpu e (read_wait t) s in (r, t\<lparr>read_wait := wq\<rparr>, s1))"

definition tty_read_copy :: "nat \<Rightarrow> tty \<Rightarrow> int \<times> u8 list \<times> tty" where
  "tty_read_copy count t =
     (if \<not> tty_read_ready t then (0, [], t)
      else
        let n0 = (if canonical t then tty_rx_line_length t else tty_rx_count t);
            n = (if n0 > count then count else n0);
            (bs, t1) = get_all tty_get1 n t in
        (int n, bs, t1))"

definition tty_read :: "nat \<Rightarrow> u64 \<Rightarrow> nat \<Rightarrow> tty \<Rightarrow> sched \<Rightarrow> (int \<times> u8 list) option \<times> tty \<times> sched" where
  "tty_read cpu e count t s =
     (if count = 0 then (Some (0, []), t, s)
      else
        case tty_read_wait cpu e t s of
          (None, t1, s1) \<Rightarrow> (None, t1, s1)
        | (Some r, t1, s1) \<Rightarrow>
            if r \<noteq> 0 then (Some (r, []), t1, s1)
            else let (n, bs, t2) = tty_read_copy count t1 in (Some (n, bs), t2, s1))"

definition tty_write :: "u8 list \<Rightarrow> uart \<Rightarrow> int \<times> uart" where
  "tty_write buf u = (int (length buf), serial_write_n buf u)"

subsection \<open>Sessions and process groups\<close>

fun pgrp_scan :: "int \<Rightarrow> int \<Rightarrow> (u64 \<Rightarrow> task_struct) \<Rightarrow> u64 list \<Rightarrow> bool \<Rightarrow> int" where
  "pgrp_scan pgid session ts [] found = (if found then 0 else - ESRCH)"
| "pgrp_scan pgid session ts (t # rest) found =
     (let k = ts t in
      if \<not> t_is_user k \<or> t_state k = TASK_ZOMBIE \<or> t_state k = TASK_DEAD then pgrp_scan pgid session ts rest found
      else if t_pgid k \<noteq> pgid then pgrp_scan pgid session ts rest found
      else if session \<noteq> 0 \<and> t_sid k \<noteq> session then - EPERM
      else pgrp_scan pgid session ts rest True)"

definition tty_setpgrp :: "nat \<Rightarrow> int \<Rightarrow> sched \<Rightarrow> tty \<Rightarrow> int \<times> tty" where
  "tty_setpgrp cpu pgid s t =
     (let cur = get_current cpu s in
      if pgid \<le> 0 then (- EINVAL, t)
      else if cur = 0 then (- ENOTTY, t)
      else if session_id t \<noteq> 0 \<and> t_sid (tasks s cur) \<noteq> session_id t then (- ENOTTY, t)
      else
        let r = pgrp_scan pgid (session_id t) (tasks s) (all_tasks s) False in
        if r \<noteq> 0 then (r, t) else (0, t\<lparr>foreground_pgid := pgid\<rparr>))"

definition tty_sets_controlling :: "nat \<Rightarrow> sched \<Rightarrow> tty \<Rightarrow> int \<times> tty" where
  "tty_sets_controlling cpu s t =
     (let cur = get_current cpu s; k = tasks s cur in
      if cur = 0 \<or> \<not> t_is_user k then (- ENOTTY, t)
      else if t_sid k \<noteq> t_pid k then (- ENOTTY, t)
      else (0, t\<lparr>session_id := t_sid k, foreground_pgid := t_pgid k\<rparr>))"

definition tty_release_controlling :: "nat \<Rightarrow> sched \<Rightarrow> tty \<Rightarrow> int \<times> tty" where
  "tty_release_controlling cpu s t =
     (let cur = get_current cpu s; k = tasks s cur in
      if cur = 0 \<or> \<not> t_is_user k then (- ENOTTY, t)
      else if session_id t \<noteq> t_sid k then (- ENOTTY, t)
      else (0, t\<lparr>session_id := 0, foreground_pgid := 0\<rparr>))"

definition tty_attach_session :: "int \<Rightarrow> int \<Rightarrow> tty \<Rightarrow> tty" where
  "tty_attach_session sid pgid t = t\<lparr>session_id := sid, foreground_pgid := pgid\<rparr>"

text \<open>What an \<open>ioctl\<close> stores at its argument.  The argument is the pointer, with the \<open>termios\<close> and the \<open>pid_t\<close> that
  the user has there; \<open>copy_to_user\<close> and \<open>copy_from_user\<close> always return 0.\<close>

datatype ioctl_out = No_Out | Out_Termios user_termios | Out_Pid int | Out_Winsize nat nat nat nat

definition tty_file_ioctl ::
    "nat \<Rightarrow> u32 \<Rightarrow> u64 \<Rightarrow> user_termios \<Rightarrow> int \<Rightarrow> tty \<Rightarrow> sched \<Rightarrow> int \<times> ioctl_out \<times> tty \<times> sched" where
  "tty_file_ioctl cpu cmd arg tm pid t s =
     (if cmd = TCGETS then if arg = 0 then (- EFAULT, No_Out, t, s) else (0, Out_Termios (termios t), t, s)
      else if cmd = TCSETS then
        if arg = 0 then (- EFAULT, No_Out, t, s)
        else let (t1, s1) = tty_apply_termios cpu tm t s in (0, No_Out, t1, s1)
      else if cmd = TIOCGPGRP then (0, Out_Pid (foreground_pgid t), t, s)
      else if cmd = TIOCSPGRP then let (r, t1) = tty_setpgrp cpu pid s t in (r, No_Out, t1, s)
      else if cmd = TIOCSCTTY then let (r, t1) = tty_sets_controlling cpu s t in (r, No_Out, t1, s)
      else if cmd = TIOCGSID then (0, Out_Pid (session_id t), t, s)
      else if cmd = TIOCNOTTY then let (r, t1) = tty_release_controlling cpu s t in (r, No_Out, t1, s)
      else if cmd = TIOCGWINSZ then
        if arg = 0 then (- EFAULT, No_Out, t, s) else (0, Out_Winsize 24 80 0 0, t, s)
      else (- ENOTTY, No_Out, t, s))"

definition tty_poll :: "(u64 \<times> u64) option \<Rightarrow> tty \<Rightarrow> u32 \<times> tty" where
  "tty_poll w t =
     (POLLOUT OR POLLWRNORM OR (if tty_read_ready t then POLLIN OR POLLRDNORM else 0),
      case w of None \<Rightarrow> t | Some e \<Rightarrow> t\<lparr>read_wait := add_wait_queue e (read_wait t)\<rparr>)"

definition tty_init :: "nat \<Rightarrow> tty \<Rightarrow> uart \<Rightarrow> sched \<Rightarrow> tty \<times> uart \<times> sched" where
  "tty_init cpu t u s =
     (let t1 = t\<lparr>rx_head := 0, rx_tail := 0, session_id := 0, foreground_pgid := 0, read_wait := init_waitqueue_head\<rparr>;
          (t2, s1) = tty_apply_termios cpu tty_default_termios t1 s in
      (t2, serial_rx_enable u, s1))"

end
