(* ===== verification/Tty_Props.thy ===== *)
theory Tty_Props
  imports Tty Signal_Props
begin

text \<open>
  The terminal as a queue of at most 255 bytes: what the interrupt handler puts into it, and what a read
  takes out of it.
\<close>

definition tty_holds :: "tty \<Rightarrow> u8 list \<Rightarrow> bool" where
  "tty_holds t xs \<longleftrightarrow> rx_tail t < TTY_RX_SIZE \<and> length xs < TTY_RX_SIZE \<and> rx_head t = (rx_tail t + length xs) mod TTY_RX_SIZE \<and>
     xs = ring_data TTY_RX_SIZE (rx_buf t) (rx_tail t) (length xs)"

definition tty_data :: "tty \<Rightarrow> u8 list" where
  "tty_data t = ring_data TTY_RX_SIZE (rx_buf t) (rx_tail t) (tty_rx_count t)"

definition tty_inv :: "tty \<Rightarrow> bool" where
  "tty_inv t \<longleftrightarrow> rx_head t < TTY_RX_SIZE \<and> rx_tail t < TTY_RX_SIZE"

lemma tty_inv_holds: "tty_inv t \<Longrightarrow> tty_holds t (tty_data t)"
  by (auto simp: tty_inv_def tty_holds_def tty_data_def tty_rx_count_def mod_if)

lemma mod_ring: "a < 256 \<Longrightarrow> b < 256 \<Longrightarrow> (a + b) mod 256 = (if a + b < 256 then a + b else a + b - 256)" for a b :: nat
  by (auto simp: mod_if)

lemma tty_holds_data:
  assumes "tty_holds t xs"
  shows "tty_inv t \<and> tty_data t = xs \<and> tty_rx_count t = length xs"
proof -
  have n: "tty_rx_count t = length xs" using assms mod_ring [of "rx_tail t" "length xs"] by (auto simp: tty_holds_def tty_rx_count_def split: if_splits)
  moreover have "tty_data t = xs" unfolding tty_data_def n using assms by (simp add: tty_holds_def)
  ultimately show ?thesis using assms by (simp add: tty_inv_def tty_holds_def)
qed

lemma ring_full:
  assumes "tty_holds t xs"
  shows "ring_next TTY_RX_SIZE (rx_head t) = rx_tail t \<longleftrightarrow> length xs = 255"
  using assms mod_ring [of "rx_tail t" "length xs"] by (auto simp: tty_holds_def ring_next_def split: if_splits)

interpretation tq: byte_queue tty_put1 tty_get1 tty_holds 255
proof
  fix t xs c assume h: "tty_holds t xs" and l: "length xs < 255"
  let ?t = "tty_put1 c t"
  have p: "?t = t\<lparr>rx_buf := (rx_buf t)(rx_head t := c), rx_head := ring_next TTY_RX_SIZE (rx_head t)\<rparr>"
    using ring_full [OF h] l by (simp add: tty_put1_def Let_def)
  have d: "ring_data TTY_RX_SIZE (rx_buf ?t) (rx_tail ?t) (length xs) = xs"
    using h l ring_data_put [of "rx_tail t" TTY_RX_SIZE "length xs" "rx_buf t" c] by (simp add: tty_holds_def p)
  have "ring_data TTY_RX_SIZE (rx_buf ?t) (rx_tail ?t) (length (xs @ [c])) = xs @ [c]"
    using h d by (simp add: ring_data_Suc tty_holds_def p)
  moreover have "rx_head ?t = (rx_tail ?t + length (xs @ [c])) mod TTY_RX_SIZE"
    using h by (simp add: tty_holds_def p ring_next_mod mod_simps)
  ultimately show "tty_holds ?t (xs @ [c])" using h l by (simp add: tty_holds_def p)
next
  fix t x and xs :: "u8 list" assume h: "tty_holds t (x # xs)"
  then have t: "rx_tail t < TTY_RX_SIZE" by (simp add: tty_holds_def)
  have "x # xs = rx_buf t (rx_tail t) # ring_data TTY_RX_SIZE (rx_buf t) (ring_next TTY_RX_SIZE (rx_tail t)) (length xs)"
    using h ring_data_Cons [OF t] by (simp add: tty_holds_def)
  then have x: "rx_buf t (rx_tail t) = x" "xs = ring_data TTY_RX_SIZE (rx_buf t) (ring_next TTY_RX_SIZE (rx_tail t)) (length xs)"
    by simp_all
  have "rx_head t = (ring_next TTY_RX_SIZE (rx_tail t) + length xs) mod TTY_RX_SIZE"
    using h t by (simp add: tty_holds_def ring_next_mod mod_simps)
  then show "fst (tty_get1 t) = x \<and> tty_holds (snd (tty_get1 t)) xs"
    using h t x by (simp add: tty_holds_def tty_get1_def ring_next_less)
qed

lemma tty_put_holds: "tty_holds t xs \<Longrightarrow> tty_holds (tty_put1 c t) (take 255 (xs @ [c]))"
  using tq.put_law [of t xs c] ring_full [of t xs] by (cases "length xs = 255") (auto simp: tty_put1_def tty_holds_def Let_def)

subsection \<open>Lines\<close>

lemma line_length_eq:
  assumes "i < TTY_RX_SIZE" "rx_head t = (i + length ys) mod TTY_RX_SIZE" "length ys < TTY_RX_SIZE" "length ys < k"
    "ys = ring_data TTY_RX_SIZE (rx_buf t) i (length ys)"
  shows "line_length k n i t = (if NL \<in> set ys then n + length (takeWhile (\<lambda>c. c \<noteq> NL) ys) + 1 else 0)"
  using assms
proof (induction ys arbitrary: k n i)
  case Nil
  then show ?case by (cases k) simp_all
next
  case (Cons y ys)
  obtain k' where k: "k = Suc k'" using Cons.prems(4) by (cases k) simp_all
  have "y # ys = rx_buf t i # ring_data TTY_RX_SIZE (rx_buf t) (ring_next TTY_RX_SIZE i) (length ys)"
    using Cons.prems(5) ring_data_Cons [OF Cons.prems(1)] by simp
  then have y: "rx_buf t i = y" "ys = ring_data TTY_RX_SIZE (rx_buf t) (ring_next TTY_RX_SIZE i) (length ys)" by simp_all
  have h: "rx_head t = (ring_next TTY_RX_SIZE i + length ys) mod TTY_RX_SIZE"
    using Cons.prems(1,2) by (simp add: ring_next_mod mod_simps)
  have "i \<noteq> rx_head t" using Cons.prems(1-3) mod_ring [of i "length (y # ys)"] by (auto split: if_splits)
  then show ?case
    using Cons.IH [OF ring_next_less [OF Cons.prems(1)] h _ _ y(2), of k'] Cons.prems(3,4) k y(1) by auto
qed

lemma tty_line_length: "tty_holds t xs \<Longrightarrow>
    tty_rx_line_length t = (if NL \<in> set xs then length (takeWhile (\<lambda>c. c \<noteq> NL) xs) + 1 else 0)"
  unfolding tty_rx_line_length_def by (subst line_length_eq [of _ _ xs]) (auto simp: tty_holds_def)

lemma tty_ready_iff:
  assumes "tty_inv t"
  shows "tty_read_ready t \<longleftrightarrow> (if canonical t then NL \<in> set (tty_data t) else tty_data t \<noteq> [])"
  using tty_line_length [OF tty_inv_holds [OF assms]] tty_holds_data [OF tty_inv_holds [OF assms]]
  by (auto simp: tty_read_ready_def)

text \<open>What a read may return: in canonical mode the first line with its newline, otherwise everything.\<close>

definition available :: "bool \<Rightarrow> u8 list \<Rightarrow> u8 list" where
  "available canon xs = (if \<not> canon then xs else if NL \<in> set xs then takeWhile (\<lambda>c. c \<noteq> NL) xs @ [NL] else [])"

lemma available_prefix: "xs = available canon xs @ drop (length (available canon xs)) xs"
proof -
  have "NL \<in> set ys \<Longrightarrow> ys = takeWhile (\<lambda>c. c \<noteq> NL) ys @ NL # drop (Suc (length (takeWhile (\<lambda>c. c \<noteq> NL) ys))) ys" for ys
    by (induction ys) auto
  then show ?thesis by (auto simp: available_def)
qed

text \<open>C37: reading the terminal.  Whatever the ring holds, a read returns the first \<open>count\<close> bytes of what is
  available, which is the first complete line in canonical mode and all bytes otherwise, returns their
  number, and leaves the rest of the bytes in the ring, in order.\<close>

theorem tty_read_copy_correct:
  assumes "tty_inv t" "tty_read_copy count t = (n, bs, t')"
  shows "bs = take count (available (canonical t) (tty_data t)) \<and> n = int (length bs) \<and> tty_data t = bs @ tty_data t' \<and> tty_inv t'"
proof -
  note h = tty_inv_holds [OF assms(1)]
  let ?a = "available (canonical t) (tty_data t)"
  have r: "tty_read_ready t \<longleftrightarrow> ?a \<noteq> []" using tty_ready_iff [OF assms(1)] by (auto simp: available_def)
  show ?thesis
  proof (cases "tty_read_ready t")
    case False
    then show ?thesis using assms r by (simp add: tty_read_copy_def)
  next
    case True
    define m where "m = min count (length ?a)"
    have n0: "(if canonical t then tty_rx_line_length t else tty_rx_count t) = length ?a"
      using True tty_line_length [OF h] tty_holds_data [OF h] tty_ready_iff [OF assms(1)] by (auto simp: available_def split: if_splits)
    have e: "n = int m" "bs = fst (get_all tty_get1 m t)" "t' = snd (get_all tty_get1 m t)"
      using assms(2) True n0 unfolding tty_read_copy_def by (auto simp: Let_def m_def case_prod_beta min_def split: if_splits)
    have p: "tty_data t = take m ?a @ drop m (tty_data t)"
      by (subst available_prefix [of "tty_data t" "canonical t"]) (metis append_take_drop_id available_prefix m_def min.cobounded2 take_append diff_is_0_eq' take0 append_Nil2)
    have "tty_holds t (take m ?a @ drop m (tty_data t))" using h p by simp
    from tq.get_all_holds [OF this, of m] have "bs = take m ?a \<and> tty_holds t' (drop m (tty_data t))" using e by (simp add: m_def)
    then show ?thesis using tty_holds_data [of t' "drop m (tty_data t)"] e p by (auto simp: m_def min_def)
  qed
qed

definition terminal :: "tty" where
  "terminal = \<lparr>rx_buf = \<lambda>_. 0, rx_head = 0, rx_tail = 0, session_id = 1, foreground_pgid = 2, echo = True, canonical = True,
     isig = True, termios = tty_default_termios, read_wait = []\<rparr>"

definition line0 :: uart where
  "line0 = \<lparr>rx = [108, 115, 13, 112], tx = [], uart_cr = 0, uart_lcrh = 0, uart_imsc = 0, uart_icr = 0\<rparr>"

definition typed :: tty where
  "typed = fst (serial_irq 0 (terminal, line0, two_tasks))"

theorem tty_read_copy_correct_witness:
  "\<exists>t'. tty_read_copy 9 typed = (3, [108, 115, 10], t') \<and> tty_data t' = [112]"
proof -
  obtain n bs t' where r: "tty_read_copy 9 typed = (n, bs, t')" by (cases "tty_read_copy 9 typed")
  have d: "tty_data typed = [108, 115, 10, 112]" "canonical typed" and i: "tty_inv typed" unfolding tty_inv_def by code_simp+
  note c = tty_read_copy_correct [OF i r, unfolded d(1)]
  have bs: "bs = [108, 115, 10]" using conjunct1 [OF c] d(2) by (simp add: available_def)
  have "n = int (length bs)" "[108, 115, 10, 112] = bs @ tty_data t'" using c by blast+
  then have "n = 3" "tty_data t' = [112]" by (simp_all add: bs)
  then show ?thesis using r bs by blast
qed

subsection \<open>Input\<close>

text \<open>What reaches the ring of the bytes that arrive.\<close>

definition cooked :: "u8 list \<Rightarrow> u8 list" where
  "cooked cs = filter (\<lambda>c. c \<noteq> 0x03 \<and> c \<noteq> 0x1a) (map (\<lambda>c. if c = CR then NL else c) cs)"

definition echoed :: "u8 list \<Rightarrow> u8 list" where
  "echoed cs = concat (map (\<lambda>c. if c = NL then [CR, NL] else [c]) (cooked cs))"

lemma cooked_Cons: "cooked (c # cs) = cooked [c] @ cooked cs"
  by (simp add: cooked_def)

lemma echoed_Cons: "echoed (c # cs) = echoed [c] @ echoed cs"
  by (simp add: echoed_def cooked_Cons [of c cs])

lemma take_take_append: "take n (take n xs @ ys) = take n (xs @ ys)"
  by (simp add: min_def)

lemma receive_char:
  assumes "tty_holds t xs" "tty_receive_char cpu c (t, u, s) = (t', u', s')"
  shows "tty_holds t' (take 255 (xs @ cooked [c])) \<and> rx u' = rx u \<and> tx u' = tx u @ (if echo t then echoed [c] else []) \<and>
    echo t' = echo t \<and> canonical t' = canonical t"
proof -
  have l: "take 255 xs = xs" using assms(1) by (simp add: tty_holds_def)
  show ?thesis using assms tty_put_holds [OF assms(1)]
    by (auto simp: tty_receive_char_def Let_def cooked_def echoed_def serial_putc_unlocked_def tty_put1_def l split: if_splits)
qed

lemma irq_loop:
  assumes "tty_holds t xs" "serial_irq_loop cpu cs (t, u, s) = (t', u', s')"
  shows "tty_holds t' (take 255 (xs @ cooked cs)) \<and> (cs \<noteq> [] \<longrightarrow> rx u' = []) \<and> tx u' = tx u @ (if echo t then echoed cs else []) \<and>
    echo t' = echo t \<and> canonical t' = canonical t"
  using assms
proof (induction cs arbitrary: t u s xs)
  case Nil
  then show ?case by (simp add: cooked_def echoed_def tty_holds_def)
next
  case (Cons c cs)
  obtain t1 u1 s1 where c: "tty_receive_char cpu c (t, u\<lparr>rx := cs\<rparr>, s) = (t1, u1, s1)"
    by (cases "tty_receive_char cpu c (t, u\<lparr>rx := cs\<rparr>, s)")
  note r = receive_char [OF Cons.prems(1) c]
  have IH: "serial_irq_loop cpu cs (t1, u1, s1) = (t', u', s')" using Cons.prems(2) c by simp
  have k: "take 255 (take 255 (xs @ cooked [c]) @ cooked cs) = take 255 (xs @ cooked (c # cs))"
    using take_take_append [of 255 "xs @ cooked [c]" "cooked cs"] by (simp only: cooked_Cons [of c cs] append_assoc)
  note i = Cons.IH [OF conjunct1 [OF r] IH]
  have "rx u' = []" using i r IH by (cases cs) simp_all
  moreover have "tx u' = tx u @ (if echo t then echoed (c # cs) else [])"
    unfolding echoed_Cons [of c cs] using i r by auto
  ultimately show ?case using i r unfolding k by argo
qed

text \<open>C38: what is typed reaches the ring.  However many bytes the device delivers, after the interrupt handler
  the ring holds what it held, followed by the cooked input: carriage returns become newlines, the two
  signal characters are taken out, nothing is reordered, and what exceeds 255 bytes is dropped at the
  end.  The receiver is empty, and the echo of all of it has been transmitted if the terminal echoes.\<close>

theorem serial_irq_correct:
  assumes "tty_inv t" "serial_irq cpu (t, u, s) = (t', u', s')"
  shows "tty_data t' = take 255 (tty_data t @ cooked (rx u)) \<and> rx u' = [] \<and> tty_inv t' \<and>
    tx u' = tx u @ (if echo t then echoed (rx u) else [])"
proof -
  obtain u1 where l: "serial_irq_loop cpu (rx u) (t, u, s) = (t', u1, s')" "u' = u1\<lparr>uart_icr := 0x7ff\<rparr>"
    using assms(2) by (auto simp: serial_irq_def split: prod.splits)
  have "rx u1 = []" using l(1) irq_loop [OF tty_inv_holds [OF assms(1)] l(1)] by (cases "rx u") auto
  then show ?thesis using irq_loop [OF tty_inv_holds [OF assms(1)] l(1)] tty_holds_data l(2) by auto
qed

theorem serial_irq_correct_witness:
  "tty_data (fst (serial_irq 0 (terminal, line0, two_tasks))) = [108, 115, 10, 112] \<and>
   tx (fst (snd (serial_irq 0 (terminal, line0, two_tasks)))) = [108, 115, 13, 10, 112]"
proof -
  obtain t' u' s' where r: "serial_irq 0 (terminal, line0, two_tasks) = (t', u', s')" by (cases "serial_irq 0 (terminal, line0, two_tasks)")
  have d: "tty_data terminal = []" "tty_inv terminal" "echo terminal" unfolding tty_inv_def by code_simp+
  note c = serial_irq_correct [OF d(2) r, unfolded d(1)]
  then have "tty_data t' = [108, 115, 10, 112]" "tx u' = [108, 115, 13, 10, 112]" using d(3) by (simp_all add: line0_def cooked_def echoed_def)
  then show ?thesis by (simp add: r)
qed

text \<open>a line that is too long blocks the terminal.  In canonical mode, once the ring is full and holds no
  newline, no input whatsoever makes the terminal readable again: the newline that would end the line is
  dropped like every other byte.\<close>

theorem tty_full_line_stuck:
  assumes "tty_inv t" "canonical t" "length (tty_data t) = 255" "NL \<notin> set (tty_data t)" "serial_irq cpu (t, u, s) = (t', u', s')"
  shows "\<not> tty_read_ready t' \<and> tty_data t' = tty_data t"
proof -
  obtain u1 where l: "serial_irq_loop cpu (rx u) (t, u, s) = (t', u1, s')"
    using assms(5) by (auto simp: serial_irq_def split: prod.splits)
  have h: "tty_holds t' (tty_data t)" "canonical t'"
    using irq_loop [OF tty_inv_holds [OF assms(1)] l] assms(2,3) by simp_all
  note d = tty_holds_data [OF h(1)]
  then show ?thesis using tty_ready_iff [of t'] h(2) assms(4) by simp
qed

definition long_line :: tty where
  "long_line = terminal\<lparr>rx_buf := \<lambda>_. 97, rx_head := 255\<rparr>"

theorem tty_full_line_stuck_witness:
  "\<not> tty_read_ready (fst (serial_irq 0 (long_line, line0, two_tasks)))"
proof -
  obtain t' u' s' where r: "serial_irq 0 (long_line, line0, two_tasks) = (t', u', s')" by (cases "serial_irq 0 (long_line, line0, two_tasks)")
  have "tty_inv long_line" "canonical long_line" "tty_rx_count long_line = 255" "rx_buf long_line = (\<lambda>_. 97)"
    by (simp_all add: long_line_def terminal_def tty_inv_def tty_rx_count_def)
  moreover from this have "length (tty_data long_line) = 255" "NL \<notin> set (tty_data long_line)" by (auto simp: tty_data_def ring_data_def)
  ultimately show ?thesis using tty_full_line_stuck [OF _ _ _ _ r] r by simp
qed

text \<open>The interrupt character while the foreground group is that of the first process is sent to every user
  process but the one that is current on the interrupted CPU: \<open>- 1\<close> has another meaning for \<open>kill\<close>.\<close>

lemma tty_interrupt_broadcasts:
  assumes "isig t" "foreground_pgid t = 1"
  shows "snd (snd (tty_receive_char cpu 3 (t, u, s))) =
    snd (signal_tasks cpu SIGINT (\<lambda>k p. t_is_user k \<and> p \<noteq> get_current cpu s \<and> t_state k \<noteq> TASK_DEAD) (all_tasks s) False s)"
  using assms by (simp add: tty_receive_char_def ksys_kill_def signal_valid_def Let_def case_prod_beta)

end
