(* ===== verification/Kernel.thy ===== *)
theory Kernel
  imports Ramfs Pipe Tty Mmap
begin

text \<open>
  The state in which the parts of the kernel meet.  Open files (\<^verbatim>\<open>struct file\<close> of \<^verbatim>\<open>include/linux/fs.h\<close>), pipes and
  cached directory entries (\<^verbatim>\<open>struct dentry\<close> of \<^verbatim>\<open>include/linux/dcache.h\<close>) are tables keyed by their addresses;
  the blocks at these addresses come from the slab allocator of the file system state.  \<open>uart_file\<close> and
  \<open>root_dentry\<close> are the addresses of the two static objects.  The names and argument vectors that
  \<open>task_struct\<close> keeps for \<open>ps\<close> are tables of their own, and so are the address spaces and the words of the page
  tables; the memory manager works on the view \<open>k_vm\<close> of the state.
\<close>

abbreviation (input) NR_OPEN :: nat where "NR_OPEN \<equiv> 32"
abbreviation (input) sizeof_file :: u64 where "sizeof_file \<equiv> 48"
abbreviation (input) sizeof_pipe :: u64 where "sizeof_pipe \<equiv> 1080"
abbreviation (input) sizeof_dentry :: u64 where "sizeof_dentry \<equiv> 288"
abbreviation (input) O_RDONLY :: u32 where "O_RDONLY \<equiv> 0"
abbreviation (input) O_CREAT :: u32 where "O_CREAT \<equiv> 0x40"
abbreviation (input) O_TRUNC :: u32 where "O_TRUNC \<equiv> 0x200"
abbreviation (input) O_APPEND :: u32 where "O_APPEND \<equiv> 0x400"
abbreviation (input) O_ASYNC :: u32 where "O_ASYNC \<equiv> 0x2000"
abbreviation (input) O_DIRECTORY :: u32 where "O_DIRECTORY \<equiv> 0x10000"
abbreviation (input) O_CLOEXEC :: u32 where "O_CLOEXEC \<equiv> 0x80000"
abbreviation (input) FMODE_LSEEK :: u32 where "FMODE_LSEEK \<equiv> 4"

record open_file =
  f_refcount :: int
  f_inode :: u64
  f_op :: "file_ops option"
  f_private :: u64
  f_pos :: u64
  f_flags :: u32
  f_mode :: u32

record dentry =
  de_name :: string
  de_inode :: u64
  de_parent :: u64
  de_children :: "u64 list"

datatype chrdev_open_t = Mem_Chrdev_Open | Ttyaux_Chrdev_Open

record kernel =
  sch :: sched
  fsys :: fs
  files :: "u64 \<Rightarrow> open_file"
  pipes :: "u64 \<Rightarrow> pipe"
  dentries :: "u64 \<Rightarrow> dentry"
  root_dentry :: u64
  uart_file :: u64
  chrdevs :: "nat \<Rightarrow> chrdev_open_t option"
  proc_root :: u64
  tty0 :: tty
  uart0 :: uart
  comms :: "u64 \<Rightarrow> string"
  cmdlines :: "u64 \<Rightarrow> string"
  mms :: "u64 \<Rightarrow> mm_struct"
  ptes :: "u64 \<Rightarrow> nat \<Rightarrow> u64"
  next_pid :: int

definition upd_file :: "u64 \<Rightarrow> (open_file \<Rightarrow> open_file) \<Rightarrow> kernel \<Rightarrow> kernel" where
  "upd_file f g k = k\<lparr>files := (files k)(f := g (files k f))\<rparr>"

definition upd_dentry :: "u64 \<Rightarrow> (dentry \<Rightarrow> dentry) \<Rightarrow> kernel \<Rightarrow> kernel" where
  "upd_dentry d g k = k\<lparr>dentries := (dentries k)(d := g (dentries k d))\<rparr>"

definition k_task :: "u64 \<Rightarrow> (task_struct \<Rightarrow> task_struct) \<Rightarrow> kernel \<Rightarrow> kernel" where
  "k_task t g k = k\<lparr>sch := upd_task t g (sch k)\<rparr>"

definition k_kmalloc :: "u64 \<Rightarrow> kernel \<Rightarrow> u64 option \<times> kernel" where
  "k_kmalloc n k = (case fs_kmalloc n (fsys k) of (r, s) \<Rightarrow> (r, k\<lparr>fsys := s\<rparr>))"

definition k_kfree :: "u64 \<Rightarrow> kernel \<Rightarrow> kernel" where
  "k_kfree a k = k\<lparr>fsys := fs_kfree a (fsys k)\<rparr>"

definition k_iget :: "u64 \<Rightarrow> kernel \<Rightarrow> kernel" where
  "k_iget i k = k\<lparr>fsys := iget i (fsys k)\<rparr>"

definition k_iput :: "u64 \<Rightarrow> kernel \<Rightarrow> kernel option" where
  "k_iput i k = map_option (\<lambda>s. k\<lparr>fsys := s\<rparr>) (iput i (fsys k))"

definition k_vm :: "kernel \<Rightarrow> vmstate" where
  "k_vm k = \<lparr>km = heap (fsys k), words = ptes k\<rparr>"

definition put_vm :: "vmstate \<Rightarrow> kernel \<Rightarrow> kernel" where
  "put_vm st k = k\<lparr>fsys := (fsys k)\<lparr>heap := km st\<rparr>, ptes := words st\<rparr>"

abbreviation k_current :: "nat \<Rightarrow> kernel \<Rightarrow> u64" where
  "k_current c k \<equiv> get_current c (sch k)"

abbreviation k_files :: "u64 \<Rightarrow> kernel \<Rightarrow> nat \<Rightarrow> u64" where
  "k_files t k \<equiv> t_files (tasks (sch k) t)"

definition set_fd :: "u64 \<Rightarrow> nat \<Rightarrow> u64 \<Rightarrow> kernel \<Rightarrow> kernel" where
  "set_fd t fd f = k_task t (\<lambda>x. x\<lparr>t_files := (t_files x)(fd := f)\<rparr>)"

definition set_cloexec :: "u64 \<Rightarrow> nat \<Rightarrow> bool \<Rightarrow> kernel \<Rightarrow> kernel" where
  "set_cloexec t fd b = k_task t (\<lambda>x. x\<lparr>t_close_on_exec :=
     (if b then t_close_on_exec x OR push_bit fd 1 else t_close_on_exec x AND NOT (push_bit fd 1))\<rparr>)"

end
