(* ===== verification/Dcache.thy ===== *)
theory Dcache
  imports Kernel
begin

text \<open>
  The tree of cached directory entries: \<^verbatim>\<open>fs/dcache.c\<close>.  The children of an entry, linked through \<open>child\<close> and
  \<open>next\<close>, are a list of addresses.  A null pointer is the address 0.
\<close>

abbreviation (input) DNAME_INLINE_LEN :: nat where "DNAME_INLINE_LEN \<equiv> 256"

definition dcache_init :: "kernel \<Rightarrow> kernel" where
  "dcache_init k =
     upd_dentry (root_dentry k) (\<lambda>_. \<lparr>de_name = [], de_inode = root_inode (fsys k), de_parent = 0, de_children = []\<rparr>) k"

definition d_find_child :: "u64 \<Rightarrow> string \<Rightarrow> kernel \<Rightarrow> u64" where
  "d_find_child parent name k =
     (if parent = 0 then 0
      else case List.find (\<lambda>d. de_name (dentries k d) = name) (de_children (dentries k parent)) of None \<Rightarrow> 0 | Some d \<Rightarrow> d)"

text \<open>\<open>strscpy\<close> cuts the name to what fits.\<close>

definition d_alloc :: "u64 \<Rightarrow> string \<Rightarrow> kernel \<Rightarrow> u64 \<times> kernel" where
  "d_alloc parent name k =
     (if parent = 0 \<or> name = [] then (0, k)
      else case k_kmalloc sizeof_dentry k of
        (None, k1) \<Rightarrow> (0, k1)
      | (Some d, k1) \<Rightarrow>
          (d, upd_dentry d (\<lambda>_. \<lparr>de_name = take (DNAME_INLINE_LEN - 1) name, de_inode = 0, de_parent = parent, de_children = []\<rparr>) k1))"

definition d_add :: "u64 \<Rightarrow> kernel \<Rightarrow> kernel" where
  "d_add d k =
     (let p = de_parent (dentries k d) in
      if d = 0 \<or> p = 0 then k else upd_dentry p (\<lambda>x. x\<lparr>de_children := d # de_children x\<rparr>) k)"

definition d_unlink :: "u64 \<Rightarrow> kernel \<Rightarrow> kernel" where
  "d_unlink d k =
     (let p = de_parent (dentries k d) in
      if d = 0 \<or> p = 0 then k else upd_dentry p (\<lambda>x. x\<lparr>de_children := remove1 d (de_children x)\<rparr>) k)"

definition cwd_fix_one :: "u64 \<Rightarrow> u64 \<Rightarrow> u64 \<Rightarrow> kernel \<Rightarrow> kernel" where
  "cwd_fix_one old neu t k = (if t_cwd (tasks (sch k) t) = old then k_task t (\<lambda>x. x\<lparr>t_cwd := neu\<rparr>) k else k)"

definition cwd_fix :: "nat \<Rightarrow> u64 \<Rightarrow> u64 \<Rightarrow> kernel \<Rightarrow> kernel" where
  "cwd_fix c old neu k =
     (let k1 = (if k_current c k \<noteq> 0 then cwd_fix_one old neu (k_current c k) k else k) in
      fold (cwd_fix_one old neu) (all_tasks (sch k1)) k1)"

definition d_move :: "u64 \<Rightarrow> u64 \<Rightarrow> string \<Rightarrow> kernel \<Rightarrow> kernel" where
  "d_move d new_parent name k =
     (if d = 0 \<or> d = root_dentry k \<or> new_parent = 0 \<or> name = [] then k
      else d_add d (upd_dentry d (\<lambda>x. x\<lparr>de_name := take (DNAME_INLINE_LEN - 1) name, de_parent := new_parent\<rparr>) (d_unlink d k)))"

definition d_drop :: "nat \<Rightarrow> u64 \<Rightarrow> kernel \<Rightarrow> kernel" where
  "d_drop c d k =
     (if d = 0 \<or> d = root_dentry k then k
      else
        let p = de_parent (dentries k d) in
        k_kfree d (d_unlink d (cwd_fix c d (if p \<noteq> 0 then p else root_dentry k) k)))"

text \<open>The walk of \<open>d_lookup_path\<close>: an entry that is missing in the cache is looked up in ramfs and attached.\<close>

definition d_child :: "u64 \<Rightarrow> string \<Rightarrow> kernel \<Rightarrow> u64 \<times> kernel" where
  "d_child d name k =
     (let child = d_find_child d name k in
      if child \<noteq> 0 then (child, k)
      else case ramfs_lookup_child (de_inode (dentries k d)) name (fsys k) of
        None \<Rightarrow> (0, k)
      | Some i \<Rightarrow>
          let (e, k1) = d_alloc d name k in
          if e = 0 then (0, k1) else (e, d_add e (upd_dentry e (\<lambda>x. x\<lparr>de_inode := i\<rparr>) k1)))"

function d_walk :: "u64 \<Rightarrow> string \<Rightarrow> kernel \<Rightarrow> u64 \<times> kernel" where
  "d_walk d p k =
     (let q = skip_slash p in
      if q = [] then (d, k)
      else
        let name = first_name q; r = after_name q in
        if length name \<ge> DNAME_INLINE_LEN then (0, k)
        else if name = ''.'' then d_walk d r k
        else if name = ''..'' then d_walk (if de_parent (dentries k d) \<noteq> 0 then de_parent (dentries k d) else d) r k
        else let (e, k1) = d_child d name k in if e = 0 then (0, k1) else d_walk e r k1)"
  by auto
termination d_walk by (relation "measure (\<lambda>(d, p, k). length p)") (auto simp: component_shrinks)

definition d_lookup_path :: "string \<Rightarrow> kernel \<Rightarrow> u64 \<times> kernel" where
  "d_lookup_path path k = (if path = [] \<or> hd path \<noteq> slash then (0, k) else d_walk (root_dentry k) path k)"

text \<open>\<open>dentry_path\<close> fills a buffer from its end; \<open>pos\<close> is the room that is left.\<close>

function dpath_loop :: "nat \<Rightarrow> u64 \<Rightarrow> string \<Rightarrow> kernel \<Rightarrow> int + string" where
  "dpath_loop pos d acc k =
     (if d = 0 \<or> de_parent (dentries k d) = 0 then Inr acc
      else
        let n = de_name (dentries k d) in
        if pos < length n + 1 then Inl (- ENAMETOOLONG)
        else dpath_loop (pos - (length n + 1)) (de_parent (dentries k d)) (slash # n @ acc) k)"
  by auto
termination dpath_loop by (relation "measure fst") auto

definition dentry_path :: "u64 \<Rightarrow> nat \<Rightarrow> kernel \<Rightarrow> int + string" where
  "dentry_path d0 sz k =
     (let d = (if d0 \<noteq> 0 then d0 else root_dentry k) in
      if sz = 0 then Inl (- EINVAL)
      else if de_parent (dentries k d) = 0 then if sz < 2 then Inl (- ERANGE) else Inr ''/''
      else case dpath_loop (PATH_MAX - 1) d [] k of
        Inl e \<Rightarrow> Inl e
      | Inr p \<Rightarrow> if length p + 1 > sz then Inl (- ERANGE) else Inr p)"

end
