(* ===== verification/Files.thy ===== *)
theory Files
  imports Kernel
begin

text \<open>
  Open files and descriptor tables: \<^verbatim>\<open>fs/open.c\<close> without \<open>openat\<close>, the creation of a pipe (\<^verbatim>\<open>fs/pipe.c\<close>), the
  registry of character devices and the three devices (\<^verbatim>\<open>fs/char_dev.c\<close>, \<^verbatim>\<open>fs/dev.c\<close>, \<^verbatim>\<open>fs/devnull.c\<close>,
  \<^verbatim>\<open>fs/devtty.c\<close>, \<^verbatim>\<open>fs/devconsole.c\<close>).  The first argument of an operation is the CPU it runs on.
\<close>

subsection \<open>Reference counts\<close>

definition get_file :: "u64 \<Rightarrow> kernel \<Rightarrow> kernel" where
  "get_file f k = (if f \<noteq> 0 then upd_file f (\<lambda>x. x\<lparr>f_refcount := f_refcount x + 1\<rparr>) k else k)"

definition pipe_release :: "nat \<Rightarrow> u64 \<Rightarrow> kernel \<Rightarrow> kernel" where
  "pipe_release c f k =
     (let p = f_private (files k f) in
      if p = 0 then k
      else
        let (freed, x, s) = pipe_close_end c (f_flags (files k f)) (pipes k p) (sch k);
            k1 = k\<lparr>pipes := (pipes k)(p := x), sch := s\<rparr> in
        if freed then k_kfree p k1 else k1)"

text \<open>\<open>file->f_op->release (file)\<close>; \<open>proc_release\<close> does nothing, and the other tables have no such operation.\<close>

definition f_release :: "nat \<Rightarrow> u64 \<Rightarrow> kernel \<Rightarrow> kernel" where
  "f_release c f k =
     (if f_op (files k f) = Some Pipe_Read_Ops \<or> f_op (files k f) = Some Pipe_Write_Ops then pipe_release c f k else k)"

definition fput :: "nat \<Rightarrow> u64 \<Rightarrow> kernel \<Rightarrow> kernel option" where
  "fput c f k =
     (if f = 0 then Some k
      else
        let k1 = upd_file f (\<lambda>x. x\<lparr>f_refcount := f_refcount x - 1\<rparr>) k in
        if f_refcount (files k1 f) > 0 then Some k1
        else do {
          k2 \<leftarrow> k_iput (f_inode (files (f_release c f k1) f)) (f_release c f k1);
          let k3 = upd_file f (\<lambda>x. x\<lparr>f_inode := 0\<rparr>) k2;
          Some (if f \<noteq> uart_file k3 then k_kfree f k3 else k3) })"

definition alloc_file :: "kernel \<Rightarrow> u64 \<times> kernel" where
  "alloc_file k =
     (case k_kmalloc sizeof_file k of
        (None, k1) \<Rightarrow> (0, k1)
      | (Some f, k1) \<Rightarrow>
          (f, upd_file f (\<lambda>_. \<lparr>f_refcount = 1, f_inode = 0, f_op = None, f_private = 0, f_pos = 0, f_flags = 0, f_mode = 0\<rparr>) k1))"

subsection \<open>Descriptors\<close>

text \<open>The scan for the first free slot from a number on.\<close>

definition free_fd :: "nat \<Rightarrow> (nat \<Rightarrow> u64) \<Rightarrow> nat option" where
  "free_fd m fs = List.find (\<lambda>fd. fs fd = 0) [m..<NR_OPEN]"

definition install_fd_min :: "u64 \<Rightarrow> u64 \<Rightarrow> nat \<Rightarrow> kernel \<Rightarrow> int \<times> kernel" where
  "install_fd_min t f minfd k =
     (if minfd \<ge> NR_OPEN then (- EINVAL, k)
      else case free_fd minfd (k_files t k) of
        None \<Rightarrow> (- EMFILE, k)
      | Some fd \<Rightarrow> (int fd, set_cloexec t fd False (set_fd t fd f k)))"

definition install_fd :: "u64 \<Rightarrow> u64 \<Rightarrow> kernel \<Rightarrow> int \<times> kernel" where
  "install_fd t f k =
     (case free_fd 0 (k_files t k) of
        None \<Rightarrow> (- EMFILE, k)
      | Some fd \<Rightarrow> (int fd, set_cloexec t fd False (set_fd t fd f k)))"

definition install_fd_flags :: "u64 \<Rightarrow> u64 \<Rightarrow> u32 \<Rightarrow> kernel \<Rightarrow> int \<times> kernel" where
  "install_fd_flags t f flags k =
     (let (fd, k1) = install_fd t f k in
      if fd < 0 then (fd, k1)
      else if flags AND O_CLOEXEC \<noteq> 0 then (fd, set_cloexec t (nat fd) True k1)
      else (fd, k1))"

fun close_on_exec_loop :: "nat \<Rightarrow> u64 \<Rightarrow> nat list \<Rightarrow> kernel \<Rightarrow> kernel option" where
  "close_on_exec_loop c t [] k = Some k"
| "close_on_exec_loop c t (i # is) k =
     (if \<not> bit (t_close_on_exec (tasks (sch k) t)) i then close_on_exec_loop c t is k
      else do {
        k1 \<leftarrow> (if k_files t k i \<noteq> 0 then map_option (set_fd t i 0) (fput c (k_files t k i) k) else Some k);
        close_on_exec_loop c t is (set_cloexec t i False k1) })"

definition close_on_exec_fds :: "nat \<Rightarrow> u64 \<Rightarrow> kernel \<Rightarrow> kernel option" where
  "close_on_exec_fds c t k = (if t = 0 then Some k else close_on_exec_loop c t [0..<NR_OPEN] k)"

definition close_fd :: "nat \<Rightarrow> u64 \<Rightarrow> nat \<Rightarrow> kernel \<Rightarrow> (int \<times> kernel) option" where
  "close_fd c t fd k =
     (if fd \<ge> NR_OPEN then Some (- EBADF, k)
      else if k_files t k fd = 0 then Some (- EBADF, k)
      else do { k1 \<leftarrow> fput c (k_files t k fd) (set_fd t fd 0 k); Some (0, k1) })"

definition ksys_close :: "nat \<Rightarrow> nat \<Rightarrow> kernel \<Rightarrow> (int \<times> kernel) option" where
  "ksys_close c fd k = (let t = k_current c k in if t = 0 then Some (- EBADF, k) else close_fd c t fd k)"

text \<open>The file of a descriptor of the current task, as most system calls look it up.\<close>

definition fd_file :: "nat \<Rightarrow> nat \<Rightarrow> kernel \<Rightarrow> u64" where
  "fd_file c fd k = (let t = k_current c k in if t = 0 \<or> fd \<ge> NR_OPEN then 0 else k_files t k fd)"

definition ksys_dup :: "nat \<Rightarrow> nat \<Rightarrow> kernel \<Rightarrow> (int \<times> kernel) option" where
  "ksys_dup c oldfd k =
     (let f = fd_file c oldfd k in
      if f = 0 then Some (- EBADF, k)
      else
        let (fd, k1) = install_fd (k_current c k) f (get_file f k) in
        if fd < 0 then do { k2 \<leftarrow> fput c f k1; Some (fd, k2) } else Some (fd, k1))"

definition ksys_dup3 :: "nat \<Rightarrow> nat \<Rightarrow> nat \<Rightarrow> u32 \<Rightarrow> kernel \<Rightarrow> (int \<times> kernel) option" where
  "ksys_dup3 c oldfd newfd flags k =
     (let t = k_current c k in
      if flags AND NOT O_CLOEXEC \<noteq> 0 then Some (- EINVAL, k)
      else if oldfd = newfd then Some (- EINVAL, k)
      else if t = 0 \<or> oldfd \<ge> NR_OPEN \<or> newfd \<ge> NR_OPEN then Some (- EBADF, k)
      else
        let f = k_files t k oldfd in
        if f = 0 then Some (- EBADF, k)
        else
          let k1 = get_file f k; old_new = k_files t k1 newfd; k2 = set_fd t newfd f k1 in
          do {
            k3 \<leftarrow> (if old_new \<noteq> 0 then fput c old_new k2 else Some k2);
            Some (int newfd, set_cloexec t newfd (flags AND O_CLOEXEC \<noteq> 0) k3) })"

definition ksys_dup2 :: "nat \<Rightarrow> nat \<Rightarrow> nat \<Rightarrow> kernel \<Rightarrow> (int \<times> kernel) option" where
  "ksys_dup2 c oldfd newfd k =
     (if oldfd = newfd then if fd_file c oldfd k = 0 then Some (- EBADF, k) else Some (int newfd, k)
      else ksys_dup3 c oldfd newfd 0 k)"

definition ksys_fcntl :: "nat \<Rightarrow> nat \<Rightarrow> u32 \<Rightarrow> u64 \<Rightarrow> kernel \<Rightarrow> (int \<times> kernel) option" where
  "ksys_fcntl c fd cmd arg k =
     (let t = k_current c k; f = fd_file c fd k in
      if f = 0 then Some (- EBADF, k)
      else if cmd = 0 \<or> cmd = 0x406 then
        let minfd = (ucast arg :: u32) in
        if sint minfd < 0 \<or> unat minfd \<ge> NR_OPEN then Some (- EINVAL, k)
        else
          let (newfd, k1) = install_fd_min t f (unat minfd) (get_file f k) in
          if newfd < 0 then do { k2 \<leftarrow> fput c f k1; Some (newfd, k2) }
          else Some (newfd, set_cloexec t (nat newfd) (cmd = 0x406) k1)
      else if cmd = 1 then Some (if bit (t_close_on_exec (tasks (sch k) t)) fd then 1 else 0, k)
      else if cmd = 2 then
        if arg AND NOT 1 \<noteq> 0 then Some (- EINVAL, k) else Some (0, set_cloexec t fd (arg AND 1 \<noteq> 0) k)
      else if cmd = 3 then Some (sint (f_flags (files k f)), k)
      else if cmd = 4 then
        Some (0, upd_file f (\<lambda>x. x\<lparr>f_flags :=
          f_flags x AND NOT (O_APPEND OR O_NONBLOCK OR O_ASYNC) OR ucast (arg AND (0x400 OR 0x800 OR 0x2000))\<rparr>) k)
      else Some (- EINVAL, k))"

subsection \<open>Creating a pipe\<close>

text \<open>The result is the error and, on success, the pair of descriptors that is stored for the user.\<close>

definition ksys_pipe2 :: "nat \<Rightarrow> bool \<Rightarrow> u32 \<Rightarrow> kernel \<Rightarrow> (int \<times> (int \<times> int) option \<times> kernel) option" where
  "ksys_pipe2 c have_fildes flags k =
     (let t = k_current c k in
      if t = 0 \<or> \<not> t_is_user (tasks (sch k) t) then Some (- EINVAL, None, k)
      else if \<not> have_fildes then Some (- EFAULT, None, k)
      else if flags AND NOT (O_CLOEXEC OR O_NONBLOCK) \<noteq> 0 then Some (- EINVAL, None, k)
      else case k_kmalloc sizeof_pipe k of
        (None, k1) \<Rightarrow> Some (- ENOMEM, None, k1)
      | (Some p, k1) \<Rightarrow>
          let k2 = k1\<lparr>pipes := (pipes k1)(p := pipe_init (p_buf (pipes k1 p)))\<rparr>;
              (r, k3) = alloc_file k2 in
          if r = 0 then Some (- ENOMEM, None, k_kfree p k3)
          else
            let (w, k4) = alloc_file k3 in
            if w = 0 then do {
              k5 \<leftarrow> fput c r (upd_file r (\<lambda>x. x\<lparr>f_op := None, f_private := 0\<rparr>) k4);
              Some (- ENOMEM, None, k_kfree p k5) }
            else
              let k5 = upd_file r (\<lambda>x. x\<lparr>f_op := Some Pipe_Read_Ops, f_private := p, f_flags := O_RDONLY OR (flags AND O_NONBLOCK)\<rparr>) k4;
                  k6 = upd_file w (\<lambda>x. x\<lparr>f_op := Some Pipe_Write_Ops, f_private := p, f_flags := O_WRONLY OR (flags AND O_NONBLOCK)\<rparr>) k5;
                  (fd0, k7) = install_fd t r k6 in
              if fd0 < 0 then do { k8 \<leftarrow> fput c r k7; k9 \<leftarrow> fput c w k8; Some (fd0, None, k9) }
              else
                let (fd1, k8) = install_fd t w k7 in
                if fd1 < 0 then do {
                  k9 \<leftarrow> fput c r (set_fd t (nat fd0) 0 k8);
                  k10 \<leftarrow> fput c w k9;
                  Some (fd1, None, k10) }
                else Some (0, Some (fd0, fd1),
                  if flags AND O_CLOEXEC \<noteq> 0 then set_cloexec t (nat fd1) True (set_cloexec t (nat fd0) True k8) else k8))"

subsection \<open>Character devices\<close>

abbreviation (input) CHRDEV_MAJOR_MAX :: nat where "CHRDEV_MAJOR_MAX \<equiv> 256"
abbreviation (input) MEM_MAJOR :: nat where "MEM_MAJOR \<equiv> 1"
abbreviation (input) TTYAUX_MAJOR :: nat where "TTYAUX_MAJOR \<equiv> 5"
abbreviation (input) DEV_FD_TTY :: u64 where "DEV_FD_TTY \<equiv> 1"
abbreviation (input) DEV_FD_CONSOLE :: u64 where "DEV_FD_CONSOLE \<equiv> 2"

definition MAJOR :: "u32 \<Rightarrow> nat" where
  "MAJOR dev = unat (drop_bit 8 dev)"

definition MINOR :: "u32 \<Rightarrow> nat" where
  "MINOR dev = unat (dev AND 0xff)"

definition MKDEV :: "nat \<Rightarrow> nat \<Rightarrow> u32" where
  "MKDEV ma mi = push_bit 8 (of_nat ma) OR of_nat mi"

definition register_chrdev :: "nat \<Rightarrow> chrdev_open_t \<Rightarrow> kernel \<Rightarrow> int \<times> kernel" where
  "register_chrdev major opn k =
     (if major = 0 \<or> major \<ge> CHRDEV_MAJOR_MAX then (- EINVAL, k)
      else if chrdevs k major \<noteq> None then (- EBUSY, k)
      else (0, k\<lparr>chrdevs := (chrdevs k)(major := Some opn)\<rparr>))"

definition devnull_open :: "u32 \<Rightarrow> kernel \<Rightarrow> u64 \<times> kernel" where
  "devnull_open flags k =
     (let (f, k1) = alloc_file k in
      if f = 0 then (0, k1) else (f, upd_file f (\<lambda>x. x\<lparr>f_op := Some Devnull_Fops, f_flags := flags\<rparr>) k1))"

definition devconsole_open :: "u32 \<Rightarrow> kernel \<Rightarrow> u64 \<times> kernel" where
  "devconsole_open flags k =
     (let (f, k1) = alloc_file k in
      if f = 0 then (0, k1)
      else (f, upd_file f (\<lambda>x. x\<lparr>f_op := Some Tty_Fops, f_flags := flags, f_private := DEV_FD_CONSOLE\<rparr>) k1))"

definition devtty_open :: "nat \<Rightarrow> u32 \<Rightarrow> kernel \<Rightarrow> u64 \<times> kernel" where
  "devtty_open c flags k =
     (let t = k_current c k; sid = t_sid (tasks (sch k) t) in
      if t = 0 \<or> sid = 0 \<or> session_id (tty0 k) = 0 \<or> sid \<noteq> session_id (tty0 k) then (0, k)
      else
        let (f, k1) = alloc_file k in
        if f = 0 then (0, k1)
        else (f, upd_file f (\<lambda>x. x\<lparr>f_op := Some Tty_Fops, f_flags := flags, f_private := DEV_FD_TTY\<rparr>) k1))"

definition mem_chrdev_open :: "u32 \<Rightarrow> u32 \<Rightarrow> kernel \<Rightarrow> int \<times> u64 \<times> kernel" where
  "mem_chrdev_open rdev flags k =
     (if MINOR rdev = 3 then let (f, k1) = devnull_open flags k in (if f \<noteq> 0 then 0 else - ENOMEM, f, k1)
      else (- ENODEV, 0, k))"

definition ttyaux_chrdev_open :: "nat \<Rightarrow> u32 \<Rightarrow> u32 \<Rightarrow> kernel \<Rightarrow> int \<times> u64 \<times> kernel" where
  "ttyaux_chrdev_open c rdev flags k =
     (if MINOR rdev = 0 then let (f, k1) = devtty_open c flags k in (if f \<noteq> 0 then 0 else - ENXIO, f, k1)
      else if MINOR rdev = 1 then let (f, k1) = devconsole_open flags k in (if f \<noteq> 0 then 0 else - ENOMEM, f, k1)
      else (- ENODEV, 0, k))"

definition chrdev_open :: "nat \<Rightarrow> u32 \<Rightarrow> u32 \<Rightarrow> kernel \<Rightarrow> int \<times> u64 \<times> kernel" where
  "chrdev_open c rdev flags k =
     (if MAJOR rdev \<ge> CHRDEV_MAJOR_MAX then (- ENODEV, 0, k)
      else case chrdevs k (MAJOR rdev) of
        None \<Rightarrow> (- ENODEV, 0, k)
      | Some Mem_Chrdev_Open \<Rightarrow> mem_chrdev_open rdev flags k
      | Some Ttyaux_Chrdev_Open \<Rightarrow> ttyaux_chrdev_open c rdev flags k)"

definition k_fs :: "(fs \<Rightarrow> int \<times> fs) \<Rightarrow> kernel \<Rightarrow> int \<times> kernel" where
  "k_fs g k = (case g (fsys k) of (r, s) \<Rightarrow> (r, k\<lparr>fsys := s\<rparr>))"

definition dev_init :: "kernel \<Rightarrow> kernel" where
  "dev_init k =
     (let (err, k1) = k_fs (ramfs_mkdir ''/dev'') k in
      if err \<noteq> 0 \<and> err \<noteq> - EEXIST then k1
      else
        let k2 = snd (register_chrdev MEM_MAJOR Mem_Chrdev_Open k1);
            k3 = snd (register_chrdev TTYAUX_MAJOR Ttyaux_Chrdev_Open k2);
            k4 = snd (k_fs (ramfs_mknod ''/dev/null'' (S_IFCHR OR 0x1B6) (MKDEV MEM_MAJOR 3)) k3);
            k5 = snd (k_fs (ramfs_mknod ''/dev/tty'' (S_IFCHR OR 0x1B6) (MKDEV TTYAUX_MAJOR 0)) k4) in
        snd (k_fs (ramfs_mknod ''/dev/console'' (S_IFCHR OR 0x180) (MKDEV TTYAUX_MAJOR 1)) k5))"

end
