(* ===== verification/Procfs.thy ===== *)
theory Procfs
  imports Files
begin

text \<open>
  The process file system: \<^verbatim>\<open>fs/procfs.c\<close>.  An inode below \<^verbatim>\<open>/proc\<close> is made by the lookup of its path and freed
  with its last reference.  The buffer of a \<open>proc_inode\<close> is the list \<open>p_text\<close> of its first \<open>len\<close> bytes;
  \<open>comm\<close> is a string, \<open>cmdline\<close> the list of the 128 bytes of the array.
\<close>

abbreviation (input) PROC_KIND_DIR :: nat where "PROC_KIND_DIR \<equiv> 1"
abbreviation (input) PROC_KIND_STAT :: nat where "PROC_KIND_STAT \<equiv> 2"
abbreviation (input) PROC_KIND_CMDLINE :: nat where "PROC_KIND_CMDLINE \<equiv> 3"
abbreviation (input) sizeof_proc_inode :: u64 where "sizeof_proc_inode \<equiv> 616"
abbreviation (input) PROC_DATA :: nat where "PROC_DATA \<equiv> 512"
abbreviation (input) NUL :: char where "NUL \<equiv> CHR 0x00"

definition proc_find_task :: "int \<Rightarrow> sched \<Rightarrow> u64 option" where
  "proc_find_task pid s =
     (if pid \<le> 0 then None
      else List.find (\<lambda>t. let x = tasks s t in
             t_pid x = pid \<and> t_state x \<noteq> TASK_DEAD \<and> (t_is_user x \<or> t_state x = TASK_ZOMBIE)) (all_tasks s))"

fun state_char :: "task_state \<Rightarrow> char" where
  "state_char TASK_RUNNING = CHR ''R''"
| "state_char TASK_SLEEPING = CHR ''S''"
| "state_char TASK_STOPPED = CHR ''T''"
| "state_char TASK_ZOMBIE = CHR ''Z''"
| "state_char _ = CHR ''S''"

subsection \<open>The text of a file\<close>

text \<open>A buffer under construction: the bytes written, and the position, which counts beyond the end.\<close>

definition append_char :: "nat \<Rightarrow> char \<Rightarrow> string \<times> nat \<Rightarrow> string \<times> nat" where
  "append_char sz ch = (\<lambda>(buf, pos). (if pos + 1 < sz then buf @ [ch] else buf, pos + 1))"

definition append_str :: "nat \<Rightarrow> string \<Rightarrow> string \<times> nat \<Rightarrow> string \<times> nat" where
  "append_str sz str b = fold (append_char sz) str b"

text \<open>The digits of a number from the lowest on, at most as many as the scratch array has room for.\<close>

fun low_digits :: "nat \<Rightarrow> nat \<Rightarrow> string" where
  "low_digits 0 v = []"
| "low_digits (Suc n) v = (if v = 0 then [] else char_of (48 + v mod 10) # low_digits n (v div 10))"

definition append_uint :: "nat \<Rightarrow> u64 \<Rightarrow> string \<times> nat \<Rightarrow> string \<times> nat" where
  "append_uint sz v b =
     (if v = 0 then append_char sz (CHR ''0'') b else append_str sz (rev (low_digits 20 (unat v))) b)"

definition fill_stat :: "u64 \<Rightarrow> kernel \<Rightarrow> string" where
  "fill_stat t k =
     (let x = tasks (sch k) t;
          ppid = (if t_parent x \<noteq> 0 then t_pid (tasks (sch k) (t_parent x)) else 0);
          comm = (if comms k t \<noteq> [] then comms k t else ''unknown'');
          ch = append_char PROC_DATA; num = (\<lambda>n :: int. append_uint PROC_DATA (of_int n));
          b1 = append_str PROC_DATA comm (ch (CHR ''('') (ch (CHR '' '') (num (t_pid x) ([], 0))));
          b2 = ch (CHR '' '') (ch (state_char (t_state x)) (ch (CHR '' '') (ch (CHR '')'') b1)));
          b3 = num (t_sid x) (ch (CHR '' '') (num (t_pgid x) (ch (CHR '' '') (num ppid b2))));
          b4 = ((\<lambda>b. ch (CHR ''0'') (ch (CHR '' '') b)) ^^ 46) b3;
          (buf, pos) = ch (CHR 0x0A) b4 in
      take (if pos \<ge> PROC_DATA then PROC_DATA - 1 else pos) buf)"

text \<open>The scan for the end of the argument vector: an empty string ends it.\<close>

fun cmdline_end :: "string \<Rightarrow> nat" where
  "cmdline_end [] = 0"
| "cmdline_end (ch # r) =
     (if ch = NUL then if r = [] \<or> hd r = NUL then 1 else 1 + cmdline_end r
      else 1 + cmdline_end r)"

definition fill_cmdline :: "u64 \<Rightarrow> kernel \<Rightarrow> string" where
  "fill_cmdline t k =
     (if cmdlines k t = [] \<or> hd (cmdlines k t) = NUL
      then if comms k t \<noteq> [] then take (PROC_DATA - 1) (comms k t) @ [NUL] else []
      else take (min PROC_DATA (cmdline_end (cmdlines k t))) (cmdlines k t))"

subsection \<open>Lookup\<close>

text \<open>\<open>magic\<close> lies where a \<open>ramfs_inode\<close> has its parent: code that takes the inode for one of ramfs reads it there.\<close>

definition proc_alloc :: "int \<Rightarrow> nat \<Rightarrow> kernel \<Rightarrow> u64 \<times> kernel" where
  "proc_alloc pid kind k =
     (case proc_find_task pid (sch k) of
        None \<Rightarrow> (0, k)
      | Some t \<Rightarrow>
          (case k_kmalloc sizeof_proc_inode k of
             (None, k1) \<Rightarrow> (0, k1)
           | (Some i, k1) \<Rightarrow>
               let txt = (if kind = PROC_KIND_DIR then [] else if kind = PROC_KIND_STAT then fill_stat t k1 else fill_cmdline t k1);
                   d = (kind = PROC_KIND_DIR);
                   n = \<lparr>ino = 0x10000 + of_int pid * 4 + of_nat kind, i_size = of_nat (length txt),
                        i_type = (if d then S_IFDIR else S_IFREG), i_mode = (if d then S_IFDIR OR 0x16D else S_IFREG OR 0x124),
                        i_rdev = 0, i_op = False, i_fop = Some (if d then Proc_Pid_Dir_Ops else Proc_File_Ops), i_private = i,
                        nlink = (if d then 2 else 1), i_count = 0, i_flags = 0, i_free = Some Proc_I_Free\<rparr>;
                   s = fsys k1 in
               (i, k1\<lparr>fsys := s\<lparr>inodes := (inodes s)(i := n), rnodes := (rnodes s)(i := (rnodes s i)\<lparr>r_parent := PROC_MAGIC\<rparr>),
                 pnodes := (pnodes s)(i := \<lparr>p_magic = PROC_MAGIC, p_pid = pid, p_kind = kind, p_text = txt\<rparr>)\<rparr>\<rparr>)))"

fun pid_digits :: "string \<Rightarrow> nat \<Rightarrow> int + nat" where
  "pid_digits [] v = Inr v"
| "pid_digits (ch # r) v =
     (if (of_char ch :: nat) < 48 \<or> (of_char ch :: nat) > 57 then Inl (- EINVAL)
      else let w = v * 10 + (of_char ch - 48) in if w > 0x7fffffff then Inl (- EINVAL) else pid_digits r w)"

definition parse_pid :: "nat \<Rightarrow> string \<Rightarrow> sched \<Rightarrow> int + int" where
  "parse_pid c str s =
     (if str = [] then Inl (- EINVAL)
      else if str = ''self'' then
        if get_current c s = 0 then Inl (- ENOENT) else Inr (t_pid (tasks s (get_current c s)))
      else case pid_digits str 0 of
        Inl e \<Rightarrow> Inl e
      | Inr v \<Rightarrow> if v = 0 then Inl (- ENOENT) else Inr (int v))"

definition proc_lookup :: "nat \<Rightarrow> string \<Rightarrow> kernel \<Rightarrow> u64 \<times> kernel" where
  "proc_lookup c path k =
     (if path = ''/proc'' \<or> path = ''/proc/'' then (proc_root k, k)
      else if take 6 path \<noteq> ''/proc/'' then (0, k)
      else
        let p = drop 6 path; name = take 31 (first_name p); r = drop (length name) p in
        if name = [] then (proc_root k, k)
        else case parse_pid c name (sch k) of
          Inl e \<Rightarrow> (0, k)
        | Inr pid \<Rightarrow>
            if r = [] \<or> r = ''/'' then proc_alloc pid PROC_KIND_DIR k
            else if hd r \<noteq> slash then (0, k)
            else if tl r = ''stat'' \<or> tl r = ''stat/'' then proc_alloc pid PROC_KIND_STAT k
            else if tl r = ''cmdline'' \<or> tl r = ''cmdline/'' then proc_alloc pid PROC_KIND_CMDLINE k
            else (0, k))"

subsection \<open>Directories and files\<close>

text \<open>\<open>emit_dirent\<close> returns its code, the bytes written so far, the position and the user's memory.\<close>

definition emit_dirent :: "u64 \<Rightarrow> u64 \<Rightarrow> u64 \<Rightarrow> u64 \<Rightarrow> u64 \<Rightarrow> u8 \<Rightarrow> string \<Rightarrow> bytes \<Rightarrow> int \<times> u64 \<times> u64 \<times> bytes" where
  "emit_dirent dirp count written pos i t name m =
     (let reclen = dirent_reclen name in
      if reclen > 56 then (- EINVAL, written, pos, m)
      else if written + reclen > count then (if written = 0 then - EINVAL else 1, written, pos, m)
      else (0, written + reclen, pos + 1, put_bytes (dirp + written) (dirent_bytes i (pos + 1) t name) m))"

definition pid_name :: "int \<Rightarrow> string" where
  "pid_name pid = rev (low_digits 16 (unat (of_int pid :: u64)))"

fun root_readdir_loop :: "u64 \<Rightarrow> u64 \<Rightarrow> u64 \<Rightarrow> (u64 \<Rightarrow> task_struct) \<Rightarrow> u64 list \<Rightarrow> u64 \<Rightarrow> u64 \<Rightarrow> u64 \<Rightarrow> bytes \<Rightarrow> int \<times> u64 \<times> bytes" where
  "root_readdir_loop dirp count index ts [] pos written fp m = (sint written, fp, m)"
| "root_readdir_loop dirp count index ts (t # rest) pos written fp m =
     (let x = ts t in
      if t_pid x \<le> 0 \<or> t_state x = TASK_DEAD \<or> t_state x = TASK_ZOMBIE \<or> \<not> t_is_user x
      then root_readdir_loop dirp count index ts rest pos written fp m
      else if pos <s index then root_readdir_loop dirp count index ts rest (pos + 1) written fp m
      else
        let (r, w, p, m1) = emit_dirent dirp count written pos (0x10000 + of_int (t_pid x) * 4) 4 (pid_name (t_pid x)) m in
        if r < 0 then (r, fp, m1)
        else if r > 0 then (sint w, fp, m1)
        else root_readdir_loop dirp count index ts rest p w p m1)"

definition proc_root_readdir :: "u64 \<Rightarrow> u64 \<Rightarrow> u64 \<Rightarrow> kernel \<Rightarrow> int \<times> u64 \<times> kernel" where
  "proc_root_readdir fp dirp count k =
     (if dirp = 0 then (- EFAULT, fp, k)
      else if count = 0 then (0, fp, k)
      else
        let (r, p, m) = root_readdir_loop dirp count fp (tasks (sch k)) (all_tasks (sch k)) 0 0 fp (ram (fsys k)) in
        (r, p, k\<lparr>fsys := (fsys k)\<lparr>ram := m\<rparr>\<rparr>))"

fun pid_readdir_loop :: "u64 \<Rightarrow> u64 \<Rightarrow> u64 \<Rightarrow> u64 \<Rightarrow> (u64 \<times> string) list \<Rightarrow> u64 \<Rightarrow> u64 \<Rightarrow> u64 \<Rightarrow> bytes \<Rightarrow> int \<times> u64 \<times> bytes" where
  "pid_readdir_loop dirp count index i [] pos written fp m = (sint written, fp, m)"
| "pid_readdir_loop dirp count index i ((n, name) # rest) pos written fp m =
     (if pos <s index then pid_readdir_loop dirp count index i rest (pos + 1) written fp m
      else
        let (r, w, p, m1) = emit_dirent dirp count written pos (i + 1 + n) 8 name m in
        if r < 0 then (r, fp, m1)
        else if r > 0 then (sint w, fp, m1)
        else pid_readdir_loop dirp count index i rest p w p m1)"

definition proc_pid_readdir :: "u64 \<Rightarrow> u64 \<Rightarrow> u64 \<Rightarrow> u64 \<Rightarrow> fs \<Rightarrow> int \<times> u64 \<times> fs" where
  "proc_pid_readdir i fp dirp count s =
     (if i = 0 \<or> dirp = 0 then (- EFAULT, fp, s)
      else if \<not> proc_is_inode i s then (- ENOTDIR, fp, s)
      else
        let (r, p, m) = pid_readdir_loop dirp count fp (ino (inodes s i)) [(0, ''stat''), (1, ''cmdline'')] 0 0 fp (ram s) in
        (r, p, s\<lparr>ram := m\<rparr>))"

definition proc_file_read :: "u64 \<Rightarrow> u64 \<Rightarrow> u64 \<Rightarrow> fs \<Rightarrow> int \<times> u8 list \<times> u64" where
  "proc_file_read i count pos s =
     (if i = 0 \<or> \<not> proc_is_inode i s then (- EINVAL, [], pos)
      else if pos <s 0 then (- EINVAL, [], pos)
      else
        let txt = p_text (pnodes s i); len = of_nat (length txt) in
        if pos \<ge> len then (0, [], pos)
        else
          let avail = len - pos; n = (if count < avail then count else avail) in
          (sint n, take (unat n) (drop (unat pos) (string_bytes txt)), pos + n))"

definition proc_init :: "kernel \<Rightarrow> kernel" where
  "proc_init k =
     (let (err, k1) = k_fs (ramfs_mkdir ''/proc'') k in
      if err \<noteq> 0 \<and> err \<noteq> - EEXIST then k1
      else case ramfs_lookup ''/proc'' (fsys k1) of
        None \<Rightarrow> k1\<lparr>proc_root := 0\<rparr>
      | Some i \<Rightarrow> k1\<lparr>proc_root := i, fsys := upd_inode i (\<lambda>n. n\<lparr>i_fop := Some Proc_Root_Ops\<rparr>) (fsys k1)\<rparr>)"

end
