(* ===== verification/Namei.thy ===== *)
theory Namei
  imports Dcache Procfs
begin

text \<open>
  Path names at the system call interface: \<^verbatim>\<open>fs/namei.c\<close> above the routines of the theory \<open>Path\<close>.  A path that a
  system call gets from the user is the string at the user's address, \<open>None\<close> for a null pointer.
\<close>

abbreviation (input) AT_FDCWD :: int where "AT_FDCWD \<equiv> - 100"
abbreviation (input) AT_REMOVEDIR :: u32 where "AT_REMOVEDIR \<equiv> 0x200"

definition k_tuple :: "kernel \<Rightarrow> int \<times> u64 \<times> fs \<Rightarrow> int \<times> u64 \<times> kernel" where
  "k_tuple k = (\<lambda>(err, i, s). (err, i, k\<lparr>fsys := s\<rparr>))"

definition k_result :: "kernel \<Rightarrow> (int \<times> fs) option \<Rightarrow> (int \<times> kernel) option" where
  "k_result k = map_option (\<lambda>(err, s). (err, k\<lparr>fsys := s\<rparr>))"

subsection \<open>Lookup\<close>

definition under_proc :: "string \<Rightarrow> bool" where
  "under_proc path \<longleftrightarrow> take 6 path = ''/proc/''"

text \<open>The loop over symbolic links; the first argument counts the rounds that are left.\<close>

fun follow_links :: "nat \<Rightarrow> string \<Rightarrow> fs \<Rightarrow> u64 option" where
  "follow_links 0 curpath s = None"
| "follow_links (Suc n) curpath s =
     (case ramfs_lookup curpath s of
        None \<Rightarrow> None
      | Some i \<Rightarrow>
          if \<not> inode_is_lnk i s then Some i
          else
            let (len, bs) = ramfs_readlink i (of_nat (PATH_MAX - 1)) s; target = bytes_string bs in
            if len < 0 then None
            else if target \<noteq> [] \<and> hd target = slash then follow_links n (str_copy target PATH_MAX) s
            else
              (case path_parent_name curpath of
                 Inl e \<Rightarrow> None
               | Inr (parent, scratch) \<Rightarrow>
                   (case path_resolve parent target of Inl e \<Rightarrow> None | Inr resolved \<Rightarrow> follow_links n (str_copy resolved PATH_MAX) s)))"

definition vfs_lookup :: "nat \<Rightarrow> string \<Rightarrow> kernel \<Rightarrow> u64 \<times> kernel" where
  "vfs_lookup c path k =
     (let (i, k1) = (if path = ''/proc'' \<or> under_proc path then proc_lookup c path k else (0, k)) in
      if i \<noteq> 0 then (i, k_iget i k1)
      else case follow_links 8 (str_copy path PATH_MAX) (fsys k1) of
        None \<Rightarrow> (0, k1)
      | Some j \<Rightarrow> (j, k_iget j k1))"

definition pwd_dentry :: "nat \<Rightarrow> kernel \<Rightarrow> u64" where
  "pwd_dentry c k =
     (let t = k_current c k in
      if t \<noteq> 0 \<and> t_cwd (tasks (sch k) t) \<noteq> 0 then t_cwd (tasks (sch k) t) else root_dentry k)"

definition dirfd_base :: "nat \<Rightarrow> int \<Rightarrow> kernel \<Rightarrow> int + string" where
  "dirfd_base c dfd k =
     (if dfd = AT_FDCWD then dentry_path (pwd_dentry c k) PATH_MAX k
      else if dfd < 0 \<or> dfd \<ge> int NR_OPEN then Inl (- EBADF)
      else
        let f = k_files (k_current c k) k (nat dfd) in
        if f = 0 then Inl (- EBADF)
        else if f_inode (files k f) = 0 \<or> \<not> inode_is_dir (f_inode (files k f)) (fsys k) then Inl (- ENOTDIR)
        else ramfs_inode_path (f_inode (files k f)) PATH_MAX (fsys k))"

definition getname_from_user_at :: "nat \<Rightarrow> int \<Rightarrow> string option \<Rightarrow> kernel \<Rightarrow> int + string" where
  "getname_from_user_at c dfd filename k =
     (let t = k_current c k in
      if t = 0 \<or> \<not> t_is_user (tasks (sch k) t) then Inl (- EINVAL)
      else case filename of
        None \<Rightarrow> Inl (- EFAULT)
      | Some userpath \<Rightarrow>
          if length userpath \<ge> PATH_MAX then Inl (- ENAMETOOLONG)
          else if userpath = [] then Inl (- ENOENT)
          else if hd userpath = slash then path_resolve ''/'' userpath
          else case dirfd_base c dfd k of Inl e \<Rightarrow> Inl e | Inr base \<Rightarrow> path_resolve base userpath)"

definition getname_from_user :: "nat \<Rightarrow> string option \<Rightarrow> kernel \<Rightarrow> int + string" where
  "getname_from_user c = getname_from_user_at c AT_FDCWD"

subsection \<open>Making and removing names\<close>

text \<open>What \<open>do_mkdir\<close> and \<open>do_mknod\<close> share; the argument is the call of \<open>vfs_mkdir\<close> or \<open>vfs_mknod\<close>.\<close>

definition do_make :: "(u64 \<Rightarrow> string \<Rightarrow> fs \<Rightarrow> int \<times> u64 \<times> fs) \<Rightarrow> string \<Rightarrow> kernel \<Rightarrow> int \<times> kernel" where
  "do_make op path k =
     (case path_parent_name path of
        Inl e \<Rightarrow> (e, k)
      | Inr (parent_path, name) \<Rightarrow>
          let (parent, k1) = d_lookup_path parent_path k in
          if parent = 0 then (- ENOENT, k1)
          else
            let (e, k2) = d_lookup_path path k1 in
            if e \<noteq> 0 then (- EEXIST, k2)
            else
              let (d, k3) = d_alloc parent name k2 in
              if d = 0 then (- ENOMEM, k3)
              else
                let (err, i, k4) = k_tuple k3 (op (de_inode (dentries k3 parent)) (de_name (dentries k3 d)) (fsys k3)) in
                if err \<noteq> 0 then (err, k_kfree d k4)
                else (0, d_add d (upd_dentry d (\<lambda>x. x\<lparr>de_inode := i\<rparr>) k4)))"

definition do_mkdir :: "string \<Rightarrow> umode \<Rightarrow> kernel \<Rightarrow> int \<times> kernel" where
  "do_mkdir path mode = do_make (\<lambda>dir name. vfs_mkdir dir name mode) path"

definition do_mknod :: "string \<Rightarrow> umode \<Rightarrow> u32 \<Rightarrow> kernel \<Rightarrow> int \<times> kernel" where
  "do_mknod path mode rdev k =
     (if mode AND S_IFMT \<noteq> S_IFCHR then (- EINVAL, k)
      else do_make (\<lambda>dir name. vfs_mknod dir name mode rdev) path k)"

definition do_unlink :: "nat \<Rightarrow> string \<Rightarrow> kernel \<Rightarrow> (int \<times> kernel) option" where
  "do_unlink c path k =
     (case path_parent_name path of
        Inl e \<Rightarrow> Some (e, k)
      | Inr (parent_path, name) \<Rightarrow>
          let (parent, k1) = d_lookup_path parent_path k in
          if parent = 0 then Some (- ENOENT, k1)
          else
            let (i, k2) = vfs_lookup c path k1 in
            if i = 0 then Some (- ENOENT, k2)
            else do {
              (err, k3) \<leftarrow> k_result k2 (vfs_unlink (de_inode (dentries k2 parent)) (str_copy name DNAME_INLINE_LEN) i (fsys k2));
              let k4 = (if err = 0 then
                          let (d, k5) = d_lookup_path path k3 in if d \<noteq> 0 \<and> d \<noteq> parent then d_drop c d k5 else k5
                        else k3);
              k6 \<leftarrow> k_iput i k4;
              Some (err, k6) })"

definition do_rmdir :: "nat \<Rightarrow> string \<Rightarrow> kernel \<Rightarrow> (int \<times> kernel) option" where
  "do_rmdir c path k =
     (let (d, k1) = d_lookup_path path k; parent = de_parent (dentries k1 d) in
      if d = 0 \<or> parent = 0 then Some (- ENOENT, k1)
      else do {
        (err, k2) \<leftarrow> k_result k1 (vfs_rmdir (de_inode (dentries k1 parent)) (de_name (dentries k1 d)) (de_inode (dentries k1 d)) (fsys k1));
        Some (if err \<noteq> 0 then (err, k2) else (0, d_drop c d k2)) })"

definition with_name :: "int + string \<Rightarrow> kernel \<Rightarrow> (string \<Rightarrow> (int \<times> kernel) option) \<Rightarrow> (int \<times> kernel) option" where
  "with_name r k g = (case r of Inl e \<Rightarrow> Some (e, k) | Inr path \<Rightarrow> g path)"

definition ksys_mkdirat :: "nat \<Rightarrow> int \<Rightarrow> string option \<Rightarrow> umode \<Rightarrow> kernel \<Rightarrow> (int \<times> kernel) option" where
  "ksys_mkdirat c dfd filename mode k =
     with_name (getname_from_user_at c dfd filename k) k (\<lambda>path. Some (do_mkdir path mode k))"

definition ksys_mknodat :: "nat \<Rightarrow> int \<Rightarrow> string option \<Rightarrow> umode \<Rightarrow> u32 \<Rightarrow> kernel \<Rightarrow> (int \<times> kernel) option" where
  "ksys_mknodat c dfd filename mode dev k =
     with_name (getname_from_user_at c dfd filename k) k (\<lambda>path. Some (do_mknod path mode dev k))"

definition ksys_rmdir :: "nat \<Rightarrow> string option \<Rightarrow> kernel \<Rightarrow> (int \<times> kernel) option" where
  "ksys_rmdir c pathname k = with_name (getname_from_user c pathname k) k (\<lambda>path. do_rmdir c path k)"

definition ksys_unlinkat :: "nat \<Rightarrow> int \<Rightarrow> string option \<Rightarrow> u32 \<Rightarrow> kernel \<Rightarrow> (int \<times> kernel) option" where
  "ksys_unlinkat c dfd filename flag k =
     (if flag AND NOT AT_REMOVEDIR \<noteq> 0 then Some (- EINVAL, k)
      else with_name (getname_from_user_at c dfd filename k) k
        (\<lambda>path. if flag AND AT_REMOVEDIR \<noteq> 0 then do_rmdir c path k else do_unlink c path k))"

subsection \<open>Links\<close>

definition do_link :: "nat \<Rightarrow> string \<Rightarrow> string \<Rightarrow> kernel \<Rightarrow> (int \<times> kernel) option" where
  "do_link c oldpath newpath k =
     (let (old, k1) = vfs_lookup c oldpath k; put = (\<lambda>err k. do { k' \<leftarrow> k_iput old k; Some (err, k') }) in
      if old = 0 then Some (- ENOENT, k1)
      else if inode_is_dir old (fsys k1) then put (- EPERM) k1
      else
        let (exist, k2) = vfs_lookup c newpath k1 in
        if exist \<noteq> 0 then do { k3 \<leftarrow> k_iput exist k2; put (- EEXIST) k3 }
        else case path_parent_name newpath of
          Inl e \<Rightarrow> put e k2
        | Inr (parent_path, name) \<Rightarrow>
            let (parent, k3) = d_lookup_path parent_path k2 in
            if parent = 0 then put (- ENOENT) k3
            else
              let (err, i, k4) = k_tuple k3 (vfs_link old (de_inode (dentries k3 parent)) (str_copy name DNAME_INLINE_LEN) (fsys k3)) in
              put err k4)"

definition ksys_linkat :: "nat \<Rightarrow> int \<Rightarrow> string option \<Rightarrow> int \<Rightarrow> string option \<Rightarrow> u32 \<Rightarrow> kernel \<Rightarrow> (int \<times> kernel) option" where
  "ksys_linkat c olddfd oldname newdfd newname flags k =
     (if flags \<noteq> 0 then Some (- EINVAL, k)
      else with_name (getname_from_user_at c olddfd oldname k) k (\<lambda>oldpath.
        with_name (getname_from_user_at c newdfd newname k) k (\<lambda>newpath. do_link c oldpath newpath k)))"

definition do_rename :: "nat \<Rightarrow> string \<Rightarrow> string \<Rightarrow> kernel \<Rightarrow> (int \<times> kernel) option" where
  "do_rename c oldpath newpath k =
     (case path_parent_name oldpath of
        Inl e \<Rightarrow> Some (e, k)
      | Inr (old_pp, old_name) \<Rightarrow>
          (case path_parent_name newpath of
             Inl e \<Rightarrow> Some (e, k)
           | Inr (new_pp, new_name) \<Rightarrow>
               if is_dotname old_name \<or> is_dotname new_name then Some (- EBUSY, k)
               else
                 let (old_parent, k1) = d_lookup_path old_pp k in
                 if old_parent = 0 then Some (- ENOENT, k1)
                 else
                   let (new_parent, k2) = d_lookup_path new_pp k1 in
                   if new_parent = 0 then Some (- ENOENT, k2)
                   else
                     let (old_d, k3) = d_lookup_path oldpath k2 in
                     if old_d = 0 \<or> de_inode (dentries k3 old_d) = 0 then Some (- ENOENT, k3)
                     else
                       let (new_d, k4) = d_lookup_path newpath k3 in
                       if new_d \<noteq> 0 \<and> de_inode (dentries k4 new_d) = de_inode (dentries k4 old_d) then Some (0, k4)
                       else do {
                         (err, k5) \<leftarrow> k_result k4 (vfs_rename (de_inode (dentries k4 old_parent)) (str_copy old_name DNAME_INLINE_LEN)
                           (de_inode (dentries k4 new_parent)) (str_copy new_name DNAME_INLINE_LEN) (fsys k4));
                         Some (if err \<noteq> 0 then (err, k5)
                               else (0, d_move old_d new_parent new_name (if new_d \<noteq> 0 then d_drop c new_d k5 else k5))) }))"

definition ksys_renameat :: "nat \<Rightarrow> int \<Rightarrow> string option \<Rightarrow> int \<Rightarrow> string option \<Rightarrow> kernel \<Rightarrow> (int \<times> kernel) option" where
  "ksys_renameat c olddfd oldname newdfd newname k =
     with_name (getname_from_user_at c olddfd oldname k) k (\<lambda>oldpath.
       with_name (getname_from_user_at c newdfd newname k) k (\<lambda>newpath. do_rename c oldpath newpath k))"

definition do_symlink :: "nat \<Rightarrow> string \<Rightarrow> string \<Rightarrow> kernel \<Rightarrow> (int \<times> kernel) option" where
  "do_symlink c target linkpath k =
     (let (exist, k1) = vfs_lookup c linkpath k in
      if exist \<noteq> 0 then do { k2 \<leftarrow> k_iput exist k1; Some (- EEXIST, k2) }
      else case path_parent_name linkpath of
        Inl e \<Rightarrow> Some (e, k1)
      | Inr (parent_path, name) \<Rightarrow>
          let (parent, k2) = d_lookup_path parent_path k1 in
          if parent = 0 then Some (- ENOENT, k2)
          else
            let (err, i, k3) = k_tuple k2 (vfs_symlink target (de_inode (dentries k2 parent)) (str_copy name DNAME_INLINE_LEN) (fsys k2)) in
            Some (err, k3))"

definition ksys_symlinkat :: "nat \<Rightarrow> string option \<Rightarrow> int \<Rightarrow> string option \<Rightarrow> kernel \<Rightarrow> (int \<times> kernel) option" where
  "ksys_symlinkat c target dfd linkpath k =
     (case (target, linkpath) of
        (Some target_buf, Some l) \<Rightarrow>
          if length target_buf \<ge> PATH_MAX then Some (- ENAMETOOLONG, k)
          else with_name (getname_from_user_at c dfd linkpath k) k
            (\<lambda>link_buf. if under_proc link_buf then Some (- EACCES, k) else do_symlink c target_buf link_buf k)
      | _ \<Rightarrow> Some (- EFAULT, k))"

text \<open>The result of a successful call carries the bytes stored for the user.\<close>

definition ksys_readlinkat :: "nat \<Rightarrow> int \<Rightarrow> string option \<Rightarrow> bool \<Rightarrow> u64 \<Rightarrow> kernel \<Rightarrow> (int \<times> u8 list \<times> kernel) option" where
  "ksys_readlinkat c dfd pathname have_buf bufsiz k =
     (let t = k_current c k in
      if t = 0 \<or> \<not> t_is_user (tasks (sch k) t) then Some (- EINVAL, [], k)
      else if pathname = None \<or> \<not> have_buf then Some (- EFAULT, [], k)
      else if bufsiz = 0 then Some (- EINVAL, [], k)
      else case getname_from_user_at c dfd pathname k of
        Inl e \<Rightarrow> Some (e, [], k)
      | Inr path \<Rightarrow>
          let (i, k1) = vfs_lookup c path k in
          if i = 0 then Some (- ENOENT, [], k1)
          else
            let copy_len = (if bufsiz > of_nat PATH_MAX then of_nat PATH_MAX else bufsiz);
                (len, bs) = ramfs_readlink i copy_len (fsys k1) in
            do { k2 \<leftarrow> k_iput i k1; Some (len, if len < 0 then [] else bs, k2) })"

subsection \<open>The working directory\<close>

definition set_cwd :: "nat \<Rightarrow> string \<Rightarrow> kernel \<Rightarrow> int \<times> kernel" where
  "set_cwd c path k =
     (let (d, k1) = d_lookup_path path k in
      if d = 0 then (- ENOENT, k1)
      else if de_inode (dentries k1 d) = 0 \<or> \<not> inode_is_dir (de_inode (dentries k1 d)) (fsys k1) then (- ENOTDIR, k1)
      else (0, k_task (k_current c k1) (\<lambda>x. x\<lparr>t_cwd := d\<rparr>) k1))"

definition ksys_chdir :: "nat \<Rightarrow> string option \<Rightarrow> kernel \<Rightarrow> int \<times> kernel" where
  "ksys_chdir c filename k =
     (case getname_from_user c filename k of Inl e \<Rightarrow> (e, k) | Inr path \<Rightarrow> set_cwd c path k)"

definition ksys_fchdir :: "nat \<Rightarrow> nat \<Rightarrow> kernel \<Rightarrow> int \<times> kernel" where
  "ksys_fchdir c fd k =
     (let t = k_current c k; f = k_files t k fd; i = f_inode (files k f) in
      if t = 0 \<or> \<not> t_is_user (tasks (sch k) t) then (- EINVAL, k)
      else if fd \<ge> NR_OPEN then (- EBADF, k)
      else if f = 0 then (- EBADF, k)
      else if i = 0 \<or> \<not> inode_is_dir i (fsys k) then (- ENOTDIR, k)
      else case ramfs_inode_path i PATH_MAX (fsys k) of Inl e \<Rightarrow> (e, k) | Inr path \<Rightarrow> set_cwd c path k)"

definition ksys_getcwd :: "nat \<Rightarrow> bool \<Rightarrow> nat \<Rightarrow> kernel \<Rightarrow> int + string" where
  "ksys_getcwd c have_buf sz k =
     (let t = k_current c k in
      if t = 0 \<or> \<not> t_is_user (tasks (sch k) t) then Inl (- EINVAL)
      else if \<not> have_buf then Inl (- EFAULT)
      else if sz = 0 then Inl (- EINVAL)
      else case dentry_path (pwd_dentry c k) PATH_MAX k of
        Inl e \<Rightarrow> Inl e
      | Inr p \<Rightarrow> if length p + 1 > sz then Inl (- ERANGE) else Inr p)"

definition ksys_utimensat :: "nat \<Rightarrow> int \<Rightarrow> string option \<Rightarrow> kernel \<Rightarrow> (int \<times> kernel) option" where
  "ksys_utimensat c dfd filename k =
     (if filename = None then Some (- EFAULT, k)
      else with_name (getname_from_user_at c dfd filename k) k (\<lambda>path.
        let (i, k1) = vfs_lookup c path k in
        if i = 0 then Some (- ENOENT, k1) else do { k2 \<leftarrow> k_iput i k1; Some (0, k2) }))"

end
