(* ===== verification/Vfs.thy ===== *)
theory Vfs
  imports Namei
begin

text \<open>
  Opening, reading, writing and seeking: \<open>openat\<close> of \<^verbatim>\<open>fs/open.c\<close>, \<^verbatim>\<open>fs/read_write.c\<close> and \<^verbatim>\<open>fs/readdir.c\<close>.  The calls
  through the tables of file operations are case distinctions on the table.  A call that has to wait
  gives \<open>None\<close> in place of its result; one that never returns gives \<open>None\<close> altogether.
\<close>

subsection \<open>Opening\<close>

definition ksys_openat :: "nat \<Rightarrow> int \<Rightarrow> string option \<Rightarrow> u32 \<Rightarrow> umode \<Rightarrow> kernel \<Rightarrow> (int \<times> kernel) option" where
  "ksys_openat c dfd filename flags mode k =
     (let t = k_current c k in
      if t = 0 \<or> \<not> t_is_user (tasks (sch k) t) then Some (- EINVAL, k)
      else with_name (getname_from_user_at c dfd filename k) k (\<lambda>path.
        if under_proc path \<and> flags AND O_CREAT \<noteq> 0 then Some (- EACCES, k)
        else
          let (i0, k1) = vfs_lookup c path k;
              (err, i, k2) =
                (if i0 \<noteq> 0 then (0, i0, k1)
                 else if flags AND O_CREAT = 0 then (- ENOENT, 0, k1)
                 else
                   let (e, k') = k_fs (ramfs_create path mode) k1 in
                   if e \<noteq> 0 then (e, 0, k')
                   else let (j, k'') = vfs_lookup c path k' in if j = 0 then (- ENOENT, 0, k'') else (0, j, k''));
              fail = (\<lambda>e k. do { k' \<leftarrow> k_iput i k; Some (e, k') });
              install = (\<lambda>f k. let (fd, k') = install_fd_flags t f flags k in
                                if fd < 0 then do { k'' \<leftarrow> fput c f k'; Some (fd, k'') } else Some (fd, k')) in
          if err \<noteq> 0 then Some (err, k2)
          else if inode_is_dir i (fsys k2) \<and> flags AND O_ACCMODE \<noteq> O_RDONLY then fail (- EISDIR) k2
          else if \<not> inode_is_dir i (fsys k2) \<and> flags AND O_DIRECTORY \<noteq> 0 then fail (- ENOTDIR) k2
          else if \<not> inode_is_dir i (fsys k2) \<and> inode_is_chr i (fsys k2) then
            let (e, f, k3) = chrdev_open c (i_rdev (inodes (fsys k2) i)) flags k2 in
            if e \<noteq> 0 then fail e k3 else install f (upd_file f (\<lambda>x. x\<lparr>f_inode := i\<rparr>) k3)
          else if \<not> inode_is_dir i (fsys k2) \<and> \<not> inode_is_reg i (fsys k2) then fail (- ENOENT) k2
          else
            let trunc = (\<not> inode_is_dir i (fsys k2) \<and> flags AND O_TRUNC \<noteq> 0 \<and> flags AND O_ACCMODE \<noteq> O_RDONLY);
                (e, k3) = (if \<not> trunc then (0, k2)
                           else if proc_is_inode i (fsys k2) then (- EACCES, k2)
                           else k_fs (ramfs_truncate i 0) k2) in
            if e \<noteq> 0 then fail e k3
            else
              let (f, k4) = alloc_file k3 in
              if f = 0 then fail (- ENOMEM) k4
              else
                let n = inodes (fsys k4) i;
                    seekable = (inode_is_reg i (fsys k4) \<and> (i_fop n = Some Ramfs_File_Ops \<or> i_fop n = Some Proc_File_Ops)) in
                install f (upd_file f (\<lambda>x. x\<lparr>f_inode := i, f_op := i_fop n, f_private := i_private n, f_pos := 0,
                  f_flags := flags, f_mode := (if seekable then FMODE_LSEEK else 0)\<rparr>) k4)))"

definition ksys_open :: "nat \<Rightarrow> string option \<Rightarrow> u32 \<Rightarrow> umode \<Rightarrow> kernel \<Rightarrow> (int \<times> kernel) option" where
  "ksys_open c = ksys_openat c AT_FDCWD"

subsection \<open>Reading and writing\<close>

definition readable :: "file_ops option \<Rightarrow> bool" where
  "readable ops \<longleftrightarrow> ops \<in> {Some Ramfs_File_Ops, Some Proc_File_Ops, Some Pipe_Read_Ops, Some Tty_Fops, Some Devnull_Fops}"

definition writable :: "file_ops option \<Rightarrow> bool" where
  "writable ops \<longleftrightarrow> ops \<in> {Some Ramfs_File_Ops, Some Pipe_Write_Ops, Some Tty_Fops, Some Devnull_Fops, Some Serial_Fops}"

text \<open>\<open>f_op->read (file, kbuf, count, pos)\<close> on a readable file: the count, the bytes and the new position.  The entry
  \<open>e\<close> is the one on the stack of the caller that the terminal puts on its queue.\<close>

definition f_read :: "nat \<Rightarrow> u64 \<Rightarrow> u64 \<Rightarrow> nat \<Rightarrow> u64 \<Rightarrow> kernel \<Rightarrow> (int \<times> u8 list \<times> u64) option \<times> kernel" where
  "f_read c e f count pos k =
     (let x = files k f in
      case f_op x of
        Some Ramfs_File_Ops \<Rightarrow> (Some (ramfs_file_read (f_inode x) (of_nat count) pos (fsys k)), k)
      | Some Proc_File_Ops \<Rightarrow> (Some (proc_file_read (f_inode x) (of_nat count) pos (fsys k)), k)
      | Some Pipe_Read_Ops \<Rightarrow>
          if f_private x = 0 then (Some (- EINVAL, [], pos), k)
          else
            let (r, p, s) = pipe_read c (f_flags x) count (pipes k (f_private x)) (sch k) in
            (map_option (\<lambda>(n, bs). (n, bs, pos)) r, k\<lparr>pipes := (pipes k)(f_private x := p), sch := s\<rparr>)
      | Some Tty_Fops \<Rightarrow>
          let (r, t, s) = tty_read c e count (tty0 k) (sch k) in
          (map_option (\<lambda>(n, bs). (n, bs, pos)) r, k\<lparr>tty0 := t, sch := s\<rparr>)
      | _ \<Rightarrow> (Some (0, [], pos), k))"

definition f_write :: "nat \<Rightarrow> u64 \<Rightarrow> u8 list \<Rightarrow> u64 \<Rightarrow> kernel \<Rightarrow> ((int \<times> u64) option \<times> kernel) option" where
  "f_write c f buf pos k =
     (let x = files k f in
      case f_op x of
        Some Ramfs_File_Ops \<Rightarrow>
          do { (n, p, s) \<leftarrow> ramfs_file_write (f_inode x) buf pos (fsys k); Some (Some (n, p), k\<lparr>fsys := s\<rparr>) }
      | Some Pipe_Write_Ops \<Rightarrow>
          if f_private x = 0 then Some (Some (- EINVAL, pos), k)
          else
            let (r, p, s) = pipe_write c (f_flags x) buf (pipes k (f_private x)) (sch k) in
            Some (map_option (\<lambda>n. (n, pos)) r, k\<lparr>pipes := (pipes k)(f_private x := p), sch := s\<rparr>)
      | Some Tty_Fops \<Rightarrow> let (n, u) = tty_write buf (uart0 k) in Some (Some (n, pos), k\<lparr>uart0 := u\<rparr>)
      | Some Serial_Fops \<Rightarrow> Some (Some (int (length buf), pos), k\<lparr>uart0 := serial_write_n buf (uart0 k)\<rparr>)
      | _ \<Rightarrow> Some (Some (int (length buf), pos + of_nat (length buf)), k))"

abbreviation (input) KBUF :: nat where "KBUF \<equiv> 128"

definition set_pos :: "u64 \<Rightarrow> u64 \<Rightarrow> kernel \<Rightarrow> kernel" where
  "set_pos f p = upd_file f (\<lambda>x. x\<lparr>f_pos := p\<rparr>)"

definition vfs_write :: "nat \<Rightarrow> u64 \<Rightarrow> u8 list \<Rightarrow> kernel \<Rightarrow> (int option \<times> kernel) option" where
  "vfs_write c f buf k =
     (if f = 0 \<or> \<not> writable (f_op (files k f)) then Some (Some (- EINVAL), k)
      else do {
        (r, k1) \<leftarrow> f_write c f (take KBUF buf) (f_pos (files k f)) k;
        Some (case r of None \<Rightarrow> (None, k1) | Some (n, p) \<Rightarrow> (Some n, set_pos f p k1)) })"

definition vfs_read :: "nat \<Rightarrow> u64 \<Rightarrow> u64 \<Rightarrow> nat \<Rightarrow> kernel \<Rightarrow> (int \<times> u8 list) option \<times> kernel" where
  "vfs_read c e f count k =
     (if f = 0 \<or> \<not> readable (f_op (files k f)) then (Some (- EINVAL, []), k)
      else case f_read c e f (min count KBUF) (f_pos (files k f)) k of
        (None, k1) \<Rightarrow> (None, k1)
      | (Some (n, bs, p), k1) \<Rightarrow> (Some (n, if n \<le> 0 then [] else bs), set_pos f p k1))"

definition ksys_write :: "nat \<Rightarrow> nat \<Rightarrow> u8 list \<Rightarrow> kernel \<Rightarrow> (int option \<times> kernel) option" where
  "ksys_write c fd buf k =
     (let f = fd_file c fd k in if f = 0 then Some (Some (- EBADF), k) else vfs_write c f buf k)"

definition ksys_read :: "nat \<Rightarrow> u64 \<Rightarrow> nat \<Rightarrow> nat \<Rightarrow> kernel \<Rightarrow> (int \<times> u8 list) option \<times> kernel" where
  "ksys_read c e fd count k =
     (let f = fd_file c fd k in if f = 0 then (Some (- EBADF, []), k) else vfs_read c e f count k)"

text \<open>\<open>writev\<close>: the vectors with their addresses and bytes.  When a write has to wait, what is left is returned.\<close>

datatype writev_out = Writev_Done int | Writev_Waits "(u64 \<times> u8 list) list" int

definition or_total :: "int \<Rightarrow> int \<Rightarrow> int" where
  "or_total tot err = (if tot \<noteq> 0 then tot else err)"

fun writev_loop :: "nat \<Rightarrow> u64 \<Rightarrow> (u64 \<times> u8 list) list \<Rightarrow> int \<Rightarrow> kernel \<Rightarrow> (writev_out \<times> kernel) option" where
  "writev_loop c f [] tot k = Some (Writev_Done tot, k)"
| "writev_loop c f ((base, bs) # iov) tot k =
     (if bs = [] then writev_loop c f iov tot k
      else if base = 0 then Some (Writev_Done (or_total tot (- EFAULT)), k)
      else do {
        (r, k1) \<leftarrow> vfs_write c f bs k;
        (case r of
           None \<Rightarrow> Some (Writev_Waits ((base, bs) # iov) tot, k1)
         | Some n \<Rightarrow>
             if n < 0 then Some (Writev_Done (or_total tot n), k1)
             else if n < int (length bs) then Some (Writev_Done (tot + n), k1)
             else writev_loop c f iov (tot + n) k1) })"

definition ksys_writev :: "nat \<Rightarrow> nat \<Rightarrow> bool \<Rightarrow> (u64 \<times> u8 list) list \<Rightarrow> kernel \<Rightarrow> (writev_out \<times> kernel) option" where
  "ksys_writev c fd have_iov iov k =
     (if k_current c k = 0 \<or> fd \<ge> NR_OPEN then Some (Writev_Done (- EBADF), k)
      else if \<not> have_iov \<or> iov = [] then Some (Writev_Done 0, k)
      else if length iov > 1024 then Some (Writev_Done (- EINVAL), k)
      else let f = fd_file c fd k in
        if f = 0 then Some (Writev_Done (- EBADF), k) else writev_loop c f iov 0 k)"

text \<open>\<open>sendfile\<close>: \<open>off\<close> is the position given by the user, otherwise that of the input file is used.\<close>

datatype send_out = Send_Done int | Send_Read_Waits nat | Send_Write_Waits nat "u8 list"

function sendfile_loop :: "nat \<Rightarrow> u64 \<Rightarrow> u64 \<Rightarrow> u64 \<Rightarrow> nat \<Rightarrow> nat \<Rightarrow> u64 option \<Rightarrow> kernel \<Rightarrow> (send_out \<times> u64 option \<times> kernel) option" where
  "sendfile_loop c e i out count d off k =
     (if \<not> d < count then Some (Send_Done (int d), off, k)
      else
        let pos = (case off of Some p \<Rightarrow> p | None \<Rightarrow> f_pos (files k i)) in
        case f_read c e i (min (count - d) KBUF) pos k of
          (None, k1) \<Rightarrow> Some (Send_Read_Waits d, off, k1)
        | (Some (nr, bs, p), k1) \<Rightarrow>
            let off1 = map_option (\<lambda>_. p) off; k2 = (if off = None then set_pos i p k1 else k1) in
            if nr < 0 then Some (Send_Done (or_total (int d) nr), off1, k2)
            else if nr = 0 then Some (Send_Done (int d), off1, k2)
            else
              (case f_write c out bs (f_pos (files k2 out)) k2 of
                 None \<Rightarrow> None
               | Some (None, k3) \<Rightarrow> Some (Send_Write_Waits d bs, off1, k3)
               | Some (Some (nw, q), k3) \<Rightarrow>
                   let k4 = set_pos out q k3 in
                   if nw < 0 then Some (Send_Done (or_total (int d) nw), off1, k4)
                   else if nw = 0 then Some (Send_Done (int d), off1, k4)
                   else if nw < nr then
                     let back = of_int (nr - nw) in
                     Some (Send_Done (int (d + nat nw)), map_option (\<lambda>p. p - back) off1,
                       if off1 = None then set_pos i (f_pos (files k4 i) - back) k4 else k4)
                   else sendfile_loop c e i out count (d + nat nw) off1 k4))"
  by pat_completeness auto
termination sendfile_loop
  by (relation "measure (\<lambda>(c, e, i, out, count, d, off, k). count - d)") auto

definition ksys_sendfile ::
    "nat \<Rightarrow> u64 \<Rightarrow> nat \<Rightarrow> nat \<Rightarrow> u64 option \<Rightarrow> nat \<Rightarrow> kernel \<Rightarrow> (send_out \<times> u64 option \<times> kernel) option" where
  "ksys_sendfile c e out_fd in_fd off count k =
     (let out = fd_file c out_fd k; i = fd_file c in_fd k in
      if out = 0 \<or> i = 0 then Some (Send_Done (- EBADF), off, k)
      else if \<not> readable (f_op (files k i)) then Some (Send_Done (- EINVAL), off, k)
      else if \<not> writable (f_op (files k out)) then Some (Send_Done (- EINVAL), off, k)
      else sendfile_loop c e i out count 0 off k)"

subsection \<open>Other operations on descriptors\<close>

definition ksys_ioctl :: "nat \<Rightarrow> nat \<Rightarrow> u32 \<Rightarrow> u64 \<Rightarrow> user_termios \<Rightarrow> int \<Rightarrow> kernel \<Rightarrow> int \<times> ioctl_out \<times> kernel" where
  "ksys_ioctl c fd cmd arg tm pid k =
     (let f = fd_file c fd k in
      if f = 0 then (- EBADF, No_Out, k)
      else if f_op (files k f) \<noteq> Some Tty_Fops then (- ENOTTY, No_Out, k)
      else
        let (r, out, t, s) = tty_file_ioctl c cmd arg tm pid (tty0 k) (sch k) in (r, out, k\<lparr>tty0 := t, sch := s\<rparr>))"

text \<open>Offsets are 64-bit and wrap.\<close>

definition generic_file_llseek :: "u64 \<Rightarrow> u64 \<Rightarrow> int \<Rightarrow> kernel \<Rightarrow> int \<times> kernel" where
  "generic_file_llseek f offset whence k =
     (let x = files k f;
          pos = (if whence = 0 then offset
                 else if whence = 1 then f_pos x + offset
                 else (if f_inode x \<noteq> 0 then i_size (inodes (fsys k) (f_inode x)) else 0) + offset) in
      if whence \<noteq> 0 \<and> whence \<noteq> 1 \<and> whence \<noteq> 2 then (- EINVAL, k)
      else if pos <s 0 then (- EINVAL, k)
      else (sint pos, set_pos f pos k))"

definition vfs_llseek :: "u64 \<Rightarrow> u64 \<Rightarrow> int \<Rightarrow> kernel \<Rightarrow> int \<times> kernel" where
  "vfs_llseek f offset whence k =
     (if f_mode (files k f) AND FMODE_LSEEK = 0 then (- ESPIPE, k) else generic_file_llseek f offset whence k)"

definition ksys_lseek :: "nat \<Rightarrow> nat \<Rightarrow> u64 \<Rightarrow> int \<Rightarrow> kernel \<Rightarrow> int \<times> kernel" where
  "ksys_lseek c fd offset whence k =
     (let f = fd_file c fd k in if f = 0 then (- EBADF, k) else vfs_llseek f offset whence k)"

definition ksys_getdents64 :: "nat \<Rightarrow> nat \<Rightarrow> u64 \<Rightarrow> u64 \<Rightarrow> kernel \<Rightarrow> int \<times> kernel" where
  "ksys_getdents64 c fd dirp count k =
     (let f = fd_file c fd k; x = files k f in
      if f = 0 then (- EBADF, k)
      else case f_op x of
        Some Ramfs_Dir_Ops \<Rightarrow>
          let (r, p, s) = ramfs_dir_readdir (f_inode x) (f_pos x) dirp count (fsys k) in (r, set_pos f p (k\<lparr>fsys := s\<rparr>))
      | Some Proc_Root_Ops \<Rightarrow> let (r, p, k1) = proc_root_readdir (f_pos x) dirp count k in (r, set_pos f p k1)
      | Some Proc_Pid_Dir_Ops \<Rightarrow>
          let (r, p, s) = proc_pid_readdir (f_inode x) (f_pos x) dirp count (fsys k) in (r, set_pos f p (k\<lparr>fsys := s\<rparr>))
      | _ \<Rightarrow> (- ENOTDIR, k))"

end
