(* ===== verification/Stat.thy ===== *)
theory Stat
  imports Vfs "HOL-Library.Signed_Division"
begin

text \<open>
  File status, permissions and access checks: \<^verbatim>\<open>fs/stat.c\<close>.  Of \<^verbatim>\<open>struct stat\<close> the fields are kept that are ever
  set to anything but zero.
\<close>

abbreviation (input) AT_SYMLINK_NOFOLLOW :: u32 where "AT_SYMLINK_NOFOLLOW \<equiv> 0x100"
abbreviation (input) AT_EACCESS :: u32 where "AT_EACCESS \<equiv> 0x200"
abbreviation (input) AT_EMPTY_PATH :: u32 where "AT_EMPTY_PATH \<equiv> 0x1000"

record stat =
  st_ino :: u64
  st_mode :: umode
  st_nlink :: u32
  st_rdev :: u32
  st_size :: u64
  st_blksize :: int
  st_blocks :: int

definition stat0 :: stat where
  "stat0 = \<lparr>st_ino = 0, st_mode = 0, st_nlink = 0, st_rdev = 0, st_size = 0, st_blksize = 0, st_blocks = 0\<rparr>"

definition inode_mode :: "u64 \<Rightarrow> fs \<Rightarrow> umode" where
  "inode_mode i s =
     (if i = 0 then S_IFCHR OR 0x1B6
      else if i_mode (inodes s i) \<noteq> 0 then i_mode (inodes s i)
      else i_type (inodes s i))"

definition inode_chmod :: "u64 \<Rightarrow> umode \<Rightarrow> fs \<Rightarrow> int \<times> fs" where
  "inode_chmod i mode s =
     (if i = 0 then (- EINVAL, s)
      else if proc_is_inode i s then (- EPERM, s)
      else (0, upd_inode i (\<lambda>n. n\<lparr>i_mode := i_mode n AND S_IFMT OR (mode AND 0x1FF)\<rparr>) s))"

definition inode_access :: "u64 \<Rightarrow> u32 \<Rightarrow> fs \<Rightarrow> int" where
  "inode_access i mode s =
     (let m = inode_mode i s in
      if mode AND 4 \<noteq> 0 \<and> m AND 0x124 = 0 then - EACCES
      else if mode AND 2 \<noteq> 0 \<and> m AND 0x92 = 0 then - EACCES
      else if mode AND 1 \<noteq> 0 \<and> m AND 0x49 = 0 then - EACCES
      else 0)"

text \<open>\<open>st_size\<close> is a \<open>long\<close>, and the division rounds towards zero.\<close>

definition cp_inode_stat :: "u64 \<Rightarrow> fs \<Rightarrow> stat" where
  "cp_inode_stat i s =
     (if i = 0 then stat0\<lparr>st_mode := inode_mode 0 s, st_nlink := 1, st_blksize := 1024\<rparr>
      else
        let n = inodes s i in
        stat0\<lparr>st_ino := ino n, st_mode := inode_mode i s, st_rdev := (if inode_is_chr i s then i_rdev n else 0),
          st_nlink := (if nlink n \<noteq> 0 then nlink n else 1), st_size := i_size n, st_blksize := 1024,
          st_blocks := sint (i_size n + 511) sdiv 512\<rparr>)"

definition devnull_fill_stat :: stat where
  "devnull_fill_stat = stat0\<lparr>st_mode := S_IFCHR OR 0x1B6, st_rdev := MKDEV MEM_MAJOR 3, st_nlink := 1, st_blksize := 1024\<rparr>"

definition devtty_fill_stat :: stat where
  "devtty_fill_stat = stat0\<lparr>st_mode := S_IFCHR OR 0x1B6, st_rdev := MKDEV TTYAUX_MAJOR 0, st_nlink := 1, st_blksize := 1024\<rparr>"

definition devconsole_fill_stat :: stat where
  "devconsole_fill_stat = stat0\<lparr>st_mode := S_IFCHR OR 0x180, st_rdev := MKDEV TTYAUX_MAJOR 1, st_nlink := 1, st_blksize := 1024\<rparr>"

definition devconsole_file_is :: "u64 \<Rightarrow> kernel \<Rightarrow> bool" where
  "devconsole_file_is f k \<longleftrightarrow> f \<noteq> 0 \<and> f_op (files k f) = Some Tty_Fops \<and> f_private (files k f) = DEV_FD_CONSOLE"

definition devtty_file_is :: "u64 \<Rightarrow> kernel \<Rightarrow> bool" where
  "devtty_file_is f k \<longleftrightarrow> f \<noteq> 0 \<and> f_op (files k f) = Some Tty_Fops \<and> f_private (files k f) = DEV_FD_TTY"

definition devnull_file_is :: "u64 \<Rightarrow> kernel \<Rightarrow> bool" where
  "devnull_file_is f k \<longleftrightarrow> f \<noteq> 0 \<and> f_op (files k f) = Some Devnull_Fops"

definition cp_file_stat :: "u64 \<Rightarrow> kernel \<Rightarrow> stat" where
  "cp_file_stat f k =
     (if f = 0 then stat0
      else if f_inode (files k f) \<noteq> 0 then cp_inode_stat (f_inode (files k f)) (fsys k)
      else if f = uart_file k \<or> devconsole_file_is f k then devconsole_fill_stat
      else if devtty_file_is f k then devtty_fill_stat
      else if devnull_file_is f k then devnull_fill_stat
      else stat0\<lparr>st_mode := S_IFIFO OR 0x180, st_nlink := 1, st_blksize := 1024\<rparr>)"

definition do_stat_inode :: "u64 \<Rightarrow> bool \<Rightarrow> fs \<Rightarrow> int \<times> stat option" where
  "do_stat_inode i have_buf s = (if \<not> have_buf then (- EFAULT, None) else (0, Some (cp_inode_stat i s)))"

definition do_stat_file :: "u64 \<Rightarrow> bool \<Rightarrow> kernel \<Rightarrow> int \<times> stat option" where
  "do_stat_file f have_buf k = (if \<not> have_buf then (- EFAULT, None) else (0, Some (cp_file_stat f k)))"

definition ksys_fstat :: "nat \<Rightarrow> nat \<Rightarrow> bool \<Rightarrow> kernel \<Rightarrow> int \<times> stat option" where
  "ksys_fstat c fd have_buf k = (let f = fd_file c fd k in if f = 0 then (- EBADF, None) else do_stat_file f have_buf k)"

text \<open>The file that an empty path stands for.\<close>

definition at_file :: "nat \<Rightarrow> int \<Rightarrow> kernel \<Rightarrow> u64" where
  "at_file c dfd k = (if dfd < 0 \<or> dfd \<ge> int NR_OPEN then 0 else k_files (k_current c k) k (nat dfd))"

definition ksys_newfstatat ::
    "nat \<Rightarrow> int \<Rightarrow> string option \<Rightarrow> bool \<Rightarrow> u32 \<Rightarrow> kernel \<Rightarrow> (int \<times> stat option \<times> kernel) option" where
  "ksys_newfstatat c dfd filename have_buf flag k =
     (let t = k_current c k in
      if t = 0 \<or> \<not> t_is_user (tasks (sch k) t) then Some (- EINVAL, None, k)
      else if filename = None then Some (- EFAULT, None, k)
      else if flag AND AT_EMPTY_PATH \<noteq> 0 \<and> filename = Some [] then
        let f = at_file c dfd k in
        if f = 0 then Some (- EBADF, None, k) else let (r, st) = do_stat_file f have_buf k in Some (r, st, k)
      else case getname_from_user_at c dfd filename k of
        Inl e \<Rightarrow> Some (e, None, k)
      | Inr path \<Rightarrow>
          let (i, k1) = vfs_lookup c path k in
          if i = 0 then Some (- ENOENT, None, k1)
          else let (r, st) = do_stat_inode i have_buf (fsys k1) in do { k2 \<leftarrow> k_iput i k1; Some (r, st, k2) })"

definition ksys_faccessat2 :: "nat \<Rightarrow> int \<Rightarrow> string option \<Rightarrow> u32 \<Rightarrow> u32 \<Rightarrow> kernel \<Rightarrow> (int \<times> kernel) option" where
  "ksys_faccessat2 c dfd filename mode flags k =
     (let t = k_current c k in
      if t = 0 \<or> \<not> t_is_user (tasks (sch k) t) then Some (- EINVAL, k)
      else if mode AND NOT 7 \<noteq> 0 then Some (- EINVAL, k)
      else if flags AND NOT (AT_SYMLINK_NOFOLLOW OR AT_EACCESS OR AT_EMPTY_PATH) \<noteq> 0 then Some (- EINVAL, k)
      else if filename = None then Some (- EFAULT, k)
      else if flags AND AT_EMPTY_PATH \<noteq> 0 \<and> filename = Some [] then
        let f = at_file c dfd k in
        if f = 0 then Some (- EBADF, k)
        else if f_inode (files k f) \<noteq> 0 then Some (inode_access (f_inode (files k f)) mode (fsys k), k)
        else if mode AND 1 \<noteq> 0 then Some (- EACCES, k)
        else Some (0, k)
      else with_name (getname_from_user_at c dfd filename k) k (\<lambda>path.
        let (i, k1) = (if flags AND AT_SYMLINK_NOFOLLOW \<noteq> 0
                       then (case ramfs_lookup path (fsys k) of None \<Rightarrow> (0, k) | Some j \<Rightarrow> (j, k_iget j k))
                       else vfs_lookup c path k) in
        if i = 0 then Some (- ENOENT, k1)
        else let r = inode_access i mode (fsys k1) in do { k2 \<leftarrow> k_iput i k1; Some (r, k2) }))"

definition ksys_faccessat :: "nat \<Rightarrow> int \<Rightarrow> string option \<Rightarrow> u32 \<Rightarrow> kernel \<Rightarrow> (int \<times> kernel) option" where
  "ksys_faccessat c dfd filename mode = ksys_faccessat2 c dfd filename mode 0"

definition ksys_fchmod :: "nat \<Rightarrow> nat \<Rightarrow> umode \<Rightarrow> kernel \<Rightarrow> int \<times> kernel" where
  "ksys_fchmod c fd mode k =
     (let t = k_current c k; f = k_files t k fd in
      if t = 0 \<or> \<not> t_is_user (tasks (sch k) t) then (- EINVAL, k)
      else if fd \<ge> NR_OPEN then (- EBADF, k)
      else if f = 0 then (- EBADF, k)
      else if f_inode (files k f) = 0 then (- EINVAL, k)
      else k_fs (inode_chmod (f_inode (files k f)) mode) k)"

definition ksys_fchmodat :: "nat \<Rightarrow> int \<Rightarrow> string option \<Rightarrow> umode \<Rightarrow> kernel \<Rightarrow> (int \<times> kernel) option" where
  "ksys_fchmodat c dfd filename mode k =
     (let t = k_current c k in
      if t = 0 \<or> \<not> t_is_user (tasks (sch k) t) then Some (- EINVAL, k)
      else with_name (getname_from_user_at c dfd filename k) k (\<lambda>path.
        let (i, k1) = vfs_lookup c path k in
        if i = 0 then Some (- ENOENT, k1)
        else let (r, k2) = k_fs (inode_chmod i mode) k1 in do { k3 \<leftarrow> k_iput i k2; Some (r, k3) }))"

end
