(* ===== verification/Poll.thy ===== *)
theory Poll
  imports Vfs
begin

text \<open>
  Waiting for several descriptors: \<^verbatim>\<open>fs/poll.c\<close>.  A poll table is the list of the wait queues on which the call
  has put an entry, in order; the entry for the \<open>n\<close>-th of them lies in the \<open>n\<close>-th element of an array on
  the stack of the caller, at \<open>base\<close>.  \<open>ppoll\<close> is cut at \<open>schedule\<close>.
\<close>

datatype wq_ref = Pipe_Read_Wait u64 | Pipe_Write_Wait u64 | Tty_Read_Wait

record pollfd =
  pfd :: int
  events :: "16 word"
  revents :: "16 word"

definition pt_entry :: "u64 \<Rightarrow> nat \<Rightarrow> u64" where
  "pt_entry base n = base + of_nat n * 24"

definition wq_remove :: "wq_ref \<Rightarrow> u64 \<Rightarrow> kernel \<Rightarrow> kernel" where
  "wq_remove r e k =
     (case r of
        Pipe_Read_Wait p \<Rightarrow> k\<lparr>pipes := (pipes k)(p := (pipes k p)\<lparr>p_read_wait := remove_wait_queue e (p_read_wait (pipes k p))\<rparr>)\<rparr>
      | Pipe_Write_Wait p \<Rightarrow> k\<lparr>pipes := (pipes k)(p := (pipes k p)\<lparr>p_write_wait := remove_wait_queue e (p_write_wait (pipes k p))\<rparr>)\<rparr>
      | Tty_Read_Wait \<Rightarrow> k\<lparr>tty0 := (tty0 k)\<lparr>read_wait := remove_wait_queue e (read_wait (tty0 k))\<rparr>\<rparr>)"

definition poll_table_finish :: "u64 \<Rightarrow> wq_ref list \<Rightarrow> kernel \<Rightarrow> kernel" where
  "poll_table_finish base pt k = fold (\<lambda>(n, r). wq_remove r (pt_entry base n)) (zip [0..<length pt] pt) k"

text \<open>The entry that \<open>poll_wait\<close> puts on the queue it is called with: none without a table or when the table is full.\<close>

definition poll_wait :: "nat \<Rightarrow> u64 \<Rightarrow> wq_ref list option \<Rightarrow> kernel \<Rightarrow> (u64 \<times> u64) option" where
  "poll_wait c base pt k =
     (case pt of
        None \<Rightarrow> None
      | Some l \<Rightarrow> if length l \<ge> NR_OPEN then None else Some (pt_entry base (length l), k_current c k))"

definition pt_add :: "(u64 \<times> u64) option \<Rightarrow> wq_ref \<Rightarrow> wq_ref list option \<Rightarrow> wq_ref list option" where
  "pt_add w r pt = (if w = None then pt else map_option (\<lambda>l. l @ [r]) pt)"

definition vfs_poll :: "nat \<Rightarrow> u64 \<Rightarrow> u64 \<Rightarrow> wq_ref list option \<Rightarrow> kernel \<Rightarrow> u32 \<times> wq_ref list option \<times> kernel" where
  "vfs_poll c base f pt k =
     (let x = files k f; p = f_private x; w = poll_wait c base pt k in
      if f = 0 then (POLLNVAL, pt, k)
      else case f_op x of
        Some Pipe_Read_Ops \<Rightarrow>
          if p = 0 then (POLLERR, pt, k)
          else let (m, q) = pipe_read_poll w (pipes k p) in (m, pt_add w (Pipe_Read_Wait p) pt, k\<lparr>pipes := (pipes k)(p := q)\<rparr>)
      | Some Pipe_Write_Ops \<Rightarrow>
          if p = 0 then (POLLERR, pt, k)
          else let (m, q) = pipe_write_poll w (pipes k p) in (m, pt_add w (Pipe_Write_Wait p) pt, k\<lparr>pipes := (pipes k)(p := q)\<rparr>)
      | Some Tty_Fops \<Rightarrow> let (m, t) = tty_poll w (tty0 k) in (m, pt_add w Tty_Read_Wait pt, k\<lparr>tty0 := t\<rparr>)
      | _ \<Rightarrow> (POLLIN OR POLLRDNORM OR POLLOUT OR POLLWRNORM, pt, k))"

fun do_poll_scan :: "nat \<Rightarrow> u64 \<Rightarrow> pollfd list \<Rightarrow> wq_ref list option \<Rightarrow> kernel \<Rightarrow> nat \<times> pollfd list \<times> wq_ref list option \<times> kernel" where
  "do_poll_scan c base [] pt k = (0, [], pt, k)"
| "do_poll_scan c base (x # xs) pt k =
     (if pfd x < 0 then
        let (n, ys, pt1, k1) = do_poll_scan c base xs pt k in (n, x\<lparr>revents := 0\<rparr> # ys, pt1, k1)
      else
        let f = (if pfd x \<ge> int NR_OPEN then 0 else k_files (k_current c k) k (nat (pfd x))) in
        if f = 0 then
          let (n, ys, pt1, k1) = do_poll_scan c base xs pt k in (n + 1, x\<lparr>revents := ucast POLLNVAL\<rparr> # ys, pt1, k1)
        else
          let (mask, pt1, k1) = vfs_poll c base f pt k;
              want = scast (events x) OR POLLERR OR POLLHUP OR POLLNVAL;
              r = ucast (mask AND want);
              (n, ys, pt2, k2) = do_poll_scan c base xs pt1 k1 in
          (if r \<noteq> 0 then n + 1 else n, x\<lparr>revents := r\<rparr> # ys, pt2, k2))"

datatype poll_out = Poll_Done int "pollfd list" | Poll_Sleeps "pollfd list" "wq_ref list"

text \<open>What follows the loop: the table is taken down and a mask that was applied is taken back.\<close>

definition ppoll_finish :: "nat \<Rightarrow> u64 \<Rightarrow> bool \<Rightarrow> nat \<Rightarrow> pollfd list \<Rightarrow> wq_ref list \<Rightarrow> kernel \<Rightarrow> poll_out \<times> kernel" where
  "ppoll_finish c base applied n fds pt k =
     (let k1 = poll_table_finish base pt k in
      (Poll_Done (int n) fds,
       if applied then k_task (k_current c k1) (\<lambda>x. x\<lparr>t_blocked := t_saved_blocked x AND NOT SIG_UNBLOCKABLE, t_restore_sigmask := False\<rparr>) k1
       else k1))"

definition expired :: "u64 \<Rightarrow> kernel \<Rightarrow> bool" where
  "expired deadline k \<longleftrightarrow> deadline \<noteq> 0 \<and> jiffies (sch k) \<ge> deadline"

definition ppoll_round :: "nat \<Rightarrow> u64 \<Rightarrow> u64 \<Rightarrow> bool \<Rightarrow> bool \<Rightarrow> pollfd list \<Rightarrow> kernel \<Rightarrow> poll_out \<times> kernel" where
  "ppoll_round c base deadline timed applied fds0 k =
     (let t = k_current c k;
          (n, fds, pt0, k1) = do_poll_scan c base fds0 (if timed then None else Some []) k;
          pt = (case pt0 of None \<Rightarrow> [] | Some l \<Rightarrow> l) in
      if n \<noteq> 0 \<or> timed then ppoll_finish c base applied n fds pt k1
      else if expired deadline k1 then ppoll_finish c base applied 0 fds pt k1
      else if signal_pending (tasks (sch k1) t) then (Poll_Done (- EINTR) fds0, poll_table_finish base pt k1)
      else
        let k2 = k1\<lparr>sch := sched_block c TASK_SLEEPING (sch k1)\<rparr>;
            k3 = (if deadline \<noteq> 0 then k_task t (\<lambda>x. x\<lparr>t_wake_jiffies := deadline\<rparr>) k2 else k2);
            (n2, fds2, pt2, k4) = do_poll_scan c base fds None k3;
            sig = signal_pending (tasks (sch k4) t) in
        if n2 \<noteq> 0 \<or> sig \<or> expired deadline k4 then
          let k5 = k_task t (\<lambda>x. x\<lparr>t_wake_jiffies := 0\<rparr>) k4;
              k6 = (if \<not> on_rq t (sch k5) then k5\<lparr>sch := enqueue_task c t (sch k5)\<rparr> else k5) in
          if n2 \<noteq> 0 then ppoll_finish c base applied n2 fds2 pt k6
          else if sig then (Poll_Done (- EINTR) fds0, poll_table_finish base pt k6)
          else ppoll_finish c base applied 0 fds2 [] (poll_table_finish base pt k6)
        else (Poll_Sleeps fds2 pt, k4))"

text \<open>From the return of \<open>schedule\<close>.\<close>

definition ppoll_resume :: "nat \<Rightarrow> u64 \<Rightarrow> u64 \<Rightarrow> bool \<Rightarrow> pollfd list \<Rightarrow> wq_ref list \<Rightarrow> kernel \<Rightarrow> poll_out \<times> kernel" where
  "ppoll_resume c base deadline applied fds pt k =
     (let t = k_current c k;
          k1 = k_task t (\<lambda>x. x\<lparr>t_wake_jiffies := 0\<rparr>) k;
          k2 = (if \<not> on_rq t (sch k1) then k1\<lparr>sch := enqueue_task c t (sch k1)\<rparr> else k1);
          k3 = poll_table_finish base pt k2 in
      if signal_pending (tasks (sch k3) t) then (Poll_Done (- EINTR) fds, k3)
      else if expired deadline k3 then ppoll_finish c base applied 0 fds [] k3
      else ppoll_round c base deadline False applied fds k3)"

definition ksys_ppoll ::
    "nat \<Rightarrow> u64 \<Rightarrow> pollfd list \<Rightarrow> bool \<Rightarrow> (u64 \<times> u64) option \<Rightarrow> u64 option \<Rightarrow> u64 \<Rightarrow> kernel \<Rightarrow> poll_out \<times> kernel" where
  "ksys_ppoll c base fds have_fds ts sigmask sigsetsize k =
     (let t = k_current c k in
      if t = 0 \<or> \<not> t_is_user (tasks (sch k) t) then (Poll_Done (- EINVAL) fds, k)
      else if length fds > NR_OPEN then (Poll_Done (- EINVAL) fds, k)
      else if fds \<noteq> [] \<and> \<not> have_fds then (Poll_Done (- EFAULT) fds, k)
      else if (case ts of None \<Rightarrow> False | Some x \<Rightarrow> \<not> timespec_valid x) then (Poll_Done (- EINVAL) fds, k)
      else
        let deadline =
              (case ts of
                 None \<Rightarrow> 0
               | Some x \<Rightarrow>
                   if fst x \<noteq> 0 \<or> snd x \<noteq> 0
                   then let d = timespec_to_jiffies x in jiffies (sch k) + (if d = 0 then 1 else d) else 0) in
        if sigmask \<noteq> None \<and> sigsetsize \<noteq> 8 then (Poll_Done (- EINVAL) fds, k)
        else
          let k1 = (case sigmask of
                      None \<Rightarrow> k
                    | Some newset \<Rightarrow>
                        k_task t (\<lambda>x. x\<lparr>t_saved_blocked := t_blocked x, t_restore_sigmask := True,
                          t_blocked := newset AND NOT SIG_UNBLOCKABLE\<rparr>) k) in
          ppoll_round c base deadline (ts \<noteq> None \<and> deadline = 0) (sigmask \<noteq> None) fds k1)"

end
