(* ===== verification/Process.thy ===== *)
theory Process
  imports Vfs
begin

text \<open>
  The life of a process: creation (\<^verbatim>\<open>kernel/fork.c\<close>), process groups and sessions (\<^verbatim>\<open>kernel/pid.c\<close>), exit and wait
  (\<^verbatim>\<open>kernel/exit.c\<close>).  Blocks for task structures come from the slab allocator, stacks from the page
  allocator.  \<open>do_exit\<close> and \<open>wait4\<close> are cut at \<open>schedule\<close>.  The contexts that \<open>switch_to\<close> loads are not part of
  the state; \<open>t_regs\<close> is the frame with which a task returns to user mode.
\<close>

abbreviation (input) sizeof_task :: u64 where "sizeof_task \<equiv> 2792"
abbreviation (input) WNOHANG :: u64 where "WNOHANG \<equiv> 1"
abbreviation (input) WUNTRACED :: u64 where "WUNTRACED \<equiv> 2"
abbreviation (input) WCONTINUED :: u64 where "WCONTINUED \<equiv> 8"

subsection \<open>Pages\<close>

definition k_alloc_pages :: "int \<Rightarrow> kernel \<Rightarrow> u64 option \<times> kernel" where
  "k_alloc_pages order k =
     (case alloc_pages order (buddy_of (k_vm k)) of (r, b) \<Rightarrow> (r, put_vm (set_buddy b (k_vm k)) k))"

definition k_free_pages :: "u64 \<Rightarrow> int \<Rightarrow> kernel \<Rightarrow> kernel" where
  "k_free_pages a order k = put_vm (set_buddy (free_pages a order (buddy_of (k_vm k))) (k_vm k)) k"

definition k_mm_put :: "u64 \<Rightarrow> kernel \<Rightarrow> kernel" where
  "k_mm_put m k =
     (case mm_put (mms k m) (k_vm k) of
        (None, st) \<Rightarrow> put_vm st k
      | (Some mm, st) \<Rightarrow> (put_vm st k)\<lparr>mms := (mms k)(m := mm)\<rparr>)"

definition k_dup_mm :: "u64 \<Rightarrow> kernel \<Rightarrow> u64 \<times> kernel" where
  "k_dup_mm m k =
     (if m = 0 then (0, k)
      else case dup_mm (mms k m) (k_vm k) of
        (None, st) \<Rightarrow> (0, put_vm st k)
      | (Some mm, st) \<Rightarrow>
          let k1 = put_vm st k; a = mm_ptr mm in
          (a, k1\<lparr>mms := (mms k)(a := mm), sch := (sch k)\<lparr>pgds := (pgds (sch k))(a := pgd mm)\<rparr>\<rparr>))"

subsection \<open>Creation\<close>

text \<open>\<open>task_zero\<close> leaves \<open>cpu\<close> as it finds it.\<close>

definition task_zero :: "u64 \<Rightarrow> kernel \<Rightarrow> kernel" where
  "task_zero t k =
     (k_task t (\<lambda>x. x\<lparr>t_pid := 0, t_tgid := 0, t_state := TASK_SLEEPING, t_stack := 0, t_mm := 0, t_files := \<lambda>_. 0,
        t_close_on_exec := 0, t_parent := 0, t_time_slice := 0, t_need_resched := False, t_is_user := False, t_user_sp := 0,
        t_tpidr_el0 := 0, t_exit_code := 0, t_exit_signal := 0, t_stop_signal := 0, t_wait_event := CHILD_EVENT_NONE,
        t_pgid := 0, t_sid := 0, t_daif := 0x3c0, t_cwd := 0, t_pending := 0, t_blocked := 0, t_saved_blocked := 0,
        t_restore_sigmask := False, t_in_syscall := False, t_orig_x0 := 0,
        t_actions := \<lambda>_. \<lparr>sa_handler = 0, sa_flags = 0, sa_restorer = 0, sa_mask = 0\<rparr>, t_wake_jiffies := 0\<rparr>) k)
       \<lparr>comms := (comms k)(t := []), cmdlines := (cmdlines k)(t := replicate 128 NUL)\<rparr>"

definition copy_task_files :: "u64 \<Rightarrow> u64 \<Rightarrow> kernel \<Rightarrow> kernel" where
  "copy_task_files child parent k =
     fold (\<lambda>i k. let f = k_files parent k i; k1 = set_fd child i f k in if f \<noteq> 0 then get_file f k1 else k1) [0..<NR_OPEN]
       (k_task child (\<lambda>x. x\<lparr>t_close_on_exec := t_close_on_exec (tasks (sch k) parent)\<rparr>) k)"

definition dup_user_stack :: "u64 \<Rightarrow> u64 \<Rightarrow> kernel \<Rightarrow> int \<times> kernel" where
  "dup_user_stack child parent k =
     (let cm = t_mm (tasks (sch k) child); pm = t_mm (tasks (sch k) parent) in
      if cm = 0 \<or> pm = 0 \<or> stack_top (mms k pm) = 0 then (- EINVAL, k)
      else (0, k_task child (\<lambda>x. x\<lparr>t_user_sp := t_user_sp (tasks (sch k) parent)\<rparr>) k))"

definition kernel_thread :: "kernel \<Rightarrow> u64 \<times> kernel" where
  "kernel_thread k =
     (case k_kmalloc sizeof_task k of
        (None, k1) \<Rightarrow> (0, k1)
      | (Some t, k1) \<Rightarrow>
          (case k_alloc_pages 1 k1 of
             (None, k2) \<Rightarrow> (0, k_kfree t k2)
           | (Some stk, k2) \<Rightarrow>
               let k3 = task_zero t k2; pid = next_pid k3;
                   k4 = k_task t (\<lambda>x. x\<lparr>t_pid := pid, t_tgid := pid, t_pgid := pid, t_sid := pid, t_state := TASK_SLEEPING, t_stack := stk\<rparr>)
                          (k3\<lparr>next_pid := pid + 1\<rparr>) in
               (t, k4\<lparr>sch := task_attach t (sch k4)\<rparr>)))"

definition ksys_fork :: "nat \<Rightarrow> pt_regs \<Rightarrow> kernel \<Rightarrow> int \<times> pt_regs \<times> kernel" where
  "ksys_fork c regs k =
     (let parent = k_current c k in
      if parent = 0 \<or> \<not> t_is_user (tasks (sch k) parent) then (- EINVAL, regs, k)
      else case k_kmalloc sizeof_task k of
        (None, k1) \<Rightarrow> (- ENOMEM, regs, k1)
      | (Some child, k1) \<Rightarrow>
          (case k_alloc_pages 1 k1 of
             (None, k2) \<Rightarrow> (- ENOMEM, regs, k_kfree child k2)
           | (Some stk, k2) \<Rightarrow>
               let k3 = k_task parent (\<lambda>x. x\<lparr>t_user_sp := sp_el0 (cpus (sch k2) c)\<rparr>) (task_zero child k2);
                   pid = next_pid k3; p = tasks (sch k3) parent;
                   k4 = k_task child (\<lambda>x. x\<lparr>t_pid := pid, t_tgid := pid, t_pgid := t_pgid p, t_sid := t_sid p, t_state := TASK_RUNNING,
                          t_time_slice := SCHED_TIME_SLICE, t_is_user := True, t_stack := stk, t_parent := parent, t_exit_signal := SIGCHLD\<rparr>)
                          (k3\<lparr>next_pid := pid + 1\<rparr>);
                   (m, k5) = k_dup_mm (t_mm p) k4 in
               if m = 0 then (- ENOMEM, regs, k_kfree child (k_free_pages stk 1 k5))
               else
                 let (err, k6) = dup_user_stack child parent (k_task child (\<lambda>x. x\<lparr>t_mm := m\<rparr>) k5) in
                 if err \<noteq> 0 then (err, regs, k_kfree child (k_free_pages stk 1 (k_mm_put m k6)))
                 else
                   let k7 = copy_task_files child parent
                              (k_task child (\<lambda>x. x\<lparr>t_regs := regs\<lparr>xregs := (xregs regs)(0 := 0)\<rparr>\<rparr>) k6);
                       tls = tpidr_el0 (cpus (sch k7) c);
                       k8 = k_task parent (\<lambda>x. x\<lparr>t_tpidr_el0 := tls\<rparr>)
                              (k_task child (\<lambda>x. x\<lparr>t_cwd := t_cwd p, t_blocked := t_blocked p\<rparr>) k7);
                       k9 = k_task child (\<lambda>x. x\<lparr>t_tpidr_el0 := tls, t_actions := t_actions p\<rparr>) k8;
                       k10 = k9\<lparr>sch := enqueue_task c child (task_attach child (sch k9))\<rparr> in
                   (pid, regs\<lparr>xregs := (xregs regs)(0 := of_int pid)\<rparr>, k10)))"

subsection \<open>Process groups and sessions\<close>

definition ksys_getpid :: "nat \<Rightarrow> sched \<Rightarrow> int" where
  "ksys_getpid c s = (let t = get_current c s in if t = 0 then - EINVAL else t_tgid (tasks s t))"

definition ksys_getpgrp :: "nat \<Rightarrow> sched \<Rightarrow> int" where
  "ksys_getpgrp c s = (let t = get_current c s in if t = 0 then - ESRCH else t_pgid (tasks s t))"

definition pgid_exists :: "int \<Rightarrow> sched \<Rightarrow> bool" where
  "pgid_exists pgid s \<longleftrightarrow> pgid > 0 \<and>
     list_ex (\<lambda>t. let x = tasks s t in
       t_is_user x \<and> t_state x \<noteq> TASK_ZOMBIE \<and> t_state x \<noteq> TASK_DEAD \<and> t_pgid x = pgid) (all_tasks s)"

definition ksys_setpgid :: "nat \<Rightarrow> int \<Rightarrow> int \<Rightarrow> sched \<Rightarrow> int \<times> sched" where
  "ksys_setpgid c pid0 pgid0 s =
     (let cur = get_current c s in
      if cur = 0 \<or> \<not> t_is_user (tasks s cur) then (- EINVAL, s)
      else
        let pid = (if pid0 = 0 then t_pid (tasks s cur) else pid0) in
        case find_task_by_pid pid s of
          None \<Rightarrow> (- ESRCH, s)
        | Some t \<Rightarrow>
            let pgid = (if pgid0 = 0 then pid else pgid0) in
            if pgid < 0 then (- EINVAL, s)
            else if t \<noteq> cur \<and> t_parent (tasks s t) \<noteq> cur then (- ESRCH, s)
            else if pgid \<noteq> pid \<and> \<not> pgid_exists pgid s then (- EPERM, s)
            else if t_sid (tasks s t) = t_pid (tasks s t) then (- EPERM, s)
            else if t_sid (tasks s t) \<noteq> t_sid (tasks s cur) then (- EPERM, s)
            else (0, upd_task t (\<lambda>x. x\<lparr>t_pgid := pgid\<rparr>) s))"

definition ksys_getsid :: "nat \<Rightarrow> int \<Rightarrow> sched \<Rightarrow> int" where
  "ksys_getsid c pid s =
     (let cur = get_current c s in
      if cur = 0 \<or> \<not> t_is_user (tasks s cur) then - ESRCH
      else if pid = 0 then t_sid (tasks s cur)
      else case find_task_by_pid pid s of None \<Rightarrow> - ESRCH | Some t \<Rightarrow> t_sid (tasks s t))"

definition ksys_setsid :: "nat \<Rightarrow> sched \<Rightarrow> int \<times> sched" where
  "ksys_setsid c s =
     (let t = get_current c s; pid = t_pid (tasks s t) in
      if t = 0 \<or> \<not> t_is_user (tasks s t) then (- EINVAL, s)
      else if pgid_exists pid s then (- EPERM, s)
      else (pid, upd_task t (\<lambda>x. x\<lparr>t_sid := pid, t_pgid := pid\<rparr>) s))"

subsection \<open>Exit\<close>

fun exit_files_loop :: "nat \<Rightarrow> u64 \<Rightarrow> nat list \<Rightarrow> kernel \<Rightarrow> kernel option" where
  "exit_files_loop c t [] k = Some k"
| "exit_files_loop c t (i # is) k =
     (if k_files t k i \<noteq> 0
      then do { k1 \<leftarrow> fput c (k_files t k i) k; exit_files_loop c t is (set_fd t i 0 k1) }
      else exit_files_loop c t is k)"

definition exit_files :: "nat \<Rightarrow> u64 \<Rightarrow> kernel \<Rightarrow> kernel option" where
  "exit_files c t k = exit_files_loop c t [0..<NR_OPEN] k"

text \<open>\<open>do_exit\<close> up to its \<open>schedule\<close>, which does not return.\<close>

definition do_exit :: "nat \<Rightarrow> int \<Rightarrow> kernel \<Rightarrow> kernel option" where
  "do_exit c code k =
     (let t = k_current c k in
      do {
        k1 \<leftarrow> exit_files c t (k_task t (\<lambda>x. x\<lparr>t_exit_code := code, t_wait_event := CHILD_EVENT_NONE\<rparr>) k);
        let k2 = k_task t (\<lambda>x. x\<lparr>t_state := TASK_ZOMBIE\<rparr>) k1;
        Some (k2\<lparr>sch := notify_parent c t (dequeue_task t (sch k2))\<rparr>) })"

definition ksys_exit :: "nat \<Rightarrow> int \<Rightarrow> kernel \<Rightarrow> kernel option" where
  "ksys_exit c status k =
     (let t = k_current c k in
      if t = 0 \<or> \<not> t_is_user (tasks (sch k) t) then Some k
      else do_exit c ((status mod 256) * 256) k)"

subsection \<open>Wait\<close>

definition find_child :: "u64 \<Rightarrow> int \<Rightarrow> task_state option \<Rightarrow> sched \<Rightarrow> u64 option" where
  "find_child parent pid state s =
     (if parent = 0 then None
      else List.find (\<lambda>t. let x = tasks s t in
        t_parent x = parent \<and> (pid = - 1 \<or> t_pid x = pid_t pid) \<and> (state = None \<or> state = Some (t_state x))) (all_tasks s))"

definition free_task :: "u64 \<Rightarrow> kernel \<Rightarrow> kernel" where
  "free_task t k =
     (if t = 0 then k
      else
        let k1 = k\<lparr>sch := task_detach t (dequeue_task t (sch k))\<rparr>;
            m = t_mm (tasks (sch k1) t);
            k2 = (if m \<noteq> 0 then k_task t (\<lambda>x. x\<lparr>t_mm := 0\<rparr>) (k_mm_put m k1) else k1);
            stk = t_stack (tasks (sch k2) t);
            k3 = (if stk \<noteq> 0 then k_free_pages stk 1 k2 else k2) in
        k_kfree t k3)"

text \<open>The results of the two functions are the pid and the status word; \<open>None\<close> is their \<open>-1\<close>.\<close>

definition wait_event_child :: "u64 \<Rightarrow> int \<Rightarrow> child_event \<Rightarrow> sched \<Rightarrow> (int \<times> int) option \<times> sched" where
  "wait_event_child parent pid event s =
     (case List.find (\<lambda>t. let x = tasks s t in
        t_parent x = parent \<and> (pid = - 1 \<or> t_pid x = pid_t pid) \<and> t_wait_event x = event) (all_tasks s) of
        None \<Rightarrow> (None, s)
      | Some t \<Rightarrow>
          let x = tasks s t;
              code = (if event = CHILD_EVENT_STOPPED then (t_stop_signal x * 256) OR 0x7f else 0xffff);
              s1 = upd_task t (\<lambda>x. x\<lparr>t_wait_event := CHILD_EVENT_NONE\<rparr>) s in
          (if t_pid x < 0 then None else Some (t_pid x, code), s1))"

definition wait_reap_zombie :: "u64 \<Rightarrow> int \<Rightarrow> kernel \<Rightarrow> (int \<times> int) option \<times> kernel" where
  "wait_reap_zombie parent pid k =
     (case find_child parent pid (Some TASK_ZOMBIE) (sch k) of
        None \<Rightarrow> (None, k)
      | Some t \<Rightarrow>
          let x = tasks (sch k) t;
              k1 = k_task parent (\<lambda>p. p\<lparr>t_pending := t_pending p AND NOT (SIG_BIT SIGCHLD)\<rparr>) k in
          (if t_pid x < 0 then None else Some (t_pid x, t_exit_code x), free_task t k1))"

text \<open>One round of \<open>wait4\<close>: it is done, it tries again because it dropped a \<open>SIGCHLD\<close>, or it has gone to sleep.\<close>

datatype wait_out = Wait_Done int "int option" | Wait_Again | Wait_Sleeps

definition wait_try_event :: "u64 \<Rightarrow> int \<Rightarrow> bool \<Rightarrow> child_event \<Rightarrow> kernel \<Rightarrow> (int \<times> int) option \<times> kernel" where
  "wait_try_event parent pid want ev k =
     (if want then let (r, s) = wait_event_child parent pid ev (sch k) in (r, k\<lparr>sch := s\<rparr>) else (None, k))"

definition wait4_round :: "nat \<Rightarrow> int \<Rightarrow> u64 \<Rightarrow> kernel \<Rightarrow> wait_out \<times> kernel" where
  "wait4_round c pid options k =
     (let parent = k_current c k in
      case wait_reap_zombie parent pid k of
        (Some (r, code), k1) \<Rightarrow> (Wait_Done r (Some code), k1)
      | (None, k1) \<Rightarrow>
          (case wait_try_event parent pid (options AND WUNTRACED \<noteq> 0) CHILD_EVENT_STOPPED k1 of
             (Some (r, code), k2) \<Rightarrow> (Wait_Done r (Some code), k2)
           | (None, k2) \<Rightarrow>
               (case wait_try_event parent pid (options AND WCONTINUED \<noteq> 0) CHILD_EVENT_CONTINUED k2 of
                  (Some (r, code), k3) \<Rightarrow> (Wait_Done r (Some code), k3)
                | (None, k3) \<Rightarrow>
                    let p = tasks (sch k3) parent; h = sa_handler (t_actions p (nat SIGCHLD)) in
                    if find_child parent pid None (sch k3) = None then (Wait_Done (- ECHILD) None, k3)
                    else if options AND WNOHANG \<noteq> 0 then (Wait_Done 0 None, k3)
                    else if signal_pending p then
                      if t_pending p AND SIG_BIT SIGCHLD \<noteq> 0 \<and> (h = SIG_DFL \<or> h = SIG_IGN)
                      then (Wait_Again, k_task parent (\<lambda>p. p\<lparr>t_pending := t_pending p AND NOT (SIG_BIT SIGCHLD)\<rparr>) k3)
                      else (Wait_Done (- ERESTARTSYS) None, k3)
                    else (Wait_Sleeps, k3\<lparr>sch := sched_block c TASK_SLEEPING (sch k3)\<rparr>))))"

text \<open>From the start, or from the return of \<open>schedule\<close>, to the result or to the next \<open>schedule\<close>; the second of two
  rounds without sleep never asks for a third.\<close>

definition wait4_rounds :: "nat \<Rightarrow> int \<Rightarrow> u64 \<Rightarrow> kernel \<Rightarrow> wait_out \<times> kernel" where
  "wait4_rounds c pid options k =
     (case wait4_round c pid options k of (Wait_Again, k1) \<Rightarrow> wait4_round c pid options k1 | r \<Rightarrow> r)"

definition ksys_wait4 :: "nat \<Rightarrow> int \<Rightarrow> u64 \<Rightarrow> kernel \<Rightarrow> wait_out \<times> kernel" where
  "ksys_wait4 c pid options k =
     (let parent = k_current c k in
      if parent = 0 \<or> \<not> t_is_user (tasks (sch k) parent) then (Wait_Done (- EINVAL) None, k)
      else if pid < - 1 \<or> pid = 0 then (Wait_Done (- EINVAL) None, k)
      else wait4_rounds c pid options k)"

definition wait4_resume :: "nat \<Rightarrow> int \<Rightarrow> u64 \<Rightarrow> kernel \<Rightarrow> wait_out \<times> kernel" where
  "wait4_resume c pid options k =
     (let parent = k_current c k;
          k1 = (if \<not> on_rq parent (sch k) then k\<lparr>sch := enqueue_task c parent (sch k)\<rparr> else k) in
      wait4_rounds c pid options k1)"

end
