(* ===== verification/Exec.thy ===== *)
theory Exec
  imports Process
begin

text \<open>
  Running a program: \<^verbatim>\<open>fs/exec.c\<close> and the ELF loader \<^verbatim>\<open>fs/binfmt.c\<close>.  The file is read where ramfs keeps it, in
  the memory \<open>ram\<close>; what the loader puts into the pages of the new image are bytes of the same memory, at
  the kernel's address of the page.  The arguments are lists of strings; a null list is \<open>None\<close>.  Cache
  maintenance is not part of the state.
\<close>

abbreviation (input) MAX_EXEC_ARGS :: nat where "MAX_EXEC_ARGS \<equiv> 32"
abbreviation (input) MAX_EXEC_ARG_LEN :: nat where "MAX_EXEC_ARG_LEN \<equiv> 256"
abbreviation (input) sizeof_binprm :: u64 where "sizeof_binprm \<equiv> 16440"
abbreviation (input) sizeof_ehdr :: u64 where "sizeof_ehdr \<equiv> 64"
abbreviation (input) sizeof_phdr :: u64 where "sizeof_phdr \<equiv> 56"
abbreviation (input) PT_LOAD :: u64 where "PT_LOAD \<equiv> 1"
abbreviation (input) USER_STACK_TOP :: u64 where "USER_STACK_TOP \<equiv> 0x4040000"
abbreviation (input) VM_STACK :: u64 where "VM_STACK \<equiv> 8"

subsection \<open>The file format\<close>

text \<open>A little-endian field of \<open>n\<close> bytes.\<close>

fun ld :: "nat \<Rightarrow> bytes \<Rightarrow> u64 \<Rightarrow> u64" where
  "ld 0 m a = 0"
| "ld (Suc n) m a = ucast (m a) OR push_bit 8 (ld n m (a + 1))"

record elf64_ehdr =
  e_ident :: "u8 list"
  e_type :: u64
  e_machine :: u64
  e_entry :: u64
  e_phoff :: u64
  e_phnum :: u64

record elf64_phdr =
  ph_type :: u64
  ph_flags :: u64
  ph_offset :: u64
  ph_vaddr :: u64
  ph_filesz :: u64
  ph_memsz :: u64

definition read_ehdr :: "bytes \<Rightarrow> u64 \<Rightarrow> elf64_ehdr" where
  "read_ehdr m a = \<lparr>e_ident = bytes_at m a 16, e_type = ld 2 m (a + 16), e_machine = ld 2 m (a + 18),
     e_entry = ld 8 m (a + 24), e_phoff = ld 8 m (a + 32), e_phnum = ld 2 m (a + 56)\<rparr>"

definition read_phdr :: "bytes \<Rightarrow> u64 \<Rightarrow> elf64_phdr" where
  "read_phdr m a = \<lparr>ph_type = ld 4 m a, ph_flags = ld 4 m (a + 4), ph_offset = ld 8 m (a + 8), ph_vaddr = ld 8 m (a + 16),
     ph_filesz = ld 8 m (a + 32), ph_memsz = ld 8 m (a + 40)\<rparr>"

definition phdr_at :: "bytes \<Rightarrow> u64 \<Rightarrow> elf64_ehdr \<Rightarrow> nat \<Rightarrow> elf64_phdr" where
  "phdr_at m buf eh i = read_phdr m (buf + e_phoff eh + of_nat i * sizeof_phdr)"

text \<open>The tests of \<open>load_elf_binary\<close> before it allocates anything.\<close>

definition elf_header_ok :: "elf64_ehdr \<Rightarrow> u64 \<Rightarrow> bool" where
  "elf_header_ok eh len \<longleftrightarrow>
     take 4 (e_ident eh) = [0x7f, 0x45, 0x4c, 0x46] \<and> e_ident eh ! 4 = 2 \<and> e_ident eh ! 5 = 1 \<and>
     e_type eh = 2 \<and> e_machine eh = 183 \<and> \<not> e_phoff eh + e_phnum eh * sizeof_phdr > len"

definition elf_prot :: "u64 \<Rightarrow> u64" where
  "elf_prot fl = (if fl AND 4 \<noteq> 0 then MAP_PROT_READ else 0) OR (if fl AND 2 \<noteq> 0 then MAP_PROT_WRITE else 0) OR
     (if fl AND 1 \<noteq> 0 then MAP_PROT_EXEC else 0)"

subsection \<open>Segments\<close>

text \<open>The loader's state: the new address space, the memory manager and the bytes.\<close>

type_synonym loader = "mm_struct \<times> vmstate \<times> bytes"

definition l_alloc_page :: "loader \<Rightarrow> u64 option \<times> loader" where
  "l_alloc_page = (\<lambda>(mm, st, m).
     case alloc_pages 0 (buddy_of st) of
       (None, b) \<Rightarrow> (None, (mm, set_buddy b st, m))
     | (Some a, b) \<Rightarrow> (Some a, (mm, set_buddy b st, memset a 0 4096 m)))"

definition l_map :: "u64 \<Rightarrow> u64 \<Rightarrow> u64 \<Rightarrow> loader \<Rightarrow> int \<times> loader" where
  "l_map va page prot = (\<lambda>(mm, st, m). let (err, st1) = do_map (pgd mm) va (virt_to_phys page) PAGE_SIZE prot st in (err, (mm, st1, m)))"

definition l_free_page :: "u64 \<Rightarrow> loader \<Rightarrow> loader" where
  "l_free_page a = (\<lambda>(mm, st, m). (mm, set_buddy (free_pages a 0 (buddy_of st)) st, m))"

definition l_vma_record :: "u64 \<Rightarrow> u64 \<Rightarrow> u64 \<Rightarrow> loader \<Rightarrow> int \<times> loader" where
  "l_vma_record start e flags = (\<lambda>(mm, st, m).
     let (err, vs, h) = vma_record (mmap mm) start e flags (km st) in (err, (mm\<lparr>mmap := vs\<rparr>, set_km h st, m)))"

fun load_pages :: "u64 \<Rightarrow> elf64_phdr \<Rightarrow> u64 \<Rightarrow> u64 list \<Rightarrow> u64 \<Rightarrow> loader \<Rightarrow> int \<times> loader" where
  "load_pages buf ph map_start [] file_pos x = (0, x)"
| "load_pages buf ph map_start (va # vas) file_pos x =
     (case l_alloc_page x of
        (None, x1) \<Rightarrow> (- ENOMEM, x1)
      | (Some page, x1) \<Rightarrow>
          let (err, x2) = l_map va page (elf_prot (ph_flags ph)) x1 in
          if err \<noteq> 0 then (err, l_free_page page x2)
          else
            let page_skip = (if va = map_start then ph_vaddr ph - map_start else 0) in
            if file_pos < ph_filesz ph then
              let file_left = ph_filesz ph - file_pos; room = PAGE_SIZE - page_skip;
                  copy_len = (if file_left < room then file_left else room);
                  (mm, st, m) = x2 in
              load_pages buf ph map_start vas (file_pos + copy_len)
                (mm, st, memcpy (page + page_skip) (buf + ph_offset ph + file_pos) (unat copy_len) m)
            else load_pages buf ph map_start vas file_pos x2)"

definition load_segment :: "u64 \<Rightarrow> u64 \<Rightarrow> elf64_phdr \<Rightarrow> loader \<Rightarrow> int \<times> loader" where
  "load_segment buf len ph x =
     (let map_start = page_align_down (ph_vaddr ph); map_end = page_align_up (ph_vaddr ph + ph_memsz ph) in
      if ph_filesz ph \<noteq> 0 \<and> ph_offset ph + ph_filesz ph > len then (- ENOEXEC, x)
      else
        let (err, x1) = load_pages buf ph map_start (page_range map_start map_end) 0 x in
        if err \<noteq> 0 then (err, x1) else l_vma_record map_start map_end (elf_prot (ph_flags ph)) x1)"

fun load_segments :: "u64 \<Rightarrow> u64 \<Rightarrow> elf64_phdr list \<Rightarrow> loader \<Rightarrow> int \<times> loader" where
  "load_segments buf len [] x = (0, x)"
| "load_segments buf len (ph # phs) x =
     (if ph_type ph \<noteq> PT_LOAD then load_segments buf len phs x
      else
        let (err, x1) = load_segment buf len ph x in
        if err \<noteq> 0 then (err, x1)
        else
          let (mm, st, m) = x1; seg_end = ph_vaddr ph + ph_memsz ph in
          load_segments buf len phs (if seg_end > start_brk mm then mm\<lparr>start_brk := seg_end\<rparr> else mm, st, m))"

subsection \<open>The stack\<close>

fun stack_pages :: "u64 list \<Rightarrow> u64 \<Rightarrow> loader \<Rightarrow> int \<times> u64 \<times> loader" where
  "stack_pages [] tp x = (0, tp, x)"
| "stack_pages (map_base # bs) tp x =
     (case l_alloc_page x of
        (None, x1) \<Rightarrow> (- ENOMEM, tp, x1)
      | (Some page, x1) \<Rightarrow>
          let (err, x2) = l_map map_base page (MAP_PROT_READ OR MAP_PROT_WRITE) x1 in
          if err \<noteq> 0 then (err, tp, x2)
          else stack_pages bs (if map_base = USER_STACK_TOP - PAGE_SIZE then page else tp) x2)"

definition setup_stack :: "loader \<Rightarrow> int \<times> u64 \<times> loader" where
  "setup_stack x =
     (let (err, tp, x1) = stack_pages (map (\<lambda>i. USER_STACK_TOP - (of_nat i + 1) * PAGE_SIZE) [0..<16]) 0 x in
      if err \<noteq> 0 then (err, tp, x1)
      else
        let (e, x2) = l_vma_record (USER_STACK_TOP - USER_STACK_SIZE) USER_STACK_TOP (MAP_PROT_READ OR MAP_PROT_WRITE OR VM_STACK) x1 in
        (e, tp, x2))"

text \<open>A string below the stack pointer; the results are the new stack pointer and the memory.\<close>

definition stack_put_string :: "u64 \<Rightarrow> u64 \<Rightarrow> u64 \<Rightarrow> string \<Rightarrow> bytes \<Rightarrow> int + u64 \<times> bytes" where
  "stack_put_string kpage map_base sp str m =
     (let len = of_nat (length str) + 1; sp1 = sp - len in
      if sp < map_base + len then Inl (- E2BIG)
      else Inr (sp1, put_bytes (kpage + (sp1 - map_base)) (string_bytes str @ [0]) m))"

text \<open>The strings of a list from the last to the first; their addresses are in the order of the list.\<close>

fun put_strings :: "u64 \<Rightarrow> u64 \<Rightarrow> string list \<Rightarrow> u64 \<Rightarrow> bytes \<Rightarrow> int + u64 \<times> u64 list \<times> bytes" where
  "put_strings kpage map_base [] sp m = Inr (sp, [], m)"
| "put_strings kpage map_base (str # strs) sp m =
     (case put_strings kpage map_base strs sp m of
        Inl e \<Rightarrow> Inl e
      | Inr (sp1, as, m1) \<Rightarrow>
          (case stack_put_string kpage map_base sp1 str m1 of
             Inl e \<Rightarrow> Inl e
           | Inr (sp2, m2) \<Rightarrow> Inr (sp2, sp2 # as, m2)))"

definition put_words :: "u64 \<Rightarrow> u64 list \<Rightarrow> bytes \<Rightarrow> bytes" where
  "put_words a ws m = put_bytes a (concat (map (le_bytes 8) ws)) m"

fun find_phdr_addr :: "u64 \<Rightarrow> elf64_phdr list \<Rightarrow> u64" where
  "find_phdr_addr phoff [] = 0"
| "find_phdr_addr phoff (ph # phs) =
     (if ph_type ph = PT_LOAD \<and> ph_offset ph \<le> phoff \<and> phoff < ph_offset ph + ph_filesz ph
      then ph_vaddr ph + (phoff - ph_offset ph) else find_phdr_addr phoff phs)"

definition auxv :: "elf64_ehdr \<Rightarrow> u64 \<Rightarrow> u64 \<Rightarrow> u64 \<Rightarrow> u64 list" where
  "auxv eh phdr_addr random_u execfn_u =
     [3, phdr_addr, 4, sizeof_phdr, 5, e_phnum eh, 6, PAGE_SIZE, 7, 0, 8, 0, 9, e_entry eh, 11, 0, 12, 0, 13, 0, 14, 0, 16, 0,
      17, 100, 23, 0, 25, random_u, 31, execfn_u, 0, 0]"

definition random_bytes :: "u64 \<Rightarrow> u8 list" where
  "random_bytes sp = map (\<lambda>i. 0xa5 XOR of_nat i XOR ucast sp) [0..<16]"

definition create_elf_tables ::
    "u64 \<Rightarrow> u64 \<Rightarrow> u64 \<Rightarrow> string \<Rightarrow> string list \<Rightarrow> string list \<Rightarrow> elf64_ehdr \<Rightarrow> elf64_phdr list \<Rightarrow> bytes \<Rightarrow> int + u64 \<times> bytes" where
  "create_elf_tables kpage map_base tp filename argv envp eh phs m =
     (case stack_put_string kpage map_base tp filename m of
        Inl e \<Rightarrow> Inl e
      | Inr (execfn_u, m1) \<Rightarrow>
          (case put_strings kpage map_base envp execfn_u m1 of
             Inl e \<Rightarrow> Inl e
           | Inr (sp2, envp_u, m2) \<Rightarrow>
               (case put_strings kpage map_base argv sp2 m2 of
                  Inl e \<Rightarrow> Inl e
                | Inr (sp3, argv_u, m3) \<Rightarrow>
                    if sp3 < map_base + 16 then Inl (- E2BIG)
                    else
                      let random_u = sp3 - 16;
                          m4 = put_bytes (kpage + (random_u - map_base)) (random_bytes random_u) m3;
                          table_bytes = (1 + of_nat (length argv) + 1 + of_nat (length envp) + 1 + 34) * 8 in
                      if random_u < map_base + table_bytes + 16 then Inl (- E2BIG)
                      else
                        let sp = (random_u - table_bytes) AND NOT 15 in
                        Inr (sp, put_words (kpage + (sp - map_base))
                          (of_nat (length argv) # argv_u @ [0] @ envp_u @ [0] @ auxv eh (find_phdr_addr (e_phoff eh) phs) random_u execfn_u) m4))))"

subsection \<open>The loader\<close>

text \<open>An image has been installed, or nothing has happened to the task.\<close>

datatype exec_out = Exec_Fails int | Exec_Runs

definition reset_action :: "sigaction \<Rightarrow> sigaction" where
  "reset_action a = \<lparr>sa_handler = (if sa_handler a \<noteq> SIG_IGN then SIG_DFL else sa_handler a), sa_flags = 0, sa_restorer = 0, sa_mask = 0\<rparr>"

text \<open>\<open>comm\<close> is what follows the last slash of \<open>argv[0]\<close>; the arguments fill \<open>cmdline\<close> as far as they fit.\<close>

definition comm_of :: "string \<Rightarrow> string" where
  "comm_of arg0 = take 15 (rev (takeWhile (\<lambda>ch. ch \<noteq> slash) (rev arg0)))"

fun cmdline_fill :: "string list \<Rightarrow> string \<Rightarrow> string" where
  "cmdline_fill [] acc = acc"
| "cmdline_fill (a # as) acc =
     (let acc1 = acc @ take (127 - length acc) a in
      if length acc1 + 1 < 128 then cmdline_fill as (acc1 @ [NUL]) else acc1)"

definition cmdline_of :: "string list \<Rightarrow> string" where
  "cmdline_of argv = (let x = cmdline_fill argv [] in x @ replicate (128 - length x) NUL)"

definition put_loader :: "loader \<Rightarrow> kernel \<Rightarrow> kernel" where
  "put_loader = (\<lambda>(mm, st, m) k. let k1 = put_vm st k in k1\<lparr>fsys := (fsys k1)\<lparr>ram := m\<rparr>\<rparr>)"

definition drop_loader :: "loader \<Rightarrow> kernel \<Rightarrow> kernel" where
  "drop_loader = (\<lambda>(mm, st, m) k. put_loader (mm, snd (mm_put mm st), m) k)"

text \<open>From the switch of the address space to \<open>ret_from_fork\<close>.\<close>

definition install_image :: "nat \<Rightarrow> u64 \<Rightarrow> string list \<Rightarrow> u64 \<Rightarrow> mm_struct \<Rightarrow> u64 \<Rightarrow> kernel \<Rightarrow> kernel option" where
  "install_image c t argv bprm mm user_sp k =
     (let a = mm_ptr mm; old_mm = t_mm (tasks (sch k) t);
          k1 = k_task t (\<lambda>x. x\<lparr>t_mm := a\<rparr>) (k\<lparr>mms := (mms k)(a := mm), sch := (sch k)\<lparr>pgds := (pgds (sch k))(a := pgd mm)\<rparr>\<rparr>);
          k2 = (if old_mm \<noteq> 0 then k_mm_put old_mm k1 else k1);
          k3 = k_task t (\<lambda>x. x\<lparr>t_is_user := True, t_user_sp := user_sp, t_tpidr_el0 := 0,
                 t_actions := \<lambda>i. reset_action (t_actions x i)\<rparr>) k2 in
      do {
        k4 \<leftarrow> close_on_exec_fds c t k3;
        let k5 = k4\<lparr>comms := (comms k4)(t := comm_of (hd argv)), cmdlines := (cmdlines k4)(t := cmdline_of argv)\<rparr>;
        let k6 = k_task t (\<lambda>x. x\<lparr>t_regs := \<lparr>xregs = \<lambda>_. 0, elr_el1 = entry mm, spsr_el1 = 0\<rparr>\<rparr>) k5;
        let k7 = k_kfree bprm k6;
        Some (k7\<lparr>sch := mm_install c a (upd_cpu c (\<lambda>r. r\<lparr>sp_el0 := user_sp, tpidr_el0 := 0\<rparr>) (sch k7))\<rparr>) })"

definition load_elf_binary ::
    "nat \<Rightarrow> u64 \<Rightarrow> u64 \<Rightarrow> u64 \<Rightarrow> string \<Rightarrow> string list \<Rightarrow> string list \<Rightarrow> kernel \<Rightarrow> (exec_out \<times> kernel) option" where
  "load_elf_binary c bprm buf len filename argv envp k =
     (let t = k_current c k; m = ram (fsys k); eh = read_ehdr m buf; phs = map (phdr_at m buf eh) [0..<unat (e_phnum eh)] in
      if buf = 0 \<or> len < sizeof_ehdr then Some (Exec_Fails (- ENOEXEC), k)
      else if t = 0 then Some (Exec_Fails (- EINVAL), k)
      else if \<not> elf_header_ok eh len then Some (Exec_Fails (- ENOEXEC), k)
      else case mm_alloc (k_vm k) of
        (None, st) \<Rightarrow> Some (Exec_Fails (- ENOMEM), put_vm st k)
      | (Some mm0, st0) \<Rightarrow>
          let (err, mm1, st1, m1) = load_segments buf len phs (mm0, st0, m) in
          if err \<noteq> 0 then Some (Exec_Fails err, drop_loader (mm1, st1, m1) k)
          else
            let b = page_align_up (start_brk mm1);
                (err2, kpage, mm2, st2, m2) = setup_stack (mm1\<lparr>start_brk := b, brk := b\<rparr>, st1, m1) in
            if err2 \<noteq> 0 then Some (Exec_Fails err2, drop_loader (mm2, st2, m2) k)
            else case create_elf_tables kpage (USER_STACK_TOP - PAGE_SIZE) USER_STACK_TOP filename argv envp eh phs m2 of
              Inl e \<Rightarrow> Some (Exec_Fails e, drop_loader (mm2, st2, m2) k)
            | Inr (user_sp, m3) \<Rightarrow>
                let mm3 = mm2\<lparr>entry := e_entry eh, stack_top := USER_STACK_TOP\<rparr> in
                do {
                  k1 \<leftarrow> install_image c t argv bprm mm3 user_sp (put_loader (mm3, st2, m3) k);
                  Some (Exec_Runs, k1) })"

subsection \<open>The system call\<close>

text \<open>A list of the user is copied by \<open>strncpy_from_user\<close>, one of the kernel by \<open>strscpy\<close>, which also rejects a
  string that just fits.\<close>

definition arg_fits :: "bool \<Rightarrow> string \<Rightarrow> bool" where
  "arg_fits from_user str \<longleftrightarrow> length str < (if from_user then MAX_EXEC_ARG_LEN else MAX_EXEC_ARG_LEN - 1)"

definition copy_str_list :: "bool \<Rightarrow> string list option \<Rightarrow> int + string list" where
  "copy_str_list from_user lst =
     (case lst of
        None \<Rightarrow> Inr []
      | Some strs \<Rightarrow>
          if \<not> list_all (arg_fits from_user) (take MAX_EXEC_ARGS strs) then Inl (- E2BIG)
          else if length strs > MAX_EXEC_ARGS then Inl (- E2BIG)
          else Inr strs)"

definition do_execve :: "nat \<Rightarrow> string \<Rightarrow> string list option \<Rightarrow> string list option \<Rightarrow> bool \<Rightarrow> kernel \<Rightarrow> (exec_out \<times> kernel) option" where
  "do_execve c filename argv0 envp0 from_user k =
     (if filename = [] then Some (Exec_Fails (- EINVAL), k)
      else
        let (i, k1) = vfs_lookup c filename k;
            fail = (\<lambda>e k. do { k' \<leftarrow> k_iput i k; Some (Exec_Fails e, k') }) in
        if i = 0 then Some (Exec_Fails (- ENOENT), k1)
        else if \<not> inode_is_reg i (fsys k1) then fail (- ENOEXEC) k1
        else case k_kmalloc sizeof_binprm k1 of
          (None, k2) \<Rightarrow> fail (- ENOMEM) k2
        | (Some bprm, k2) \<Rightarrow>
            let buf = ramfs_data i (fsys k2); len = i_size (inodes (fsys k2) i) in
            if buf = 0 \<or> len = 0 then fail (- ENOEXEC) (k_kfree bprm k2)
            else case copy_str_list from_user argv0 of
              Inl e \<Rightarrow> fail e (k_kfree bprm k2)
            | Inr argv \<Rightarrow>
                (case copy_str_list from_user envp0 of
                   Inl e \<Rightarrow> fail e (k_kfree bprm k2)
                 | Inr envp \<Rightarrow>
                     if argv = [] \<and> \<not> arg_fits False filename then fail (- E2BIG) (k_kfree bprm k2)
                     else do {
                       (r, k3) \<leftarrow> load_elf_binary c bprm buf len filename (if argv = [] then [filename] else argv) envp k2;
                       (case r of Exec_Runs \<Rightarrow> Some (Exec_Runs, k3) | Exec_Fails e \<Rightarrow> fail e (k_kfree bprm k3)) }))"

definition kernel_execve :: "nat \<Rightarrow> string \<Rightarrow> kernel \<Rightarrow> (exec_out \<times> kernel) option" where
  "kernel_execve c filename =
     do_execve c filename (Some [filename]) (Some [''PATH=/bin:/sbin'', ''HOME=/'', ''TERM=linux'', ''TZ=CST-8'']) False"

definition ksys_execve :: "nat \<Rightarrow> string option \<Rightarrow> string list option \<Rightarrow> string list option \<Rightarrow> kernel \<Rightarrow> (exec_out \<times> kernel) option" where
  "ksys_execve c filename argv envp k =
     (let t = k_current c k in
      if t = 0 \<or> \<not> t_is_user (tasks (sch k) t) then Some (Exec_Fails (- EINVAL), k)
      else case getname_from_user c filename k of
        Inl e \<Rightarrow> Some (Exec_Fails e, k)
      | Inr path \<Rightarrow> do_execve c path argv envp True k)"

end
