(* ===== verification/Timekeeping.thy ===== *)
theory Timekeeping
  imports Sched
begin

text \<open>
  The wall clock: \<^verbatim>\<open>kernel/time/time.c\<close> over the counter of \<^verbatim>\<open>kernel/time/clocksource.c\<close> and the real-time clock of
  \<^verbatim>\<open>drivers/rtc/pl031.c\<close>.  The values that the two devices show are arguments: \<open>cnt\<close> and \<open>frq\<close> of the generic
  timer, \<open>rtc\<close> of the PL031.
\<close>

record clock =
  rtc_base_sec :: u32
  cs_base :: u64
  cs_hz :: u64

definition clocksource_init :: "u64 \<Rightarrow> clock \<Rightarrow> clock" where
  "clocksource_init frq k = k\<lparr>cs_hz := (if frq = 0 then 62500000 else frq)\<rparr>"

definition timekeeping_init :: "u64 \<Rightarrow> u64 \<Rightarrow> u32 \<Rightarrow> clock \<Rightarrow> clock" where
  "timekeeping_init frq cnt rtc k = (clocksource_init frq k)\<lparr>rtc_base_sec := rtc, cs_base := cnt\<rparr>"

definition get_real_time :: "u64 \<Rightarrow> u32 \<Rightarrow> clock \<Rightarrow> u64 \<times> u64" where
  "get_real_time cnt rtc k =
     (if cs_hz k = 0 then (ucast rtc, 0)
      else
        let delta = cnt - cs_base k in
        (ucast (rtc_base_sec k) + delta div cs_hz k, (delta mod cs_hz k) * 1000000000 div cs_hz k))"

text \<open>The second result is what is written to the PL031.\<close>

definition set_real_time :: "u64 \<Rightarrow> u64 \<times> u64 \<Rightarrow> clock \<Rightarrow> int \<times> u32 option \<times> clock" where
  "set_real_time cnt ts k =
     (if \<not> timespec_valid ts then (- EINVAL, None, k)
      else
        let sub = (if cs_hz k \<noteq> 0 then snd ts * cs_hz k div 1000000000 else 0) in
        (0, Some (ucast (fst ts)), k\<lparr>rtc_base_sec := ucast (fst ts), cs_base := cnt - sub\<rparr>))"

definition ksys_clock_gettime :: "int \<Rightarrow> bool \<Rightarrow> u64 \<Rightarrow> u32 \<Rightarrow> clock \<Rightarrow> sched \<Rightarrow> int \<times> (u64 \<times> u64) option" where
  "ksys_clock_gettime clockid have_tp cnt rtc k s =
     (if \<not> have_tp then (- EFAULT, None)
      else if clockid = 0 then (0, Some (get_real_time cnt rtc k))
      else (0, Some (jiffies s div HZ, (jiffies s mod HZ) * 10000000)))"

definition ksys_clock_settime :: "int \<Rightarrow> (u64 \<times> u64) option \<Rightarrow> u64 \<Rightarrow> clock \<Rightarrow> int \<times> u32 option \<times> clock" where
  "ksys_clock_settime clockid tp cnt k =
     (if clockid \<noteq> 0 then (- EINVAL, None, k)
      else case tp of None \<Rightarrow> (- EFAULT, None, k) | Some ts \<Rightarrow> set_real_time cnt ts k)"

subsection \<open>Properties\<close>

lemma nsec_nat:
  assumes "0 < (h::nat)" "r < h" "h < 2 ^ 34"
  shows "r * 1000000000 div h < 1000000000" "r * 1000000000 < 2 ^ 64"
proof -
  have "r * 1000000000 < 1000000000 * h" using assms by simp
  then show "r * 1000000000 div h < 1000000000" using assms(1) by (simp add: less_mult_imp_div_less)
  have "r * 1000000000 < 2 ^ 34 * 1000000000" using assms by simp
  then show "r * 1000000000 < 2 ^ 64" by simp
qed

lemma real_time_nat:
  assumes "0 < cs_hz k" "cs_hz k < 2 ^ 34"
  shows "unat (snd (get_real_time cnt rtc k)) = unat (cnt - cs_base k) mod unat (cs_hz k) * 1000000000 div unat (cs_hz k)"
proof -
  define h where "h = unat (cs_hz k)"
  have h: "0 < h" "h < 2 ^ 34" using assms by (simp_all add: h_def word_less_nat_alt unat_gt_0)
  let ?d = "(cnt - cs_base k) mod cs_hz k"
  have d: "unat ?d = unat (cnt - cs_base k) mod h" by (simp add: unat_mod h_def)
  then have "unat ?d < h" using h(1) by simp
  then have "unat ?d * 1000000000 < 2 ^ 64" using nsec_nat(2) [OF h(1) _ h(2)] by blast
  then have "unat (?d * 1000000000) = unat ?d * 1000000000" by (simp add: unat_mult_lem [THEN iffD1])
  moreover have "cs_hz k \<noteq> 0" using assms(1) by auto
  ultimately show ?thesis using d by (simp add: get_real_time_def Let_def unat_div h_def)
qed

lemma split_scaled: "0 < (h::nat) \<Longrightarrow> d div h * c + d mod h * c div h = d * c div h"
proof -
  assume h: "0 < h"
  have "(x * h + y) * c = y * c + h * (x * c)" for x y by (simp add: algebra_simps)
  from this [of "d div h" "d mod h"] show ?thesis using h by simp
qed

text \<open>C39: the clock is exact.  As long as the counter has not run for \<open>2\<^sup>6\<^sup>3\<close> seconds, the time read is the base
  second plus the counter's advance since then, converted to nanoseconds and rounded down once: no error
  adds up, the nanoseconds stay below a second, and time never goes back while the counter advances.\<close>

theorem get_real_time_exact:
  assumes hz: "0 < cs_hz k" "cs_hz k < 2 ^ 34" and d: "unat (cnt - cs_base k) div unat (cs_hz k) < 2 ^ 63"
    and g: "get_real_time cnt rtc k = (sec, nsec)"
  shows "unat sec * 1000000000 + unat nsec =
      unat (rtc_base_sec k) * 1000000000 + unat (cnt - cs_base k) * 1000000000 div unat (cs_hz k) \<and> unat nsec < 1000000000"
proof -
  define h D where "h = unat (cs_hz k)" and "D = unat (cnt - cs_base k)"
  have h: "0 < h" "h < 2 ^ 34" using hz by (simp_all add: h_def word_less_nat_alt unat_gt_0)
  have n: "unat nsec = D mod h * 1000000000 div h" using real_time_nat [OF hz, of cnt rtc] g by (simp add: h_def D_def)
  have "cs_hz k \<noteq> 0" using hz by auto
  then have s: "sec = ucast (rtc_base_sec k) + (cnt - cs_base k) div cs_hz k" using g by (simp add: get_real_time_def Let_def)
  have b: "unat (rtc_base_sec k) < 2 ^ 32" by (rule order.strict_trans2 [OF unsigned_less]) simp
  then have "unat (ucast (rtc_base_sec k) :: u64) = unat (rtc_base_sec k)"
    by (simp add: unsigned_ucast_eq take_bit_nat_eq_self)
  moreover note b
  moreover have "unat ((cnt - cs_base k) div cs_hz k) = D div h" by (simp add: unat_div D_def h_def)
  ultimately have "unat sec = unat (rtc_base_sec k) + D div h"
    using d unfolding s by (subst unat_add_lem [THEN iffD1]) (simp_all add: D_def h_def)
  then show ?thesis using n split_scaled [OF h(1), of D 1000000000] nsec_nat(1) [OF h(1) _ h(2), of "D mod h"] h(1)
    by (simp add: algebra_simps D_def [symmetric] h_def [symmetric])
qed

definition clock0 :: clock where
  "clock0 = \<lparr>rtc_base_sec = 1000, cs_base = 500, cs_hz = 62500000\<rparr>"

theorem get_real_time_exact_witness:
  "get_real_time 156250500 0 clock0 = (1002, 500000000) \<and> 1002 * 1000000000 + 500000000 = (1000 * 1000000000 + 156250000 * 1000000000 div 62500000 :: nat)"
proof -
  obtain sec nsec where g: "get_real_time 156250500 0 clock0 = (sec, nsec)" by (cases "get_real_time 156250500 0 clock0")
  have v: "get_real_time 156250500 0 clock0 = (1002, 500000000)" by code_simp
  have "0 < cs_hz clock0" "cs_hz clock0 < 2 ^ 34" "unat (156250500 - cs_base clock0) div unat (cs_hz clock0) < 2 ^ 63"
    by (simp_all add: clock0_def)
  from get_real_time_exact [OF this v] show ?thesis using v by (simp add: clock0_def)
qed

lemma sint_bounds: "0 \<le> sint x \<Longrightarrow> sint x < 1000000000 \<Longrightarrow> unat (x :: u64) < 1000000000"
proof -
  assume a: "0 \<le> sint x" "sint x < 1000000000"
  have u: "uint x < 2 ^ 64" using uint_bounded [of x] by simp
  then have "sint x = uint x - 2 ^ 64 * of_bool (bit (uint x) 63)"
    using signed_take_bit_eq_take_bit_minus [of 63 "uint x"] by (simp add: sint_uint take_bit_int_eq_self_iff)
  then have "sint x = uint x" using a(1) u by (cases "bit (uint x) 63") auto
  then have "int (unat x) < 1000000000" using a(2) by (simp only: uint_nat)
  then show ?thesis by linarith
qed

lemma carry: "0 < (h::nat) \<Longrightarrow> (a mod h + b mod h) div h \<le> 1"
proof -
  assume h: "0 < h"
  then have "a mod h < h" "b mod h < h" by simp_all
  then have "a mod h + b mod h < 2 * h" by linarith
  then have "(a mod h + b mod h) div h < 2" by (rule less_mult_imp_div_less)
  then show ?thesis by simp
qed

lemma scaled_back:
  assumes "0 < (h::nat)" "sub * 1000000000 \<le> n * h" "n * h < (sub + 1) * 1000000000"
  shows "sub * 1000000000 div h \<le> n \<and> n \<le> sub * 1000000000 div h + 1000000000 div h + 1"
proof
  show "sub * 1000000000 div h \<le> n" using assms(1,2) by (metis div_le_mono div_mult_self_is_m)
  have "n \<le> (sub + 1) * 1000000000 div h" using assms(1,3) by (metis div_le_mono div_mult_self_is_m less_imp_le)
  also have "\<dots> = (sub * 1000000000 + 1000000000) div h" by (simp add: add.commute)
  also have "\<dots> \<le> sub * 1000000000 div h + 1000000000 div h + 1"
    unfolding div_add1_eq [of "sub * 1000000000" 1000000000 h] using carry [OF assms(1)] by simp
  finally show "n \<le> sub * 1000000000 div h + 1000000000 div h + 1" .
qed

text \<open>Setting the clock.  After a valid time below \<open>2\<^sup>3\<^sup>2\<close> seconds has been set, reading the clock at the same
  counter value gives back the seconds, and nanoseconds that are at most those set and differ from them by
  no more than the resolution of the counter, rounded up.\<close>

theorem clock_set_get:
  assumes hz: "0 < cs_hz k" "cs_hz k < 2 ^ 33" and t: "timespec_valid ts" "fst ts < 2 ^ 32"
    and s: "set_real_time cnt ts k = (r, w, k')" and g: "get_real_time cnt rtc k' = (sec, nsec)"
  shows "r = 0 \<and> sec = fst ts \<and> unat nsec \<le> unat (snd ts) \<and> unat (snd ts) \<le> unat nsec + 1000000000 div unat (cs_hz k) + 1"
proof -
  define h n where "h = unat (cs_hz k)" and "n = unat (snd ts)"
  have h: "0 < h" "h < 2 ^ 33" using hz by (simp_all add: h_def word_less_nat_alt unat_gt_0)
  have n: "n < 1000000000" using t(1) unfolding n_def timespec_valid_def by (intro sint_bounds) simp_all
  define sub where "sub = n * h div 1000000000"
  have "n * h < 1000000000 * h" using n h by simp
  then have sub: "sub < h" "sub * 1000000000 \<le> n * h" "n * h < (sub + 1) * 1000000000"
    using less_mult_imp_div_less [of "n * h" h 1000000000] by (simp_all add: sub_def mult.commute) (presburger?)
  have "n * h < 2 ^ 64" using mult_strict_mono [OF n h(2)] by simp
  then have "unat (snd ts * cs_hz k) = n * h" by (simp add: n_def h_def unat_mult_lem [THEN iffD1])
  then have us: "unat (snd ts * cs_hz k div 1000000000) = sub" by (simp add: unat_div sub_def)
  have k': "r = 0" "cs_hz k' = cs_hz k" "rtc_base_sec k' = ucast (fst ts)" "cs_base k' = cnt - snd ts * cs_hz k div 1000000000"
    using s t(1) hz by (auto simp: set_real_time_def Let_def split: if_splits)
  have dl: "cnt - cs_base k' = snd ts * cs_hz k div 1000000000" by (simp add: k')
  have "cs_hz k' \<noteq> 0" using hz k'(2) by auto
  then have sec: "sec = ucast (ucast (fst ts) :: u32) + (cnt - cs_base k') div cs_hz k'"
    using g k'(3) by (auto simp: get_real_time_def Let_def)
  have "unat ((cnt - cs_base k') div cs_hz k') = 0" using us sub(1) by (simp add: dl unat_div k'(2) h_def)
  then have "(cnt - cs_base k') div cs_hz k' = 0" by (simp add: unat_eq_zero)
  moreover have "ucast (ucast (fst ts) :: u32) = fst ts"
    using t(2) by (intro word_unat_eq_iff [THEN iffD2]) (simp add: unsigned_ucast_eq unsigned_take_bit_eq take_bit_nat_eq_self word_less_nat_alt)
  ultimately have 1: "sec = fst ts" using sec by simp
  have hz': "0 < cs_hz k'" "cs_hz k' < 2 ^ 34" using hz k'(2) by (simp_all add: word_less_nat_alt)
  have 2: "unat nsec = sub * 1000000000 div h"
    using real_time_nat [OF hz', of cnt rtc] g us sub(1) by (simp add: dl k'(2) h_def)
  show ?thesis using 1 2 k'(1) scaled_back [OF h(1) sub(2,3)] by (simp add: n_def h_def)
qed

theorem clock_set_get_witness:
  "\<exists>r w k' sec nsec. set_real_time 777 (1000000, 123456789) clock0 = (r, w, k') \<and> get_real_time 777 0 k' = (sec, nsec) \<and>
     r = 0 \<and> sec = 1000000 \<and> unat nsec \<le> 123456789 \<and> 123456789 \<le> unat nsec + 17"
proof -
  obtain r w k' where s: "set_real_time 777 (1000000, 123456789) clock0 = (r, w, k')" by (cases "set_real_time 777 (1000000, 123456789) clock0")
  obtain sec nsec where g: "get_real_time 777 0 k' = (sec, nsec)" by (cases "get_real_time 777 0 k'")
  have "0 < cs_hz clock0" "cs_hz clock0 < 2 ^ 33" "timespec_valid (1000000, 123456789)" "fst (1000000, 123456789 :: u64) < (2 ^ 32 :: u64)"
    by code_simp+
  from clock_set_get [OF this s g] s g show ?thesis by (simp add: clock0_def)
qed

end
