(* ===== verification/Initramfs.thy ===== *)
theory Initramfs
  imports Ramfs
begin

text \<open>
  Unpacking the initial file system: \<^verbatim>\<open>fs/initramfs.c\<close>.  The archive is read where the linker has put it, in the
  memory \<open>ram\<close>.  Every loop over a name stops, or has failed, before its 512th byte, so a name is what
  stands in front of the first zero among 512 bytes.
\<close>

abbreviation (input) CPIO_HDR_SIZE :: u64 where "CPIO_HDR_SIZE \<equiv> 110"

definition hex_digit :: "u8 \<Rightarrow> u64" where
  "hex_digit ch =
     (if 48 \<le> ch \<and> ch \<le> 57 then ucast ch - 48
      else if 97 \<le> ch \<and> ch \<le> 102 then ucast ch - 97 + 10
      else if 65 \<le> ch \<and> ch \<le> 70 then ucast ch - 65 + 10
      else 0)"

fun cpio_hex_loop :: "u8 list \<Rightarrow> u64 \<Rightarrow> u64" where
  "cpio_hex_loop [] v = v"
| "cpio_hex_loop (ch # s) v = cpio_hex_loop s (push_bit 4 v OR hex_digit ch)"

definition cpio_hex :: "bytes \<Rightarrow> u64 \<Rightarrow> nat \<Rightarrow> u64" where
  "cpio_hex m a len = cpio_hex_loop (bytes_at m a len) 0"

definition cpio_align_up_ptr :: "u64 \<Rightarrow> u64" where
  "cpio_align_up_ptr p = (p + 3) AND NOT 3"

definition cpio_name :: "bytes \<Rightarrow> u64 \<Rightarrow> string" where
  "cpio_name m a = bytes_string (bytes_at m a 512)"

definition path_normalize :: "string \<Rightarrow> nat \<Rightarrow> string option" where
  "path_normalize name out_len =
     (let n = (if take 2 name = ''./'' then drop 2 name else if take 1 name = ''.'' then drop 1 name else name) in
      if out_len < 2 then None
      else if n \<noteq> [] \<and> length n + 1 \<ge> out_len then None
      else Some (slash # n))"

text \<open>The loop of \<open>ramfs_mkdir_p\<close>: each component is put behind a slash of its own.\<close>

function mkdir_p_loop :: "string \<Rightarrow> fs \<Rightarrow> int \<times> fs" where
  "mkdir_p_loop p s =
     (if p = [] then (0, s)
      else
        let q = (if hd p = slash then tl p else p); nm = first_name q; r = after_name q in
        if nm = [] then mkdir_p_loop r s
        else
          let (err, s1) = ramfs_mkdir (slash # nm) s in
          if err \<noteq> 0 \<and> err \<noteq> - EEXIST then (err, s1) else mkdir_p_loop r s1)"
  by auto

text \<open>Every round consumes a character: the slash in front, or else the first one of a component.\<close>

termination mkdir_p_loop
proof (relation "measure (\<lambda>(p, s). length p)")
  have shorter: "length (after_name q) < length p" if "p \<noteq> []" "q = (if hd p = slash then tl p else p)" for p q
  proof -
    have n: "length (first_name q) + length (after_name q) = length q"
      by (simp add: first_name_def after_name_def flip: length_append)
    show ?thesis
    proof (cases "hd p = slash")
      case False
      then have "first_name q \<noteq> []" using that by (cases p) (auto simp: first_name_def)
      then show ?thesis using n that(2) False by (cases "first_name q") auto
    qed (use n that in \<open>cases p; simp\<close>)
  qed
  show "((r, s), (p, s)) \<in> measure (\<lambda>(p, s). length p)"
    if "p \<noteq> []" "q = (if hd p = slash then tl p else p)" "r = after_name q" for p q r :: string and s :: fs
    using shorter [OF that(1,2)] that(3) by simp
  show "((r, s1), (p, s)) \<in> measure (\<lambda>(p, s). length p)"
    if "p \<noteq> []" "q = (if hd p = slash then tl p else p)" "r = after_name q" for p q r :: string and s s1 :: fs
    using shorter [OF that(1,2)] that(3) by simp
qed auto

definition ramfs_mkdir_p :: "string \<Rightarrow> fs \<Rightarrow> int \<times> fs" where
  "ramfs_mkdir_p path s =
     (if path = [] \<or> hd path \<noteq> slash then (- EINVAL, s)
      else if length path = 1 then (0, s)
      else mkdir_p_loop (tl path) s)"

text \<open>The path up to its last slash, with the slash.\<close>

definition parent_dir :: "string \<Rightarrow> int + string" where
  "parent_dir path =
     (let i = length (rev (dropWhile (\<lambda>ch. ch \<noteq> slash) (rev path))) in
      if path = [] \<or> hd path \<noteq> slash then Inl (- EINVAL)
      else if i \<le> 1 then Inr ''/''
      else if i \<ge> RAMFS_NAME_MAX + 1 then Inl (- EINVAL)
      else Inr (take i path))"

definition unpack_reg :: "string \<Rightarrow> umode \<Rightarrow> u64 \<Rightarrow> u64 \<Rightarrow> fs \<Rightarrow> (int \<times> fs) option" where
  "unpack_reg path mode payload filesize s =
     (case parent_dir path of
        Inl e \<Rightarrow> Some (- EINVAL, s)
      | Inr pdir \<Rightarrow>
          let (err, s1) = ramfs_mkdir_p pdir s in
          if err \<noteq> 0 then Some (err, s1)
          else
            let (err2, s2) = ramfs_create path mode s1 in
            if err2 \<noteq> 0 \<and> err2 \<noteq> - EEXIST then Some (err2, s2)
            else case ramfs_lookup path s2 of
              None \<Rightarrow> Some (- ENOENT, s2)
            | Some i \<Rightarrow>
                if filesize = 0 then Some (0, s2)
                else do {
                  (w, s3) \<leftarrow> ramfs_write i (bytes_at (ram s2) payload (unat filesize)) 0 s2;
                  Some (if w < 0 \<or> w \<noteq> uint filesize then w else 0, s3) })"

definition unpack_lnk :: "string \<Rightarrow> u64 \<Rightarrow> u64 \<Rightarrow> fs \<Rightarrow> int \<times> fs" where
  "unpack_lnk path payload filesize s =
     (if filesize \<ge> of_nat (RAMFS_NAME_MAX + 1) then (- EINVAL, s)
      else case parent_dir path of
        Inl e \<Rightarrow> (- EINVAL, s)
      | Inr pdir \<Rightarrow>
          let (err, s1) = ramfs_mkdir_p pdir s in
          if err \<noteq> 0 then (err, s1)
          else
            let (err2, s2) = ramfs_symlink path (bytes_string (bytes_at (ram s1) payload (unat filesize))) s1 in
            (if err2 \<noteq> 0 \<and> err2 \<noteq> - EEXIST then err2 else 0, s2))"

text \<open>One entry whose name and payload lie within the archive.\<close>

definition unpack_entry :: "string \<Rightarrow> u64 \<Rightarrow> u64 \<Rightarrow> u64 \<Rightarrow> fs \<Rightarrow> (int \<times> fs) option" where
  "unpack_entry name mode payload filesize s =
     (if name = ''.'' \<or> name = ''..'' then Some (0, s)
      else case path_normalize name (RAMFS_NAME_MAX + 2) of
        None \<Rightarrow> Some (- EINVAL, s)
      | Some path \<Rightarrow>
          if mode AND 0xF000 = ucast S_IFDIR then
            let (err, s1) = ramfs_mkdir path s in Some (if err \<noteq> 0 \<and> err \<noteq> - EEXIST then err else 0, s1)
          else if mode AND 0xF000 = ucast S_IFREG then unpack_reg path (ucast mode) payload filesize s
          else if mode AND 0xF000 = ucast S_IFLNK then Some (unpack_lnk path payload filesize s)
          else Some (0, s))"

partial_function (option) unpack_loop :: "u64 \<Rightarrow> u64 \<Rightarrow> fs \<Rightarrow> (int \<times> fs) option" where
  "unpack_loop p e s =
     (if \<not> p + CPIO_HDR_SIZE \<le> e then Some (0, s)
      else
        let m = ram s in
        if bytes_at m p 5 \<noteq> [48, 55, 48, 55, 48] \<or> m (p + 5) \<noteq> 49 \<and> m (p + 5) \<noteq> 50 then Some (- EINVAL, s)
        else
          let namesize = cpio_hex m (p + 94) 8; filesize = cpio_hex m (p + 54) 8; mode = cpio_hex m (p + 14) 8;
              p1 = p + CPIO_HDR_SIZE in
          if p1 + namesize > e then Some (- EINVAL, s)
          else if namesize = 0 then Some (- EINVAL, s)
          else
            let p2 = cpio_align_up_ptr (p1 + namesize) in
            if p2 > e then Some (- EINVAL, s)
            else
              let p3 = cpio_align_up_ptr (p2 + filesize); name = cpio_name m p1 in
              if p3 > e then Some (- EINVAL, s)
              else if name = ''TRAILER!!!'' then Some (0, s)
              else do {
                (err, s1) \<leftarrow> unpack_entry name mode p2 filesize s;
                if err \<noteq> 0 then Some (err, s1) else unpack_loop p3 e s1 })"

declare unpack_loop.simps [code]

definition unpack_to_rootfs :: "u64 \<Rightarrow> u64 \<Rightarrow> fs \<Rightarrow> (int \<times> fs) option" where
  "unpack_to_rootfs data sz s = (if data = 0 then Some (- EINVAL, s) else unpack_loop data (data + sz) s)"

end
