(* ===== verification/Initramfs_Props.thy ===== *)
theory Initramfs_Props
  imports Initramfs
begin

text \<open>
  Unpacking ends on every archive, well formed or not.  The two flaws of the path handling are stated as
  equations: missing parent directories are created in the root, and the first dot of a hidden name is lost.
\<close>

subsection \<open>Sizes\<close>

lemma hex_digit_less: "unat (hex_digit ch) < 16"
proof -
  have "unat ch < 2 ^ 64" using unsigned_less [of ch, where 'a = nat] by simp
  then have t: "take_bit 64 (unat ch) = unat ch" by (simp add: take_bit_nat_eq_self)
  show ?thesis
    unfolding hex_digit_def
    by (auto simp: unat_sub_if' unat_plus_if' word_le_nat_alt unsigned_ucast_eq t not_le split: if_splits)
qed

lemma hex_step:
  assumes "unat v < 2 ^ n" "n \<le> 28"
  shows "unat (push_bit 4 v OR hex_digit ch) < 2 ^ (n + 4)"
proof -
  have "unat v * 16 < 2 ^ (n + 4)" using assms(1) by (simp add: power_add)
  moreover have "(2::nat) ^ (n + 4) \<le> 2 ^ 32" using assms(2) by (intro power_increasing) simp_all
  ultimately have p: "unat (push_bit 4 v) < 2 ^ (n + 4)"
    using unat_mult_lem [of v 16] by (simp add: push_bit_eq_mult)
  have "(2::nat) ^ 4 \<le> 2 ^ (n + 4)" by (intro power_increasing) simp_all
  then have h: "unat (hex_digit ch) < 2 ^ (n + 4)" using hex_digit_less [of ch] by simp
  have "int (unat (push_bit 4 v)) < 2 ^ (n + 4)" "int (unat (hex_digit ch)) < 2 ^ (n + 4)"
    using p h by (simp_all only: of_nat_less_numeral_power_cancel_iff)
  then have "int (unat (push_bit 4 v)) OR int (unat (hex_digit ch)) < 2 ^ (n + 4)" by (intro OR_upper) simp_all
  then have "int (unat (push_bit 4 v OR hex_digit ch)) < 2 ^ (n + 4)" by (simp add: unsigned_or_eq of_nat_or_eq)
  then show ?thesis by (simp only: of_nat_less_numeral_power_cancel_iff)
qed

lemma cpio_hex_loop_less:
  "unat v < 2 ^ n \<Longrightarrow> n + 4 * length s \<le> 32 \<Longrightarrow> unat (cpio_hex_loop s v) < 2 ^ (n + 4 * length s)"
proof (induction s arbitrary: v n)
  case (Cons ch s)
  have "unat (push_bit 4 v OR hex_digit ch) < 2 ^ (n + 4)" using Cons.prems by (intro hex_step) simp_all
  from Cons.IH [OF this] Cons.prems(2) show ?case by (simp add: algebra_simps)
qed simp

lemma cpio_hex_less: "unat (cpio_hex m a 8) < 2 ^ 32"
  using cpio_hex_loop_less [of 0 0 "bytes_at m a 8"] by (simp add: cpio_hex_def bytes_at_def)

lemma align_up_ptr:
  assumes "unat p + 3 < 2 ^ 64"
  shows "unat p \<le> unat (cpio_align_up_ptr p)" "unat (cpio_align_up_ptr p) \<le> unat p + 3"
proof -
  have m: "(3::u64) = mask 2" by (simp add: mask_eq_exp_minus_1)
  have "cpio_align_up_ptr p = push_bit 2 (drop_bit 2 (p + 3))"
    unfolding cpio_align_up_ptr_def by (subst (2) m) (intro bit_eqI, auto simp: bit_simps simp flip: add_2_eq_Suc')
  moreover have "unat (p + 3) = unat p + 3" using assms by (subst unat_add_lem [THEN iffD1]) simp_all
  moreover have "(unat p + 3) div 4 * 4 < 2 ^ 64" using assms by linarith
  ultimately have "unat (cpio_align_up_ptr p) = (unat p + 3) div 4 * 4"
    using unat_mult_lem [of "(p + 3) div 4" 4] by (simp add: drop_bit_eq_div push_bit_eq_mult unat_div)
  moreover have "(unat p + 3) div 4 * 4 \<le> unat p + 3" "unat p \<le> (unat p + 3) div 4 * 4" by linarith+
  ultimately show "unat p \<le> unat (cpio_align_up_ptr p)" "unat (cpio_align_up_ptr p) \<le> unat p + 3"
    by simp_all
qed

subsection \<open>Termination\<close>

lemma grow_returns:
  assumes "cap \<noteq> 0" "unat need \<le> 2 ^ 33"
  shows "\<exists>r. grow_cap cap need = Some r"
  using assms(1)
proof (induction "unat need - unat cap" arbitrary: cap rule: less_induct)
  case less
  show ?case
  proof (cases "cap < need")
    case True
    then have c: "unat cap < unat need" by (simp add: word_less_nat_alt)
    then have u: "unat (push_bit 1 cap) = 2 * unat cap"
      using assms(2) unat_mult_lem [of cap 2] by (simp add: push_bit_eq_mult)
    have "0 < unat cap" using less.prems by (simp add: unat_gt_0)
    then have "unat need - unat (push_bit 1 cap) < unat need - unat cap" "push_bit 1 cap \<noteq> 0" using c u by (auto simp flip: unat_eq_zero)
    from less.hyps [OF this] show ?thesis using True by (subst grow_cap.simps) simp
  qed (subst grow_cap.simps, simp)
qed

lemma write_returns:
  assumes "length buf \<le> 2 ^ 32"
  shows "\<exists>r. ramfs_write i buf 0 s = Some r"
proof -
  have l: "unat (of_nat (length buf) :: u64) \<le> 2 ^ 33" using assms by (simp add: unat_of_nat_less)
  have "\<exists>r. ramfs_ensure_capacity i (of_nat (length buf)) s = Some r"
    using grow_returns [OF _ l, of "if r_capacity (rnodes s i) \<noteq> 0 then r_capacity (rnodes s i) else PAGE_SIZE"]
    by (auto simp: ramfs_ensure_capacity_def Let_def split: option.splits prod.splits)
  then show ?thesis by (auto simp: ramfs_write_def Let_def split: option.splits prod.splits)
qed

lemma unpack_entry_returns:
  assumes "unat filesize \<le> 2 ^ 32"
  shows "\<exists>r. unpack_entry name mode payload filesize s = Some r"
proof -
  have w: "\<exists>r. ramfs_write i (bytes_at m payload (unat filesize)) 0 t = Some r" for i m t
    using assms by (intro write_returns) (simp add: bytes_at_def)
  have "\<exists>r. unpack_reg path md payload filesize s = Some r" for path md
  proof -
    have "\<exists>r. (ramfs_write i (bytes_at m payload (unat filesize)) 0 t \<bind> (\<lambda>(w, s3). Some (g w, s3))) = Some r"
      for i m t and g :: "int \<Rightarrow> int" using w [of i m t] by auto
    then show ?thesis unfolding unpack_reg_def by (simp add: Let_def split: sum.splits prod.splits option.splits)
  qed
  then show ?thesis unfolding unpack_entry_def by (auto simp: Let_def split: option.splits prod.splits)
qed

text \<open>One turn of the loop advances behind the header and the name.\<close>

lemma unpack_advances:
  assumes "unat p + 2 ^ 34 < 2 ^ 64" "unat ns < 2 ^ 32" "unat fsz < 2 ^ 32" "ns \<noteq> 0"
  shows "unat p < unat (cpio_align_up_ptr (cpio_align_up_ptr (p + CPIO_HDR_SIZE + ns) + fsz))"
proof -
  let ?a = "p + CPIO_HDR_SIZE + ns" let ?b = "cpio_align_up_ptr ?a"
  have a: "unat ?a = unat p + 110 + unat ns" using assms by (simp add: unat_plus_if')
  then have "unat ?a + 3 < 2 ^ 64" using assms by simp
  from align_up_ptr [OF this] have b: "unat ?a \<le> unat ?b" "unat ?b \<le> unat ?a + 3" .
  then have c: "unat (?b + fsz) = unat ?b + unat fsz" using a assms by (simp add: unat_plus_if')
  then have "unat (?b + fsz) \<le> unat (cpio_align_up_ptr (?b + fsz))" using a b assms by (intro align_up_ptr) simp
  then show ?thesis using a b c by simp
qed

lemma unpack_loop_returns:
  assumes "unat e + 2 ^ 34 < 2 ^ 64"
  shows "p \<le> e \<Longrightarrow> \<exists>r. unpack_loop p e s = Some r"
proof (induction "unat e - unat p" arbitrary: p s rule: less_induct)
  case less
  let ?ns = "cpio_hex (ram s) (p + 94) 8" and ?fs = "cpio_hex (ram s) (p + 54) 8"
  let ?p2 = "cpio_align_up_ptr (p + CPIO_HDR_SIZE + ?ns)" let ?p3 = "cpio_align_up_ptr (?p2 + ?fs)"
  have step: "\<exists>r. (unpack_entry nm md ?p2 ?fs s \<bind>
      (\<lambda>(err, s1). if err \<noteq> 0 then Some (err, s1) else unpack_loop ?p3 e s1)) = Some r"
    if "?ns \<noteq> 0" "?p3 \<le> e" for nm md
  proof -
    have "unat p \<le> unat e" "unat ?p3 \<le> unat e" using less.prems that(2) by (simp_all add: word_le_nat_alt)
    then have "unat p < unat ?p3" using assms that(1) cpio_hex_less by (intro unpack_advances) simp_all
    then have "unat e - unat ?p3 < unat e - unat p" using \<open>unat ?p3 \<le> unat e\<close> by simp
    then have l: "\<exists>r. unpack_loop ?p3 e s1 = Some r" for s1 using less.hyps that(2) by blast
    obtain err s1 where "unpack_entry nm md ?p2 ?fs s = Some (err, s1)"
      using unpack_entry_returns [of ?fs nm md ?p2 s] cpio_hex_less [of "ram s" "p + 54"] by auto
    then show ?thesis using l by simp
  qed
  show ?case using step by (subst unpack_loop.simps) (simp add: Let_def)
qed

text \<open>C40: Unpacking the built-in archive ends on any archive contents: every turn of the loop advances
  behind a header and a non-empty name, and every file write grows its buffer in finitely many steps, as long as
  the archive does not lie in the last 16 GiB of the address space, where the pointers would wrap.
\<close>

theorem unpack_returns:
  assumes "unat data + unat sz + 2 ^ 34 < 2 ^ 64"
  shows "\<exists>err s'. unpack_to_rootfs data sz s = Some (err, s')"
proof -
  have "unat (data + sz) = unat data + unat sz" using assms by (subst unat_add_lem [THEN iffD1]) simp_all
  then show ?thesis
    using unpack_loop_returns [of "data + sz" data s] assms by (auto simp: unpack_to_rootfs_def word_le_nat_alt)
qed

theorem unpack_returns_witness:
  "unat (0x45000000 :: u64) + unat (0x80000 :: u64) + 2 ^ 34 < 2 ^ 64 \<and>
   (\<forall>s. \<exists>err s'. unpack_to_rootfs 0x45000000 0x80000 s = Some (err, s'))"
proof -
  have b: "unat (0x45000000 :: u64) + unat (0x80000 :: u64) + 2 ^ 34 < 2 ^ 64" by simp
  from unpack_returns [OF b] b show ?thesis by blast
qed

subsection \<open>Path flaws\<close>

lemma names_Cons:
  assumes "slash \<notin> set a"
  shows "first_name (a @ slash # p) = a" "after_name (a @ slash # p) = slash # p" "first_name a = a" "after_name a = []"
  using assms by (induction a) (auto simp: first_name_def after_name_def)

text \<open>
  For the path a/b, the parent directories that are made are a and b of the root, not b of a: the partial path
  starts afresh at every component.
\<close>

lemma mkdir_p_flat:
  assumes "a \<noteq> []" "slash \<notin> set a" "b \<noteq> []" "slash \<notin> set b"
    and a: "ramfs_mkdir (slash # a) s = (0, s1)" and b: "ramfs_mkdir (slash # b) s1 = (0, s2)"
  shows "ramfs_mkdir_p (slash # a @ slash # b) s = (0, s2)"
proof -
  have hd: "hd (a @ slash # b) \<noteq> slash" using assms(1,2) by (cases a) auto
  have "mkdir_p_loop (slash # b) s1 = (0, s2)"
    using assms by (subst mkdir_p_loop.simps) (simp add: names_Cons Let_def)
  then have "mkdir_p_loop (a @ slash # b) s = (0, s2)"
    using assms hd by (subst mkdir_p_loop.simps) (simp add: names_Cons Let_def)
  then show ?thesis using assms(1) by (simp add: ramfs_mkdir_p_def)
qed

text \<open>A hidden file is unpacked under its name without the dot.\<close>

lemma normalize_hidden:
  assumes "c \<noteq> slash" "length n + 2 < out_len"
  shows "path_normalize (CHR ''.'' # c # n) out_len = Some (slash # c # n)"
  using assms by (simp add: path_normalize_def)

end
