(* ===== verification/Refcount.thy ===== *)
theory Refcount
  imports Main
begin

text \<open>
  Reference counts kept for a table of slots.  A state has slots that name objects and a count for every object.
  It is balanced when every object in use has as many counted references as slots that name it, up to references
  held elsewhere: those that a system call holds on the way, positive before they are stored and negative once
  they have been dropped.  The interface \<open>ref_table\<close> has the three operations that a client of the table uses:
  taking a reference, dropping one, and storing into a slot.
\<close>

definition uses :: "'p set \<Rightarrow> ('p \<Rightarrow> 'a) \<Rightarrow> 'a \<Rightarrow> nat" where
  "uses P sl a = card {p \<in> P. sl p = a}"

definition balanced :: "'p set \<Rightarrow> ('a \<Rightarrow> int) \<Rightarrow> 'a \<Rightarrow> ('p \<Rightarrow> 'a) \<Rightarrow> ('a \<Rightarrow> int) \<Rightarrow> bool" where
  "balanced P e null sl rc \<longleftrightarrow>
     (\<forall>a. a \<noteq> null \<longrightarrow> 0 < int (uses P sl a) + e a \<longrightarrow> rc a = int (uses P sl a) + e a)"

lemma balanced_cong:
  "balanced P e null sl rc \<Longrightarrow> (\<And>a. a \<noteq> null \<Longrightarrow> e a = e' a) \<Longrightarrow> balanced P e' null sl rc"
  by (simp add: balanced_def)

lemma uses_store:
  assumes "finite P" "p \<in> P"
  shows "int (uses P (sl(p := a)) b) = int (uses P sl b) - of_bool (sl p = b) + of_bool (a = b)"
proof -
  let ?Q = "{q \<in> P - {p}. sl q = b}"
  have "{q \<in> P. (sl(p := a)) q = b} = (if a = b then insert p ?Q else ?Q)" "{q \<in> P. sl q = b} = (if sl p = b then insert p ?Q else ?Q)"
    using assms(2) by auto
  moreover have "finite ?Q" "p \<notin> ?Q" using assms(1) by auto
  ultimately show ?thesis unfolding uses_def by simp
qed

lemma uses_pos: "finite P \<Longrightarrow> p \<in> P \<Longrightarrow> sl p = a \<Longrightarrow> 0 < uses P sl a"
  by (auto simp: uses_def card_gt_0_iff)

lemma uses_other: "finite P \<Longrightarrow> p \<in> P \<Longrightarrow> q \<in> P \<Longrightarrow> p \<noteq> q \<Longrightarrow> sl p = a \<Longrightarrow> sl q = a \<Longrightarrow> 1 < uses P sl a"
proof -
  assume a: "finite P" "p \<in> P" "q \<in> P" "p \<noteq> q" "sl p = a" "sl q = a"
  then have "card {p, q} \<le> uses P sl a" unfolding uses_def by (intro card_mono) auto
  then show ?thesis using a(4) by simp
qed

locale ref_table =
  fixes slot :: "'s \<Rightarrow> 'p \<Rightarrow> 'a" and rc :: "'s \<Rightarrow> 'a \<Rightarrow> int" and null :: 'a
    and get :: "'a \<Rightarrow> 's \<Rightarrow> 's" and put :: "'a \<Rightarrow> 's \<Rightarrow> 's option" and store :: "'p \<Rightarrow> 'a \<Rightarrow> 's \<Rightarrow> 's"
  assumes slot_get: "slot (get a s) = slot s"
    and rc_get: "a \<noteq> null \<Longrightarrow> rc (get a s) = (rc s)(a := rc s a + 1)"
    and slot_put: "put a s = Some s' \<Longrightarrow> slot s' = slot s"
    and rc_put: "put a s = Some s' \<Longrightarrow> a \<noteq> null \<Longrightarrow> rc s' = (rc s)(a := rc s a - 1)"
    and slot_store: "slot (store p a s) = (slot s)(p := a)"
    and rc_store: "rc (store p a s) = rc s"
begin

lemma get_balanced:
  assumes "balanced P e null (slot s) (rc s)" "a \<noteq> null" "0 < int (uses P (slot s) a) + e a"
  shows "balanced P (e(a := e a + 1)) null (slot (get a s)) (rc (get a s))"
  using assms by (auto simp: balanced_def slot_get rc_get)

lemma put_balanced:
  assumes "balanced P e null (slot s) (rc s)" "a \<noteq> null" "0 < int (uses P (slot s) a) + e a" "put a s = Some s'"
  shows "balanced P (e(a := e a - 1)) null (slot s') (rc s')"
  using assms by (auto simp: balanced_def slot_put [OF assms(4)] rc_put [OF assms(4,2)])

lemma store_balanced:
  assumes "balanced P e null (slot s) (rc s)" "finite P" "p \<in> P"
  shows "balanced P (\<lambda>b. e b + of_bool (slot s p = b) - of_bool (a = b)) null (slot (store p a s)) (rc (store p a s))"
  using assms(1) by (auto simp: balanced_def slot_store rc_store uses_store [OF assms(2,3)])

text \<open>An object of the table is put into a further, empty slot.\<close>

lemma share_balanced:
  assumes b: "balanced P (\<lambda>_. 0) null (slot s) (rc s)" and P: "finite P" "q \<in> P" "p \<in> P"
    and q: "slot s q = a" "a \<noteq> null" and p: "slot s p = null"
  shows "balanced P (\<lambda>_. 0) null (slot (store p a (get a s))) (rc (store p a (get a s)))"
proof -
  have "0 < int (uses P (slot s) a) + 0" using uses_pos [of P q "slot s" a] P q(1) by simp
  from store_balanced [OF get_balanced [OF b q(2) this] P(1,3), of a] show ?thesis
    by (rule balanced_cong) (auto simp: slot_get p)
qed

text \<open>The object of a slot is dropped, after the slot has been cleared or before.\<close>

lemma drop_balanced:
  assumes b: "balanced P (\<lambda>_. 0) null (slot s) (rc s)" and P: "finite P" "p \<in> P"
    and p: "slot s p = a" "a \<noteq> null" and s': "put a (store p null s) = Some s'"
  shows "balanced P (\<lambda>_. 0) null (slot s') (rc s')"
proof -
  have u: "int (uses P (slot (store p null s)) a) = int (uses P (slot s) a) - 1"
    using p by (simp add: slot_store uses_store [OF P])
  moreover have "0 < uses P (slot s) a" using uses_pos [of P p "slot s" a] P p(1) by simp
  ultimately have l: "0 < int (uses P (slot (store p null s)) a) + (0 + of_bool (slot s p = a) - of_bool (null = a))" using p by auto
  from put_balanced [OF store_balanced [OF b P] p(2) l s'] show ?thesis by (rule balanced_cong) (use p in auto)
qed

lemma drop_first_balanced:
  assumes b: "balanced P (\<lambda>_. 0) null (slot s) (rc s)" and P: "finite P" "p \<in> P"
    and p: "slot s p = a" "a \<noteq> null" and s': "put a s = Some s'"
  shows "balanced P (\<lambda>_. 0) null (slot (store p null s')) (rc (store p null s'))"
proof -
  have "0 < int (uses P (slot s) a) + 0" using uses_pos [of P p "slot s" a] P p(1) by simp
  from store_balanced [OF put_balanced [OF b p(2) this s'] P, of null] show ?thesis
    by (rule balanced_cong) (use p in \<open>auto simp: slot_put [OF s']\<close>)
qed

text \<open>An object of the table replaces that of another slot.\<close>

lemma replace_balanced:
  assumes b: "balanced P (\<lambda>_. 0) null (slot s) (rc s)" and P: "finite P" "q \<in> P" "p \<in> P" "p \<noteq> q"
    and q: "slot s q = a" "a \<noteq> null" and p: "slot s p = b" "b \<noteq> null" and s': "put b (store p a (get a s)) = Some s'"
  shows "balanced P (\<lambda>_. 0) null (slot s') (rc s')"
proof -
  have "0 < int (uses P (slot s) a) + 0" using uses_pos [of P q "slot s" a] P q(1) by simp
  note g = store_balanced [OF get_balanced [OF b q(2) this] P(1,3), of a]
  have "int (uses P (slot (store p a (get a s))) b) = int (uses P (slot s) b) - 1 + of_bool (a = b)"
    using p by (simp add: slot_store slot_get uses_store [OF P(1,3)])
  moreover have "0 < uses P (slot s) b" using uses_pos [of P p "slot s" b] P p(1) by simp
  ultimately have l: "0 < int (uses P (slot (store p a (get a s))) b) +
      (((\<lambda>_. 0)(a := 0 + 1)) b + of_bool (slot (get a s) p = b) - of_bool (a = b))" using p by (auto simp: slot_get)
  from put_balanced [OF g p(2) l s'] show ?thesis by (rule balanced_cong) (use p in \<open>auto simp: slot_get\<close>)
qed

text \<open>A reference that is taken and dropped again.\<close>

lemma get_put_balanced:
  assumes b: "balanced P e null (slot s) (rc s)" and a: "a \<noteq> null" "0 < int (uses P (slot s) a) + e a"
    and s': "put a (get a s) = Some s'"
  shows "balanced P e null (slot s') (rc s')"
proof -
  have "0 < int (uses P (slot (get a s)) a) + (e(a := e a + 1)) a" using a(2) by (simp add: slot_get)
  from put_balanced [OF get_balanced [OF b a] a(1) this s'] show ?thesis by (rule balanced_cong) simp
qed

text \<open>A new object, with one reference, is put into an empty slot.\<close>

lemma fresh_balanced:
  assumes b: "balanced P (\<lambda>_. 0) null (slot s) (rc s)" and P: "finite P" "p \<in> P"
    and a: "uses P (slot s) a = 0" "a \<noteq> null" "rc s a = 1" and p: "slot s p = null"
  shows "balanced P (\<lambda>_. 0) null (slot (store p a s)) (rc (store p a s))"
proof -
  have "balanced P ((\<lambda>_. 0)(a := 1)) null (slot s) (rc s)" using b a by (simp add: balanced_def)
  from store_balanced [OF this P, of a] show ?thesis by (rule balanced_cong) (use p in auto)
qed

end

lemma balanced_grow:
  assumes "balanced P e null sl rc" "\<And>p. p \<in> Q \<Longrightarrow> sl p = null"
  shows "balanced (P \<union> Q) e null sl rc"
proof -
  have "{p \<in> P \<union> Q. sl p = a} = {p \<in> P. sl p = a}" if "a \<noteq> null" for a using assms(2) that by auto
  then show ?thesis using assms(1) by (simp add: balanced_def uses_def)
qed

end
