(* ===== verification/Files_Props.thy ===== *)
theory Files_Props
  imports Process Refcount Ramfs_Data Tty_Props
begin

text \<open>
  Descriptor tables.  The reference count of an open file is the number of descriptors that name it, whatever
  system calls the tasks make; descriptors are numbered from the lowest free one; exec closes the marked ones.
\<close>

subsection \<open>What the operations leave alone\<close>

lemma k_task_simps [simp]:
  "files (k_task t g k) = files k" "pipes (k_task t g k) = pipes k" "fsys (k_task t g k) = fsys k" "uart_file (k_task t g k) = uart_file k"
  "tasks (sch (k_task t g k)) u = (if u = t then g (tasks (sch k) t) else tasks (sch k) u)"
  "cpus (sch (k_task t g k)) = cpus (sch k)" "k_current c (k_task t g k) = k_current c k"
  by (simp_all add: k_task_def upd_task_def get_current_def)

lemma upd_file_simps [simp]:
  "sch (upd_file f g k) = sch k" "pipes (upd_file f g k) = pipes k" "fsys (upd_file f g k) = fsys k" "uart_file (upd_file f g k) = uart_file k"
  "files (upd_file f g k) = (files k)(f := g (files k f))"
  by (simp_all add: upd_file_def)

lemma k_kfree_simps [simp]:
  "sch (k_kfree a k) = sch k" "files (k_kfree a k) = files k" "pipes (k_kfree a k) = pipes k" "uart_file (k_kfree a k) = uart_file k"
  by (simp_all add: k_kfree_def)

lemma k_iput_frame:
  "k_iput i k = Some k' \<Longrightarrow> sch k' = sch k \<and> files k' = files k \<and> pipes k' = pipes k \<and> uart_file k' = uart_file k"
  by (auto simp: k_iput_def)

lemma wake_up_files [simp]:
  "t_files (tasks (wake_up c wq s) u) = t_files (tasks s u)"
  "t_close_on_exec (tasks (wake_up c wq s) u) = t_close_on_exec (tasks s u)"
  "curr (cpus (wake_up c wq s) d) = curr (cpus s d)"
proof -
  have w: "t_files (tasks (wake_up_process c t s) u) = t_files (tasks s u)"
    "t_close_on_exec (tasks (wake_up_process c t s) u) = t_close_on_exec (tasks s u)"
    "curr (cpus (wake_up_process c t s) d) = curr (cpus s d)" for c t s
    by (simp_all add: wake_up_process_def enqueue_task_def enqueue_task_cpu_def enqueue_task_locked_def resched_cpu_def
        set_need_resched_def send_reschedule_ipi_def Let_def upd_task_def upd_cpu_def)
  show "t_files (tasks (wake_up c wq s) u) = t_files (tasks s u)"
    "t_close_on_exec (tasks (wake_up c wq s) u) = t_close_on_exec (tasks s u)" "curr (cpus (wake_up c wq s) d) = curr (cpus s d)"
    by (induction c wq s rule: wake_up.induct) (simp_all add: w)
qed

lemma pipe_release_frame:
  "k_files t (pipe_release c f k) = k_files t k" "files (pipe_release c f k) = files k"
  "t_close_on_exec (tasks (sch (pipe_release c f k)) t) = t_close_on_exec (tasks (sch k) t)"
  "k_current d (pipe_release c f k) = k_current d k" "uart_file (pipe_release c f k) = uart_file k"
  by (simp_all add: pipe_release_def pipe_close_end_def Let_def get_current_def split: prod.splits)

lemma f_release_frame [simp]:
  "k_files t (f_release c f k) = k_files t k" "files (f_release c f k) = files k"
  "t_close_on_exec (tasks (sch (f_release c f k)) t) = t_close_on_exec (tasks (sch k) t)"
  "k_current d (f_release c f k) = k_current d k" "uart_file (f_release c f k) = uart_file k"
  by (simp_all add: f_release_def pipe_release_frame)

lemma fput_frame:
  assumes "fput c f k = Some k'"
  shows "k_files t k' = k_files t k" "t_close_on_exec (tasks (sch k') t) = t_close_on_exec (tasks (sch k) t)" "k_current d k' = k_current d k"
    and "f_refcount (files k' g) = f_refcount (files k g) - of_bool (g = f \<and> f \<noteq> 0)" "uart_file k' = uart_file k"
  using assms by (auto simp: fput_def Let_def dest!: k_iput_frame split: if_splits Option.bind_splits)

lemma set_fd_simps [simp]:
  "k_files u (set_fd t fd f k) = (if u = t then (k_files t k)(fd := f) else k_files u k)" "files (set_fd t fd f k) = files k"
  "t_close_on_exec (tasks (sch (set_fd t fd f k)) u) = t_close_on_exec (tasks (sch k) u)" "k_current c (set_fd t fd f k) = k_current c k"
  by (simp_all add: set_fd_def)

lemma set_cloexec_simps [simp]:
  "k_files u (set_cloexec t fd b k) = k_files u k" "files (set_cloexec t fd b k) = files k" "k_current c (set_cloexec t fd b k) = k_current c k"
  by (simp_all add: set_cloexec_def)

lemma get_file_simps [simp]:
  "k_files u (get_file f k) = k_files u k" "k_current c (get_file f k) = k_current c k"
  "f_refcount (files (get_file f k) g) = f_refcount (files k g) + of_bool (g = f \<and> f \<noteq> 0)"
  by (simp_all add: get_file_def)

subsection \<open>Reference counts\<close>

definition fd_slot :: "kernel \<Rightarrow> u64 \<times> nat \<Rightarrow> u64" where
  "fd_slot k = (\<lambda>(t, fd). k_files t k fd)"

definition file_refs :: "kernel \<Rightarrow> u64 \<Rightarrow> int" where
  "file_refs k f = f_refcount (files k f)"

interpretation fdt: ref_table fd_slot file_refs 0 get_file "fput c" "\<lambda>(t, fd). set_fd t fd" for c
  by unfold_locales (auto simp: fd_slot_def file_refs_def fput_frame intro!: ext)

text \<open>The descriptors of a set of tasks, and the statement that every file among them is counted right.\<close>

definition fd_slots :: "u64 set \<Rightarrow> (u64 \<times> nat) set" where
  "fd_slots T = T \<times> {..<NR_OPEN}"

definition fds_counted :: "u64 set \<Rightarrow> kernel \<Rightarrow> bool" where
  "fds_counted T k \<longleftrightarrow> balanced (fd_slots T) (\<lambda>_. 0) 0 (fd_slot k) (file_refs k)"

lemma finite_slots: "finite T \<Longrightarrow> finite (fd_slots T)"
  by (simp add: fd_slots_def)

lemma in_slots [simp]: "(t, fd) \<in> fd_slots T \<longleftrightarrow> t \<in> T \<and> fd < NR_OPEN"
  by (auto simp: fd_slots_def)

lemma counted_frame:
  "fds_counted T k \<Longrightarrow> (\<And>t. t \<in> T \<Longrightarrow> k_files t k' = k_files t k) \<Longrightarrow> (\<And>f. f_refcount (files k' f) = f_refcount (files k f)) \<Longrightarrow> fds_counted T k'"
proof -
  assume c: "fds_counted T k" and t: "\<And>t. t \<in> T \<Longrightarrow> k_files t k' = k_files t k" and f: "\<And>f. f_refcount (files k' f) = f_refcount (files k f)"
  have "{p \<in> fd_slots T. fd_slot k' p = a} = {p \<in> fd_slots T. fd_slot k p = a}" for a using t by (auto simp: fd_slot_def)
  then show ?thesis using c f by (simp add: fds_counted_def balanced_def uses_def file_refs_def)
qed

lemma counted_cloexec [simp]: "fds_counted T (set_cloexec t fd b k) \<longleftrightarrow> fds_counted T k"
  by (auto elim!: counted_frame)

lemma free_fd_Some:
  "free_fd m fs = Some fd \<longleftrightarrow> m \<le> fd \<and> fd < NR_OPEN \<and> fs fd = 0 \<and> (\<forall>i. m \<le> i \<longrightarrow> i < fd \<longrightarrow> fs i \<noteq> 0)"
proof
  assume "free_fd m fs = Some fd"
  then obtain i where i: "i < NR_OPEN - m" "fs (m + i) = 0" "fd = m + i" "\<forall>j<i. fs (m + j) \<noteq> 0"
    by (auto simp: free_fd_def find_Some_iff)
  have "fs j \<noteq> 0" if "m \<le> j" "j < fd" for j using i(3,4) that by (metis add_less_cancel_left le_add_diff_inverse)
  then show "m \<le> fd \<and> fd < NR_OPEN \<and> fs fd = 0 \<and> (\<forall>i. m \<le> i \<longrightarrow> i < fd \<longrightarrow> fs i \<noteq> 0)" using i by auto
next
  assume a: "m \<le> fd \<and> fd < NR_OPEN \<and> fs fd = 0 \<and> (\<forall>i. m \<le> i \<longrightarrow> i < fd \<longrightarrow> fs i \<noteq> 0)"
  show "free_fd m fs = Some fd" unfolding free_fd_def find_Some_iff
    by (rule exI [of _ "fd - m"]) (use a in auto)
qed

lemma free_fd_None: "free_fd m fs = None \<longleftrightarrow> (\<forall>i. m \<le> i \<longrightarrow> i < NR_OPEN \<longrightarrow> fs i \<noteq> 0)"
  by (auto simp: free_fd_def find_None_iff)

text \<open>Both forms of \<open>install_fd\<close> store a reference that the caller has taken.\<close>

lemma install_counted:
  assumes c: "fds_counted T k" and T: "finite T" "t \<in> T" "u \<in> T" "old < NR_OPEN"
    and f: "k_files u k old = f" "f \<noteq> 0"
    and fd: "free_fd m (k_files t k) = Some fd"
  shows "fds_counted T (set_fd t fd f (get_file f k))"
proof -
  have "fd < NR_OPEN" "k_files t k fd = 0" using fd by (simp_all add: free_fd_Some)
  then show ?thesis
    using fdt.share_balanced [of "fd_slots T" k "(u, old)" "(t, fd)" f] c T f unfolding fds_counted_def
    by (simp add: finite_slots fd_slot_def [where k = k])
qed

lemma put_counted:
  assumes c: "fds_counted T k" and T: "finite T" "u \<in> T" "old < NR_OPEN" and f: "k_files u k old = f" "f \<noteq> 0"
    and p: "fput c' f (get_file f k) = Some k'"
  shows "fds_counted T k'"
proof -
  have "0 < int (uses (fd_slots T) (fd_slot k) f) + 0"
    using uses_pos [of "fd_slots T" "(u, old)" "fd_slot k" f] T f(1) by (simp add: finite_slots fd_slot_def [where k = k])
  from fdt.get_put_balanced [OF c [unfolded fds_counted_def] f(2) this p] show ?thesis by (simp add: fds_counted_def)
qed

lemma close_counted:
  assumes c: "fds_counted T k" and T: "finite T" "t \<in> T" "fd < NR_OPEN" and f: "k_files t k fd = f" "f \<noteq> 0"
  shows "fput c' f (set_fd t fd 0 k) = Some k' \<Longrightarrow> fds_counted T k'"
    and "fput c' f k = Some k' \<Longrightarrow> fds_counted T (set_fd t fd 0 k')"
  using fdt.drop_balanced [of "fd_slots T" k "(t, fd)" f c' k'] fdt.drop_first_balanced [of "fd_slots T" k "(t, fd)" f c' k'] c T f
  unfolding fds_counted_def by (simp_all add: finite_slots fd_slot_def [where k = k])

lemma fd_file_Some: "fd_file c fd k = f \<Longrightarrow> f \<noteq> 0 \<Longrightarrow> fd < NR_OPEN \<and> k_files (k_current c k) k fd = f"
  by (auto simp: fd_file_def Let_def split: if_splits)

lemma dup_counted:
  assumes c: "fds_counted T k" "finite T" "k_current c k \<in> T" and r: "ksys_dup c old k = Some (r, k')"
  shows "fds_counted T k'"
proof (cases "fd_file c old k = 0")
  case False
  define f where "f = fd_file c old k"
  have f: "f \<noteq> 0" "old < NR_OPEN" "k_files (k_current c k) k old = f" using False fd_file_Some [of c old k f] by (simp_all add: f_def)
  show ?thesis
  proof (cases "free_fd 0 (k_files (k_current c k) k)")
    case None
    then have "fput c f (get_file f k) = Some k'"
      using r f(1) by (auto simp: ksys_dup_def install_fd_def Let_def simp flip: f_def split: Option.bind_splits)
    then show ?thesis using put_counted [OF c f(2) f(3) f(1)] by blast
  next
    case (Some fd)
    then have "k' = set_cloexec (k_current c k) fd False (set_fd (k_current c k) fd f (get_file f k))"
      using r f(1) by (simp add: ksys_dup_def install_fd_def Let_def flip: f_def)
    then show ?thesis using install_counted [OF c(1,2) c(3) c(3) f(2,3,1) Some] by simp
  qed
qed (use c r in \<open>simp add: ksys_dup_def\<close>)

lemma dup3_counted:
  assumes c: "fds_counted T k" "finite T" "k_current c k \<in> T" and r: "ksys_dup3 c old new flags k = Some (r, k')"
  shows "fds_counted T k'"
proof -
  let ?t = "k_current c k"
  define f g where "f = k_files ?t k old" and "g = k_files ?t k new"
  show ?thesis
  proof (cases "flags AND NOT O_CLOEXEC \<noteq> 0 \<or> old = new \<or> ?t = 0 \<or> old \<ge> NR_OPEN \<or> new \<ge> NR_OPEN \<or> f = 0")
    case True
    then have "k' = k" using r by (auto simp: ksys_dup3_def Let_def f_def split: if_splits)
    then show ?thesis using c by simp
  next
    case False
    have slots: "fd_slot k (?t, old) = f" "fd_slot k (?t, new) = g" by (simp_all add: fd_slot_def f_def g_def)
    obtain k3 where k3: "(if g \<noteq> 0 then fput c g (set_fd ?t new f (get_file f k)) else Some (set_fd ?t new f (get_file f k))) = Some k3"
      and k': "k' = set_cloexec ?t new (flags AND O_CLOEXEC \<noteq> 0) k3"
      using r False by (auto simp: ksys_dup3_def Let_def f_def g_def split: if_splits Option.bind_splits)
    have "fds_counted T k3"
    proof (cases "g = 0")
      case True
      then show ?thesis
        using k3 fdt.share_balanced [of "fd_slots T" k "(?t, old)" "(?t, new)" f] c False slots by (simp add: fds_counted_def finite_slots)
    next
      case g: False
      then show ?thesis
        using k3 fdt.replace_balanced [of "fd_slots T" k "(?t, old)" "(?t, new)" f g c k3] c False slots by (simp add: fds_counted_def finite_slots)
    qed
    then show ?thesis by (simp add: k')
  qed
qed

lemma fcntl_counted:
  assumes c: "fds_counted T k" "finite T" "k_current c k \<in> T" and r: "ksys_fcntl c fd cmd arg k = Some (r, k')"
  shows "fds_counted T k'"
proof (cases "fd_file c fd k = 0 \<or> \<not> (cmd = 0 \<or> cmd = 0x406)")
  case True
  have "fds_counted T (upd_file f (\<lambda>x. x\<lparr>f_flags := g x\<rparr>) k)" for f g using c(1) by (rule counted_frame) auto
  then show ?thesis using r True c(1) by (auto simp: ksys_fcntl_def Let_def split: if_splits)
next
  case False
  define f m where "f = fd_file c fd k" and "m = unat (ucast arg :: u32)"
  have f: "f \<noteq> 0" "fd < NR_OPEN" "k_files (k_current c k) k fd = f" using False fd_file_Some [of c fd k f] by (simp_all add: f_def)
  show ?thesis
  proof (cases "m < NR_OPEN \<and> \<not> sint (ucast arg :: u32) < 0")
    case m: True
    show ?thesis
    proof (cases "free_fd m (k_files (k_current c k) k)")
      case None
      then have "fput c f (get_file f k) = Some k'"
        using r f(1) m False by (auto simp: ksys_fcntl_def install_fd_min_def Let_def simp flip: f_def m_def split: Option.bind_splits if_splits)
      then show ?thesis using put_counted [OF c f(2) f(3) f(1)] by blast
    next
      case (Some n)
      let ?k = "set_fd (k_current c k) n f (get_file f k)"
      have "fds_counted T ?k" by (rule install_counted [OF c(1,2) c(3) c(3) f(2,3,1) Some])
      moreover have "\<exists>a b. k' = set_cloexec (k_current c k) n a (set_cloexec (k_current c k) n b ?k)"
        using r f(1) m False Some by (auto simp: ksys_fcntl_def install_fd_min_def Let_def simp flip: f_def m_def split: if_splits)
      ultimately show ?thesis by auto
    qed
  qed (use r f(1) False c(1) in \<open>auto simp: ksys_fcntl_def Let_def simp flip: f_def m_def split: if_splits\<close>)
qed

lemma close_fd_counted:
  assumes c: "fds_counted T k" "finite T" "t \<in> T" and r: "close_fd c' t fd k = Some (r, k')"
  shows "fds_counted T k'"
  using c r close_counted(1) [OF c, of fd _ c' k'] by (auto simp: close_fd_def split: if_splits Option.bind_splits)

subsection \<open>New files\<close>

text \<open>The pool of the allocators stays where it is, so that no allocated object is the static \<open>uart_file\<close>.\<close>

lemma mem_start_alloc_scan: "mem_start (snd (alloc_scan order k s)) = mem_start s"
  by (induction order k s rule: alloc_scan.induct)
    (subst alloc_scan.simps, auto simp: free_list_pop_def Let_def split: prod.splits list.splits)

lemma mem_start_pages [simp]:
  "mem_start (snd (alloc_pages order s)) = mem_start s" "mem_start (free_pages a order s) = mem_start s"
  by (simp_all add: alloc_pages_def mem_start_alloc_scan free_pages_def Let_def split: option.splits)

lemma mem_start_kmalloc: "mem_start (pg (snd (kmalloc n h))) = mem_start (pg h)"
proof -
  have a: "alloc_pages order p = (r, q) \<Longrightarrow> mem_start q = mem_start p" for order p r q using mem_start_pages(1) [of order p] by simp
  have c: "mem_start (pg (snd (slab_create c h))) = mem_start (pg h)" for c h
    by (auto simp: slab_create_def Let_def dest!: a split: prod.splits option.splits)
  have t: "mem_start (pg (snd (slab_to_use c h))) = mem_start (pg h)" for c h
    using c [of c h] by (auto simp: slab_to_use_def partial_link_def Let_def split: prod.splits option.splits list.splits)
  have "mem_start (pg (snd (kmem_cache_alloc c h))) = mem_start (pg h)" for c h
    using t [of c h] by (auto simp: kmem_cache_alloc_def partial_unlink_def Let_def split: prod.splits option.splits list.splits)
  moreover have "mem_start (pg (snd (alloc_large n h))) = mem_start (pg h)" for n h
    by (auto simp: alloc_large_def Let_def dest!: a split: prod.splits option.splits)
  ultimately show ?thesis by (simp add: kmalloc_def Let_def split: option.splits)
qed

lemma kvalid_in_pool:
  assumes inv: "slub_inv h" and v: "kvalid h r x"
  shows "unat (mem_start (pg h)) \<le> unat x"
proof -
  obtain b sl where b: "block_valid (pg h) (slab_order sl) b" "kextent r x \<subseteq> block_extent (slab_order sl) b" using kvalidE [OF inv v] by metis
  have "0 < rlen r" using kvalid_nonempty [OF inv v] by (simp add: kextent_def)
  then have "unat b \<le> unat x" using b(2) by (auto simp: kextent_def block_extent_def subset_iff)
  moreover obtain p where p: "b = pfn_to_addr (pg h) p" "block_ok (pg h) p (slab_order sl)" using b(1) by (auto simp: block_valid_def)
  have "pool_ok (pg h)" "p \<le> pool_pages (pg h)" using slub_invD(1) [OF inv] p(2) by (auto simp: page_inv_def block_ok_def)
  then have "unat (mem_start (pg h)) \<le> unat b" using unat_pfn_to_addr p(1) by simp
  ultimately show ?thesis by simp
qed

text \<open>Every file that a descriptor names is a live object of the slab allocator, or the static one.\<close>

definition files_live :: "u64 set \<Rightarrow> kernel \<Rightarrow> bool" where
  "files_live T k \<longleftrightarrow> slub_inv (heap (fsys k)) \<and> unat (uart_file k) < unat (mem_start (pg (heap (fsys k)))) \<and>
     (\<forall>p\<in>fd_slots T. fd_slot k p \<noteq> 0 \<longrightarrow> fd_slot k p \<noteq> uart_file k \<longrightarrow> kvalid (heap (fsys k)) (Kmalloc sizeof_file) (fd_slot k p))"

lemma kmalloc_fresh:
  assumes l: "files_live T k" and n: "unat n + 40 \<le> 2 ^ 27" and a: "k_kmalloc n k = (Some x, k1)"
  shows "files_live T k1" "x \<noteq> 0" "uses (fd_slots T) (fd_slot k) x = 0" "kvalid (heap (fsys k1)) (Kmalloc n) x"
    "kvalid (heap (fsys k)) q y \<Longrightarrow> kvalid (heap (fsys k1)) q y \<and> y \<noteq> x"
    "fd_slot k1 = fd_slot k" "files k1 = files k" "sch k1 = sch k"
proof -
  obtain s where s: "fs_kmalloc n (fsys k) = (Some x, s)" and k1: "k1 = k\<lparr>fsys := s\<rparr>" using a by (auto simp: k_kmalloc_def split: prod.splits)
  have inv: "slub_inv (heap (fsys k))" using l by (simp add: files_live_def)
  note m = fs_kmalloc_some [OF inv n s]
  have "mem_start (pg (heap s)) = mem_start (pg (heap (fsys k)))"
    using s mem_start_kmalloc [of n "heap (fsys k)"] by (auto simp: fs_kmalloc_def split: prod.splits)
  then show l1: "files_live T k1" using l m(2) m(5) by (simp add: files_live_def k1 fd_slot_def)
  show "x \<noteq> 0" "kvalid (heap (fsys k1)) (Kmalloc n) x" "kvalid (heap (fsys k)) q y \<Longrightarrow> kvalid (heap (fsys k1)) q y \<and> y \<noteq> x"
    "fd_slot k1 = fd_slot k" "files k1 = files k" "sch k1 = sch k"
    using m by (simp_all add: k1 fd_slot_def)
  have "unat (mem_start (pg (heap (fsys k1)))) \<le> unat x" using kvalid_in_pool m(2,3) by (simp add: k1)
  then have "x \<noteq> uart_file k" using l1 by (auto simp: files_live_def k1)
  then have "fd_slot k p \<noteq> x" if "p \<in> fd_slots T" for p
    using l m(4) m(5) that by (auto simp: files_live_def)
  then have "{p \<in> fd_slots T. fd_slot k p = x} = {}" by auto
  then show "uses (fd_slots T) (fd_slot k) x = 0" by (simp only: uses_def card.empty)
qed

text \<open>Accounts in which the kernel holds references that no descriptor names yet.\<close>

abbreviation (input) counted_with :: "u64 set \<Rightarrow> (u64 \<Rightarrow> int) \<Rightarrow> kernel \<Rightarrow> bool" where
  "counted_with T e k \<equiv> balanced (fd_slots T) e 0 (fd_slot k) (file_refs k)"

lemma alloc_file_counted:
  assumes c: "counted_with T e k" "files_live T k" "e f = 0" and a: "alloc_file k = (f, k1)" "f \<noteq> 0"
  shows "counted_with T (e(f := 1)) k1" "files_live T k1" "fd_slot k1 = fd_slot k" "sch k1 = sch k" "uses (fd_slots T) (fd_slot k) f = 0"
    "kvalid (heap (fsys k1)) (Kmalloc sizeof_file) f" "kvalid (heap (fsys k)) q y \<Longrightarrow> kvalid (heap (fsys k1)) q y \<and> y \<noteq> f"
proof -
  obtain k0 g where k0: "k_kmalloc sizeof_file k = (Some f, k0)" and k1: "k1 = upd_file f g k0" "\<And>x. f_refcount (g x) = 1"
    using a by (auto simp: alloc_file_def split: prod.splits option.splits)
  have n: "unat sizeof_file + 40 \<le> 2 ^ 27" by simp
  note m = kmalloc_fresh [OF c(2) n k0]
  have sl: "fd_slot k1 = fd_slot k" using m(6) by (simp add: k1 fd_slot_def)
  show "uses (fd_slots T) (fd_slot k) f = 0" "kvalid (heap (fsys k1)) (Kmalloc sizeof_file) f" "fd_slot k1 = fd_slot k" "sch k1 = sch k"
    "kvalid (heap (fsys k)) q y \<Longrightarrow> kvalid (heap (fsys k1)) q y \<and> y \<noteq> f"
    using m sl by (simp_all add: k1)
  show "files_live T k1" using m(1,6) sl by (simp add: files_live_def k1)
  have "file_refs k1 = (file_refs k)(f := 1)" using m(7) by (auto simp: file_refs_def k1 fun_eq_iff)
  then show "counted_with T (e(f := 1)) k1" using c(1) m(3) by (simp add: balanced_def sl)
qed

lemma upd_file_counted:
  "(\<And>x. f_refcount (g x) = f_refcount x) \<Longrightarrow> counted_with T e (upd_file f g k) \<longleftrightarrow> counted_with T e k"
  "fd_slot (upd_file f g k) = fd_slot k"
proof -
  show s: "fd_slot (upd_file f g k) = fd_slot k" by (simp add: fd_slot_def)
  assume "\<And>x. f_refcount (g x) = f_refcount x"
  then have "file_refs (upd_file f g k) = file_refs k" by (auto simp: file_refs_def)
  then show "counted_with T e (upd_file f g k) \<longleftrightarrow> counted_with T e k" by (simp add: s)
qed

lemma install_with:
  assumes c: "counted_with T e k" and T: "finite T" "t \<in> T" and fd: "free_fd m (k_files t k) = Some fd"
  shows "counted_with T (e(f := e f - 1)) (set_fd t fd f k)"
proof -
  have "fd < NR_OPEN" "k_files t k fd = 0" using fd by (simp_all add: free_fd_Some)
  then have "counted_with T (\<lambda>b. e b + of_bool (fd_slot k (t, fd) = b) - of_bool (f = b)) (set_fd t fd f k)" "fd_slot k (t, fd) = 0"
    using fdt.store_balanced [of "fd_slots T" e k "(t, fd)" f] c T by (simp_all add: finite_slots fd_slot_def [where k = k])
  then show ?thesis by (auto elim!: balanced_cong)
qed

lemma open_counted:
  assumes c: "fds_counted T k" "files_live T k" "finite T" "t \<in> T" and a: "alloc_file k = (f, k1)" "f \<noteq> 0"
    and g: "\<And>x. f_refcount (g x) = f_refcount x" and i: "install_fd_flags t f flags (upd_file f g k1) = (r, k2)"
    and k3: "(if r < 0 then fput c' f k2 else Some k2) = Some k3"
  shows "fds_counted T k3"
proof -
  have z: "counted_with T (\<lambda>_. 0) k" using c(1) by (simp add: fds_counted_def)
  note n = alloc_file_counted [OF z c(2) refl a]
  define e :: "u64 \<Rightarrow> int" where "e = (\<lambda>_. 0)(f := 1)"
  have k: "counted_with T e (upd_file f g k1)" using n(1) by (simp only: upd_file_counted(1) [OF g] e_def)
  show ?thesis
  proof (cases "free_fd 0 (k_files t (upd_file f g k1))")
    case None
    then have "r < 0" "k2 = upd_file f g k1" using i by (auto simp: install_fd_flags_def install_fd_def Let_def)
    then have "fput c' f (upd_file f g k1) = Some k3" using k3 by simp
    from fdt.put_balanced [OF k a(2) _ this] n(5) show ?thesis by (auto simp: e_def fds_counted_def upd_file_counted(2) n(3) elim!: balanced_cong)
  next
    case (Some fd)
    from install_with [OF k c(3,4) Some, of f] have "fds_counted T (set_fd t fd f (upd_file f g k1))"
      by (auto simp: e_def fds_counted_def elim!: balanced_cong)
    then show ?thesis using i k3 Some by (auto simp: install_fd_flags_def install_fd_def Let_def split: if_splits)
  qed
qed

lemma alloc_file_new:
  assumes "files_live T k" "alloc_file k = (f, k1)" "f \<noteq> 0" "kvalid (heap (fsys k)) q y"
  shows "y \<noteq> f"
proof -
  obtain k0 where "k_kmalloc sizeof_file k = (Some f, k0)" using assms(2,3) by (auto simp: alloc_file_def split: prod.splits option.splits)
  from kmalloc_fresh(5) [OF assms(1) _ this assms(4)] show ?thesis by simp
qed

lemma alloc_file_null:
  assumes "files_live T k" "alloc_file k = (0, k1)"
  shows "fd_slot k1 = fd_slot k \<and> file_refs k1 = file_refs k \<and> sch k1 = sch k"
proof (cases "k_kmalloc sizeof_file k")
  case (Pair x k0)
  have "x = None" using assms(2) Pair kmalloc_fresh(2) [OF assms(1), of sizeof_file _ k0] by (cases x) (auto simp: alloc_file_def)
  then show ?thesis using assms(2) Pair by (auto simp: alloc_file_def k_kmalloc_def fd_slot_def file_refs_def split: prod.splits)
qed

lemma counted_kfree [simp]: "counted_with T e (k_kfree a k) \<longleftrightarrow> counted_with T e k"
proof -
  have "fd_slot (k_kfree a k) = fd_slot k" "file_refs (k_kfree a k) = file_refs k" by (auto simp: fd_slot_def file_refs_def)
  then show ?thesis by simp
qed

text \<open>Dropping one or two references that no descriptor names.\<close>

lemma put_new:
  assumes "counted_with T e k" "f \<noteq> 0" "e f = 1" "fput c f k = Some k'"
  shows "counted_with T (e(f := 0)) k'"
proof -
  have "0 < int (uses (fd_slots T) (fd_slot k) f) + e f" using assms(3) by simp
  from fdt.put_balanced [OF assms(1,2) this assms(4)] show ?thesis using assms(3) by simp
qed

lemma put_new2:
  assumes "counted_with T e k" "f \<noteq> 0" "g \<noteq> 0" "f \<noteq> g" "e f = 1" "e g = 1" "fput c f k = Some k1" "fput c g k1 = Some k2"
    and "\<And>x. x \<noteq> f \<Longrightarrow> x \<noteq> g \<Longrightarrow> e x = 0"
  shows "fds_counted T k2"
proof -
  have "counted_with T ((e(f := 0))(g := 0)) k2"
    using put_new [OF put_new [OF assms(1,2,5,7)] assms(3) _ assms(8)] assms(4,6) by simp
  then show ?thesis unfolding fds_counted_def by (rule balanced_cong) (use assms(9) in auto)
qed

text \<open>The part of \<open>pipe2\<close> that installs the two files.\<close>

lemma pipe2_install_counted:
  assumes c: "counted_with T ((\<lambda>_. 0)(r := 1, w := 1)) k" and T: "finite T" "t \<in> T" and n: "r \<noteq> 0" "w \<noteq> 0" "r \<noteq> w"
    and i: "(let (fd0, k7) = install_fd t r k in
         if fd0 < 0 then do { k8 \<leftarrow> fput c r k7; k9 \<leftarrow> fput c w k8; Some (fd0, None, k9) }
         else
           let (fd1, k8) = install_fd t w k7 in
           if fd1 < 0 then do { k9 \<leftarrow> fput c r (set_fd t (nat fd0) 0 k8); k10 \<leftarrow> fput c w k9; Some (fd1, None, k10) }
           else Some (0, Some (fd0, fd1), if fl then set_cloexec t (nat fd1) True (set_cloexec t (nat fd0) True k8) else k8)) =
       Some (res, fds, k')"
  shows "fds_counted T k'"
proof (cases "free_fd 0 (k_files t k)")
  case None
  then obtain k8 where k8: "fput c r k = Some k8" "fput c w k8 = Some k'" using i by (auto simp: install_fd_def split: Option.bind_splits)
  show ?thesis by (rule put_new2 [OF c n _ _ k8]) (use n in auto)
next
  case (Some fd)
  let ?k = "set_cloexec t fd False (set_fd t fd r k)"
  have fd: "fd < NR_OPEN" using Some by (simp add: free_fd_Some)
  have q: "counted_with T e (set_cloexec u i b k) \<longleftrightarrow> counted_with T e k" for e u i b k
  proof -
    have "fd_slot (set_cloexec u i b k) = fd_slot k" "file_refs (set_cloexec u i b k) = file_refs k" by (auto simp: fd_slot_def file_refs_def)
    then show ?thesis by simp
  qed
  have "counted_with T ((\<lambda>_. 0)(w := 1)) ?k" unfolding q using install_with [OF c T Some, of r] by (rule balanced_cong) (use n in auto)
  note k = this
  show ?thesis
  proof (cases "free_fd 0 (k_files t ?k)")
    case None
    then obtain k9 where k9: "fput c r (set_fd t fd 0 ?k) = Some k9" "fput c w k9 = Some k'"
      using i Some by (auto simp: install_fd_def split: Option.bind_splits)
    have "fd_slot ?k (t, fd) = r" by (simp add: fd_slot_def)
    then have "counted_with T ((\<lambda>_. 0)(r := 1, w := 1)) (set_fd t fd 0 ?k)"
      using fdt.store_balanced [OF k, of "(t, fd)" 0] fd T n by (auto simp: finite_slots elim!: balanced_cong)
    then show ?thesis by (rule put_new2 [OF _ n _ _ k9]) (use n in auto)
  next
    case (Some fd')
    have "fds_counted T (set_fd t fd' w ?k)"
      unfolding fds_counted_def using install_with [OF k T Some, of w] by (rule balanced_cong) (use n in auto)
    then show ?thesis using i \<open>free_fd 0 (k_files t k) = _\<close> Some by (auto simp: install_fd_def split: if_splits)
  qed
qed

lemma pipe2_counted:
  assumes c: "fds_counted T k" "files_live T k" "finite T" "k_current c k \<in> T" and res: "ksys_pipe2 c b flags k = Some (res, fds, k')"
  shows "fds_counted T k'"
proof (cases "k_current c k = 0 \<or> \<not> t_is_user (tasks (sch k) (k_current c k)) \<or> \<not> b \<or> flags AND NOT (O_CLOEXEC OR O_NONBLOCK) \<noteq> 0")
  case True
  then have "k' = k" using res by (auto simp: ksys_pipe2_def Let_def split: if_splits)
  then show ?thesis using c by simp
next
  case ok: False
  let ?t = "k_current c k"
  have g: "(?t = 0 \<or> \<not> t_is_user (tasks (sch k) ?t)) = False" "(\<not> b) = False" "(flags AND NOT (O_CLOEXEC OR O_NONBLOCK) \<noteq> 0) = False"
    using ok by auto
  note res = res [unfolded ksys_pipe2_def Let_def g if_False]
  show ?thesis
  proof (cases "k_kmalloc sizeof_pipe k")
    case (Pair x k1)
    show ?thesis
    proof (cases x)
      case None
      then have "k' = k1" using res by (simp add: Pair)
      then show ?thesis using c(1) Pair by (auto simp: k_kmalloc_def split: prod.splits elim!: counted_frame)
    next
      case (Some p)
      define k2 where "k2 = k1\<lparr>pipes := (pipes k1)(p := pipe_init (p_buf (pipes k1 p)))\<rparr>"
      have "unat sizeof_pipe + 40 \<le> 2 ^ 27" by simp
      note m = kmalloc_fresh [OF c(2) this Pair [unfolded Some]]
      have k2: "counted_with T (\<lambda>_. 0) k2" "files_live T k2" "sch k2 = sch k"
        using c(1) m by (simp_all add: k2_def fds_counted_def files_live_def fd_slot_def file_refs_def [abs_def])
      obtain r k3 where r: "alloc_file k2 = (r, k3)" by (cases "alloc_file k2")
      obtain w k4 where w: "alloc_file k3 = (w, k4)" by (cases "alloc_file k3")
      note res = res [unfolded Pair Some prod.case option.case r [unfolded k2_def], unfolded w prod.case]
      show ?thesis
      proof (cases "r = 0")
        case True
        then have "k' = k_kfree p k3" using res by simp
        then show ?thesis using alloc_file_null [OF k2(2) r [unfolded True]] k2(1) by (simp add: fds_counted_def)
      next
        case r0: False
        note a = alloc_file_counted [OF k2(1,2) refl r r0]
        show ?thesis
        proof (cases "w = 0")
          case True
          let ?k = "upd_file r (\<lambda>x. x\<lparr>f_op := None, f_private := 0\<rparr>) k4"
          obtain k5 where k5: "fput c r ?k = Some k5" "k' = k_kfree p k5"
            using res r0 True by (auto split: Option.bind_splits)
          have "counted_with T ((\<lambda>_. 0)(r := 1)) k4" using alloc_file_null [OF a(2) w [unfolded True]] a(1) by simp
          then have "counted_with T ((\<lambda>_. 0)(r := 1)) ?k" by (subst upd_file_counted(1)) simp_all
          from put_new [OF this r0 _ k5(1)] k5(2) show ?thesis by (simp add: fds_counted_def fun_upd_idem)
        next
          case w0: False
          have wr: "r \<noteq> w" using alloc_file_new [OF a(2) w w0 a(6)] .
          then have "((\<lambda>_. 0)(r := 1)) w = (0 :: int)" by simp
          note aw = alloc_file_counted [OF a(1,2) this w w0]
          let ?k5 = "upd_file r (\<lambda>x. x\<lparr>f_op := Some Pipe_Read_Ops, f_private := p, f_flags := O_RDONLY OR (flags AND O_NONBLOCK)\<rparr>) k4"
          let ?k6 = "upd_file w (\<lambda>x. x\<lparr>f_op := Some Pipe_Write_Ops, f_private := p, f_flags := O_WRONLY OR (flags AND O_NONBLOCK)\<rparr>) ?k5"
          have "counted_with T ((\<lambda>_. 0)(r := 1, w := 1)) ?k6"
            by (subst upd_file_counted(1), simp, subst upd_file_counted(1), simp, rule aw(1))
          note k6 = this
          have z: "(r = 0) = False" "(w = 0) = False" using r0 w0 by simp_all
          show ?thesis by (rule pipe2_install_counted [OF k6 c(3,4) r0 w0 wr, unfolded Let_def, OF res [unfolded z if_False]])
        qed
      qed
    qed
  qed
qed

lemma get_set_fd: "get_file f (set_fd t fd g k) = set_fd t fd g (get_file f k)"
  by (simp add: get_file_def set_fd_def k_task_def upd_file_def)

lemma copy_counted:
  assumes T: "finite T" "child \<notin> T" "parent \<in> T"
  shows "fds_counted (insert child T) k \<Longrightarrow> distinct is \<Longrightarrow> (\<forall>i\<in>set is. i < NR_OPEN \<and> k_files child k i = 0) \<Longrightarrow>
    fds_counted (insert child T)
      (fold (\<lambda>i k. let f = k_files parent k i; k1 = set_fd child i f k in if f \<noteq> 0 then get_file f k1 else k1) is k)"
proof (induction "is" arbitrary: k)
  case (Cons i "is")
  let ?f = "k_files parent k i"
  let ?k = "if ?f \<noteq> 0 then set_fd child i ?f (get_file ?f k) else set_fd child i 0 k"
  have p: "parent \<noteq> child" using T by auto
  have i: "i < NR_OPEN" "k_files child k i = 0" using Cons.prems(3) by simp_all
  have "fds_counted (insert child T) ?k"
  proof (cases "?f = 0")
    case True
    then show ?thesis using Cons.prems(1) i(2) by (auto elim!: counted_frame)
  next
    case False
    have s: "fd_slot k (parent, i) = ?f" "fd_slot k (child, i) = 0" using i by (simp_all add: fd_slot_def)
    then show ?thesis
      using fdt.share_balanced [of "fd_slots (insert child T)" k "(parent, i)" "(child, i)" ?f] Cons.prems(1) i(1) T False
      by (simp add: fds_counted_def finite_slots)
  qed
  moreover have "\<forall>j\<in>set is. j < NR_OPEN \<and> k_files child ?k j = 0" using Cons.prems(2,3) by auto
  ultimately have "fds_counted (insert child T)
      (fold (\<lambda>i k. let f = k_files parent k i; k1 = set_fd child i f k in if f \<noteq> 0 then get_file f k1 else k1) is ?k)"
    using Cons.IH Cons.prems(2) by simp
  then show ?case by (cases "?f = 0") (simp_all add: Let_def get_set_fd)
qed simp

lemma fork_counted:
  assumes c: "fds_counted T k" and T: "finite T" "child \<notin> T" "parent \<in> T"
  shows "fds_counted (insert child T) (copy_task_files child parent (task_zero child k))"
proof -
  let ?z = "k_task child (\<lambda>x. x\<lparr>t_close_on_exec := t_close_on_exec (tasks (sch (task_zero child k)) parent)\<rparr>) (task_zero child k)"
  have z: "k_files child ?z i = 0" for i by (simp add: task_zero_def)
  have "fds_counted T ?z" using c by (rule counted_frame) (use T in \<open>auto simp: task_zero_def\<close>)
  then have "balanced (fd_slots T \<union> {child} \<times> {..<NR_OPEN}) (\<lambda>_. 0) 0 (fd_slot ?z) (file_refs ?z)"
    unfolding fds_counted_def by (rule balanced_grow) (auto simp: fd_slot_def task_zero_def)
  moreover have "fd_slots T \<union> {child} \<times> {..<NR_OPEN} = fd_slots (insert child T)" by (auto simp: fd_slots_def)
  ultimately have "fds_counted (insert child T) ?z" by (simp add: fds_counted_def)
  from copy_counted [OF T this, of "[0..<NR_OPEN]"] z show ?thesis unfolding copy_task_files_def by simp
qed

lemma exit_loop_counted:
  "fds_counted T k \<Longrightarrow> finite T \<Longrightarrow> t \<in> T \<Longrightarrow> \<forall>i\<in>set is. i < NR_OPEN \<Longrightarrow> exit_files_loop c t is k = Some k' \<Longrightarrow> fds_counted T k'"
proof (induction "is" arbitrary: k)
  case (Cons i "is")
  show ?case
  proof (cases "k_files t k i = 0")
    case False
    then obtain k1 where k1: "fput c (k_files t k i) k = Some k1" "exit_files_loop c t is (set_fd t i 0 k1) = Some k'"
      using Cons.prems(5) by (auto split: Option.bind_splits)
    have "fds_counted T (set_fd t i 0 k1)" using close_counted(2) [OF Cons.prems(1,2,3) _ refl False k1(1)] Cons.prems(4) by simp
    then show ?thesis using Cons.IH k1(2) Cons.prems by simp
  qed (use Cons in simp)
qed simp

lemma cloexec_loop_counted:
  "fds_counted T k \<Longrightarrow> finite T \<Longrightarrow> t \<in> T \<Longrightarrow> \<forall>i\<in>set is. i < NR_OPEN \<Longrightarrow> close_on_exec_loop c t is k = Some k' \<Longrightarrow> fds_counted T k'"
proof (induction "is" arbitrary: k)
  case (Cons i "is")
  show ?case
  proof (cases "bit (t_close_on_exec (tasks (sch k) t)) i")
    case True
    then obtain k1 where k1: "(if k_files t k i \<noteq> 0 then map_option (set_fd t i 0) (fput c (k_files t k i) k) else Some k) = Some k1"
      and k': "close_on_exec_loop c t is (set_cloexec t i False k1) = Some k'"
      using Cons.prems(5) by (auto split: Option.bind_splits)
    have "fds_counted T k1"
    proof (cases "k_files t k i = 0")
      case False
      then obtain k0 where "fput c (k_files t k i) k = Some k0" "k1 = set_fd t i 0 k0" using k1 by auto
      then show ?thesis using close_counted(2) [OF Cons.prems(1,2,3) _ refl False] Cons.prems(4) by simp
    qed (use k1 Cons.prems in simp)
    then have "fds_counted T (set_cloexec t i False k1)" by simp
    from Cons.IH [OF this Cons.prems(2,3) _ k'] Cons.prems(4) show ?thesis by simp
  qed (use Cons in simp)
qed simp

subsection \<open>Histories\<close>

text \<open>
  The states that the descriptor tables of a changing set of tasks go through.  Fork adds a task, reaping removes one
  whose table is empty, and every other activity of the kernel leaves the tables of these tasks and the counts as
  they are.  A file is created by the end of \<open>openat\<close>, which allocates it, fills it in and installs it, or by \<open>pipe2\<close>.
\<close>

inductive fd_reach :: "u64 set \<Rightarrow> kernel \<Rightarrow> u64 set \<Rightarrow> kernel \<Rightarrow> bool" for T0 k0 where
  start: "fd_reach T0 k0 T0 k0"
| dup: "fd_reach T0 k0 T k \<Longrightarrow> k_current c k \<in> T \<Longrightarrow> ksys_dup c fd k = Some (r, k') \<Longrightarrow> fd_reach T0 k0 T k'"
| dup2: "fd_reach T0 k0 T k \<Longrightarrow> k_current c k \<in> T \<Longrightarrow> ksys_dup2 c fd new k = Some (r, k') \<Longrightarrow> fd_reach T0 k0 T k'"
| dup3: "fd_reach T0 k0 T k \<Longrightarrow> k_current c k \<in> T \<Longrightarrow> ksys_dup3 c fd new flags k = Some (r, k') \<Longrightarrow> fd_reach T0 k0 T k'"
| fcntl: "fd_reach T0 k0 T k \<Longrightarrow> k_current c k \<in> T \<Longrightarrow> ksys_fcntl c fd cmd arg k = Some (r, k') \<Longrightarrow> fd_reach T0 k0 T k'"
| close: "fd_reach T0 k0 T k \<Longrightarrow> k_current c k \<in> T \<Longrightarrow> ksys_close c fd k = Some (r, k') \<Longrightarrow> fd_reach T0 k0 T k'"
| pipe2: "fd_reach T0 k0 T k \<Longrightarrow> k_current c k \<in> T \<Longrightarrow> files_live T k \<Longrightarrow>
    ksys_pipe2 c b flags k = Some (r, fds, k') \<Longrightarrow> fd_reach T0 k0 T k'"
| opened: "fd_reach T0 k0 T k \<Longrightarrow> t \<in> T \<Longrightarrow> files_live T k \<Longrightarrow> alloc_file k = (f, k1) \<Longrightarrow> f \<noteq> 0 \<Longrightarrow>
    (\<And>x. f_refcount (g x) = f_refcount x) \<Longrightarrow> install_fd_flags t f flags (upd_file f g k1) = (r, k2) \<Longrightarrow>
    (if r < 0 then fput c f k2 else Some k2) = Some k' \<Longrightarrow> fd_reach T0 k0 T k'"
| exec: "fd_reach T0 k0 T k \<Longrightarrow> t \<in> T \<Longrightarrow> close_on_exec_fds c t k = Some k' \<Longrightarrow> fd_reach T0 k0 T k'"
| exit: "fd_reach T0 k0 T k \<Longrightarrow> t \<in> T \<Longrightarrow> exit_files c t k = Some k' \<Longrightarrow> fd_reach T0 k0 T k'"
| fork: "fd_reach T0 k0 T k \<Longrightarrow> parent \<in> T \<Longrightarrow> child \<notin> T \<Longrightarrow>
    fd_reach T0 k0 (insert child T) (copy_task_files child parent (task_zero child k))"
| reap: "fd_reach T0 k0 T k \<Longrightarrow> (\<And>i. i < NR_OPEN \<Longrightarrow> k_files t k i = 0) \<Longrightarrow> fd_reach T0 k0 (T - {t}) k"
| other: "fd_reach T0 k0 T k \<Longrightarrow> (\<And>t. t \<in> T \<Longrightarrow> k_files t k' = k_files t k) \<Longrightarrow>
    (\<And>f. f_refcount (files k' f) = f_refcount (files k f)) \<Longrightarrow> fd_reach T0 k0 T k'"

lemma reap_counted:
  assumes "fds_counted T k" "\<And>i. i < NR_OPEN \<Longrightarrow> k_files t k i = 0"
  shows "fds_counted (T - {t}) k"
proof -
  have "{p \<in> fd_slots (T - {t}). fd_slot k p = a} = {p \<in> fd_slots T. fd_slot k p = a}" if "a \<noteq> 0" for a
    using assms(2) that by (auto simp: fd_slot_def)
  then show ?thesis using assms(1) by (simp add: fds_counted_def balanced_def uses_def)
qed

lemma reach_counted:
  assumes "fd_reach T0 k0 T k" "finite T0" "fds_counted T0 k0"
  shows "finite T \<and> fds_counted T k"
  using assms(1)
proof induction
  case (dup2 T k c fd new r k')
  then show ?case using dup3_counted [of T k c fd new 0 r k'] by (auto simp: ksys_dup2_def split: if_splits)
next
  case (close T k c fd r k')
  then show ?case using close_fd_counted [of T k "k_current c k" c fd r k'] by (auto simp: ksys_close_def Let_def split: if_splits)
next
  case (exec T k t c k')
  then show ?case using cloexec_loop_counted [of T k t "[0..<NR_OPEN]" c k'] by (auto simp: close_on_exec_fds_def split: if_splits)
next
  case (exit T k t c k')
  then show ?case using exit_loop_counted [of T k t "[0..<NR_OPEN]" c k'] by (auto simp: exit_files_def)
next
  case (opened T k t f k1 g flags r k2 c k')
  then show ?case using open_counted [of T k t f k1 g flags r k2 c k'] by blast
next
  case (other T k k')
  then show ?case using counted_frame [of T k k'] by blast
next
  case (dup T k c fd r k')
  then show ?case using dup_counted [of T k c fd r k'] by simp
next
  case (dup3 T k c fd new flags r k')
  then show ?case using dup3_counted [of T k c fd new flags r k'] by simp
next
  case (fcntl T k c fd cmd arg r k')
  then show ?case using fcntl_counted [of T k c fd cmd arg r k'] by simp
next
  case (pipe2 T k c b flags r fds k')
  then show ?case using pipe2_counted [of T k c b flags r fds k'] by simp
next
  case (fork T k parent child)
  then show ?case using fork_counted [of T k child parent] by simp
next
  case (reap T k t)
  then show ?case using reap_counted [of T k t] by simp
qed (use assms in simp)


text \<open>A shell with the console as its three standard descriptors.\<close>

definition shell_kernel :: kernel where
  "shell_kernel =
     \<lparr>sch = upd_task 0x100 (\<lambda>x. x\<lparr>t_files := (\<lambda>_. 0)(0 := 0x9000, 1 := 0x9000, 2 := 0x9000)\<rparr>) two_tasks, fsys = sample_fs,
      files = (\<lambda>_. \<lparr>f_refcount = 3, f_inode = 0, f_op = Some Tty_Fops, f_private = 0, f_pos = 0, f_flags = 0, f_mode = 0\<rparr>),
      pipes = (\<lambda>_. pipe_init (\<lambda>_. 0)), dentries = (\<lambda>_. \<lparr>de_name = [], de_inode = 0, de_parent = 0, de_children = []\<rparr>),
      root_dentry = 0, uart_file = 0x9000, chrdevs = (\<lambda>_. None), proc_root = 0, tty0 = terminal, uart0 = line0,
      comms = (\<lambda>_. []), cmdlines = (\<lambda>_. []), mms = (\<lambda>_. stack_mm), ptes = (\<lambda>_ _. 0), next_pid = 4\<rparr>"

lemma shell_counted: "fds_counted {0x100} shell_kernel"
proof -
  have "{p \<in> fd_slots {0x100}. fd_slot shell_kernel p = f} = (if f = 0x9000 then {0x100} \<times> {0, 1, 2} else {})" if "f \<noteq> 0" for f
    using that by (auto simp: fd_slots_def fd_slot_def shell_kernel_def upd_task_def two_tasks_def task0_def split: if_splits)
  then show ?thesis by (auto simp: fds_counted_def balanced_def uses_def file_refs_def shell_kernel_def split: if_splits)
qed


end
