(* ===== verification/Irq.thy ===== *)
theory Irq
  imports Kernel
begin

text \<open>
  Interrupts: \<^verbatim>\<open>kernel/irq.c\<close> and the timer part of \<^verbatim>\<open>kernel/time/tick.c\<close>.  The interrupt controller is a device: an
  operation on it yields the list of its register writes, and what it reads is an argument \<open>rd\<close>, which gives the value
  of the \<open>i\<close>-th read of a register.  The handler takes the number that it reads from the acknowledge register.
\<close>

abbreviation (input) ETIMEDOUT :: int where "ETIMEDOUT \<equiv> 110"
abbreviation (input) IPI_RESCHEDULE :: nat where "IPI_RESCHEDULE \<equiv> 0"
abbreviation (input) IRQ_TIMER :: nat where "IRQ_TIMER \<equiv> 30"
abbreviation (input) IRQ_UART :: nat where "IRQ_UART \<equiv> 33"
abbreviation (input) IRQ_NONE :: nat where "IRQ_NONE \<equiv> 1023"
abbreviation (input) GIC_TIMEOUT :: nat where "GIC_TIMEOUT \<equiv> 1000000"

datatype gic_reg =
  GICD_CTLR | GICD_IGROUPR nat | GICD_ISENABLER nat | GICD_IPRIORITYR nat | GICD_SGIR | GICD_IROUTER nat | GICD_PIDR2
| GICC_CTLR | GICC_PMR | GICC_EOIR
| GICR_WAKER nat | GICR_IGROUPR0 nat | GICR_ISENABLER0 nat | GICR_IPRIORITYR nat nat
| ICC_SRE_EL1 | ICC_PMR_EL1 | ICC_BPR1_EL1 | ICC_IGRPEN1_EL1 | ICC_IGRPEN0_EL1 | ICC_SGI1R_EL1 | ICC_EOIR1_EL1

type_synonym gic_reads = "gic_reg \<Rightarrow> nat \<Rightarrow> u64"
type_synonym gic_writes = "(gic_reg \<times> u64) list"

subsection \<open>The controller\<close>

text \<open>\<open>while ((*reg & mask) && --timeout);\<close> from the \<open>i\<close>-th read on; the result is what is left of the timeout.\<close>

fun poll_clear :: "u64 \<Rightarrow> (nat \<Rightarrow> u64) \<Rightarrow> nat \<Rightarrow> nat \<Rightarrow> nat" where
  "poll_clear msk r i 0 = 0"
| "poll_clear msk r i (Suc n) =
     (if r i AND msk = 0 then Suc n else if n = 0 then 0 else poll_clear msk r (Suc i) n)"

definition gicr_wait_ready :: "nat \<Rightarrow> gic_reads \<Rightarrow> int \<times> gic_writes" where
  "gicr_wait_ready cpu rd =
     (if poll_clear 4 (rd (GICR_WAKER cpu)) 1 GIC_TIMEOUT \<noteq> 0 then 0 else - ETIMEDOUT,
      [(GICR_WAKER cpu, rd (GICR_WAKER cpu) 0 AND NOT 2)])"

definition gic_v3_redist_init :: "nat \<Rightarrow> gic_reads \<Rightarrow> int \<times> gic_writes" where
  "gic_v3_redist_init cpu rd =
     (let (err, ws) = gicr_wait_ready cpu rd in
      if err < 0 then (- ETIMEDOUT, ws)
      else (0, ws @ [(GICR_IGROUPR0 cpu, 0xffffffff),
        (GICR_ISENABLER0 cpu, push_bit IPI_RESCHEDULE 1 OR push_bit IRQ_TIMER 1),
        (GICR_IPRIORITYR cpu IPI_RESCHEDULE, 0x80), (GICR_IPRIORITYR cpu IRQ_TIMER, 0x80)]))"

text \<open>The reads of the second loop are numbered from the timeout on.\<close>

definition gic_v3_dist_init :: "gic_reads \<Rightarrow> int \<times> gic_writes" where
  "gic_v3_dist_init rd =
     (if poll_clear (push_bit 31 1) (rd GICD_CTLR) 0 GIC_TIMEOUT = 0 then (- ETIMEDOUT, [(GICD_CTLR, 0)])
      else (if poll_clear (push_bit 31 1) (rd GICD_CTLR) GIC_TIMEOUT GIC_TIMEOUT \<noteq> 0 then 0 else - ETIMEDOUT,
        [(GICD_CTLR, 0), (GICD_CTLR, push_bit 4 1 OR push_bit 5 1 OR push_bit 1 1 OR 1)]))"

definition gic_v3_cpu_init :: "gic_reads \<Rightarrow> gic_writes" where
  "gic_v3_cpu_init rd =
     [(ICC_SRE_EL1, rd ICC_SRE_EL1 0 OR 1), (ICC_PMR_EL1, 0xff), (ICC_BPR1_EL1, 0), (ICC_IGRPEN1_EL1, 1), (ICC_IGRPEN0_EL1, 1)]"

definition gic_v3_init :: "gic_reads \<Rightarrow> int \<times> gic_writes" where
  "gic_v3_init rd =
     (let (err, ws) = gic_v3_dist_init rd in
      if err < 0 then (- ETIMEDOUT, ws)
      else
        let (err1, ws1) = gic_v3_redist_init 0 rd in
        if err1 < 0 then (- ETIMEDOUT, ws @ ws1) else (0, ws @ ws1 @ gic_v3_cpu_init rd))"

definition gic_secondary_init :: "bool \<Rightarrow> nat \<Rightarrow> gic_reads \<Rightarrow> gic_writes" where
  "gic_secondary_init gic_is_v3 cpu rd =
     (if \<not> gic_is_v3 then []
      else let (err, ws) = gic_v3_redist_init cpu rd in if err < 0 then ws else ws @ gic_v3_cpu_init rd)"

definition gic_v2_init :: "gic_reads \<Rightarrow> gic_writes" where
  "gic_v2_init rd =
     [(GICD_CTLR, 0), (GICD_IPRIORITYR IRQ_TIMER, 0x80), (GICD_IPRIORITYR IPI_RESCHEDULE, 0x80),
      (GICD_ISENABLER (IRQ_TIMER div 32), push_bit (IRQ_TIMER mod 32) 1),
      (GICD_ISENABLER 0, rd (GICD_ISENABLER 0) 0 OR push_bit IPI_RESCHEDULE 1), (GICD_CTLR, 1), (GICC_PMR, 0xff), (GICC_CTLR, 1)]"

text \<open>The result is \<open>gic_is_v3\<close>.\<close>

definition init_IRQ :: "gic_reads \<Rightarrow> bool \<times> gic_writes" where
  "init_IRQ rd =
     (let archrev = drop_bit 4 (rd GICD_PIDR2 0) AND 7;
          (err, ws) = (if archrev \<ge> 3 then gic_v3_init rd else (- 1, [])) in
      if err < 0 then (False, ws @ gic_v2_init rd) else (True, ws))"

definition irq_enable :: "bool \<Rightarrow> nat \<Rightarrow> gic_reads \<Rightarrow> gic_writes" where
  "irq_enable gic_is_v3 irq rd =
     (GICD_IPRIORITYR irq, 0x80) #
     (if gic_is_v3 then [(GICD_IGROUPR (irq div 32), rd (GICD_IGROUPR (irq div 32)) 0 OR push_bit (irq mod 32) 1), (GICD_IROUTER irq, 0)] else []) @
     [(GICD_ISENABLER (irq div 32), push_bit (irq mod 32) 1)]"

definition gic_send_sgi :: "bool \<Rightarrow> nat \<Rightarrow> nat \<Rightarrow> gic_writes" where
  "gic_send_sgi gic_is_v3 cpu sgi =
     (if cpu \<ge> NR_CPUS \<or> sgi > 15 then []
      else if gic_is_v3 then [(ICC_SGI1R_EL1, push_bit 24 (of_nat sgi) OR push_bit cpu 1)]
      else [(GICD_SGIR, push_bit (16 + cpu) 1 OR of_nat sgi)])"

subsection \<open>The timer\<close>

text \<open>\<open>tick_setup\<close> gives the new compare value of the timer of this CPU, from the counter \<open>cnt\<close>.\<close>

definition tick_setup :: "u64 \<Rightarrow> u64 \<Rightarrow> u64 option" where
  "tick_setup timer_freq cnt = (if timer_freq = 0 then None else Some (cnt + timer_freq div HZ))"

definition tick_init :: "u64 \<Rightarrow> u64 \<Rightarrow> u64 \<times> u64 option" where
  "tick_init cntfrq cnt = (let f = (if cntfrq = 0 then 62500000 else cntfrq) in (f, tick_setup f cnt))"

definition k_serial_irq :: "nat \<Rightarrow> kernel \<Rightarrow> kernel" where
  "k_serial_irq c k = (case serial_irq c (tty0 k, uart0 k, sch k) of (t, u, s) \<Rightarrow> k\<lparr>tty0 := t, uart0 := u, sch := s\<rparr>)"

definition handle_arch_tick :: "u64 \<Rightarrow> u64 \<Rightarrow> nat \<Rightarrow> kernel \<Rightarrow> u64 option \<times> kernel" where
  "handle_arch_tick timer_freq cnt c k =
     (let k1 = (if c = 0 then k_serial_irq c (k\<lparr>sch := tick_wake_sleepers c (do_timer (sch k))\<rparr>) else k) in
      (tick_setup timer_freq cnt, k1\<lparr>sch := tick_account c (sch k1)\<rparr>))"

subsection \<open>Dispatch\<close>

definition interrupted_el0 :: "pt_regs \<Rightarrow> bool" where
  "interrupted_el0 regs \<longleftrightarrow> spsr_el1 regs AND 0xf = 0"

definition handle_ipi :: "nat \<Rightarrow> nat \<Rightarrow> sched \<Rightarrow> sched" where
  "handle_ipi c ipi s = (if ipi = IPI_RESCHEDULE then handle_reschedule_ipi c s else s)"

definition irq_exit :: "nat \<Rightarrow> pt_regs \<Rightarrow> sched \<Rightarrow> sched" where
  "irq_exit c regs s = (if need_resched c s \<and> interrupted_el0 regs then schedule c s else s)"

text \<open>The result is the number that is written to the end-of-interrupt register, if any, and the state when the
  handler returns on this CPU, or has switched to another task.\<close>

definition handle_arch_irq :: "u64 \<Rightarrow> u64 \<Rightarrow> nat \<Rightarrow> nat \<Rightarrow> pt_regs \<Rightarrow> kernel \<Rightarrow> nat option \<times> kernel" where
  "handle_arch_irq timer_freq cnt c irq regs k =
     (let t = k_current c k; k0 = (if t \<noteq> 0 then k_task t (\<lambda>x. x\<lparr>t_regs := regs\<rparr>) k else k) in
      if irq = IRQ_NONE then (None, k0)
      else
        let k1 = (if irq < 16 then k0\<lparr>sch := handle_ipi c irq (sch k0)\<rparr>
                  else if irq = IRQ_TIMER then snd (handle_arch_tick timer_freq cnt c k0)
                  else if irq = IRQ_UART then k_serial_irq c k0
                  else k0) in
        (Some irq, k1\<lparr>sch := irq_exit c regs (sch k1)\<rparr>))"

end
