(* ===== verification/Irq_Props.thy ===== *)
theory Irq_Props
  imports Irq Files_Props Pipe_Props Tty_Props
begin

text \<open>
  The interrupt path as a whole: whatever interrupts arrive on whatever CPUs, the run queues stay well formed, every
  interrupt is completed exactly once, and the clock counts the ticks of CPU 0 only.  Polling of the interrupt
  controller ends with a time-out exactly when the device does not answer.
\<close>

subsection \<open>What the scheduler leaves alone\<close>

definition sched_frame :: "sched \<Rightarrow> sched \<Rightarrow> bool" where
  "sched_frame s s' \<longleftrightarrow> (\<forall>c. idle (cpus s' c) = idle (cpus s c)) \<and> all_tasks s' = all_tasks s \<and> jiffies s' = jiffies s \<and>
     (\<forall>t. t_parent (tasks s' t) = t_parent (tasks s t))"

named_theorems frame_intros

lemma frame_refl [simp]: "sched_frame s s"
  by (simp add: sched_frame_def)

lemma frame_trans: "sched_frame s s' \<Longrightarrow> sched_frame s' s'' \<Longrightarrow> sched_frame s s''"
  by (simp add: sched_frame_def)

lemma frame_is_idle: "sched_frame s s' \<Longrightarrow> is_idle t s' \<longleftrightarrow> is_idle t s"
  by (simp add: sched_frame_def is_idle_def)

lemma frame_parents: "sched_frame s s' \<Longrightarrow> parents_ok s' \<longleftrightarrow> parents_ok s"
  using frame_is_idle [of s s'] by (simp add: parents_ok_def) (simp add: sched_frame_def)

lemma frame_wake [frame_intros]: "sched_frame s (wake_up_process c t s)"
  by (simp add: sched_frame_def)

lemma frame_upd [frame_intros]: "(\<And>k. t_parent (f k) = t_parent k) \<Longrightarrow> sched_frame s (upd_task t f s)"
  by (simp add: sched_frame_def)

lemma frame_signal [frame_intros]: "sched_frame s (signal_queue c t sig s)"
proof (induction c t sig s rule: signal_queue.induct)
  case (1 this t sig s)
  show ?case
  proof (cases "t = 0 \<or> \<not> signal_valid sig \<or> sig = 0")
    case v: False
    show ?thesis
    proof (cases "t_state (tasks s t) = TASK_STOPPED \<and> sig = SIGCONT")
      case True
      let ?n = "notify_parent this t (continued t sig s)"
      have c: "sched_frame s (continued t sig s)" by (simp add: continued_def frame_intros)
      have "t_parent (tasks (continued t sig s) t) = t_parent (tasks s t)" "parent_signal (tasks (continued t sig s) t) = parent_signal (tasks s t)"
        by (simp_all add: continued_def parent_signal_def)
      then have "sched_frame (continued t sig s) ?n"
        using 1 [OF v refl True refl refl, folded continued_def]
        by (auto simp: notify_parent_def Let_def signal_send_def intro: frame_trans frame_wake)
      then show ?thesis using signal_queue_cont [of t s this] v True c by (auto intro: frame_trans frame_wake)
    next
      case False
      have "sched_frame s (queued t sig s)" by (simp add: queued_def frame_intros)
      then show ?thesis using signal_queue_other [OF _ _ _ False, of this] v by (auto intro: frame_trans frame_wake)
    qed
  qed (simp add: signal_queue.simps)
qed

lemma frame_resched [frame_intros]:
  "sched_frame s (set_need_resched c s)" "sched_frame s (clear_need_resched c s)" "sched_frame s (resched_cpu c d s)"
  by (simp_all add: sched_frame_def set_need_resched_def clear_need_resched_def resched_cpu_def send_reschedule_ipi_def Let_def)

lemma frame_migrate: "sched_frame s (snd (migrate_task c t n s))"
proof -
  have "sched_frame s s4 \<Longrightarrow> sched_frame s (resched_cpu c n s4)" for s4 using frame_trans frame_resched(3) by blast
  then show ?thesis by (simp add: migrate_task_def Let_def) (simp add: sched_frame_def run_list_del_def)
qed

lemma frame_schedule [frame_intros]: "sched_frame s (schedule c s)"
proof -
  have pull: "sched_frame s (snd (try_pull_task c s))" for s
    using frame_migrate [of s c _ c] by (auto simp: try_pull_task_def split: option.splits prod.splits) (metis snd_conv)+
  have "sched_frame s (snd (schedule_pull c (nxt, e, s)))" for nxt e s
    using pull [of s] by (auto simp: schedule_pull_def split: prod.splits)
  then have p: "sched_frame s (snd (schedule_pull c (schedule_pick c s)))"
    unfolding schedule_pick_def Let_def by (blast intro: frame_trans frame_resched(2))
  have "sched_frame s (context_switch c a b s)" for a b s
    by (simp add: context_switch_def mm_install_def set_current_def Let_def sched_frame_def)
  then have "sched_frame s (schedule_switch c (nxt, s))" for nxt s by (simp add: schedule_switch_def Let_def)
  then show ?thesis unfolding schedule_def using p by (metis frame_trans prod.collapse)
qed

subsection \<open>The invariant of the interrupt path\<close>

definition sched_ready :: "sched \<Rightarrow> bool" where
  "sched_ready s \<longleftrightarrow> sched_inv s \<and> parents_ok s \<and> list_all (\<lambda>t. \<not> is_idle t s) (all_tasks s)"

lemma ready_frame: "sched_ready s \<Longrightarrow> sched_frame s s' \<Longrightarrow> sched_inv s' \<Longrightarrow> sched_ready s'"
  using frame_is_idle [of s s'] frame_parents [of s s'] by (simp add: sched_ready_def) (simp add: sched_frame_def)

text \<open>What each part of the interrupt path guarantees.\<close>

definition keeps :: "sched \<Rightarrow> sched \<Rightarrow> bool" where
  "keeps s s' \<longleftrightarrow> (sched_ready s \<longrightarrow> sched_ready s') \<and> sched_frame s s'"

lemma keeps_same [simp]: "keeps s s"
  by (simp add: keeps_def)

lemma keeps_steps: "keeps s s' \<Longrightarrow> keeps s' s'' \<Longrightarrow> keeps s s''"
  by (auto simp: keeps_def intro: frame_trans)

lemma keepsI: "sched_frame s s' \<Longrightarrow> (sched_ready s \<Longrightarrow> sched_inv s') \<Longrightarrow> keeps s s'"
  by (auto simp: keeps_def intro: ready_frame)

lemma keeps_signal:
  assumes "c < NR_CPUS" "\<not> is_idle t s"
  shows "keeps s (signal_send c t sig s)"
  using signal_queue_inv [of s c t sig] assms by (intro keepsI) (auto simp: signal_send_def sched_ready_def frame_intros)

lemma keeps_signal_tasks:
  "c < NR_CPUS \<Longrightarrow> list_all (\<lambda>t. \<not> is_idle t s) ts \<Longrightarrow> keeps s (snd (signal_tasks c sig sel ts found s))"
proof (induction ts arbitrary: found s)
  case (Cons t ts)
  let ?s = "signal_send c t sig s"
  have t: "keeps s ?s" using Cons.prems by (simp add: keeps_signal)
  then have "list_all (\<lambda>t. \<not> is_idle t ?s) ts" using Cons.prems frame_is_idle [of s ?s] by (simp add: keeps_def)
  then have "keeps s (snd (signal_tasks c sig sel ts True ?s))" using Cons.IH [of ?s] Cons.prems(1) t keeps_steps by blast
  moreover have "keeps s (snd (signal_tasks c sig sel ts b s))" for b using Cons by simp
  ultimately show ?case by (cases "sig = 0") simp_all
qed simp

lemma keeps_kill:
  assumes "sched_ready s" "c < NR_CPUS"
  shows "keeps s (snd (ksys_kill c pid sig s))"
proof -
  have l: "list_all (\<lambda>t. \<not> is_idle t s) (all_tasks s)" using assms(1) by (simp add: sched_ready_def)
  have g: "keeps s (snd (signal_process_group c p sig s))" for p
    using keeps_signal_tasks [OF assms(2) l] by (simp add: signal_process_group_def Let_def case_prod_beta)
  have "keeps s (snd (signal_one_process c p sig s))" for p
  proof (cases "find_task_by_pid p s")
    case (Some t)
    then have "t \<in> set (all_tasks s)" by (auto simp: find_task_by_pid_def find_Some_iff split: if_splits)
    then show ?thesis using Some keeps_signal [OF assms(2), of t s sig] l by (simp add: signal_one_process_def list_all_iff)
  qed (simp add: signal_one_process_def)
  then show ?thesis using g keeps_signal_tasks [OF assms(2) l] by (simp add: ksys_kill_def Let_def case_prod_beta)
qed

lemma keeps_wake:
  "c < NR_CPUS \<Longrightarrow> list_all (\<lambda>(e, t). \<not> is_idle t s) wq \<Longrightarrow> keeps s (wake_up c wq s)"
proof (induction c wq s rule: wake_up.induct)
  case (2 c e t wq s)
  let ?s = "if t \<noteq> 0 \<and> t_state (tasks s t) = TASK_SLEEPING then wake_up_process c t s else s"
  have k: "keeps s ?s" using 2(2,3) wake_up_inv [of s c t] by (auto simp: sched_ready_def intro!: keepsI frame_wake)
  then have "list_all (\<lambda>(e, t). \<not> is_idle t ?s) wq" using 2(3) frame_is_idle [of s ?s] by (simp add: keeps_def)
  then have "keeps ?s (wake_up c wq ?s)" using 2(1) [OF 2(2)] by blast
  from keeps_steps [OF k this] show ?case by simp
qed simp

lemma keeps_tick:
  assumes "sched_ready s" "c < NR_CPUS"
  shows "keeps (do_timer s) (tick_wake_sleepers c (do_timer s))" "keeps s (tick_account c s)" "sched_ready (do_timer s)"
proof -
  let ?d = "do_timer s"
  have d: "sched_inv ?d" using assms(1) by (auto simp: sched_ready_def do_timer_def intro: sched_inv_cong)
  then show r: "sched_ready ?d" using assms(1) by (simp add: sched_ready_def do_timer_def parents_ok_def is_idle_def)
  have "list_all (\<lambda>t. \<not> is_idle t u) ts \<Longrightarrow> keeps u (fold (tick_wake_one c) ts u)" for ts u
  proof (induction ts arbitrary: u)
    case (Cons t ts)
    have k: "keeps u (tick_wake_one c t u)"
      using Cons.prems wake_up_inv [of u c t] assms(2) by (auto simp: tick_wake_one_def sched_ready_def intro!: keepsI frame_wake)
    then have "list_all (\<lambda>x. \<not> is_idle x (tick_wake_one c t u)) ts" using Cons.prems frame_is_idle [of u "tick_wake_one c t u"] by (simp add: keeps_def)
    from keeps_steps [OF k Cons.IH [OF this]] show ?case by simp
  qed simp
  then show "keeps ?d (tick_wake_sleepers c ?d)" using r by (simp add: tick_wake_sleepers_def sched_ready_def)
  show "keeps s (tick_account c s)"
  proof (rule keepsI)
    show "sched_frame s (tick_account c s)" by (simp add: tick_account_def Let_def sched_frame_def set_need_resched_def)
    show "sched_ready s \<Longrightarrow> sched_inv (tick_account c s)"
      by (rule sched_inv_cong [of s]) (simp_all add: sched_ready_def tick_account_def Let_def)
  qed
qed

text \<open>The terminal and the serial line.\<close>

definition irq_ready :: "kernel \<Rightarrow> bool" where
  "irq_ready k \<longleftrightarrow> sched_ready (sch k) \<and> list_all (\<lambda>(e, t). \<not> is_idle t (sch k)) (read_wait (tty0 k))"

lemma keeps_receive:
  assumes "sched_ready s" "c < NR_CPUS" "list_all (\<lambda>(e, t). \<not> is_idle t s) (read_wait t)" "tty_receive_char c ch (t, u, s) = (t', u', s')"
  shows "keeps s s' \<and> read_wait t' = read_wait t"
proof -
  have "read_wait (tty_put1 x t) = read_wait t" for x by (simp add: tty_put1_def Let_def)
  then show ?thesis
    using assms keeps_kill [OF assms(1,2)] keeps_wake [OF assms(2,3)]
    by (auto simp: tty_receive_char_def tty_wake_reader_def Let_def split: if_splits)
qed

lemma keeps_serial_loop:
  "sched_ready s \<Longrightarrow> c < NR_CPUS \<Longrightarrow> list_all (\<lambda>(e, t). \<not> is_idle t s) (read_wait t) \<Longrightarrow> serial_irq_loop c cs (t, u, s) = (t', u', s') \<Longrightarrow>
    keeps s s' \<and> read_wait t' = read_wait t"
proof (induction cs arbitrary: t u s)
  case (Cons ch cs)
  obtain t1 u1 s1 where r: "tty_receive_char c ch (t, u\<lparr>rx := cs\<rparr>, s) = (t1, u1, s1)" by (metis prod_cases3)
  note k = keeps_receive [OF Cons.prems(1,2,3) r]
  have "sched_ready s1" "list_all (\<lambda>(e, t). \<not> is_idle t s1) (read_wait t1)"
    using k Cons.prems(1,3) frame_is_idle [of s s1] by (auto simp: keeps_def)
  then have "keeps s1 s' \<and> read_wait t' = read_wait t1" using Cons.IH [of s1 t1 u1] Cons.prems(2,4) r by simp
  then show ?case using k keeps_steps by metis
qed simp

lemma serial_ready:
  assumes "irq_ready k" "c < NR_CPUS"
  shows "irq_ready (k_serial_irq c k) \<and> keeps (sch k) (sch (k_serial_irq c k))"
proof -
  obtain t u s where l: "serial_irq_loop c (rx (uart0 k)) (tty0 k, uart0 k, sch k) = (t, u, s)" by (metis prod_cases3)
  have k: "keeps (sch k) s \<and> read_wait t = read_wait (tty0 k)"
    using keeps_serial_loop [OF _ assms(2) _ l] assms(1) by (simp add: irq_ready_def)
  have "sched_ready s" "list_all (\<lambda>(e, t). \<not> is_idle t s) (read_wait t)"
    using k assms(1) frame_is_idle [of "sch k" s] by (auto simp: keeps_def irq_ready_def)
  then show ?thesis using k l by (simp add: k_serial_irq_def serial_irq_def irq_ready_def)
qed

text \<open>A change of the scheduler alone.\<close>

lemma ready_sch:
  assumes "irq_ready k" "keeps (sch k) s"
  shows "irq_ready (k\<lparr>sch := s\<rparr>)"
  using assms frame_is_idle [of "sch k" s] by (auto simp: irq_ready_def keeps_def)

lemma exit_keeps: "c < NR_CPUS \<Longrightarrow> keeps s (irq_exit c regs s)"
  using schedule_inv [of s c] by (auto simp: irq_exit_def sched_ready_def intro!: keepsI frame_schedule)

lemma ipi_keeps: "keeps s (handle_ipi c ipi s)"
proof (rule keepsI)
  have "sched_frame (s\<lparr>ipis := (ipis s)(c := False)\<rparr>) (handle_reschedule_ipi c s)" unfolding handle_reschedule_ipi_def by (rule frame_resched(1))
  then show "sched_frame s (handle_ipi c ipi s)" by (simp add: handle_ipi_def sched_frame_def)
  show "sched_ready s \<Longrightarrow> sched_inv (handle_ipi c ipi s)"
    by (rule sched_inv_cong [of s]) (simp_all add: sched_ready_def handle_ipi_def handle_reschedule_ipi_def set_need_resched_def Let_def)
qed

lemma tick_ready:
  assumes r: "irq_ready k" and c: "c < NR_CPUS" and t: "handle_arch_tick f cnt c k = (v, k')"
  shows "irq_ready k' \<and> jiffies (sch k') = jiffies (sch k) + (if c = 0 then 1 else 0)"
proof -
  define k1 where "k1 = (if c = 0 then k_serial_irq c (k\<lparr>sch := tick_wake_sleepers c (do_timer (sch k))\<rparr>) else k)"
  have k': "k' = k1\<lparr>sch := tick_account c (sch k1)\<rparr>" using t by (simp add: handle_arch_tick_def k1_def Let_def)
  have k1: "irq_ready k1 \<and> jiffies (sch k1) = jiffies (sch k) + (if c = 0 then 1 else 0)"
  proof (cases "c = 0")
    case True
    let ?d = "do_timer (sch k)" let ?w = "tick_wake_sleepers c ?d"
    have s: "sched_ready (sch k)" using r by (simp add: irq_ready_def)
    have "irq_ready (k\<lparr>sch := ?d\<rparr>)" using r keeps_tick(3) [OF s c] by (simp add: irq_ready_def is_idle_def do_timer_def)
    then have "irq_ready (k\<lparr>sch := ?w\<rparr>)" using ready_sch [of "k\<lparr>sch := ?d\<rparr>" ?w] keeps_tick(1) [OF s c] by simp
    from serial_ready [OF this c] show ?thesis
      using True keeps_tick(1) [OF s c] by (simp add: k1_def keeps_def sched_frame_def) (simp add: do_timer_def)
  qed (use r k1_def in simp)
  moreover have "keeps (sch k1) (tick_account c (sch k1))" using keeps_tick(2) k1 c by (simp add: irq_ready_def)
  ultimately show ?thesis using ready_sch [of k1] by (simp add: k' keeps_def sched_frame_def)
qed

lemma irq_ready_step:
  assumes r: "irq_ready k" and c: "c < NR_CPUS" and h: "handle_arch_irq f cnt c irq regs k = (eoi, k')"
  shows "irq_ready k' \<and> eoi = (if irq = IRQ_NONE then None else Some irq) \<and>
    jiffies (sch k') = jiffies (sch k) + (if c = 0 \<and> irq = IRQ_TIMER then 1 else 0)"
proof -
  define k0 where "k0 = (if k_current c k \<noteq> 0 then k_task (k_current c k) (\<lambda>x. x\<lparr>t_regs := regs\<rparr>) k else k)"
  have "keeps (sch k) (upd_task t (\<lambda>x. x\<lparr>t_regs := regs\<rparr>) (sch k))" for t
    by (intro keepsI) (auto simp: sched_ready_def intro!: frame_upd set_fields_inv)
  from ready_sch [OF r this] have k0: "irq_ready k0" "jiffies (sch k0) = jiffies (sch k)"
    using r by (simp_all add: k0_def k_task_def irq_ready_def)
  define k1 where "k1 = (if irq < 16 then k0\<lparr>sch := handle_ipi c irq (sch k0)\<rparr>
      else if irq = IRQ_TIMER then snd (handle_arch_tick f cnt c k0) else if irq = IRQ_UART then k_serial_irq c k0 else k0)"
  have k1: "irq_ready k1 \<and> jiffies (sch k1) = jiffies (sch k0) + (if c = 0 \<and> irq = IRQ_TIMER then 1 else 0)"
    using k0(1) ready_sch [OF k0(1) ipi_keeps] ipi_keeps [of "sch k0" c irq] serial_ready [OF k0(1) c] tick_ready [OF k0(1) c, of f cnt]
    by (auto simp: k1_def keeps_def sched_frame_def split: prod.splits) (metis snd_conv prod.collapse)+
  have e: "irq_ready (k1\<lparr>sch := irq_exit c regs (sch k1)\<rparr>)" "jiffies (irq_exit c regs (sch k1)) = jiffies (sch k1)"
    using ready_sch k1 exit_keeps [OF c, of "sch k1" regs] by (simp_all add: keeps_def sched_frame_def)
  note h' = h [unfolded handle_arch_irq_def Let_def, folded k0_def, folded k1_def]
  show ?thesis
  proof (cases "irq = IRQ_NONE")
    case True
    then show ?thesis using h' k0 by simp
  next
    case False
    then have "eoi = Some irq" "k' = k1\<lparr>sch := irq_exit c regs (sch k1)\<rparr>"
      using h' by simp_all
    then show ?thesis using e k1 k0(2) False by simp
  qed
qed

text \<open>Interrupts on several CPUs, each with the characters that have arrived on the serial line before it.\<close>

datatype irq_event = Irq_Event (ev_cpu: nat) (ev_irq: nat) (ev_regs: pt_regs) (ev_rx: "u8 list")

fun irq_run :: "u64 \<Rightarrow> u64 \<Rightarrow> irq_event list \<Rightarrow> kernel \<Rightarrow> nat list \<times> kernel" where
  "irq_run f cnt [] k = ([], k)"
| "irq_run f cnt (ev # evs) k =
     (let (eoi, k1) = handle_arch_irq f cnt (ev_cpu ev) (ev_irq ev) (ev_regs ev) (k\<lparr>uart0 := (uart0 k)\<lparr>rx := rx (uart0 k) @ ev_rx ev\<rparr>\<rparr>);
          (es, k2) = irq_run f cnt evs k1 in
      (case eoi of None \<Rightarrow> es | Some e \<Rightarrow> e # es, k2))"

text \<open>C5: the interrupt path.  Let any interrupts arrive, in any order, on any CPUs, in user or kernel mode, with any
  input on the serial line.  Handling them, with the wake-ups, signals and context switches this causes, keeps the run queues well
  formed on every CPU; every interrupt but the spurious ones is completed exactly once, in the order of
  arrival; and the clock advances by exactly the number of timer interrupts of CPU 0.\<close>

theorem interrupts_safe:
  assumes "irq_ready k" "list_all (\<lambda>ev. ev_cpu ev < NR_CPUS) evs" "irq_run f cnt evs k = (eois, k')"
  shows "sched_inv (sch k') \<and> eois = filter (\<lambda>i. i \<noteq> IRQ_NONE) (map ev_irq evs) \<and>
    jiffies (sch k') = jiffies (sch k) + of_nat (length (filter (\<lambda>ev. ev_cpu ev = 0 \<and> ev_irq ev = IRQ_TIMER) evs))"
proof -
  have "irq_ready k' \<and> eois = filter (\<lambda>i. i \<noteq> IRQ_NONE) (map ev_irq evs) \<and>
      jiffies (sch k') = jiffies (sch k) + of_nat (length (filter (\<lambda>ev. ev_cpu ev = 0 \<and> ev_irq ev = IRQ_TIMER) evs))"
    using assms
  proof (induction evs arbitrary: k eois)
    case (Cons ev evs)
    let ?k = "k\<lparr>uart0 := (uart0 k)\<lparr>rx := rx (uart0 k) @ ev_rx ev\<rparr>\<rparr>"
    obtain eoi k1 where h: "handle_arch_irq f cnt (ev_cpu ev) (ev_irq ev) (ev_regs ev) ?k = (eoi, k1)" by fastforce
    obtain es where e: "irq_run f cnt evs k1 = (es, k')" "eois = (case eoi of None \<Rightarrow> es | Some e \<Rightarrow> e # es)"
      using Cons.prems(3) h by (auto split: prod.splits)
    have r: "irq_ready ?k" "ev_cpu ev < NR_CPUS" using Cons.prems(1,2) by (simp_all add: irq_ready_def)
    note s = irq_ready_step [OF r h]
    have l: "list_all (\<lambda>ev. ev_cpu ev < NR_CPUS) evs" using Cons.prems(2) by simp
    note i = Cons.IH [OF conjunct1 [OF s] l e(1)]
    show ?case using s i e(2) by simp
  qed simp
  then show ?thesis by (simp add: irq_ready_def sched_ready_def)
qed

lemma shell_ready: "irq_ready shell_kernel"
proof -
  have i: "\<not> is_idle t (sch shell_kernel)" if "t \<in> {0, 0x100, 0x200, 0x300}" for t
    using that unfolding is_idle_def less_4 by (auto simp: shell_kernel_def two_tasks_def cpu0_def)
  have "sched_inv (sch shell_kernel)" unfolding shell_kernel_def using two_tasks_inv by (auto intro!: set_fields_inv)
  moreover have "t_parent (tasks (sch shell_kernel) t) = 0" for t by (simp add: shell_kernel_def two_tasks_def task0_def)
  moreover have "all_tasks (sch shell_kernel) = [0x100, 0x200, 0x300]" "read_wait (tty0 shell_kernel) = []" by code_simp+
  ultimately show ?thesis using i by (simp add: irq_ready_def sched_ready_def parents_ok_def)
qed

theorem interrupts_safe_witness:
  "\<exists>k'. irq_run 62500000 7 [Irq_Event 0 30 \<lparr>xregs = \<lambda>_. 0, elr_el1 = 0, spsr_el1 = 0\<rparr> [3],
       Irq_Event 2 30 \<lparr>xregs = \<lambda>_. 0, elr_el1 = 0, spsr_el1 = 0\<rparr> [], Irq_Event 0 1023 \<lparr>xregs = \<lambda>_. 0, elr_el1 = 0, spsr_el1 = 5\<rparr> []] shell_kernel
     = ([30, 30], k') \<and> sched_inv (sch k') \<and> jiffies (sch k') = 1"
    (is "\<exists>k'. irq_run _ _ ?evs _ = _ \<and> _")
proof -
  obtain eois k' where r: "irq_run 62500000 7 ?evs shell_kernel = (eois, k')" by fastforce
  have "jiffies (sch shell_kernel) = 0" by code_simp
  then show ?thesis using interrupts_safe [OF shell_ready _ r] r by simp
qed

subsection \<open>The controller\<close>

lemma poll_clear_nonzero: "poll_clear msk r i n \<noteq> 0 \<longleftrightarrow> (\<exists>j<n. r (i + j) AND msk = 0)"
proof (induction n arbitrary: i)
  case (Suc n)
  have "(\<exists>j<Suc n. r (i + j) AND msk = 0) \<longleftrightarrow> r i AND msk = 0 \<or> (\<exists>j<n. r (Suc i + j) AND msk = 0)" by (simp add: Ex_less_Suc2)
  then show ?case using Suc [of "Suc i"] by (cases "n = 0") auto
qed simp

text \<open>The second version of the controller is used exactly when it is reported, or when the third does not answer in time.\<close>

lemma init_IRQ_v3:
  "fst (init_IRQ rd) \<longleftrightarrow> drop_bit 4 (rd GICD_PIDR2 0) AND 7 \<ge> 3 \<and>
     (\<exists>j<GIC_TIMEOUT. rd GICD_CTLR j AND push_bit 31 1 = 0) \<and> (\<exists>j<GIC_TIMEOUT. rd GICD_CTLR (GIC_TIMEOUT + j) AND push_bit 31 1 = 0) \<and>
     (\<exists>j<GIC_TIMEOUT. rd (GICR_WAKER 0) (1 + j) AND 4 = 0)"
proof -
  define a b d where "a = poll_clear (push_bit 31 1) (rd GICD_CTLR) 0 GIC_TIMEOUT"
    and "b = poll_clear (push_bit 31 1) (rd GICD_CTLR) GIC_TIMEOUT GIC_TIMEOUT" and "d = poll_clear 4 (rd (GICR_WAKER 0)) 1 GIC_TIMEOUT"
  have "fst (init_IRQ rd) \<longleftrightarrow> drop_bit 4 (rd GICD_PIDR2 0) AND 7 \<ge> 3 \<and> a \<noteq> 0 \<and> b \<noteq> 0 \<and> d \<noteq> 0"
    unfolding init_IRQ_def gic_v3_init_def gic_v3_dist_init_def gic_v3_redist_init_def gicr_wait_ready_def Let_def a_def [symmetric]
      b_def [symmetric] d_def [symmetric] by simp
  then show ?thesis unfolding a_def b_def d_def poll_clear_nonzero by simp
qed

text \<open>A software interrupt is sent to exactly one CPU: the target list of the register value has one bit.\<close>

lemma sgi_target:
  assumes "cpu < NR_CPUS" "sgi \<le> 15"
  shows "\<exists>v. gic_send_sgi True cpu sgi = [(ICC_SGI1R_EL1, v)] \<and> (\<forall>j<16. bit v j \<longleftrightarrow> j = cpu) \<and> drop_bit 24 v = of_nat sgi"
proof -
  let ?v = "push_bit 24 (of_nat sgi) OR push_bit cpu 1 :: u64"
  have "bit ?v j \<longleftrightarrow> j = cpu" if "j < 16" for j using that assms by (auto simp: bit_simps)
  moreover have "drop_bit 24 ?v = of_nat sgi"
  proof (rule bit_word_eqI)
    fix n :: nat assume n: "n < LENGTH(64)"
    have "m < 40" if "bit sgi m" for m
    proof (rule ccontr)
      assume "\<not> m < 40"
      then have "sgi < 2 ^ m" using assms(2) power_increasing [of 4 m "2::nat"] by simp
      then show False using that by (simp add: bit_nat_def)
    qed
    then show "bit (drop_bit 24 ?v) n \<longleftrightarrow> bit (of_nat sgi :: u64) n" using assms n by (auto simp: bit_simps)
  qed
  ultimately show ?thesis using assms by (simp add: gic_send_sgi_def)
qed

end
