(* ===== verification/Boot.thy ===== *)
theory Boot
  imports Irq Initramfs Procfs Dcache Process Exec Slub_Props
begin

text \<open>
  Start-up and shut-down: \<^verbatim>\<open>init/main.c\<close>, \<^verbatim>\<open>kernel/smp.c\<close>, \<^verbatim>\<open>kernel/sched/idle.c\<close> and \<^verbatim>\<open>kernel/reboot.c\<close>.  The firmware call
  \<^verbatim>\<open>psci_cpu_on\<close> is an argument, and so is what the boot CPU sees of the map of online CPUs while it waits.  The
  addresses of static objects (the idle tasks, the archive, the end of the kernel image) are arguments too.  The
  interrupt controller, the timer, the wall clock and the other CPUs are started by \<open>init_IRQ\<close>, \<open>tick_init\<close>,
  \<open>timekeeping_init\<close> and \<open>bringup_nonboot_cpus\<close>, which do not work on this state and are definitions of their own.
\<close>

abbreviation (input) CPU_UP_TIMEOUT :: nat where "CPU_UP_TIMEOUT \<equiv> 1000000"

subsection \<open>Processors\<close>

definition cpu_init :: "(nat \<Rightarrow> u64) \<Rightarrow> nat \<Rightarrow> sched \<Rightarrow> sched" where
  "cpu_init idle_tasks cpu s =
     sched_init_idle cpu (idle_tasks cpu) (rq_init cpu (upd_cpu cpu (\<lambda>r. r\<lparr>idle := idle_tasks cpu, curr := idle_tasks cpu\<rparr>) s))"

text \<open>The result has the map of online CPUs.\<close>

definition smp_init :: "(nat \<Rightarrow> u64) \<Rightarrow> sched \<Rightarrow> (nat \<Rightarrow> bool) \<times> sched" where
  "smp_init idle_tasks s = ((\<lambda>_. False)(0 := True), fold (cpu_init idle_tasks) [0..<NR_CPUS] s)"

text \<open>\<open>seen n\<close> is the entry of the map that the \<open>n\<close>-th test of the loop reads.\<close>

function wait_cpu_online :: "(nat \<Rightarrow> bool) \<Rightarrow> nat \<Rightarrow> int" where
  "wait_cpu_online seen spins =
     (if seen spins then 0
      else if spins + 1 \<ge> CPU_UP_TIMEOUT then - ETIMEDOUT
      else wait_cpu_online seen (spins + 1))"
  by pat_completeness auto
termination
  by (relation "measure (\<lambda>(seen, spins). CPU_UP_TIMEOUT - spins)") auto

declare wait_cpu_online.simps [simp del]

definition cpu_up :: "(nat \<Rightarrow> u64 \<Rightarrow> int) \<Rightarrow> u64 \<Rightarrow> (nat \<Rightarrow> bool) \<Rightarrow> (nat \<Rightarrow> nat \<Rightarrow> bool) \<Rightarrow> nat \<Rightarrow> int" where
  "cpu_up psci_cpu_on secondary_startup cpu_online_map seen cpu =
     (if cpu = 0 \<or> cpu \<ge> NR_CPUS then - EINVAL
      else if cpu_online_map cpu then 0
      else
        let ret = psci_cpu_on cpu (virt_to_phys secondary_startup) in
        if ret \<noteq> 0 then ret else wait_cpu_online (seen cpu) 0)"

fun bringup_cpus :: "(nat \<Rightarrow> u64 \<Rightarrow> int) \<Rightarrow> u64 \<Rightarrow> (nat \<Rightarrow> nat \<Rightarrow> bool) \<Rightarrow> nat list \<Rightarrow> (nat \<Rightarrow> bool) \<Rightarrow> (nat \<Rightarrow> bool)" where
  "bringup_cpus psci_cpu_on ep seen [] m = m"
| "bringup_cpus psci_cpu_on ep seen (cpu # cs) m =
     (if cpu_up psci_cpu_on ep m seen cpu \<noteq> 0 then m else bringup_cpus psci_cpu_on ep seen cs (m(cpu := True)))"

definition bringup_nonboot_cpus :: "(nat \<Rightarrow> u64 \<Rightarrow> int) \<Rightarrow> u64 \<Rightarrow> (nat \<Rightarrow> nat \<Rightarrow> bool) \<Rightarrow> (nat \<Rightarrow> bool) \<Rightarrow> (nat \<Rightarrow> bool)" where
  "bringup_nonboot_cpus psci_cpu_on ep seen m = bringup_cpus psci_cpu_on ep seen [1..<NR_CPUS] m"

text \<open>\<open>cpu_idle\<close> up to its loop, whose body is \<open>schedule\<close>; \<open>d\<close> is the interrupt mask after interrupts have been enabled.\<close>

definition cpu_idle :: "u64 \<Rightarrow> nat \<Rightarrow> sched \<Rightarrow> sched" where
  "cpu_idle d c s =
     (let t = idle_task c s in upd_task t (\<lambda>k. k\<lparr>t_state := TASK_IDLE, t_daif := d\<rparr>) (set_current c t s))"

subsection \<open>The first process\<close>

definition rest_init :: "nat \<Rightarrow> kernel \<Rightarrow> kernel" where
  "rest_init c k =
     (let (t, k1) = kernel_thread k in
      if t = 0 then k1 else k1\<lparr>sch := wake_up_process c t (sch k1)\<rparr>)"

definition init_stdio :: "u64 \<Rightarrow> kernel \<Rightarrow> kernel" where
  "init_stdio t k =
     (let std = (\<lambda>fd k. set_fd t fd (uart_file k) (get_file (uart_file k) k));
          k1 = std 2 (std 1 (std 0 k)); x = tasks (sch k1) t in
      k1\<lparr>tty0 := tty_attach_session (t_sid x) (t_pgid x) (tty0 k1)\<rparr>)"

definition kernel_init :: "nat \<Rightarrow> kernel \<Rightarrow> (exec_out \<times> kernel) option" where
  "kernel_init c k = kernel_execve c ''/init'' (init_stdio (k_current c k) k)"

subsection \<open>Start-up\<close>

text \<open>Up to \<open>mmap_init\<close>, and from the file system on; \<open>None\<close> stands for a boot that never ends.\<close>

definition early_init :: "(nat \<Rightarrow> u64) \<Rightarrow> u64 \<Rightarrow> kernel \<Rightarrow> kernel" where
  "early_init idle_tasks alloc_start k =
     (let (t, u, s) = tty_init 0 (tty0 k) (serial_init (uart0 k)) (sch k);
          (online, s1) = smp_init idle_tasks s in
      k\<lparr>tty0 := t, uart0 := u, sch := s1, fsys := (fsys k)\<lparr>heap := kmem_boot alloc_start\<rparr>\<rparr>)"

definition start_kernel :: "(nat \<Rightarrow> u64) \<Rightarrow> u64 \<Rightarrow> u64 \<Rightarrow> u64 \<Rightarrow> kernel \<Rightarrow> kernel option" where
  "start_kernel idle_tasks alloc_start initramfs_start initramfs_end k =
     (let k1 = early_init idle_tasks alloc_start k;
          k2 = dcache_init (k1\<lparr>fsys := ramfs_init (fsys k1)\<rparr>) in
      do {
        k3 \<leftarrow> (if initramfs_end > initramfs_start
               then map_option (\<lambda>(err, s). k2\<lparr>fsys := s\<rparr>) (unpack_to_rootfs initramfs_start (initramfs_end - initramfs_start) (fsys k2))
               else Some k2);
        Some (rest_init 0 (dev_init (proc_init k3))) })"

subsection \<open>Shut-down\<close>

datatype machine = Runs int | Resets | Powers_Off

definition kernel_init_shutdown :: "int \<Rightarrow> machine" where
  "kernel_init_shutdown sig = (if sig = SIGUSR1 \<or> sig = SIGUSR2 \<or> sig = SIGTERM then Powers_Off else Runs 0)"

definition reboot_magic2_ok :: "u32 \<Rightarrow> bool" where
  "reboot_magic2_ok m \<longleftrightarrow> m = 672274793 \<or> m = 85072278 \<or> m = 369367448 \<or> m = 537993216"

definition ksys_reboot :: "nat \<Rightarrow> u32 \<Rightarrow> u32 \<Rightarrow> u32 \<Rightarrow> sched \<Rightarrow> machine" where
  "ksys_reboot c magic1 magic2 cmd s =
     (let t = get_current c s in
      if t = 0 \<or> \<not> t_is_user (tasks s t) then Runs (- EINVAL)
      else if magic1 \<noteq> 0xfee1dead \<or> \<not> reboot_magic2_ok magic2 then Runs (- EINVAL)
      else if cmd = 0x1234567 then Resets
      else if cmd = 0xcdef0123 \<or> cmd = 0x4321fedc then Powers_Off
      else Runs (- EINVAL))"

end
