(* ===== verification/Boot_Props.thy ===== *)
theory Boot_Props
  imports Boot Irq_Props Initramfs_Props
begin

text \<open>
  Start-up establishes the invariants on which the theorems about memory, run queues and interrupts rest, and ends.
\<close>

subsection \<open>Processors\<close>

text \<open>The static objects before start-up: no task is known, and the idle tasks lie outside the page pool.\<close>

definition statics_ok :: "(nat \<Rightarrow> u64) \<Rightarrow> u64 \<Rightarrow> kernel \<Rightarrow> bool" where
  "statics_ok idle_tasks alloc_start k \<longleftrightarrow> all_tasks (sch k) = [] \<and> (\<forall>t. t_parent (tasks (sch k) t) = 0) \<and>
     (\<forall>c<NR_CPUS. idle_tasks c \<noteq> 0 \<and> unat (idle_tasks c) < unat (page_align_up alloc_start)) \<and> inj_on idle_tasks {..<NR_CPUS}"

lemma cpu_init_effect:
  "cpus (cpu_init it c s) d = (if d = c then (cpus s c)\<lparr>idle := it c, curr := it c, rq_tasks := [], nr_running := 0\<rparr>
     else (cpus s d)\<lparr>rq_tasks := remove1 (it c) (rq d s)\<rparr>)"
  "tasks (cpu_init it c s) t = (if t = it c then (tasks s t)\<lparr>t_daif := 0x3c0, t_cpu := c\<rparr> else tasks s t)"
  "all_tasks (cpu_init it c s) = all_tasks s" "jiffies (cpu_init it c s) = jiffies s"
  by (simp_all add: cpu_init_def sched_init_idle_def rq_init_def run_list_del_def upd_task_def upd_cpu_def)

lemma smp_init_effect:
  assumes "inj_on it {..<NR_CPUS}" "c < NR_CPUS"
  shows "cpus (fold (cpu_init it) [0..<NR_CPUS] s) c = (cpus s c)\<lparr>idle := it c, curr := it c, rq_tasks := [], nr_running := 0\<rparr>"
    "t_cpu (tasks (fold (cpu_init it) [0..<NR_CPUS] s) (it c)) = c"
proof -
  have l: "[0..<NR_CPUS] = [0, 1, 2, 3]" by code_simp
  have c: "c = 0 \<or> c = 1 \<or> c = 2 \<or> c = 3" using assms(2) by arith
  have d: "it i \<noteq> it j" if "i < 4" "j < 4" "i \<noteq> j" for i j using assms(1) that by (auto dest: inj_onD)
  show "cpus (fold (cpu_init it) [0..<NR_CPUS] s) c = (cpus s c)\<lparr>idle := it c, curr := it c, rq_tasks := [], nr_running := 0\<rparr>"
    using c unfolding l by (elim disjE) (simp_all add: cpu_init_effect)
  show "t_cpu (tasks (fold (cpu_init it) [0..<NR_CPUS] s) (it c)) = c"
    using c d unfolding l by (elim disjE) (simp_all add: cpu_init_effect)
qed

lemma fold_cpu_init:
  "t_parent (tasks (fold (cpu_init it) cs s) t) = t_parent (tasks s t)" "all_tasks (fold (cpu_init it) cs s) = all_tasks s"
  by (induction cs arbitrary: s) (simp_all add: cpu_init_effect)

lemma smp_init_ready:
  assumes "inj_on it {..<NR_CPUS}" "\<forall>c<NR_CPUS. it c \<noteq> 0" "all_tasks s = []" "\<forall>t. t_parent (tasks s t) = 0" "smp_init it s = (m, s')"
  shows "sched_ready s'" "c < NR_CPUS \<Longrightarrow> rq c s' = []" "is_idle t s' \<longleftrightarrow> t \<in> it ` {..<NR_CPUS}"
    "all_tasks s' = []" "t_parent (tasks s' t) = 0"
proof -
  have s': "s' = fold (cpu_init it) [0..<NR_CPUS] s" using assms(5) by (simp only: smp_init_def prod.inject)
  note f = smp_init_effect [OF assms(1), where s = s, folded s'] fold_cpu_init [of it "[0..<NR_CPUS]" s, folded s']
  show id: "is_idle t s' \<longleftrightarrow> t \<in> it ` {..<NR_CPUS}" for t using f(1) by (auto simp: is_idle_def)
  show all: "all_tasks s' = []" using f(4) assms(3) by simp
  show p: "t_parent (tasks s' t) = 0" for t using f(3) assms(4) by simp
  show "c < NR_CPUS \<Longrightarrow> rq c s' = []" using f(1) by simp
  have "sched_inv s'" using f(1,2) assms(2) by (simp add: sched_inv_def rq_ok_def cpu_ok_def)
  moreover have "parents_ok s'" using id p assms(2) by (auto simp: parents_ok_def)
  ultimately show "sched_ready s'" using all by (simp add: sched_ready_def)
qed

text \<open>The wait for a processor ends, with success exactly when it is seen online in time.\<close>

lemma wait_cpu_online_iff:
  "wait_cpu_online seen n = (if \<exists>j. n \<le> j \<and> (j < CPU_UP_TIMEOUT \<or> j = n) \<and> seen j then 0 else - ETIMEDOUT)"
proof (induction seen n rule: wait_cpu_online.induct)
  case (1 seen n)
  show ?case
  proof (cases "seen n")
    case False
    have "(\<exists>j. n \<le> j \<and> (j < CPU_UP_TIMEOUT \<or> j = n) \<and> seen j) \<longleftrightarrow>
        n + 1 < CPU_UP_TIMEOUT \<and> (\<exists>j. n + 1 \<le> j \<and> (j < CPU_UP_TIMEOUT \<or> j = n + 1) \<and> seen j)"
    proof
      assume "\<exists>j. n \<le> j \<and> (j < CPU_UP_TIMEOUT \<or> j = n) \<and> seen j"
      then obtain j where j: "n \<le> j" "j < CPU_UP_TIMEOUT \<or> j = n" "seen j" by blast
      then have "j \<noteq> n" using False by auto
      then show "n + 1 < CPU_UP_TIMEOUT \<and> (\<exists>j. n + 1 \<le> j \<and> (j < CPU_UP_TIMEOUT \<or> j = n + 1) \<and> seen j)"
        using j by (intro conjI exI [of _ j]) auto
    next
      assume "n + 1 < CPU_UP_TIMEOUT \<and> (\<exists>j. n + 1 \<le> j \<and> (j < CPU_UP_TIMEOUT \<or> j = n + 1) \<and> seen j)"
      then obtain j where j: "n + 1 < CPU_UP_TIMEOUT" "n + 1 \<le> j" "j < CPU_UP_TIMEOUT \<or> j = n + 1" "seen j" by blast
      then show "\<exists>j. n \<le> j \<and> (j < CPU_UP_TIMEOUT \<or> j = n) \<and> seen j" by (intro exI [of _ j]) linarith
    qed
    then show ?thesis using 1 False by (subst wait_cpu_online.simps) auto
  qed (subst wait_cpu_online.simps, auto)
qed

subsection \<open>The first process\<close>

lemma attach_ready:
  assumes r: "irq_ready k" and g: "\<And>x. t_parent (g x) = 0" "\<And>x. t_cpu (g x) = t_cpu x" "\<And>x. t_state (g x) = TASK_SLEEPING"
    and t: "\<not> is_idle t (sch k)" "\<not> is_idle 0 (sch k)" "\<forall>c<NR_CPUS. t \<notin> set (rq c (sch k))"
  shows "irq_ready (k\<lparr>sch := task_attach t (upd_task t g (sch k))\<rparr>)"
proof -
  have c: "cpus (task_attach t s) = cpus s" "tasks (task_attach t s) = tasks s" "set (all_tasks (task_attach t s)) \<subseteq> insert t (set (all_tasks s))" for s
    by (auto simp: task_attach_def)
  have i: "is_idle u (task_attach t (upd_task t g s)) \<longleftrightarrow> is_idle u s" for u s by (simp add: is_idle_def c)
  have "sched_inv (sch k)" "parents_ok (sch k)" using r by (simp_all add: irq_ready_def sched_ready_def)
  then have "sched_inv (task_attach t (upd_task t g (sch k)))" "parents_ok (task_attach t (upd_task t g (sch k)))"
    using t(2,3) by (auto simp: sched_inv_def rq_ok_def cpu_ok_def c g parents_ok_def i)
  then show ?thesis
    using r t(1) c(3) [of "upd_task t g (sch k)"] by (auto simp: irq_ready_def sched_ready_def i list_all_iff)
qed

lemma woken_on_rq:
  assumes "c < NR_CPUS" "t \<noteq> 0" "\<not> on_rq t s"
  shows "on_rq t (wake_up_process c t s)"
  using assms by (auto simp: wake_up_process_def enqueue_task_def enqueue_task_cpu_def enqueue_task_locked_def Let_def on_rq_iff)

lemma woken_pid: "t_pid (tasks (wake_up_process c t s) u) = t_pid (tasks s u)"
  by (simp add: wake_up_process_def enqueue_task_def enqueue_task_cpu_def enqueue_task_locked_def Let_def resched_cpu_def
      set_need_resched_def send_reschedule_ipi_def)

lemma kernel_thread_some:
  assumes "k_kmalloc sizeof_task k = (Some t, k1)" "k_alloc_pages 1 k1 = (Some stk, k2)"
    "sch k2 = sch k" "tty0 k2 = tty0 k" "next_pid k2 = next_pid k"
  shows "\<exists>g k'. kernel_thread k = (t, k') \<and> sch k' = task_attach t (upd_task t g (sch k)) \<and> tty0 k' = tty0 k \<and>
    (\<forall>x. t_parent (g x) = 0 \<and> t_cpu (g x) = t_cpu x \<and> t_state (g x) = TASK_SLEEPING \<and> t_pid (g x) = next_pid k)"
proof -
  have u: "upd_task t h (upd_task t g s) = upd_task t (\<lambda>x. h (g x)) s" for h g s by (simp add: upd_task_def)
  show ?thesis using assms
    by (simp add: kernel_thread_def task_zero_def k_task_def Let_def u) (rule exI, rule conjI, rule refl, simp)
qed

lemma rest_init_ready:
  assumes r: "irq_ready k" and a: "all_tasks (sch k) = []" and q: "\<forall>c<NR_CPUS. rq c (sch k) = []"
    and inv: "slub_inv (heap (fsys k))" and i: "\<forall>t. is_idle t (sch k) \<longrightarrow> t \<noteq> 0 \<and> unat t < unat (mem_start (pg (heap (fsys k))))"
  shows "irq_ready (rest_init 0 k) \<and> (sch (rest_init 0 k) = sch k \<or>
    (\<exists>t. all_tasks (sch (rest_init 0 k)) = [t] \<and> on_rq t (sch (rest_init 0 k)) \<and> t_pid (tasks (sch (rest_init 0 k)) t) = next_pid k))"
proof -
  obtain x k1 where m: "k_kmalloc sizeof_task k = (x, k1)" by fastforce
  obtain y k2 where p: "k_alloc_pages 1 k1 = (y, k2)" by fastforce
  have s: "sch k1 = sch k" "tty0 k1 = tty0 k" "next_pid k1 = next_pid k" using m by (auto simp: k_kmalloc_def split: prod.splits)
  have s2: "sch k2 = sch k" "tty0 k2 = tty0 k" "next_pid k2 = next_pid k"
    using p s by (auto simp: k_alloc_pages_def put_vm_def split: prod.splits)
  show ?thesis
  proof (cases "x = None \<or> y = None")
    case True
    then have "sch (rest_init 0 k) = sch k \<and> tty0 (rest_init 0 k) = tty0 k"
      using m p s s2 by (auto simp: rest_init_def kernel_thread_def k_kfree_def Let_def split: option.splits)
    then show ?thesis using r by (simp add: irq_ready_def)
  next
    case False
    then obtain t stk where t: "x = Some t" "y = Some stk" by auto
    obtain s' where f: "fs_kmalloc sizeof_task (fsys k) = (Some t, s')" using m t by (auto simp: k_kmalloc_def split: prod.splits)
    have n: "unat sizeof_task + 40 \<le> 2 ^ 27" by simp
    note g = fs_kmalloc_some [OF inv n f]
    have "mem_start (pg (heap s')) = mem_start (pg (heap (fsys k)))"
      using f mem_start_kmalloc [of sizeof_task "heap (fsys k)"] by (auto simp: fs_kmalloc_def split: prod.splits)
    then have t': "\<not> is_idle t (sch k)" "\<not> is_idle 0 (sch k)" using kvalid_in_pool [OF g(2,3)] i by force+
    obtain g k' where h: "kernel_thread k = (t, k')" "sch k' = task_attach t (upd_task t g (sch k))" "tty0 k' = tty0 k"
      "\<And>x. t_parent (g x) = 0" "\<And>x. t_cpu (g x) = t_cpu x" "\<And>x. t_state (g x) = TASK_SLEEPING" "\<And>x. t_pid (g x) = next_pid k"
      using kernel_thread_some [OF m [unfolded t] p [unfolded t] s2] by blast
    let ?w = "wake_up_process 0 t (sch k')"
    have rest: "rest_init 0 k = k'\<lparr>sch := ?w\<rparr>" using h(1) g(4) by (simp add: rest_init_def)
    have att: "all_tasks (sch k') = [t]" "tasks (sch k') t = g (tasks (sch k) t)" "cpus (sch k') = cpus (sch k)"
      using a by (simp_all add: h(2) task_attach_def)
    have "irq_ready (k\<lparr>sch := sch k'\<rparr>)" using attach_ready [OF r h(4,5,6) t'] q by (simp add: h(2))
    then have r': "irq_ready k'" using h(3) by (simp add: irq_ready_def)
    have "keeps (sch k') ?w"
      using wake_up_inv [of "sch k'" 0 t] t'(1) att(3) by (intro keepsI frame_wake) (simp add: sched_ready_def is_idle_def)
    with r' have "irq_ready (rest_init 0 k)" unfolding rest by (rule ready_sch)
    moreover have "on_rq t ?w" using q att(3) g(4) by (intro woken_on_rq) (simp_all add: on_rq_iff)
    moreover have "t_pid (tasks ?w t) = next_pid k" using h(7) att(2) by (simp add: woken_pid)
    ultimately show ?thesis using rest att(1) by simp
  qed
qed

subsection \<open>The boot sequence\<close>

definition same_tasks :: "kernel \<Rightarrow> kernel \<Rightarrow> bool" where
  "same_tasks k k' \<longleftrightarrow> sch k' = sch k \<and> tty0 k' = tty0 k \<and> next_pid k' = next_pid k"

lemma same_tasks_k_fs: "k_fs g k = (r, k') \<Longrightarrow> same_tasks k k'" "same_tasks k (snd (k_fs g k))"
  by (auto simp: k_fs_def same_tasks_def split: prod.splits)

lemma same_tasks_chrdev: "same_tasks k (snd (register_chrdev major opn k))"
  by (simp add: register_chrdev_def same_tasks_def)

lemma same_tasks_trans: "same_tasks k k1 \<Longrightarrow> same_tasks k1 k2 \<Longrightarrow> same_tasks k k2"
  by (simp add: same_tasks_def)

lemma fs_init_same:
  "same_tasks k (dev_init k)" "same_tasks k (proc_init k)" "same_tasks k (dcache_init (k\<lparr>fsys := s\<rparr>))"
proof -
  obtain e k1 where m: "k_fs (ramfs_mkdir ''/dev'') k = (e, k1)" by fastforce
  have "same_tasks k k1" using m by (rule same_tasks_k_fs)
  then show "same_tasks k (dev_init k)" unfolding dev_init_def Let_def m
    by (auto intro!: same_tasks_trans [OF _ same_tasks_k_fs(2)] same_tasks_trans [OF _ same_tasks_chrdev])
  obtain e' k2 where p: "k_fs (ramfs_mkdir ''/proc'') k = (e', k2)" by fastforce
  have "same_tasks k k2" using p by (rule same_tasks_k_fs)
  then show "same_tasks k (proc_init k)" unfolding proc_init_def Let_def p by (auto simp: same_tasks_def split: option.splits)
  show "same_tasks k (dcache_init (k\<lparr>fsys := s\<rparr>))" by (simp add: same_tasks_def dcache_init_def upd_dentry_def)
qed

lemma early_init_ready:
  assumes "statics_ok it start k"
  shows "irq_ready (early_init it start k)" "all_tasks (sch (early_init it start k)) = []"
    "c < NR_CPUS \<Longrightarrow> rq c (sch (early_init it start k)) = []"
    "is_idle t (sch (early_init it start k)) \<longleftrightarrow> t \<in> it ` {..<NR_CPUS}"
    "heap (fsys (early_init it start k)) = kmem_boot start"
proof -
  obtain tt u where i: "tty_init 0 (tty0 k) (serial_init (uart0 k)) (sch k) = (tt, u, sch k)" "read_wait tt = []"
    by (simp add: tty_init_def tty_apply_termios_def tty_wake_reader_def Let_def init_waitqueue_head_def)
  obtain m s where s: "smp_init it (sch k) = (m, s)" by fastforce
  have e: "sch (early_init it start k) = s" "tty0 (early_init it start k) = tt"
    using i s by (simp_all add: early_init_def)
  have a: "inj_on it {..<NR_CPUS}" "\<forall>c<NR_CPUS. it c \<noteq> 0" "all_tasks (sch k) = []" "\<forall>t. t_parent (tasks (sch k) t) = 0"
    using assms by (auto simp: statics_ok_def)
  note r = smp_init_ready [OF a s]
  show "irq_ready (early_init it start k)" using r(1) i(2) by (simp add: irq_ready_def e)
  show "all_tasks (sch (early_init it start k)) = []" "c < NR_CPUS \<Longrightarrow> rq c (sch (early_init it start k)) = []"
    "is_idle t (sch (early_init it start k)) \<longleftrightarrow> t \<in> it ` {..<NR_CPUS}" using r(2,3,4) by (simp_all add: e)
  show "heap (fsys (early_init it start k)) = kmem_boot start" using i s by (simp add: early_init_def)
qed

lemma start_kernel_returns:
  assumes "unat a + unat (b - a) + 2 ^ 34 < 2 ^ 64"
  shows "\<exists>k2. start_kernel it start a b k = Some (rest_init 0 k2) \<and> same_tasks (early_init it start k) k2"
proof -
  let ?k1 = "early_init it start k" let ?k2 = "dcache_init (?k1\<lparr>fsys := ramfs_init (fsys ?k1)\<rparr>)"
  have s: "same_tasks ?k1 ?k2" by (rule fs_init_same)
  have "unat (a + (b - a)) = unat a + unat (b - a)" using assms by (subst unat_add_lem [THEN iffD1]) simp_all
  then obtain r where r: "unpack_to_rootfs a (b - a) (fsys ?k2) = Some r"
    using unpack_loop_returns [of "a + (b - a)" a "fsys ?k2"] assms by (cases "a = 0") (auto simp: unpack_to_rootfs_def word_le_nat_alt)
  let ?k3 = "if b > a then ?k2\<lparr>fsys := snd r\<rparr> else ?k2"
  have "same_tasks ?k1 ?k3" using s by (simp add: same_tasks_def)
  then have "same_tasks ?k1 (dev_init (proc_init ?k3))" by (blast intro: same_tasks_trans fs_init_same)
  moreover have "start_kernel it start a b k = Some (rest_init 0 (dev_init (proc_init ?k3)))"
    using r by (simp add: start_kernel_def Let_def case_prod_beta)
  ultimately show ?thesis by blast
qed


definition image :: kernel where
  "image = shell_kernel\<lparr>sch := (sch shell_kernel)\<lparr>all_tasks := []\<rparr>\<rparr>"

definition image_idle :: "nat \<Rightarrow> u64" where
  "image_idle c = 0xffff800080100000 + 2800 * of_nat c"


end
