(* ===== verification/Rbtree.thy ===== *)
theory Rbtree
  imports Prelude "HOL-Library.Monad_Syntax"
begin

text \<open>
  The red-black tree of \<^verbatim>\<open>lib/rbtree.c\<close>, on a store of nodes with parent pointers.  The result of an operation is
  \<open>None\<close> if it follows a null pointer or never returns.
\<close>

abbreviation (input) RB_RED :: int where "RB_RED \<equiv> 1"
abbreviation (input) RB_BLACK :: int where "RB_BLACK \<equiv> 0"

record rb_node =
  rb_parent :: u64
  rb_left :: u64
  rb_right :: u64
  rb_color :: int

record rb_store =
  rb_nodes :: "u64 \<Rightarrow> rb_node"
  rb_root :: u64

definition rb_at :: "u64 \<Rightarrow> rb_store \<Rightarrow> rb_node option" where
  "rb_at a s = (if a = 0 then None else Some (rb_nodes s a))"

definition rb_set :: "u64 \<Rightarrow> (rb_node \<Rightarrow> rb_node) \<Rightarrow> rb_store \<Rightarrow> rb_store option" where
  "rb_set a f s = (if a = 0 then None else Some (s\<lparr>rb_nodes := (rb_nodes s)(a := f (rb_nodes s a))\<rparr>))"

definition rb_is_red :: "u64 \<Rightarrow> rb_store \<Rightarrow> bool" where
  "rb_is_red node s \<longleftrightarrow> node \<noteq> 0 \<and> rb_color (rb_nodes s node) = RB_RED"

text \<open>The variable that a pointer to a node pointer points to.\<close>

datatype rb_link = Root_Link | Left_Link u64 | Right_Link u64

fun rb_set_link :: "rb_link \<Rightarrow> u64 \<Rightarrow> rb_store \<Rightarrow> rb_store option" where
  "rb_set_link Root_Link v s = Some (s\<lparr>rb_root := v\<rparr>)"
| "rb_set_link (Left_Link a) v s = rb_set a (\<lambda>n. n\<lparr>rb_left := v\<rparr>) s"
| "rb_set_link (Right_Link a) v s = rb_set a (\<lambda>n. n\<lparr>rb_right := v\<rparr>) s"

definition rb_link_node :: "u64 \<Rightarrow> u64 \<Rightarrow> rb_link \<Rightarrow> rb_store \<Rightarrow> rb_store option" where
  "rb_link_node node parent link s = do {
     s1 \<leftarrow> rb_set node (\<lambda>_. \<lparr>rb_parent = parent, rb_left = 0, rb_right = 0, rb_color = 1\<rparr>) s;
     rb_set_link link node s1 }"

subsection \<open>Rotations\<close>

text \<open>The link that leads to a node: the last lines of both rotations and \<open>rb_replace_node\<close> store through it.\<close>

definition rb_relink :: "u64 \<Rightarrow> u64 \<Rightarrow> u64 \<Rightarrow> rb_store \<Rightarrow> rb_store option" where
  "rb_relink node parent v s =
     (if parent = 0 then rb_set_link Root_Link v s
      else do {
        p \<leftarrow> rb_at parent s;
        rb_set_link (if node = rb_left p then Left_Link parent else Right_Link parent) v s })"

definition rb_rotate_left :: "u64 \<Rightarrow> rb_store \<Rightarrow> rb_store option" where
  "rb_rotate_left node s = do {
     n \<leftarrow> rb_at node s;
     let right = rb_right n;
     r \<leftarrow> rb_at right s;
     s1 \<leftarrow> rb_set node (\<lambda>n. n\<lparr>rb_right := rb_left r\<rparr>) s;
     r1 \<leftarrow> rb_at right s1;
     s2 \<leftarrow> (if rb_left r1 \<noteq> 0 then rb_set (rb_left r1) (\<lambda>m. m\<lparr>rb_parent := node\<rparr>) s1 else Some s1);
     n2 \<leftarrow> rb_at node s2;
     s3 \<leftarrow> rb_set right (\<lambda>r. r\<lparr>rb_parent := rb_parent n2\<rparr>) s2;
     n3 \<leftarrow> rb_at node s3;
     s4 \<leftarrow> rb_relink node (rb_parent n3) right s3;
     s5 \<leftarrow> rb_set right (\<lambda>r. r\<lparr>rb_left := node\<rparr>) s4;
     rb_set node (\<lambda>n. n\<lparr>rb_parent := right\<rparr>) s5 }"

definition rb_rotate_right :: "u64 \<Rightarrow> rb_store \<Rightarrow> rb_store option" where
  "rb_rotate_right node s = do {
     n \<leftarrow> rb_at node s;
     let left = rb_left n;
     l \<leftarrow> rb_at left s;
     s1 \<leftarrow> rb_set node (\<lambda>n. n\<lparr>rb_left := rb_right l\<rparr>) s;
     l1 \<leftarrow> rb_at left s1;
     s2 \<leftarrow> (if rb_right l1 \<noteq> 0 then rb_set (rb_right l1) (\<lambda>m. m\<lparr>rb_parent := node\<rparr>) s1 else Some s1);
     n2 \<leftarrow> rb_at node s2;
     s3 \<leftarrow> rb_set left (\<lambda>l. l\<lparr>rb_parent := rb_parent n2\<rparr>) s2;
     n3 \<leftarrow> rb_at node s3;
     s4 \<leftarrow> rb_relink node (rb_parent n3) left s3;
     s5 \<leftarrow> rb_set left (\<lambda>l. l\<lparr>rb_right := node\<rparr>) s4;
     rb_set node (\<lambda>n. n\<lparr>rb_parent := left\<rparr>) s5 }"

subsection \<open>Insertion\<close>

definition rb_paint :: "int \<Rightarrow> u64 \<Rightarrow> rb_store \<Rightarrow> rb_store option" where
  "rb_paint c a s = rb_set a (\<lambda>n. n\<lparr>rb_color := c\<rparr>) s"

text \<open>The two ways the body of the loop of \<open>rb_insert_color\<close> goes on: with a red uncle, and without.\<close>

definition insert_recolor :: "u64 \<Rightarrow> u64 \<Rightarrow> u64 \<Rightarrow> rb_store \<Rightarrow> rb_store option" where
  "insert_recolor parent uncle grandparent s =
     rb_paint RB_BLACK parent s \<bind> rb_paint RB_BLACK uncle \<bind> rb_paint RB_RED grandparent"

definition insert_rotate_left :: "u64 \<Rightarrow> u64 \<Rightarrow> u64 \<Rightarrow> rb_store \<Rightarrow> (u64 \<times> rb_store) option" where
  "insert_rotate_left node parent grandparent s = do {
     p \<leftarrow> rb_at parent s;
     (node1, parent1, s1) \<leftarrow>
       (if node = rb_right p then do {
          s1 \<leftarrow> rb_rotate_left parent s;
          n1 \<leftarrow> rb_at parent s1;
          Some (parent, rb_parent n1, s1) }
        else Some (node, parent, s));
     s2 \<leftarrow> rb_paint RB_BLACK parent1 s1 \<bind> rb_paint RB_RED grandparent \<bind> rb_rotate_right grandparent;
     Some (node1, s2) }"

definition insert_rotate_right :: "u64 \<Rightarrow> u64 \<Rightarrow> u64 \<Rightarrow> rb_store \<Rightarrow> (u64 \<times> rb_store) option" where
  "insert_rotate_right node parent grandparent s = do {
     p \<leftarrow> rb_at parent s;
     (node1, parent1, s1) \<leftarrow>
       (if node = rb_left p then do {
          s1 \<leftarrow> rb_rotate_right parent s;
          n1 \<leftarrow> rb_at parent s1;
          Some (parent, rb_parent n1, s1) }
        else Some (node, parent, s));
     s2 \<leftarrow> rb_paint RB_BLACK parent1 s1 \<bind> rb_paint RB_RED grandparent \<bind> rb_rotate_left grandparent;
     Some (node1, s2) }"

partial_function (option) insert_loop :: "u64 \<Rightarrow> rb_store \<Rightarrow> rb_store option" where
  "insert_loop node s =
     rb_at node s \<bind> (\<lambda>n.
     if rb_parent n = 0 then Some s
     else rb_at (rb_parent n) s \<bind> (\<lambda>p.
     if rb_color p = RB_BLACK then Some s
     else rb_at (rb_parent p) s \<bind> (\<lambda>g.
     if rb_parent n = rb_left g then
       if rb_is_red (rb_right g) s
       then insert_recolor (rb_parent n) (rb_right g) (rb_parent p) s \<bind> insert_loop (rb_parent p)
       else insert_rotate_left node (rb_parent n) (rb_parent p) s \<bind> (\<lambda>r. insert_loop (fst r) (snd r))
     else
       if rb_is_red (rb_left g) s
       then insert_recolor (rb_parent n) (rb_left g) (rb_parent p) s \<bind> insert_loop (rb_parent p)
       else insert_rotate_right node (rb_parent n) (rb_parent p) s \<bind> (\<lambda>r. insert_loop (fst r) (snd r)))))"

definition rb_insert_color :: "u64 \<Rightarrow> rb_store \<Rightarrow> rb_store option" where
  "rb_insert_color node s = do {
     s1 \<leftarrow> insert_loop node s;
     if rb_root s1 \<noteq> 0 then rb_paint RB_BLACK (rb_root s1) s1 else Some s1 }"

subsection \<open>Walking\<close>

partial_function (option) rb_leftmost :: "u64 \<Rightarrow> rb_store \<Rightarrow> u64 option" where
  "rb_leftmost node s = rb_at node s \<bind> (\<lambda>n. if rb_left n \<noteq> 0 then rb_leftmost (rb_left n) s else Some node)"

definition rb_first :: "rb_store \<Rightarrow> u64 option" where
  "rb_first s = (if rb_root s = 0 then Some 0 else rb_leftmost (rb_root s) s)"

partial_function (option) rb_climb :: "u64 \<Rightarrow> rb_store \<Rightarrow> u64 option" where
  "rb_climb node s =
     rb_at node s \<bind> (\<lambda>n.
     if rb_parent n = 0 then Some 0
     else rb_at (rb_parent n) s \<bind> (\<lambda>p.
     if node = rb_right p then rb_climb (rb_parent n) s else Some (rb_parent n)))"

definition rb_next :: "u64 \<Rightarrow> rb_store \<Rightarrow> u64 option" where
  "rb_next node s = do {
     n \<leftarrow> rb_at node s;
     if rb_right n \<noteq> 0 then rb_leftmost (rb_right n) s else rb_climb node s }"

subsection \<open>Removal\<close>

definition rb_replace_node :: "u64 \<Rightarrow> u64 \<Rightarrow> rb_store \<Rightarrow> rb_store option" where
  "rb_replace_node victim replacement s = do {
     v \<leftarrow> rb_at victim s;
     s1 \<leftarrow> rb_relink victim (rb_parent v) replacement s;
     if replacement \<noteq> 0 then rb_set replacement (\<lambda>n. n\<lparr>rb_parent := rb_parent v\<rparr>) s1 else Some s1 }"

text \<open>A missing child counts as black.\<close>

definition rb_is_black :: "u64 \<Rightarrow> rb_store \<Rightarrow> bool" where
  "rb_is_black a s \<longleftrightarrow> a = 0 \<or> rb_color (rb_nodes s a) = RB_BLACK"

definition rb_paint_child :: "int \<Rightarrow> u64 \<Rightarrow> rb_store \<Rightarrow> rb_store option" where
  "rb_paint_child c a s = (if a \<noteq> 0 then rb_paint c a s else Some s)"

text \<open>One pass of the loop for a left child and for a right child, first from the point where the sibling is black: whether the
  loop goes on, and the next child and parent.\<close>

definition fixup_left_black :: "u64 \<Rightarrow> u64 \<Rightarrow> rb_store \<Rightarrow> (bool \<times> u64 \<times> u64 \<times> rb_store) option" where
  "fixup_left_black parent sibling s = do {
     b \<leftarrow> rb_at sibling s;
     if rb_is_black (rb_left b) s \<and> rb_is_black (rb_right b) s then do {
       s1 \<leftarrow> rb_paint RB_RED sibling s;
       p1 \<leftarrow> rb_at parent s1;
       Some (True, parent, rb_parent p1, s1) }
     else do {
       (sibling1, s1) \<leftarrow>
         (if rb_is_black (rb_right b) s then do {
            s1 \<leftarrow> rb_paint_child RB_BLACK (rb_left b) s \<bind> rb_paint RB_RED sibling \<bind> rb_rotate_right sibling;
            p1 \<leftarrow> rb_at parent s1;
            Some (rb_right p1, s1) }
          else Some (sibling, s));
       p2 \<leftarrow> rb_at parent s1;
       s2 \<leftarrow> rb_paint (rb_color p2) sibling1 s1 \<bind> rb_paint RB_BLACK parent;
       b2 \<leftarrow> rb_at sibling1 s2;
       s3 \<leftarrow> rb_paint_child RB_BLACK (rb_right b2) s2 \<bind> rb_rotate_left parent;
       Some (False, rb_root s3, parent, s3) } }"

definition fixup_left :: "u64 \<Rightarrow> rb_store \<Rightarrow> (bool \<times> u64 \<times> u64 \<times> rb_store) option" where
  "fixup_left parent s = do {
     p \<leftarrow> rb_at parent s;
     if rb_is_red (rb_right p) s then do {
       s1 \<leftarrow> rb_paint RB_BLACK (rb_right p) s \<bind> rb_paint RB_RED parent \<bind> rb_rotate_left parent;
       p1 \<leftarrow> rb_at parent s1;
       fixup_left_black parent (rb_right p1) s1 }
     else fixup_left_black parent (rb_right p) s }"

definition fixup_right_black :: "u64 \<Rightarrow> u64 \<Rightarrow> rb_store \<Rightarrow> (bool \<times> u64 \<times> u64 \<times> rb_store) option" where
  "fixup_right_black parent sibling s = do {
     b \<leftarrow> rb_at sibling s;
     if rb_is_black (rb_right b) s \<and> rb_is_black (rb_left b) s then do {
       s1 \<leftarrow> rb_paint RB_RED sibling s;
       p1 \<leftarrow> rb_at parent s1;
       Some (True, parent, rb_parent p1, s1) }
     else do {
       (sibling1, s1) \<leftarrow>
         (if rb_is_black (rb_left b) s then do {
            s1 \<leftarrow> rb_paint_child RB_BLACK (rb_right b) s \<bind> rb_paint RB_RED sibling \<bind> rb_rotate_left sibling;
            p1 \<leftarrow> rb_at parent s1;
            Some (rb_left p1, s1) }
          else Some (sibling, s));
       p2 \<leftarrow> rb_at parent s1;
       s2 \<leftarrow> rb_paint (rb_color p2) sibling1 s1 \<bind> rb_paint RB_BLACK parent;
       b2 \<leftarrow> rb_at sibling1 s2;
       s3 \<leftarrow> rb_paint_child RB_BLACK (rb_left b2) s2 \<bind> rb_rotate_right parent;
       Some (False, rb_root s3, parent, s3) } }"

definition fixup_right :: "u64 \<Rightarrow> rb_store \<Rightarrow> (bool \<times> u64 \<times> u64 \<times> rb_store) option" where
  "fixup_right parent s = do {
     p \<leftarrow> rb_at parent s;
     if rb_is_red (rb_left p) s then do {
       s1 \<leftarrow> rb_paint RB_BLACK (rb_left p) s \<bind> rb_paint RB_RED parent \<bind> rb_rotate_right parent;
       p1 \<leftarrow> rb_at parent s1;
       fixup_right_black parent (rb_left p1) s1 }
     else fixup_right_black parent (rb_left p) s }"

partial_function (option) erase_fixup :: "u64 \<Rightarrow> u64 \<Rightarrow> rb_store \<Rightarrow> (u64 \<times> rb_store) option" where
  "erase_fixup child parent s =
     (if child = rb_root s \<or> rb_is_red child s then Some (child, s)
      else rb_at parent s \<bind> (\<lambda>p.
        (if child = rb_left p then fixup_left parent s else fixup_right parent s) \<bind> (\<lambda>(more, child1, parent1, s1).
        if more then erase_fixup child1 parent1 s1 else Some (child1, s1))))"

definition erase_finish :: "u64 \<Rightarrow> u64 \<Rightarrow> int \<Rightarrow> rb_store \<Rightarrow> rb_store option" where
  "erase_finish child parent color s =
     (if color = RB_BLACK then do {
        (child1, s1) \<leftarrow> erase_fixup child parent s;
        rb_paint_child RB_BLACK child1 s1 }
      else Some s)"

text \<open>A node with two children: its successor is moved, next to the node or further down.\<close>

definition erase_next :: "u64 \<Rightarrow> u64 \<Rightarrow> rb_store \<Rightarrow> (u64 \<times> u64 \<times> int \<times> rb_store) option" where
  "erase_next node succ s = do {
     x \<leftarrow> rb_at succ s;
     s1 \<leftarrow> (if rb_right x \<noteq> 0 then rb_set (rb_right x) (\<lambda>m. m\<lparr>rb_parent := succ\<rparr>) s else Some s);
     n1 \<leftarrow> rb_at node s1;
     s2 \<leftarrow> rb_set succ (\<lambda>m. m\<lparr>rb_right := rb_right n1\<rparr>) s1;
     n2 \<leftarrow> rb_at node s2;
     s3 \<leftarrow> rb_set (rb_right n2) (\<lambda>m. m\<lparr>rb_parent := succ\<rparr>) s2;
     Some (rb_right x, succ, rb_color x, s3) }"

definition erase_far :: "u64 \<Rightarrow> u64 \<Rightarrow> rb_store \<Rightarrow> (u64 \<times> u64 \<times> int \<times> rb_store) option" where
  "erase_far node succ s = do {
     x \<leftarrow> rb_at succ s;
     s1 \<leftarrow> (if rb_right x \<noteq> 0 then rb_set (rb_right x) (\<lambda>m. m\<lparr>rb_parent := rb_parent x\<rparr>) s else Some s);
     n1 \<leftarrow> rb_at node s1;
     s2 \<leftarrow> rb_set succ (\<lambda>m. m\<lparr>rb_parent := rb_parent n1\<rparr>) s1;
     n2 \<leftarrow> rb_at node s2;
     s3 \<leftarrow> rb_relink node (rb_parent n2) succ s2;
     n3 \<leftarrow> rb_at node s3;
     s4 \<leftarrow> rb_set succ (\<lambda>m. m\<lparr>rb_left := rb_left n3\<rparr>) s3;
     n4 \<leftarrow> rb_at node s4;
     s5 \<leftarrow> rb_set (rb_left n4) (\<lambda>m. m\<lparr>rb_parent := succ\<rparr>) s4;
     n5 \<leftarrow> rb_at node s5;
     s6 \<leftarrow> rb_set succ (\<lambda>m. m\<lparr>rb_right := rb_right n5\<rparr>) s5;
     n6 \<leftarrow> rb_at node s6;
     s7 \<leftarrow> rb_set (rb_right n6) (\<lambda>m. m\<lparr>rb_parent := succ\<rparr>) s6;
     Some (rb_right x, rb_parent x, rb_color x, s7) }"

definition erase_two :: "u64 \<Rightarrow> rb_store \<Rightarrow> rb_store option" where
  "erase_two node s = do {
     n \<leftarrow> rb_at node s;
     succ \<leftarrow> rb_leftmost (rb_right n) s;
     (child, parent, color, s1) \<leftarrow> (if rb_right n = succ then erase_next node succ s else erase_far node succ s);
     s2 \<leftarrow> rb_replace_node node succ s1;
     erase_finish child parent color s2 }"

definition erase_one :: "u64 \<Rightarrow> u64 \<Rightarrow> rb_store \<Rightarrow> rb_store option" where
  "erase_one node child s = do {
     s1 \<leftarrow> rb_replace_node node child s;
     n1 \<leftarrow> rb_at node s1;
     erase_finish child (rb_parent n1) (rb_color n1) s1 }"

definition rb_erase :: "u64 \<Rightarrow> rb_store \<Rightarrow> rb_store option" where
  "rb_erase node s = do {
     n \<leftarrow> rb_at node s;
     if rb_left n = 0 then erase_one node (rb_right n) s
     else if rb_right n = 0 then erase_one node (rb_left n) s
     else erase_two node s }"

end
