(* ===== verification/Rbtree_Props.thy ===== *)
theory Rbtree_Props
  imports Rbtree
begin

text \<open>
  Correctness of the red-black tree: the store represents a tree, rotations and recolourings act on the tree below any
  context, insertion gives a red-black tree with the new node at its place in the order, and walking visits the nodes in
  order.
\<close>

subsection \<open>Trees and contexts\<close>

datatype rbt = Lf | Nd int rbt u64 rbt

fun inorder :: "rbt \<Rightarrow> u64 list" where
  "inorder Lf = []"
| "inorder (Nd c l x r) = inorder l @ x # inorder r"

fun ptr :: "rbt \<Rightarrow> u64" where
  "ptr Lf = 0"
| "ptr (Nd c l x r) = x"

fun col :: "rbt \<Rightarrow> int" where
  "col Lf = RB_BLACK"
| "col (Nd c l x r) = c"

text \<open>A subtree below a parent.\<close>

fun holds :: "(u64 \<Rightarrow> rb_node) \<Rightarrow> u64 \<Rightarrow> rbt \<Rightarrow> bool" where
  "holds h p Lf \<longleftrightarrow> True"
| "holds h p (Nd c l x r) \<longleftrightarrow> x \<noteq> 0 \<and> h x = \<lparr>rb_parent = p, rb_left = ptr l, rb_right = ptr r, rb_color = c\<rparr> \<and> holds h x l \<and> holds h x r"

definition rep :: "rb_store \<Rightarrow> rbt \<Rightarrow> bool" where
  "rep s t \<longleftrightarrow> rb_root s = ptr t \<and> holds (rb_nodes s) 0 t \<and> distinct (inorder t)"

text \<open>The way from a subtree up to the root: the node above it with the other subtree, and so on.\<close>

datatype frame = Lft int u64 rbt | Rgt int rbt u64

fun fcol :: "frame \<Rightarrow> int" where
  "fcol (Lft c x r) = c"
| "fcol (Rgt c l x) = c"

fun plug :: "frame list \<Rightarrow> rbt \<Rightarrow> rbt" where
  "plug [] t = t"
| "plug (Lft c x r # C) t = plug C (Nd c t x r)"
| "plug (Rgt c l x # C) t = plug C (Nd c l x t)"

fun par :: "frame list \<Rightarrow> u64" where
  "par [] = 0"
| "par (Lft c x r # C) = x"
| "par (Rgt c l x # C) = x"

fun ctop :: "frame list \<Rightarrow> u64 \<Rightarrow> u64" where
  "ctop [] a = a"
| "ctop (f # C) a = ctop C (par (f # C))"

fun before :: "frame list \<Rightarrow> u64 list" where
  "before [] = []"
| "before (Lft c x r # C) = before C"
| "before (Rgt c l x # C) = before C @ inorder l @ [x]"

fun behind :: "frame list \<Rightarrow> u64 list" where
  "behind [] = []"
| "behind (Lft c x r # C) = x # inorder r @ behind C"
| "behind (Rgt c l x # C) = behind C"

fun cholds :: "(u64 \<Rightarrow> rb_node) \<Rightarrow> frame list \<Rightarrow> u64 \<Rightarrow> bool" where
  "cholds h [] a \<longleftrightarrow> True"
| "cholds h (Lft c x r # C) a \<longleftrightarrow>
     x \<noteq> 0 \<and> h x = \<lparr>rb_parent = par C, rb_left = a, rb_right = ptr r, rb_color = c\<rparr> \<and> holds h x r \<and> cholds h C x"
| "cholds h (Rgt c l x # C) a \<longleftrightarrow>
     x \<noteq> 0 \<and> h x = \<lparr>rb_parent = par C, rb_left = ptr l, rb_right = a, rb_color = c\<rparr> \<and> holds h x l \<and> cholds h C x"

lemma inorder_plug: "inorder (plug C t) = before C @ inorder t @ behind C"
  by (induction C t rule: plug.induct) auto

lemma ptr_plug: "ptr (plug C t) = ctop C (ptr t)"
  by (induction C t rule: plug.induct) auto

lemma holds_plug: "holds h 0 (plug C t) \<longleftrightarrow> holds h (par C) t \<and> cholds h C (ptr t)"
  by (induction C t rule: plug.induct) auto

lemma rep_plug:
  "rep s (plug C t) \<longleftrightarrow> rb_root s = ctop C (ptr t) \<and> holds (rb_nodes s) (par C) t \<and> cholds (rb_nodes s) C (ptr t) \<and>
     distinct (before C @ inorder t @ behind C)"
  by (auto simp: rep_def ptr_plug holds_plug inorder_plug)

lemma holds_cong: "\<forall>x\<in>set (inorder t). h' x = h x \<Longrightarrow> holds h' p t \<longleftrightarrow> holds h p t"
  by (induction t arbitrary: p) auto

lemma cholds_cong: "\<forall>x\<in>set (before C @ behind C). h' x = h x \<Longrightarrow> cholds h' C a \<longleftrightarrow> cholds h C a"
proof (induction h' C a rule: cholds.induct)
  case (2 h' c x r C a)
  then show ?case using holds_cong [of r h' h x] by auto
next
  case (3 h' c l x C a)
  then show ?case using holds_cong [of l h' h x] by auto
qed simp

lemma holds_nonnull: "holds h p t \<Longrightarrow> 0 \<notin> set (inorder t)"
  by (induction t arbitrary: p) auto

lemma cholds_nonnull: "cholds h C a \<Longrightarrow> 0 \<notin> set (before C) \<and> 0 \<notin> set (behind C)"
  by (induction h C a rule: cholds.induct) (auto dest: holds_nonnull)

lemma ptr_in: "t \<noteq> Lf \<Longrightarrow> ptr t \<in> set (inorder t)"
  by (cases t) auto

lemma ptr_zero: "holds h p t \<Longrightarrow> ptr t = 0 \<longleftrightarrow> t = Lf"
  by (cases t) auto

lemma par_in: "C \<noteq> [] \<Longrightarrow> par C \<in> set (before C @ behind C)"
  by (cases C rule: par.cases) auto

text \<open>Moving a subtree below another parent.\<close>

lemma holds_reparent:
  assumes "holds h p t" "distinct (inorder t)" "t \<noteq> Lf"
  shows "holds (h(ptr t := (h (ptr t))\<lparr>rb_parent := q\<rparr>)) q t"
proof (cases t)
  case (Nd c l x r)
  let ?h = "h(x := (h x)\<lparr>rb_parent := q\<rparr>)"
  have "holds ?h x l \<longleftrightarrow> holds h x l" "holds ?h x r \<longleftrightarrow> holds h x r"
    using assms(2) Nd by (auto intro!: holds_cong)
  then show ?thesis using assms(1) Nd by simp
qed (use assms in simp)

text \<open>Storing through the link that leads to a node.\<close>

lemma relink_ok:
  assumes c: "cholds (rb_nodes s) C a" "rb_root s = ctop C a" and a: "a \<noteq> 0" "a \<notin> set (before C @ behind C)"
    and d: "distinct (before C @ behind C)"
  shows "\<exists>s'. rb_relink a (par C) v s = Some s' \<and> cholds (rb_nodes s') C v \<and> rb_root s' = ctop C v \<and>
    (\<forall>x. x \<noteq> par C \<or> C = [] \<longrightarrow> rb_nodes s' x = rb_nodes s x)"
proof (cases C rule: par.cases)
  case 1
  then show ?thesis using c by (simp add: rb_relink_def)
next
  case (2 k x r D)
  let ?h = "(rb_nodes s)(x := (rb_nodes s x)\<lparr>rb_left := v\<rparr>)"
  have x: "x \<noteq> 0" "rb_nodes s x = \<lparr>rb_parent = par D, rb_left = a, rb_right = ptr r, rb_color = k\<rparr>" "holds (rb_nodes s) x r" "cholds (rb_nodes s) D x"
    using c(1) 2 by simp_all
  have "holds ?h x r \<longleftrightarrow> holds (rb_nodes s) x r" "cholds ?h D x \<longleftrightarrow> cholds (rb_nodes s) D x"
    using d 2 by (auto intro!: holds_cong cholds_cong)
  then show ?thesis using 2 x c(2) by (simp add: rb_relink_def rb_at_def rb_set_def)
next
  case (3 k l x D)
  let ?h = "(rb_nodes s)(x := (rb_nodes s x)\<lparr>rb_right := v\<rparr>)"
  have x: "x \<noteq> 0" "rb_nodes s x = \<lparr>rb_parent = par D, rb_left = ptr l, rb_right = a, rb_color = k\<rparr>" "holds (rb_nodes s) x l" "cholds (rb_nodes s) D x"
    using c(1) 3 by simp_all
  have "holds ?h x l \<longleftrightarrow> holds (rb_nodes s) x l" "cholds ?h D x \<longleftrightarrow> cholds (rb_nodes s) D x"
    using d 3 by (auto intro!: holds_cong cholds_cong)
  moreover have "a \<noteq> ptr l" using a 3 ptr_in [of l] by (cases l) auto
  ultimately show ?thesis using 3 x c(2) by (simp add: rb_relink_def rb_at_def rb_set_def)
qed

lemma paint_ok:
  assumes "rep s (plug C (Nd c l x r))"
  shows "\<exists>s'. rb_paint d x s = Some s' \<and> rep s' (plug C (Nd d l x r))"
proof -
  let ?h = "(rb_nodes s)(x := (rb_nodes s x)\<lparr>rb_color := d\<rparr>)"
  have r: "holds (rb_nodes s) (par C) (Nd c l x r)" "cholds (rb_nodes s) C x" "distinct (before C @ inorder (Nd c l x r) @ behind C)" "rb_root s = ctop C x"
    using assms by (simp_all add: rep_plug)
  have "holds ?h x l \<longleftrightarrow> holds (rb_nodes s) x l" "holds ?h x r \<longleftrightarrow> holds (rb_nodes s) x r" "cholds ?h C x \<longleftrightarrow> cholds (rb_nodes s) C x"
    using r(3) by (auto intro!: holds_cong cholds_cong)
  then show ?thesis using r by (simp add: rb_paint_def rb_set_def rep_plug)
qed


lemma rotate_left_ok:
  assumes "rep s (plug C (Nd c a x (Nd d b y e)))"
  shows "\<exists>s'. rb_rotate_left x s = Some s' \<and> rep s' (plug C (Nd d (Nd c a x b) y e))"
proof -
  let ?h = "rb_nodes s"
  have hx: "?h x = \<lparr>rb_parent = par C, rb_left = ptr a, rb_right = y, rb_color = c\<rparr>" "?h y = \<lparr>rb_parent = x, rb_left = ptr b, rb_right = ptr e, rb_color = d\<rparr>"
    and sub: "holds ?h x a" "holds ?h y b" "holds ?h y e" and ctx: "cholds ?h C x" "rb_root s = ctop C x" and n: "x \<noteq> 0" "y \<noteq> 0"
    and dist: "distinct (before C @ inorder a @ x # inorder b @ y # inorder e @ behind C)"
    using assms by (simp_all add: rep_plug)
  define h1 where "h1 = ?h(x := (?h x)\<lparr>rb_right := ptr b\<rparr>)"
  define h2 where "h2 = (if ptr b \<noteq> 0 then h1(ptr b := (h1 (ptr b))\<lparr>rb_parent := x\<rparr>) else h1)"
  define h3 where "h3 = h2(y := (h2 y)\<lparr>rb_parent := par C\<rparr>)"
  have pb: "b \<noteq> Lf \<Longrightarrow> ptr b \<in> set (inorder b)" "ptr b = 0 \<longleftrightarrow> b = Lf" using ptr_in ptr_zero [OF sub(2)] by auto
  have ne: "x \<noteq> y" "ptr b \<noteq> x" "ptr b \<noteq> y" using dist n pb by auto
  have h3: "h3 x = \<lparr>rb_parent = par C, rb_left = ptr a, rb_right = ptr b, rb_color = c\<rparr>" "h3 y = \<lparr>rb_parent = par C, rb_left = ptr b, rb_right = ptr e, rb_color = d\<rparr>"
    using hx ne by (auto simp: h3_def h2_def h1_def)
  have other: "h3 z = ?h z" if "z \<notin> insert x (insert y (set (inorder b)))" for z using that pb by (auto simp: h3_def h2_def h1_def)
  have same: "\<forall>z\<in>set (inorder a). h3 z = ?h z" "\<forall>z\<in>set (inorder e). h3 z = ?h z" "\<forall>z\<in>set (before C @ behind C). h3 z = ?h z"
    using dist by (auto intro!: other)
  have b3: "holds h3 x b"
  proof (cases "b = Lf")
    case False
    have "h3 z = (?h(ptr b := (?h (ptr b))\<lparr>rb_parent := x\<rparr>)) z" if "z \<in> set (inorder b)" for z
      using that dist ne pb False by (auto simp: h3_def h2_def h1_def)
    moreover have "distinct (inorder b)" using dist by simp
    ultimately show ?thesis using holds_reparent [OF sub(2) _ False, of x] holds_cong [of b h3] by blast
  qed simp
  have c3: "cholds h3 C x" using ctx(1) cholds_cong [OF same(3)] by simp
  let ?s3 = "s\<lparr>rb_nodes := h3\<rparr>"
  have dC: "distinct (before C @ behind C)" "x \<notin> set (before C @ behind C)" using dist by auto
  obtain s4 where s4: "rb_relink x (par C) y ?s3 = Some s4" "cholds (rb_nodes s4) C y" "rb_root s4 = ctop C y"
      "\<And>z. z \<noteq> par C \<or> C = [] \<Longrightarrow> rb_nodes s4 z = h3 z"
    using relink_ok [of ?s3 C x y] c3 ctx(2) n(1) dC by auto
  have off: "rb_nodes s4 z = h3 z" if "z \<in> set (inorder a @ x # inorder b @ y # inorder e)" for z
    using that par_in [of C] dist by (intro s4(4)) auto
  define h6 where "h6 = (rb_nodes s4)(y := (rb_nodes s4 y)\<lparr>rb_left := x\<rparr>, x := (rb_nodes s4 x)\<lparr>rb_parent := y\<rparr>)"
  have "rb_rotate_left x s = Some (s4\<lparr>rb_nodes := h6\<rparr>)"
    using n ne hx s4(1) [unfolded h3_def h2_def h1_def]
    by (cases "ptr b = 0") (simp_all add: rb_rotate_left_def rb_at_def rb_set_def h6_def Let_def)
  moreover have "holds h6 x a \<longleftrightarrow> holds ?h x a" "holds h6 x b \<longleftrightarrow> holds h3 x b" "holds h6 y e \<longleftrightarrow> holds ?h y e"
      "cholds h6 C y \<longleftrightarrow> cholds (rb_nodes s4) C y"
    using same(1,2) off dist by (auto simp: h6_def intro!: holds_cong cholds_cong)
  moreover have "h6 x = \<lparr>rb_parent = y, rb_left = ptr a, rb_right = ptr b, rb_color = c\<rparr>" "h6 y = \<lparr>rb_parent = par C, rb_left = x, rb_right = ptr e, rb_color = d\<rparr>"
    using off h3 ne by (simp_all add: h6_def)
  ultimately show ?thesis using s4(2,3) sub b3 dist n by (simp add: rep_plug)
qed

lemma rotate_right_ok:
  assumes "rep s (plug C (Nd c (Nd d e y b) x a))"
  shows "\<exists>s'. rb_rotate_right x s = Some s' \<and> rep s' (plug C (Nd d e y (Nd c b x a)))"
proof -
  let ?h = "rb_nodes s"
  have hx: "?h x = \<lparr>rb_parent = par C, rb_left = y, rb_right = ptr a, rb_color = c\<rparr>" "?h y = \<lparr>rb_parent = x, rb_left = ptr e, rb_right = ptr b, rb_color = d\<rparr>"
    and sub: "holds ?h x a" "holds ?h y b" "holds ?h y e" and ctx: "cholds ?h C x" "rb_root s = ctop C x" and n: "x \<noteq> 0" "y \<noteq> 0"
    and dist: "distinct (before C @ inorder e @ y # inorder b @ x # inorder a @ behind C)"
    using assms by (simp_all add: rep_plug)
  define h1 where "h1 = ?h(x := (?h x)\<lparr>rb_left := ptr b\<rparr>)"
  define h2 where "h2 = (if ptr b \<noteq> 0 then h1(ptr b := (h1 (ptr b))\<lparr>rb_parent := x\<rparr>) else h1)"
  define h3 where "h3 = h2(y := (h2 y)\<lparr>rb_parent := par C\<rparr>)"
  have pb: "b \<noteq> Lf \<Longrightarrow> ptr b \<in> set (inorder b)" "ptr b = 0 \<longleftrightarrow> b = Lf" using ptr_in ptr_zero [OF sub(2)] by auto
  have ne: "x \<noteq> y" "ptr b \<noteq> x" "ptr b \<noteq> y" using dist n pb by auto
  have h3: "h3 x = \<lparr>rb_parent = par C, rb_left = ptr b, rb_right = ptr a, rb_color = c\<rparr>" "h3 y = \<lparr>rb_parent = par C, rb_left = ptr e, rb_right = ptr b, rb_color = d\<rparr>"
    using hx ne by (auto simp: h3_def h2_def h1_def)
  have other: "h3 z = ?h z" if "z \<notin> insert x (insert y (set (inorder b)))" for z using that pb by (auto simp: h3_def h2_def h1_def)
  have same: "\<forall>z\<in>set (inorder a). h3 z = ?h z" "\<forall>z\<in>set (inorder e). h3 z = ?h z" "\<forall>z\<in>set (before C @ behind C). h3 z = ?h z"
    using dist by (auto intro!: other)
  have b3: "holds h3 x b"
  proof (cases "b = Lf")
    case False
    have "h3 z = (?h(ptr b := (?h (ptr b))\<lparr>rb_parent := x\<rparr>)) z" if "z \<in> set (inorder b)" for z
      using that dist ne pb False by (auto simp: h3_def h2_def h1_def)
    moreover have "distinct (inorder b)" using dist by simp
    ultimately show ?thesis using holds_reparent [OF sub(2) _ False, of x] holds_cong [of b h3] by blast
  qed simp
  have c3: "cholds h3 C x" using ctx(1) cholds_cong [OF same(3)] by simp
  let ?s3 = "s\<lparr>rb_nodes := h3\<rparr>"
  have dC: "distinct (before C @ behind C)" "x \<notin> set (before C @ behind C)" using dist by auto
  obtain s4 where s4: "rb_relink x (par C) y ?s3 = Some s4" "cholds (rb_nodes s4) C y" "rb_root s4 = ctop C y"
      "\<And>z. z \<noteq> par C \<or> C = [] \<Longrightarrow> rb_nodes s4 z = h3 z"
    using relink_ok [of ?s3 C x y] c3 ctx(2) n(1) dC by auto
  have off: "rb_nodes s4 z = h3 z" if "z \<in> set (inorder a @ x # inorder b @ y # inorder e)" for z
    using that par_in [of C] dist by (intro s4(4)) auto
  define h6 where "h6 = (rb_nodes s4)(y := (rb_nodes s4 y)\<lparr>rb_right := x\<rparr>, x := (rb_nodes s4 x)\<lparr>rb_parent := y\<rparr>)"
  have "rb_rotate_right x s = Some (s4\<lparr>rb_nodes := h6\<rparr>)"
    using n ne hx s4(1) [unfolded h3_def h2_def h1_def]
    by (cases "ptr b = 0") (simp_all add: rb_rotate_right_def rb_at_def rb_set_def h6_def Let_def)
  moreover have "holds h6 x a \<longleftrightarrow> holds ?h x a" "holds h6 x b \<longleftrightarrow> holds h3 x b" "holds h6 y e \<longleftrightarrow> holds ?h y e"
      "cholds h6 C y \<longleftrightarrow> cholds (rb_nodes s4) C y"
    using same(1,2) off dist by (auto simp: h6_def intro!: holds_cong cholds_cong)
  moreover have "h6 x = \<lparr>rb_parent = y, rb_left = ptr b, rb_right = ptr a, rb_color = c\<rparr>" "h6 y = \<lparr>rb_parent = par C, rb_left = ptr e, rb_right = x, rb_color = d\<rparr>"
    using off h3 ne by (simp_all add: h6_def)
  ultimately show ?thesis using s4(2,3) sub b3 dist n by (simp add: rep_plug)
qed

subsection \<open>Insertion\<close>

lemma rep_at:
  assumes "rep s (plug C (Nd c l x r))"
  shows "rb_at x s = Some \<lparr>rb_parent = par C, rb_left = ptr l, rb_right = ptr r, rb_color = c\<rparr>" "x \<noteq> 0"
  using assms by (simp_all add: rep_plug rb_at_def)

lemma rep_red: "rep s (plug C t) \<Longrightarrow> rb_is_red (ptr t) s \<longleftrightarrow> col t = RB_RED"
  by (cases t) (simp_all add: rep_plug rb_is_red_def)

lemma recolor_ok:
  assumes "rep s (plug C (Nd g (Nd p a x b) y (Nd u d z e)))"
  shows "\<exists>s'. insert_recolor x z y s = Some s' \<and> rep s' (plug C (Nd 1 (Nd 0 a x b) y (Nd 0 d z e)))"
    "\<exists>s'. insert_recolor z x y s = Some s' \<and> rep s' (plug C (Nd 1 (Nd 0 a x b) y (Nd 0 d z e)))"
proof -
  have l: "\<exists>s'. rb_paint 0 x s = Some s' \<and> rep s' (plug C (Nd g (Nd 0 a x b) y t))" if "rep s (plug C (Nd g (Nd p a x b) y t))" for s t
    using paint_ok [of s "Lft g y t # C" p a x b 0] that by simp
  have r: "\<exists>s'. rb_paint 0 z s = Some s' \<and> rep s' (plug C (Nd g t y (Nd 0 d z e)))" if "rep s (plug C (Nd g t y (Nd u d z e)))" for s t
    using paint_ok [of s "Rgt g t y # C" u d z e 0] that by simp
  note m = paint_ok [of _ C g "Nd 0 a x b" y "Nd 0 d z e" 1]
  show "\<exists>s'. insert_recolor x z y s = Some s' \<and> rep s' (plug C (Nd 1 (Nd 0 a x b) y (Nd 0 d z e)))"
    using l [OF assms] r m by (auto simp: insert_recolor_def) (metis bind.bind_lunit)
  show "\<exists>s'. insert_recolor z x y s = Some s' \<and> rep s' (plug C (Nd 1 (Nd 0 a x b) y (Nd 0 d z e)))"
    using r [OF assms] l m by (auto simp: insert_recolor_def) (metis bind.bind_lunit)
qed

text \<open>Painting the parent black and the grandparent red, and rotating.\<close>

lemma paint_rotate_right:
  assumes "rep s (plug C (Nd g (Nd p a x b) y u))"
  shows "\<exists>s'. (rb_paint 0 x s \<bind> rb_paint 1 y \<bind> rb_rotate_right y) = Some s' \<and> rep s' (plug C (Nd 0 a x (Nd 1 b y u)))"
proof -
  obtain s1 where s1: "rb_paint 0 x s = Some s1" "rep s1 (plug C (Nd g (Nd 0 a x b) y u))"
    using paint_ok [of s "Lft g y u # C" p a x b 0] assms by auto
  from paint_ok [OF this(2), of 1] obtain s2 where s2: "rb_paint 1 y s1 = Some s2" "rep s2 (plug C (Nd 1 (Nd 0 a x b) y u))" by blast
  show ?thesis using rotate_right_ok [OF s2(2)] s1(1) s2(1) by auto
qed

lemma paint_rotate_left:
  assumes "rep s (plug C (Nd g u y (Nd p a x b)))"
  shows "\<exists>s'. (rb_paint 0 x s \<bind> rb_paint 1 y \<bind> rb_rotate_left y) = Some s' \<and> rep s' (plug C (Nd 0 (Nd 1 u y a) x b))"
proof -
  obtain s1 where s1: "rb_paint 0 x s = Some s1" "rep s1 (plug C (Nd g u y (Nd 0 a x b)))"
    using paint_ok [of s "Rgt g u y # C" p a x b 0] assms by auto
  from paint_ok [OF this(2), of 1] obtain s2 where s2: "rb_paint 1 y s1 = Some s2" "rep s2 (plug C (Nd 1 u y (Nd 0 a x b)))" by blast
  show ?thesis using rotate_left_ok [OF s2(2)] s1(1) s2(1) by auto
qed

lemma ptr_other: "rep s (plug C (Nd c l x r)) \<Longrightarrow> l \<noteq> Lf \<Longrightarrow> ptr l \<noteq> ptr r"
  using ptr_in [of l] ptr_in [of r] by (cases r) (auto simp: rep_plug dest: holds_nonnull)

lemma insert_rotate_left_ok:
  "rep s (plug C (Nd g (Nd p (Nd k l n r) x b) y u)) \<Longrightarrow>
     \<exists>s'. insert_rotate_left n x y s = Some (n, s') \<and> rep s' (plug C (Nd 0 (Nd k l n r) x (Nd 1 b y u)))"
  "rep s (plug C (Nd g (Nd p a x (Nd k l n r)) y u)) \<Longrightarrow>
     \<exists>s'. insert_rotate_left n x y s = Some (x, s') \<and> rep s' (plug C (Nd 0 (Nd p a x l) n (Nd 1 r y u)))"
proof -
  assume a: "rep s (plug C (Nd g (Nd p (Nd k l n r) x b) y u))"
  then have a': "rep s (plug (Lft g y u # C) (Nd p (Nd k l n r) x b))" by simp
  from paint_rotate_right [OF a] show "\<exists>s'. insert_rotate_left n x y s = Some (n, s') \<and> rep s' (plug C (Nd 0 (Nd k l n r) x (Nd 1 b y u)))"
    using rep_at [OF a'] ptr_other [OF a'] by (auto simp: insert_rotate_left_def Option.bind_eq_Some_conv)
next
  assume a: "rep s (plug C (Nd g (Nd p a x (Nd k l n r)) y u))"
  then have a': "rep s (plug (Lft g y u # C) (Nd p a x (Nd k l n r)))" by simp
  from rotate_left_ok [OF this] obtain s1 where s1: "rb_rotate_left x s = Some s1" "rep s1 (plug C (Nd g (Nd k (Nd p a x l) n r) y u))" by auto
  from s1(2) have "rep s1 (plug (Lft k n r # Lft g y u # C) (Nd p a x l))" by simp
  from paint_rotate_right [OF s1(2)] show "\<exists>s'. insert_rotate_left n x y s = Some (x, s') \<and> rep s' (plug C (Nd 0 (Nd p a x l) n (Nd 1 r y u)))"
    using rep_at [OF a'] rep_at [OF \<open>rep s1 (plug (Lft k n r # Lft g y u # C) (Nd p a x l))\<close>] s1(1) by (auto simp: insert_rotate_left_def Option.bind_eq_Some_conv)
qed

lemma insert_rotate_right_ok:
  "rep s (plug C (Nd g u y (Nd p b x (Nd k l n r)))) \<Longrightarrow>
     \<exists>s'. insert_rotate_right n x y s = Some (n, s') \<and> rep s' (plug C (Nd 0 (Nd 1 u y b) x (Nd k l n r)))"
  "rep s (plug C (Nd g u y (Nd p (Nd k l n r) x a))) \<Longrightarrow>
     \<exists>s'. insert_rotate_right n x y s = Some (x, s') \<and> rep s' (plug C (Nd 0 (Nd 1 u y l) n (Nd p r x a)))"
proof -
  assume a: "rep s (plug C (Nd g u y (Nd p b x (Nd k l n r))))"
  then have a': "rep s (plug (Rgt g u y # C) (Nd p b x (Nd k l n r)))" by simp
  have "n \<noteq> ptr b" using ptr_other [OF a'] rep_at(2) [of s "Rgt p b x # Rgt g u y # C" k l n r] a' by (cases b) auto
  then show "\<exists>s'. insert_rotate_right n x y s = Some (n, s') \<and> rep s' (plug C (Nd 0 (Nd 1 u y b) x (Nd k l n r)))"
    using paint_rotate_left [OF a] rep_at [OF a'] by (auto simp: insert_rotate_right_def Option.bind_eq_Some_conv)
next
  assume a: "rep s (plug C (Nd g u y (Nd p (Nd k l n r) x a)))"
  then have a': "rep s (plug (Rgt g u y # C) (Nd p (Nd k l n r) x a))" by simp
  from rotate_right_ok [OF this] obtain s1 where s1: "rb_rotate_right x s = Some s1" "rep s1 (plug C (Nd g u y (Nd k l n (Nd p r x a))))" by auto
  from s1(2) have "rep s1 (plug (Rgt k l n # Rgt g u y # C) (Nd p r x a))" by simp
  from paint_rotate_left [OF s1(2)] show "\<exists>s'. insert_rotate_right n x y s = Some (x, s') \<and> rep s' (plug C (Nd 0 (Nd 1 u y l) n (Nd p r x a)))"
    using rep_at [OF a'] rep_at [OF \<open>rep s1 (plug (Rgt k l n # Rgt g u y # C) (Nd p r x a))\<close>] s1(1) by (auto simp: insert_rotate_right_def Option.bind_eq_Some_conv)
qed

subsection \<open>The red-black invariant\<close>

fun invc :: "rbt \<Rightarrow> bool" where
  "invc Lf \<longleftrightarrow> True"
| "invc (Nd c l x r) \<longleftrightarrow> (c = RB_BLACK \<or> c = RB_RED \<and> col l = RB_BLACK \<and> col r = RB_BLACK) \<and> invc l \<and> invc r"

fun bh :: "rbt \<Rightarrow> nat" where
  "bh Lf = 0"
| "bh (Nd c l x r) = bh l + (if c = RB_BLACK then 1 else 0)"

fun invh :: "rbt \<Rightarrow> bool" where
  "invh Lf \<longleftrightarrow> True"
| "invh (Nd c l x r) \<longleftrightarrow> bh l = bh r \<and> invh l \<and> invh r"

definition red_black :: "rbt \<Rightarrow> bool" where
  "red_black t \<longleftrightarrow> invc t \<and> invh t \<and> col t = RB_BLACK"

text \<open>What the colours of a context allow in its hole.\<close>

fun okc :: "frame list \<Rightarrow> int \<Rightarrow> bool" where
  "okc [] k \<longleftrightarrow> True"
| "okc (Lft c x r # C) k \<longleftrightarrow> (c = RB_BLACK \<or> c = RB_RED \<and> k = RB_BLACK \<and> col r = RB_BLACK) \<and> invc r \<and> okc C c"
| "okc (Rgt c l x # C) k \<longleftrightarrow> (c = RB_BLACK \<or> c = RB_RED \<and> col l = RB_BLACK \<and> k = RB_BLACK) \<and> invc l \<and> okc C c"

lemma invc_plug: "invc (plug C t) \<longleftrightarrow> invc t \<and> okc C (col t)"
  by (induction C t rule: plug.induct) auto

lemma okc_black: "okc C k \<Longrightarrow> okc C 0"
  by (induction C k rule: okc.induct) auto

lemma okc_any: "okc (f # C) 0 \<Longrightarrow> fcol f = 0 \<Longrightarrow> okc (f # C) k"
  by (cases f) auto

lemma invh_plug: "invh (plug C t) \<Longrightarrow> bh t' = bh t \<Longrightarrow> invh t' \<Longrightarrow> invh (plug C t')"
proof (induction C t arbitrary: t' rule: plug.induct)
  case (2 c x r C t)
  have "invh (Nd c t x r)" using 2(2) by (induction C "Nd c t x r" arbitrary: c t x r rule: plug.induct) auto
  then show ?case using 2 by simp
next
  case (3 c l x C t)
  have "invh (Nd c l x t)" using 3(2) by (induction C "Nd c l x t" arbitrary: c l x t rule: plug.induct) auto
  then show ?case using 3 by simp
qed simp

lemma invh_hole: "invh (plug C t) \<Longrightarrow> invh t"
  by (induction C t rule: plug.induct) auto

lemma col_plug: "col (plug C t) = (if C = [] then col t else fcol (last C))"
  by (induction C t rule: plug.induct) auto

lemma loop_stop:
  assumes "rep s (plug C (Nd k l n r))" "C = [] \<or> fcol (hd C) = 0"
  shows "insert_loop n s = Some s"
proof (cases C)
  case Nil
  then show ?thesis using rep_at [OF assms(1)] by (subst insert_loop.simps) simp
next
  case (Cons f D)
  have "\<exists>q. rb_at (par C) s = Some q \<and> rb_color q = 0"
    using assms Cons rep_at(1) [of s D _ "Nd k l n r"] rep_at(1) [of s D _ _ _ "Nd k l n r"] by (cases f) auto
  then show ?thesis using rep_at [OF assms(1)] by (subst insert_loop.simps) auto
qed

text \<open>The two ways a pass of the loop changes the tree below the grandparent: \<open>f\<close> is the frame of the parent, \<open>g\<close> that of the
  grandparent.\<close>

fun other :: "frame \<Rightarrow> rbt" where
  "other (Lft c x r) = r"
| "other (Rgt c l x) = l"

fun blacken :: "rbt \<Rightarrow> rbt" where
  "blacken Lf = Lf"
| "blacken (Nd c l x r) = Nd RB_BLACK l x r"

fun recolored :: "frame \<Rightarrow> frame \<Rightarrow> rbt \<Rightarrow> rbt" where
  "recolored f (Lft c y u) t = Nd RB_RED (blacken (plug [f] t)) y (blacken u)"
| "recolored f (Rgt c u y) t = Nd RB_RED (blacken u) y (blacken (plug [f] t))"

fun turned :: "frame \<Rightarrow> frame \<Rightarrow> rbt \<Rightarrow> rbt" where
  "turned (Lft p x b) (Lft g y u) t = Nd RB_BLACK t x (Nd RB_RED b y u)"
| "turned (Rgt p a x) (Lft g y u) (Nd k l n r) = Nd RB_BLACK (Nd p a x l) n (Nd RB_RED r y u)"
| "turned (Rgt p b x) (Rgt g u y) t = Nd RB_BLACK (Nd RB_RED u y b) x t"
| "turned (Lft p x a) (Rgt g u y) (Nd k l n r) = Nd RB_BLACK (Nd RB_RED u y l) n (Nd p r x a)"
| "turned f g Lf = Lf"

lemma parent_at:
  assumes "rep s (plug (f # C) t)"
  shows "\<exists>q. rb_at (par (f # C)) s = Some q \<and> rb_color q = fcol f \<and> rb_parent q = par C \<and> par (f # C) \<noteq> 0 \<and>
    rb_left q = (case f of Lft c x r \<Rightarrow> ptr t | Rgt c l x \<Rightarrow> ptr l) \<and> rb_right q = (case f of Lft c x r \<Rightarrow> ptr r | Rgt c l x \<Rightarrow> ptr t)"
  using assms rep_at [of s C _ t] rep_at [of s C _ _ _ t] by (cases f) auto

lemma loop_unfold:
  assumes r: "rep s (plug (f # g # D) (Nd k l n r))" and c: "fcol f \<noteq> 0"
  defines "p \<equiv> par (f # g # D)" and "y \<equiv> par (g # D)" and "u \<equiv> ptr (other g)"
  shows "insert_loop n s =
    (if rb_is_red u s then insert_recolor p u y s \<bind> insert_loop y
     else (case g of Lft _ _ _ \<Rightarrow> insert_rotate_left n p y s | Rgt _ _ _ \<Rightarrow> insert_rotate_right n p y s) \<bind> (\<lambda>r. insert_loop (fst r) (snd r)))"
proof -
  obtain q where q: "rb_at p s = Some q" "rb_color q = fcol f" "rb_parent q = y" "p \<noteq> 0" using parent_at [OF r] by (auto simp: p_def y_def)
  have "rep s (plug (g # D) (plug [f] (Nd k l n r)))" using r by (cases f; cases g) auto
  from parent_at [OF this] obtain z where z: "rb_at y s = Some z"
      "rb_left z = (case g of Lft _ _ _ \<Rightarrow> p | Rgt _ l _ \<Rightarrow> ptr l)" "rb_right z = (case g of Lft _ _ r \<Rightarrow> ptr r | Rgt _ _ _ \<Rightarrow> p)"
    unfolding y_def p_def by (cases f; cases g) auto
  have "p \<noteq> ptr l'" if "g = Rgt c l' y'" for c l' y'
    using ptr_other [of s D c l' y' "plug [f] (Nd k l n r)"] q(4) r that by (cases f; cases l') (auto simp: p_def)
  then show ?thesis using rep_at [OF r] q z c by (subst insert_loop.simps) (auto simp: u_def p_def split: frame.splits)
qed

lemma uncle_red:
  assumes "rep s (plug (f # g # D) t)"
  shows "rb_is_red (ptr (other g)) s \<longleftrightarrow> col (other g) = 1"
proof -
  have "rep s (plug (case g of Lft c y w \<Rightarrow> Rgt c (plug [f] t) y # D | Rgt c w y \<Rightarrow> Lft c y (plug [f] t) # D) (other g))"
    using assms by (cases f; cases g) auto
  from rep_red [OF this] show ?thesis .
qed

lemma step_recolored:
  assumes r: "rep s (plug (f # g # D) (Nd k l n r))" and c: "fcol f \<noteq> 0" "col (other g) = 1"
  shows "\<exists>s'. insert_loop n s = insert_loop (par (g # D)) s' \<and> rep s' (plug D (recolored f g (Nd k l n r)))"
proof -
  have s: "rep s (plug D (plug [f, g] (Nd k l n r)))" using r by (cases f; cases g) auto
  obtain v a z b where u: "other g = Nd v a z b" using c(2) by (cases "other g") auto
  have red: "rb_is_red (ptr (other g)) s" using uncle_red [OF r] c(2) by simp
  have "\<exists>s'. insert_recolor (par (f # g # D)) (ptr (other g)) (par (g # D)) s = Some s' \<and> rep s' (plug D (recolored f g (Nd k l n r)))"
  proof (cases g)
    case (Lft c y w)
    then show ?thesis using recolor_ok(1) [of s D c] s u by (cases f) auto
  next
    case (Rgt c w y)
    then show ?thesis using recolor_ok(2) [of s D c] s u by (cases f) auto
  qed
  then show ?thesis using loop_unfold [OF r c(1)] red by auto
qed

lemma step_turned:
  assumes r: "rep s (plug (f # g # D) (Nd k l n r))" and c: "fcol f \<noteq> 0" "col (other g) \<noteq> 1"
  shows "\<exists>s'. insert_loop n s = Some s' \<and> rep s' (plug D (turned f g (Nd k l n r)))"
proof -
  have s: "rep s (plug D (plug [f, g] (Nd k l n r)))" using r by (cases f; cases g) auto
  have red: "\<not> rb_is_red (ptr (other g)) s" using uncle_red [OF r] c(2) by simp
  have "\<exists>m s' E t. (case g of Lft _ _ _ \<Rightarrow> insert_rotate_left n (par (f # g # D)) (par (g # D)) s
        | Rgt _ _ _ \<Rightarrow> insert_rotate_right n (par (f # g # D)) (par (g # D)) s) = Some (m, s') \<and>
      rep s' (plug D (turned f g (Nd k l n r))) \<and> insert_loop m s' = Some s'"
  proof (cases f; cases g)
    fix p x b g' y u assume e: "f = Lft p x b" "g = Lft g' y u"
    obtain s' where s': "insert_rotate_left n x y s = Some (n, s')" "rep s' (plug D (Nd 0 (Nd k l n r) x (Nd 1 b y u)))"
      using insert_rotate_left_ok(1) [of s D g' p k l n r x b y u] s e by auto
    moreover have "insert_loop n s' = Some s'" using loop_stop [of s' "Lft 0 x (Nd 1 b y u) # D"] s'(2) by simp
    ultimately show ?thesis using e by auto
  next
    fix p x b g' y u assume e: "f = Lft p x b" "g = Rgt g' u y"
    obtain s' where s': "insert_rotate_right n x y s = Some (x, s')" "rep s' (plug D (Nd 0 (Nd 1 u y l) n (Nd p r x b)))"
      using insert_rotate_right_ok(2) [of s D g' u y p k l n r x b] s e by auto
    moreover have "insert_loop x s' = Some s'" using loop_stop [of s' "Rgt 0 (Nd 1 u y l) n # D"] s'(2) by simp
    ultimately show ?thesis using e by auto
  next
    fix p x b g' y u assume e: "f = Rgt p b x" "g = Lft g' y u"
    obtain s' where s': "insert_rotate_left n x y s = Some (x, s')" "rep s' (plug D (Nd 0 (Nd p b x l) n (Nd 1 r y u)))"
      using insert_rotate_left_ok(2) [of s D g' p b x k l n r y u] s e by auto
    moreover have "insert_loop x s' = Some s'" using loop_stop [of s' "Lft 0 n (Nd 1 r y u) # D"] s'(2) by simp
    ultimately show ?thesis using e by auto
  next
    fix p x b g' y u assume e: "f = Rgt p b x" "g = Rgt g' u y"
    obtain s' where s': "insert_rotate_right n x y s = Some (n, s')" "rep s' (plug D (Nd 0 (Nd 1 u y b) x (Nd k l n r)))"
      using insert_rotate_right_ok(1) [of s D g' u y p b x k l n r] s e by auto
    moreover have "insert_loop n s' = Some s'" using loop_stop [of s' "Rgt 0 (Nd 1 u y b) x # D"] s'(2) by simp
    ultimately show ?thesis using e by auto
  qed
  then show ?thesis using loop_unfold [OF r c(1)] red by auto
qed

text \<open>The same changes on trees.\<close>

lemma plug_plug: "plug (f # g # D) t = plug D (plug [f, g] t)"
  by (cases f; cases g) auto

lemma blacken_simps [simp]: "inorder (blacken t) = inorder t" "col (blacken t) = 0" "invc t \<Longrightarrow> invc (blacken t)" "invh (blacken t) \<longleftrightarrow> invh t"
  by (cases t; auto)+

lemma bh_blacken: "col t = 1 \<Longrightarrow> bh (blacken t) = Suc (bh t)"
  by (cases t) auto

lemma recolored_tree:
  assumes c: "okc (f # g # D) 0" "fcol f = 1" "invc t" "col (other g) = 1" and h: "invh (plug [f, g] t)"
  shows "invc (recolored f g t)" "okc D 0" "invh (recolored f g t)" "bh (recolored f g t) = bh (plug [f, g] t)"
    "inorder (recolored f g t) = inorder (plug [f, g] t)"
proof -
  have g: "fcol g = 0" "invc (other g)" "okc D 0" "invc (blacken (plug [f] t))" using c by (cases f; cases g; simp)+
  show "okc D 0" by (rule g(3))
  show "invc (recolored f g t)" using g by (cases g) simp_all
  show "invh (recolored f g t)" using h c(2,4) by (cases f; cases g; simp add: bh_blacken)
  show "bh (recolored f g t) = bh (plug [f, g] t)" using h c(2,4) g(1) by (cases f; cases g; simp add: bh_blacken)
  show "inorder (recolored f g t) = inorder (plug [f, g] t)" by (cases f; cases g; simp)
qed

lemma turned_tree:
  assumes c: "okc (f # g # D) 0" "fcol f = 1" "invc (Nd 1 l n r)" "col (other g) \<noteq> 1" and h: "invh (plug [f, g] (Nd 1 l n r))"
  shows "invc (turned f g (Nd 1 l n r))" "okc D (col (turned f g (Nd 1 l n r)))" "invh (turned f g (Nd 1 l n r))"
    "bh (turned f g (Nd 1 l n r)) = bh (plug [f, g] (Nd 1 l n r))" "inorder (turned f g (Nd 1 l n r)) = inorder (plug [f, g] (Nd 1 l n r))"
proof -
  have g: "fcol g = 0" "invc (other g)" "okc D 0" using c by (cases f; cases g; simp)+
  have u: "col (other g) = 0" using g(2) c(4) by (cases "other g") auto
  show "invc (turned f g (Nd 1 l n r))" using g u c by (cases f; cases g; simp)
  show "okc D (col (turned f g (Nd 1 l n r)))" using g(3) by (cases f; cases g; simp)
  show "invh (turned f g (Nd 1 l n r))" using h c(2) by (cases f; cases g; simp)
  show "bh (turned f g (Nd 1 l n r)) = bh (plug [f, g] (Nd 1 l n r))" using h c(2) g(1) by (cases f; cases g; simp)
  show "inorder (turned f g (Nd 1 l n r)) = inorder (plug [f, g] (Nd 1 l n r))" by (cases f; cases g; simp)
qed

lemma insert_loop_ok:
  assumes "rep s (plug C (Nd 1 l n r))" "invc (Nd 1 l n r)" "okc C 0" "invh (plug C (Nd 1 l n r))" "C \<noteq> [] \<longrightarrow> fcol (last C) = 0"
  shows "\<exists>s' t. insert_loop n s = Some s' \<and> rep s' t \<and> invc t \<and> invh t \<and> inorder t = inorder (plug C (Nd 1 l n r))"
  using assms
proof (induction "length C" arbitrary: C s l n r rule: less_induct)
  case less
  let ?t = "Nd 1 l n r"
  show ?case
  proof (cases "C = [] \<or> fcol (hd C) = 0")
    case True
    then have "okc C 1" using less.prems(3) okc_any by (cases C) auto
    then have "invc (plug C ?t)" using less.prems(2) by (simp only: invc_plug col.simps)
    then show ?thesis using loop_stop [OF less.prems(1) True] less.prems(1,4) by blast
  next
    case False
    then obtain f g D where C: "C = f # g # D" using less.prems(5) by (cases C; cases "tl C") auto
    have f: "fcol f = 1" using False less.prems(3) C by (cases f) auto
    note pp = plug_plug [of f g D ?t]
    note r = less.prems(1) [unfolded C] and o = less.prems(3) [unfolded C] and h = less.prems(4) [unfolded C pp]
    note h' = invh_hole [OF h]
    show ?thesis
    proof (cases "col (other g) = 1")
      case red: True
      note w = recolored_tree [OF o f less.prems(2) red h']
      obtain s' where s': "insert_loop n s = insert_loop (par (g # D)) s'" "rep s' (plug D (recolored f g ?t))"
        using step_recolored [OF r _ red] f by auto
      obtain L R where e: "recolored f g ?t = Nd 1 L (par (g # D)) R" by (cases g) auto
      have "D \<noteq> [] \<longrightarrow> fcol (last D) = 0" using less.prems(5) C by auto
      from less.hyps [of D s' L "par (g # D)" R, unfolded e [symmetric], OF _ s'(2) w(1,2) invh_plug [OF h w(4,3)] this]
      show ?thesis using s'(1) unfolding C pp by (simp add: inorder_plug w(5))
    next
      case black: False
      note w = turned_tree [OF o f less.prems(2) black h']
      obtain s' where s': "insert_loop n s = Some s'" "rep s' (plug D (turned f g ?t))"
        using step_turned [OF r _ black] f by auto
      have "invc (plug D (turned f g ?t))" using w(1,2) by (simp only: invc_plug)
      moreover have "inorder (plug D (turned f g ?t)) = inorder (plug C ?t)" unfolding C pp by (simp add: inorder_plug w(5))
      ultimately show ?thesis using s' invh_plug [OF h w(4,3)] by blast
    qed
  qed
qed

text \<open>The link that the hole of a context stands for.\<close>

fun link_of :: "frame list \<Rightarrow> rb_link" where
  "link_of [] = Root_Link"
| "link_of (Lft c x r # C) = Left_Link x"
| "link_of (Rgt c l x # C) = Right_Link x"

lemma link_node_ok:
  assumes r: "rep s (plug C Lf)" and n: "n \<noteq> 0" "n \<notin> set (inorder (plug C Lf))"
  shows "\<exists>s'. rb_link_node n (par C) (link_of C) s = Some s' \<and> rep s' (plug C (Nd 1 Lf n Lf))"
proof -
  let ?h = "(rb_nodes s)(n := \<lparr>rb_parent = par C, rb_left = 0, rb_right = 0, rb_color = 1\<rparr>)"
  have d: "n \<notin> set (before C)" "n \<notin> set (behind C)" "distinct (before C @ behind C)" "rb_root s = ctop C 0" "cholds (rb_nodes s) C 0"
    using r n by (auto simp: rep_plug inorder_plug)
  have c: "cholds ?h C 0" using d cholds_cong [of C ?h "rb_nodes s"] by auto
  show ?thesis
  proof (cases C rule: par.cases)
    case 1
    then show ?thesis using n(1) by (simp add: rb_link_node_def rb_set_def rep_def)
  next
    case (2 k x t D)
    have "holds (?h(x := (?h x)\<lparr>rb_left := n\<rparr>)) x t \<longleftrightarrow> holds ?h x t" "cholds (?h(x := (?h x)\<lparr>rb_left := n\<rparr>)) D x \<longleftrightarrow> cholds ?h D x"
      using d(3) 2 by (auto intro!: holds_cong cholds_cong)
    then show ?thesis using c d n(1) 2 by (auto simp: rb_link_node_def rb_set_def rep_plug)
  next
    case (3 k t x D)
    have "holds (?h(x := (?h x)\<lparr>rb_right := n\<rparr>)) x t \<longleftrightarrow> holds ?h x t" "cholds (?h(x := (?h x)\<lparr>rb_right := n\<rparr>)) D x \<longleftrightarrow> cholds ?h D x"
      using d(3) 3 by (auto intro!: holds_cong cholds_cong)
    then show ?thesis using c d n(1) 3 by (auto simp: rb_link_node_def rb_set_def rep_plug)
  qed
qed

text \<open>C27: insertion into the red-black tree.  Let the store hold a red-black tree and let a new node be linked at one of
  its empty places.  Then \<open>rb_link_node\<close> and \<open>rb_insert_color\<close> follow no null pointer and return, the store holds a red-black
  tree again (no red node has a red child, every path has as many black nodes, the root is black, all parent pointers are
  right), and its nodes in order are the old ones with the new one at its place.\<close>

theorem rb_insert_correct:
  assumes "rep s (plug C Lf)" "red_black (plug C Lf)" "n \<noteq> 0" "n \<notin> set (before C)" "n \<notin> set (behind C)"
  shows "\<exists>s' t. (rb_link_node n (par C) (link_of C) s \<bind> rb_insert_color n) = Some s' \<and>
    rep s' t \<and> red_black t \<and> inorder t = before C @ n # behind C"
proof -
  obtain s1 where s1: "rb_link_node n (par C) (link_of C) s = Some s1" "rep s1 (plug C (Nd 1 Lf n Lf))"
    using link_node_ok [OF assms(1,3)] assms(4,5) by (auto simp: inorder_plug)
  have c: "okc C 0" "C \<noteq> [] \<longrightarrow> fcol (last C) = 0" "invh (plug C (Nd 1 Lf n Lf))"
    using assms(2) by (auto simp: red_black_def invc_plug col_plug intro: invh_plug)
  obtain s2 t where s2: "insert_loop n s1 = Some s2" "rep s2 t" "invc t" "invh t" "inorder t = before C @ n # behind C"
    using insert_loop_ok [OF s1(2) _ c(1,3,2)] by (auto simp: inorder_plug)
  obtain k l x r where t: "t = Nd k l x r" using s2(5) by (cases t) auto
  then have "rb_root s2 = x" "x \<noteq> 0" using s2(2) by (auto simp: rep_def)
  moreover obtain s3 where "rb_paint 0 x s2 = Some s3" "rep s3 (Nd 0 l x r)" using paint_ok [of s2 "[]" k l x r 0] s2(2) t by auto
  ultimately show ?thesis using s1(1) s2 t by (auto simp: rb_insert_color_def red_black_def)
qed

definition two_nodes :: rb_store where
  "two_nodes = \<lparr>rb_nodes = (\<lambda>_. \<lparr>rb_parent = 0, rb_left = 0, rb_right = 0, rb_color = 0\<rparr>)
     (0x20 := \<lparr>rb_parent = 0, rb_left = 0x10, rb_right = 0, rb_color = 0\<rparr>, 0x10 := \<lparr>rb_parent = 0x20, rb_left = 0, rb_right = 0, rb_color = 1\<rparr>), rb_root = 0x20\<rparr>"

theorem rb_insert_correct_witness:
  "\<exists>s' t. (rb_link_node 0x18 0x10 (Right_Link 0x10) two_nodes \<bind> rb_insert_color 0x18) = Some s' \<and>
     rep s' t \<and> red_black t \<and> inorder t = [0x10, 0x18, 0x20]"
proof -
  have "rep two_nodes (plug [Rgt 1 Lf 0x10, Lft 0 0x20 Lf] Lf)" "red_black (plug [Rgt 1 Lf 0x10, Lft 0 0x20 Lf] Lf)"
    by (simp_all add: two_nodes_def rep_def red_black_def)
  from rb_insert_correct [where n = "0x18", OF this] show ?thesis by simp
qed

subsection \<open>Walking\<close>

lemma inorder_Nil [simp]: "inorder t = [] \<longleftrightarrow> t = Lf"
  by (cases t) auto

lemma leftmost_ok: "holds (rb_nodes s) p t \<Longrightarrow> t \<noteq> Lf \<Longrightarrow> rb_leftmost (ptr t) s = Some (hd (inorder t))"
proof (induction t arbitrary: p)
  case (Nd c l x r)
  then show ?case by (subst rb_leftmost.simps) (cases "l = Lf"; auto simp: rb_at_def ptr_zero hd_append)
qed simp

lemma climb_ok:
  "cholds (rb_nodes s) C a \<Longrightarrow> a \<noteq> 0 \<Longrightarrow> rb_parent (rb_nodes s a) = par C \<Longrightarrow> a \<notin> set (behind C) \<Longrightarrow> distinct (before C @ behind C) \<Longrightarrow>
     rb_climb a s = Some (hd (behind C @ [0]))"
proof (induction C arbitrary: a rule: behind.induct)
  case 1
  then show ?case by (subst rb_climb.simps) (simp add: rb_at_def)
next
  case (2 c x r C)
  have "a \<noteq> ptr r" using 2 ptr_in [of r] by (cases r) auto
  then show ?case using 2 by (subst rb_climb.simps) (simp add: rb_at_def)
next
  case (3 c l x C)
  have "rb_climb x s = Some (hd (behind C @ [0]))" using 3(2-) by (intro 3(1)) auto
  then show ?case using 3 by (subst rb_climb.simps) (simp add: rb_at_def)
qed

lemma find_node: "x \<in> set (inorder t) \<Longrightarrow> \<exists>C c l r. t = plug C (Nd c l x r)"
proof (induction t)
  case (Nd c l y r)
  have p: "plug (C @ [f]) t = plug [f] (plug C t)" for C f t by (induction C t rule: plug.induct) auto
  consider "x = y" | "x \<in> set (inorder l)" | "x \<in> set (inorder r)" using Nd.prems by auto
  then show ?case
  proof cases
    case 1
    then have "Nd c l y r = plug [] (Nd c l x r)" by simp
    then show ?thesis by blast
  next
    case 2
    then obtain C k a b where "l = plug C (Nd k a x b)" using Nd.IH by blast
    then have "Nd c l y r = plug (C @ [Lft c y r]) (Nd k a x b)" by (simp add: p)
    then show ?thesis by blast
  next
    case 3
    then obtain C k a b where "r = plug C (Nd k a x b)" using Nd.IH by blast
    then have "Nd c l y r = plug (C @ [Rgt c l y]) (Nd k a x b)" by (simp add: p)
    then show ?thesis by blast
  qed
qed simp

text \<open>Walking the tree: \<open>rb_first\<close> returns the first node of the tree in order, and \<open>rb_next\<close> the node that follows
  the given one, or null after the last: both return, without following a null pointer.\<close>

lemma rb_walk_correct:
  assumes "rep s t"
  shows "rb_first s = Some (hd (inorder t @ [0])) \<and>
    (\<forall>xs x ys. inorder t = xs @ x # ys \<longrightarrow> rb_next x s = Some (hd (ys @ [0])))"
proof (intro conjI allI impI)
  show "rb_first s = Some (hd (inorder t @ [0]))"
    using assms leftmost_ok [of s 0 t] by (cases t) (auto simp: rep_def rb_first_def hd_append)
next
  fix xs x ys assume o: "inorder t = xs @ x # ys"
  then obtain C c l r where t: "t = plug C (Nd c l x r)" using find_node [of x t] by auto
  have d: "distinct (inorder t)" using assms by (simp add: rep_def)
  have "inorder t = (before C @ inorder l) @ x # (inorder r @ behind C)" by (simp add: t inorder_plug)
  then have ys: "ys = inorder r @ behind C" using d o by (metis append_Cons_eq_iff distinct_append distinct.simps(2) not_distinct_conv_prefix)
  note p = assms [unfolded t rep_plug]
  show "rb_next x s = Some (hd (ys @ [0]))"
  proof (cases "r = Lf")
    case True
    have "rb_climb x s = Some (hd (behind C @ [0]))" using p by (intro climb_ok) auto
    then show ?thesis using p True ys by (simp add: rb_next_def rb_at_def)
  next
    case False
    then have "rb_leftmost (ptr r) s = Some (hd (inorder r))" "ptr r \<noteq> 0" using p leftmost_ok [of s x r] ptr_zero by auto
    then show ?thesis using p ys False by (simp add: rb_next_def rb_at_def hd_append)
  qed
qed

end
