(* ===== verification/Rbtree_Erase.thy ===== *)
theory Rbtree_Erase
  imports Rbtree_Props
begin

text \<open>
  Removal from the red-black tree: correct for a node with at most one child, whatever the repair of the black heights has to
  do; removing a node with two children ruins the tree.
\<close>

subsection \<open>Removal\<close>

text \<open>Removing a node with two children whose right child is its successor and is red: the successor becomes its own right
  child, and a walk that reaches it never ends.\<close>

lemma erase_next_cycle:
  assumes "rep s (plug C (Nd c l x (Nd 1 Lf y r)))" "l \<noteq> Lf"
  shows "\<exists>s'. rb_erase x s = Some s' \<and> rb_right (rb_nodes s' y) = y \<and> rb_next y s' = Some y"
proof -
  let ?h = "rb_nodes s"
  have h: "?h x = \<lparr>rb_parent = par C, rb_left = ptr l, rb_right = y, rb_color = c\<rparr>" "?h y = \<lparr>rb_parent = x, rb_left = 0, rb_right = ptr r, rb_color = 1\<rparr>"
    and n: "x \<noteq> 0" "y \<noteq> 0" "x \<noteq> y" "ptr l \<noteq> 0"
    using assms ptr_zero [of ?h x l] by (auto simp: rep_plug)
  have r: "ptr r \<noteq> x" "ptr r \<noteq> y" using assms(1) n ptr_in [of r] by (cases "r = Lf"; auto simp: rep_plug)+
  have p: "par C \<noteq> y" "par C \<noteq> x" using assms(1) n par_in [of C] by (cases "C = []"; auto simp: rep_plug)+
  have lm: "rb_leftmost y s = Some y" using h n by (subst rb_leftmost.simps) (simp add: rb_at_def)
  define h1 where "h1 = (if ptr r \<noteq> 0 then ?h(ptr r := (?h (ptr r))\<lparr>rb_parent := y\<rparr>) else ?h)"
  have h1: "h1 x = ?h x" "h1 y = ?h y" using r by (auto simp: h1_def)
  have "erase_next x y s = Some (ptr r, y, 1, s\<lparr>rb_nodes := h1(y := \<lparr>rb_parent = y, rb_left = 0, rb_right = y, rb_color = 1\<rparr>)\<rparr>)"
    using h n r by (cases "ptr r = 0") (simp_all add: erase_next_def rb_at_def rb_set_def h1_def)
  moreover obtain s2 where "rb_replace_node x y (s\<lparr>rb_nodes := h1(y := \<lparr>rb_parent = y, rb_left = 0, rb_right = y, rb_color = 1\<rparr>)\<rparr>) = Some s2"
      "rb_nodes s2 y = \<lparr>rb_parent = par C, rb_left = 0, rb_right = y, rb_color = 1\<rparr>"
    using h h1 n p by (cases "par C = 0"; cases "x = rb_left (h1 (par C))") (auto simp: rb_replace_node_def rb_at_def rb_set_def rb_relink_def)
  ultimately have "rb_erase x s = Some s2" "rb_nodes s2 y = \<lparr>rb_parent = par C, rb_left = 0, rb_right = y, rb_color = 1\<rparr>"
    using h n lm by (simp_all add: rb_erase_def erase_two_def rb_at_def erase_finish_def)
  moreover from this(2) n have "rb_leftmost y s2 = Some y" by (subst rb_leftmost.simps) (simp add: rb_at_def)
  ultimately show ?thesis using n by (auto simp: rb_next_def rb_at_def)
qed

lemma rep_black: "rep s (plug C t) \<Longrightarrow> rb_is_black (ptr t) s \<longleftrightarrow> col t = RB_BLACK"
  by (cases t) (auto simp: rep_plug rb_is_black_def)

lemma paint_child_ok:
  assumes "rep s (plug C t)"
  shows "\<exists>s'. rb_paint_child 0 (ptr t) s = Some s' \<and> rep s' (plug C (blacken t))"
proof (cases t)
  case (Nd c l x r)
  then show ?thesis using paint_ok [of s C c l x r 0] rep_at(2) [of s C c l x r] assms by (simp add: rb_paint_child_def)
qed (use assms in \<open>simp add: rb_paint_child_def\<close>)

text \<open>A pass with a black sibling \<open>y\<close>, for a left child \<open>u\<close> of \<open>x\<close>.\<close>

lemma fixup_left_nephews:
  assumes r: "rep s (plug D (Nd k u x (Nd q a y b)))" and c: "col a = 0" "col b = 0"
  shows "\<exists>s'. fixup_left_black x y s = Some (True, x, par D, s') \<and> rep s' (plug D (Nd k u x (Nd 1 a y b)))"
proof -
  have ry: "rep s (plug (Rgt k u x # D) (Nd q a y b))" using r by simp
  have "rb_is_black (ptr a) s" "rb_is_black (ptr b) s"
    using rep_black [of s "Lft q y b # Rgt k u x # D" a] rep_black [of s "Rgt q a y # Rgt k u x # D" b] r c by simp_all
  moreover obtain s1 where s1: "rb_paint 1 y s = Some s1" "rep s1 (plug D (Nd k u x (Nd 1 a y b)))" using paint_ok [OF ry, of 1] by auto
  ultimately show ?thesis using rep_at [OF ry] rep_at [OF s1(2)] by (simp add: fixup_left_black_def)
qed

text \<open>The end of a pass: the colour of the parent goes to the sibling, and the parent is rotated.\<close>

lemma fixup_left_end:
  assumes r: "rep s (plug D (Nd k u x (Nd q a y b)))"
  shows "\<exists>s1 s2. (rb_paint k y s \<bind> rb_paint 0 x) = Some s1 \<and> rb_at y s1 = Some \<lparr>rb_parent = x, rb_left = ptr a, rb_right = ptr b, rb_color = k\<rparr> \<and>
    (rb_paint_child 0 (ptr b) s1 \<bind> rb_rotate_left x) = Some s2 \<and> rep s2 (plug D (Nd k (Nd 0 u x a) y (blacken b)))"
proof -
  obtain s1 where s1: "rb_paint k y s = Some s1" "rep s1 (plug D (Nd k u x (Nd k a y b)))"
    using paint_ok [of s "Rgt k u x # D" q a y b k] r by auto
  obtain s2 where s2: "rb_paint 0 x s1 = Some s2" "rep s2 (plug D (Nd 0 u x (Nd k a y b)))" using paint_ok [OF s1(2), of 0] by auto
  obtain s3 where s3: "rb_paint_child 0 (ptr b) s2 = Some s3" "rep s3 (plug D (Nd 0 u x (Nd k a y (blacken b))))"
    using paint_child_ok [of s2 "Rgt k a y # Rgt 0 u x # D" b] s2(2) by auto
  show ?thesis using s1(1) s2 s3(1) rotate_left_ok [OF s3(2)] rep_at [of s2 "Rgt 0 u x # D" k a y b] by auto
qed

lemma fixup_left_outer:
  assumes r: "rep s (plug D (Nd k u x (Nd q a y b)))" and c: "col b \<noteq> 0"
  shows "\<exists>s'. fixup_left_black x y s = Some (False, rb_root s', x, s') \<and> rep s' (plug D (Nd k (Nd 0 u x a) y (blacken b)))"
proof -
  have "\<not> rb_is_black (ptr b) s" using rep_black [of s "Rgt q a y # Rgt k u x # D" b] r c by simp
  then show ?thesis
    using fixup_left_end [OF r] rep_at [of s "Rgt k u x # D" q a y b] rep_at [OF r] r by (auto simp: fixup_left_black_def Option.bind_eq_Some_conv)
qed

lemma fixup_left_inner:
  assumes r: "rep s (plug D (Nd k u x (Nd q (Nd p a1 z a2) y b)))" and c: "p \<noteq> 0" "col b = 0"
  shows "\<exists>s'. fixup_left_black x y s = Some (False, rb_root s', x, s') \<and> rep s' (plug D (Nd k (Nd 0 u x a1) z (Nd 0 a2 y b)))"
proof -
  let ?a = "Nd p a1 z a2"
  have b: "rb_is_black (ptr b) s" "\<not> rb_is_black z s"
    using rep_black [of s "Rgt q ?a y # Rgt k u x # D" b] rep_black [of s "Lft q y b # Rgt k u x # D" ?a] r c by simp_all
  obtain s1 where s1: "rb_paint_child 0 z s = Some s1" "rep s1 (plug D (Nd k u x (Nd q (Nd 0 a1 z a2) y b)))"
    using paint_child_ok [of s "Lft q y b # Rgt k u x # D" ?a] r by auto
  obtain s2 where s2: "rb_paint 1 y s1 = Some s2" "rep s2 (plug D (Nd k u x (Nd 1 (Nd 0 a1 z a2) y b)))"
    using paint_ok [of s1 "Rgt k u x # D" q "Nd 0 a1 z a2" y b 1] s1(2) by auto
  obtain s3 where s3: "rb_rotate_right y s2 = Some s3" "rep s3 (plug D (Nd k u x (Nd 0 a1 z (Nd 1 a2 y b))))"
    using rotate_right_ok [of s2 "Rgt k u x # D" 1 0 a1 z a2 y b] s2(2) by auto
  from fixup_left_end [OF s3(2)] show ?thesis
    using rep_at [of s "Rgt k u x # D" q ?a y b] rep_at [OF s3(2)] r b s1(1) s2(1) s3(1) by (auto simp: fixup_left_black_def Option.bind_eq_Some_conv)
qed

lemma fixup_left_red:
  assumes r: "rep s (plug D (Nd k u x (Nd 1 a y b)))"
  shows "\<exists>s'. fixup_left x s = fixup_left_black x (ptr a) s' \<and> rep s' (plug (Lft 0 y b # D) (Nd 1 u x a))"
proof -
  have "rb_is_red y s" using rep_red [of s "Rgt k u x # D" "Nd 1 a y b"] r by simp
  moreover obtain s' where s': "(rb_paint 0 y s \<bind> rb_paint 1 x \<bind> rb_rotate_left x) = Some s'" "rep s' (plug (Lft 0 y b # D) (Nd 1 u x a))"
    using paint_rotate_left [OF r] by auto
  ultimately show ?thesis using rep_at [OF r] rep_at [OF s'(2)] by (auto simp: fixup_left_def simp del: Option.bind_assoc)
qed

lemma fixup_left_black:
  assumes "rep s (plug D (Nd k u x (Nd q a y b)))" "q \<noteq> 1"
  shows "fixup_left x s = fixup_left_black x y s"
  using rep_at [OF assms(1)] rep_red [of s "Rgt k u x # D" "Nd q a y b"] assms by (simp add: fixup_left_def)

text \<open>A pass with a black sibling \<open>y\<close>, for a right child \<open>u\<close> of \<open>x\<close>.\<close>

lemma fixup_right_nephews:
  assumes r: "rep s (plug D (Nd k (Nd q b y a) x u))" and c: "col a = 0" "col b = 0"
  shows "\<exists>s'. fixup_right_black x y s = Some (True, x, par D, s') \<and> rep s' (plug D (Nd k (Nd 1 b y a) x u))"
proof -
  have ry: "rep s (plug (Lft k x u # D) (Nd q b y a))" using r by simp
  have "rb_is_black (ptr a) s" "rb_is_black (ptr b) s"
    using rep_black [of s "Rgt q b y # Lft k x u # D" a] rep_black [of s "Lft q y a # Lft k x u # D" b] r c by simp_all
  moreover obtain s1 where s1: "rb_paint 1 y s = Some s1" "rep s1 (plug D (Nd k (Nd 1 b y a) x u))" using paint_ok [OF ry, of 1] by auto
  ultimately show ?thesis using rep_at [OF ry] rep_at [OF s1(2)] by (simp add: fixup_right_black_def)
qed

text \<open>The end of a pass: the colour of the parent goes to the sibling, and the parent is rotated.\<close>

lemma fixup_right_end:
  assumes r: "rep s (plug D (Nd k (Nd q b y a) x u))"
  shows "\<exists>s1 s2. (rb_paint k y s \<bind> rb_paint 0 x) = Some s1 \<and> rb_at y s1 = Some \<lparr>rb_parent = x, rb_left = ptr b, rb_right = ptr a, rb_color = k\<rparr> \<and>
    (rb_paint_child 0 (ptr b) s1 \<bind> rb_rotate_right x) = Some s2 \<and> rep s2 (plug D (Nd k (blacken b) y (Nd 0 a x u)))"
proof -
  obtain s1 where s1: "rb_paint k y s = Some s1" "rep s1 (plug D (Nd k (Nd k b y a) x u))"
    using paint_ok [of s "Lft k x u # D" q b y a k] r by auto
  obtain s2 where s2: "rb_paint 0 x s1 = Some s2" "rep s2 (plug D (Nd 0 (Nd k b y a) x u))" using paint_ok [OF s1(2), of 0] by auto
  obtain s3 where s3: "rb_paint_child 0 (ptr b) s2 = Some s3" "rep s3 (plug D (Nd 0 (Nd k (blacken b) y a) x u))"
    using paint_child_ok [of s2 "Lft k y a # Lft 0 x u # D" b] s2(2) by auto
  show ?thesis using s1(1) s2 s3(1) rotate_right_ok [OF s3(2)] rep_at [of s2 "Lft 0 x u # D" k b y a] by auto
qed

lemma fixup_right_outer:
  assumes r: "rep s (plug D (Nd k (Nd q b y a) x u))" and c: "col b \<noteq> 0"
  shows "\<exists>s'. fixup_right_black x y s = Some (False, rb_root s', x, s') \<and> rep s' (plug D (Nd k (blacken b) y (Nd 0 a x u)))"
proof -
  have "\<not> rb_is_black (ptr b) s" using rep_black [of s "Lft q y a # Lft k x u # D" b] r c by simp
  then show ?thesis
    using fixup_right_end [OF r] rep_at [of s "Lft k x u # D" q b y a] rep_at [OF r] r by (auto simp: fixup_right_black_def Option.bind_eq_Some_conv)
qed

lemma fixup_right_inner:
  assumes r: "rep s (plug D (Nd k (Nd q b y (Nd p a2 z a1)) x u))" and c: "p \<noteq> 0" "col b = 0"
  shows "\<exists>s'. fixup_right_black x y s = Some (False, rb_root s', x, s') \<and> rep s' (plug D (Nd k (Nd 0 b y a2) z (Nd 0 a1 x u)))"
proof -
  let ?a = "Nd p a2 z a1"
  have b: "rb_is_black (ptr b) s" "\<not> rb_is_black z s"
    using rep_black [of s "Lft q y ?a # Lft k x u # D" b] rep_black [of s "Rgt q b y # Lft k x u # D" ?a] r c by simp_all
  obtain s1 where s1: "rb_paint_child 0 z s = Some s1" "rep s1 (plug D (Nd k (Nd q b y (Nd 0 a2 z a1)) x u))"
    using paint_child_ok [of s "Rgt q b y # Lft k x u # D" ?a] r by auto
  obtain s2 where s2: "rb_paint 1 y s1 = Some s2" "rep s2 (plug D (Nd k (Nd 1 b y (Nd 0 a2 z a1)) x u))"
    using paint_ok [of s1 "Lft k x u # D" q b y "Nd 0 a2 z a1" 1] s1(2) by auto
  obtain s3 where s3: "rb_rotate_left y s2 = Some s3" "rep s3 (plug D (Nd k (Nd 0 (Nd 1 b y a2) z a1) x u))"
    using rotate_left_ok [of s2 "Lft k x u # D" 1 b y 0 a2 z a1] s2(2) by auto
  from fixup_right_end [OF s3(2)] show ?thesis
    using rep_at [of s "Lft k x u # D" q b y ?a] rep_at [OF s3(2)] r b s1(1) s2(1) s3(1) by (auto simp: fixup_right_black_def Option.bind_eq_Some_conv)
qed

lemma fixup_right_red:
  assumes r: "rep s (plug D (Nd k (Nd 1 b y a) x u))"
  shows "\<exists>s'. fixup_right x s = fixup_right_black x (ptr a) s' \<and> rep s' (plug (Rgt 0 b y # D) (Nd 1 a x u))"
proof -
  have "rb_is_red y s" using rep_red [of s "Lft k x u # D" "Nd 1 b y a"] r by simp
  moreover obtain s' where s': "(rb_paint 0 y s \<bind> rb_paint 1 x \<bind> rb_rotate_right x) = Some s'" "rep s' (plug (Rgt 0 b y # D) (Nd 1 a x u))"
    using paint_rotate_right [OF r] by auto
  ultimately show ?thesis using rep_at [OF r] rep_at [OF s'(2)] by (auto simp: fixup_right_def simp del: Option.bind_assoc)
qed

lemma fixup_right_black:
  assumes "rep s (plug D (Nd k (Nd q b y a) x u))" "q \<noteq> 1"
  shows "fixup_right x s = fixup_right_black x y s"
  using rep_at [OF assms(1)] rep_red [of s "Lft k x u # D" "Nd q b y a"] assms by (simp add: fixup_right_def)

text \<open>The heights a context demands of its hole, and the invariant of the loop: the hole is one black node short.\<close>

fun okh :: "frame list \<Rightarrow> nat \<Rightarrow> bool" where
  "okh [] k \<longleftrightarrow> True"
| "okh (Lft c x r # C) k \<longleftrightarrow> bh r = k \<and> invh r \<and> okh C (k + (if c = RB_BLACK then 1 else 0))"
| "okh (Rgt c l x # C) k \<longleftrightarrow> bh l = k \<and> invh l \<and> okh C (k + (if c = RB_BLACK then 1 else 0))"

lemma invh_okh: "invh (plug C t) \<longleftrightarrow> invh t \<and> okh C (bh t)"
  by (induction C t rule: plug.induct) auto

definition short :: "rb_store \<Rightarrow> frame list \<Rightarrow> rbt \<Rightarrow> bool" where
  "short s C u \<longleftrightarrow> rep s (plug C u) \<and> invc (blacken u) \<and> (col u = RB_BLACK \<or> col u = RB_RED) \<and> invh u \<and> okc C RB_BLACK \<and> okh C (bh u + 1) \<and>
     (C \<noteq> [] \<longrightarrow> fcol (last C) = RB_BLACK)"

definition fixed :: "rb_store \<Rightarrow> u64 list \<Rightarrow> bool" where
  "fixed s xs \<longleftrightarrow> (\<exists>t. rep s t \<and> invc (blacken t) \<and> invh t \<and> inorder t = xs)"

lemma fixedI: "rep s (plug D t) \<Longrightarrow> invc t \<Longrightarrow> okc D (col t) \<Longrightarrow> invh t \<Longrightarrow> okh D (bh t) \<Longrightarrow> inorder (plug D t) = xs \<Longrightarrow> fixed s xs"
  unfolding fixed_def by (rule exI [of _ "plug D t"]) (simp add: invc_plug invh_okh)

lemma blacken_id: "col u = 0 \<Longrightarrow> blacken u = u"
  by (cases u) auto

lemma col_cases: "invc t \<Longrightarrow> col t = 0 \<or> col t = 1"
  by (cases t) auto

lemma black_pass_left:
  assumes s: "short s (Lft k x (Nd 0 a y b) # D) u" and u: "col u = 0"
  shows "(\<exists>s' t. fixup_left_black x y s = Some (True, ptr t, par D, s') \<and> short s' D t \<and> col t = k \<and> inorder (plug D t) = inorder (plug (Lft k x (Nd 0 a y b) # D) u)) \<or>
    (\<exists>s' q. fixup_left_black x y s = Some (False, rb_root s', q, s') \<and> fixed s' (inorder (plug (Lft k x (Nd 0 a y b) # D) u)))"
proof -
  have r: "rep s (plug D (Nd k u x (Nd 0 a y b)))" and k: "k = 0 \<or> k = 1" "okc D k" "okc D 0" and h: "invh u" "bh a = bh b" "invh a" "invh b" "bh b = bh u"
      "okh D (bh u + 1 + (if k = 0 then 1 else 0))" and l: "D \<noteq> [] \<longrightarrow> fcol (last D) = 0" and i: "invc u" "invc a" "invc b"
    using s u okc_black [of D k] by (auto simp: short_def blacken_id split: if_splits)
  show ?thesis
  proof (cases "col b = 0")
    case b: True
    show ?thesis
    proof (cases "col a = 0")
      case True
      then have "short s' D (Nd k u x (Nd 1 a y b))" if "rep s' (plug D (Nd k u x (Nd 1 a y b)))" for s'
        using that k h l i b u unfolding short_def by (auto split: if_splits)
      moreover obtain s' where "fixup_left_black x y s = Some (True, x, par D, s')" "rep s' (plug D (Nd k u x (Nd 1 a y b)))"
        using fixup_left_nephews [OF r True b] by blast
      ultimately show ?thesis by (intro disjI1 exI [of _ s'] exI [of _ "Nd k u x (Nd 1 a y b)"]) (simp add: inorder_plug)
    next
      case False
      then obtain p a1 z a2 where a: "a = Nd p a1 z a2" "p = 1" using col_cases [OF i(2)] by (cases a) auto
      have "fixed s' (inorder (plug (Lft k x (Nd 0 a y b) # D) u))" if "rep s' (plug D (Nd k (Nd 0 u x a1) z (Nd 0 a2 y b)))" for s'
        using that k h i a by (intro fixedI [OF that]) (auto simp: inorder_plug split: if_splits)
      then show ?thesis using fixup_left_inner [OF r [unfolded a(1)] _ b] a by (intro disjI2) auto
    qed
  next
    case False
    then have b: "col b = 1" using col_cases [OF i(3)] by simp
    have "fixed s' (inorder (plug (Lft k x (Nd 0 a y b) # D) u))" if "rep s' (plug D (Nd k (Nd 0 u x a) y (blacken b)))" for s'
      using that k h i b by (intro fixedI [OF that]) (auto simp: inorder_plug bh_blacken split: if_splits)
    then show ?thesis using fixup_left_outer [OF r False] by (intro disjI2) auto
  qed
qed

text \<open>A whole pass, for a left child.\<close>

lemma pass_left:
  assumes s: "short s (Lft k x w # D) u" and u: "col u = 0"
  shows "(\<exists>s' E t. fixup_left x s = Some (True, ptr t, par E, s') \<and> short s' E t \<and> (length E \<le> length D \<or> length E = Suc (length D) \<and> col t = 1) \<and>
      inorder (plug E t) = inorder (plug (Lft k x w # D) u)) \<or>
    (\<exists>s' q. fixup_left x s = Some (False, rb_root s', q, s') \<and> fixed s' (inorder (plug (Lft k x w # D) u)))"
proof -
  have w: "invc w" "invh w" "bh w = bh u + 1" using s by (simp_all add: short_def)
  then obtain q a y b where W: "w = Nd q a y b" by (cases w) auto
  have r: "rep s (plug D (Nd k u x (Nd q a y b)))" using s W by (simp add: short_def)
  show ?thesis
  proof (cases "q = 1")
    case True
    obtain s1 where s1: "fixup_left x s = fixup_left_black x (ptr a) s1" "rep s1 (plug (Lft 0 y b # D) (Nd 1 u x a))"
      using fixup_left_red [OF r [unfolded True]] by blast
    have "bh a = bh u + 1" "col a = 0" using w W True by auto
    then obtain a' y' b' where a: "a = Nd 0 a' y' b'" by (cases a) auto
    have "short s1 (Lft 1 x a # Lft 0 y b # D) u" using s s1(2) W True a unfolding short_def by (auto split: if_splits)
    from black_pass_left [OF this [unfolded a] u] show ?thesis
    proof (elim disjE exE conjE)
      fix s' t assume "fixup_left_black x y' s1 = Some (True, ptr t, par (Lft 0 y b # D), s')" "short s' (Lft 0 y b # D) t" "col t = 1"
        "inorder (plug (Lft 0 y b # D) t) = inorder (plug (Lft 1 x (Nd 0 a' y' b') # Lft 0 y b # D) u)"
      then show ?thesis using s1(1) a W True
        by (intro disjI1 exI [of _ s'] exI [of _ "Lft 0 y b # D"] exI [of _ t]) (simp add: inorder_plug)
    qed (use s1(1) a W True in \<open>auto simp: inorder_plug\<close>)
  next
    case False
    then have q: "q = 0" using w(1) W by auto
    from black_pass_left [OF s [unfolded W q] u] show ?thesis unfolding fixup_left_black [OF r False] W q by blast
  qed
qed

lemma black_pass_right:
  assumes s: "short s (Rgt k (Nd 0 b y a) x # D) u" and u: "col u = 0"
  shows "(\<exists>s' t. fixup_right_black x y s = Some (True, ptr t, par D, s') \<and> short s' D t \<and> col t = k \<and> inorder (plug D t) = inorder (plug (Rgt k (Nd 0 b y a) x # D) u)) \<or>
    (\<exists>s' q. fixup_right_black x y s = Some (False, rb_root s', q, s') \<and> fixed s' (inorder (plug (Rgt k (Nd 0 b y a) x # D) u)))"
proof -
  have r: "rep s (plug D (Nd k (Nd 0 b y a) x u))" and k: "k = 0 \<or> k = 1" "okc D k" "okc D 0" and h: "invh u" "bh a = bh b" "invh a" "invh b" "bh b = bh u"
      "okh D (bh u + 1 + (if k = 0 then 1 else 0))" and l: "D \<noteq> [] \<longrightarrow> fcol (last D) = 0" and i: "invc u" "invc a" "invc b"
    using s u okc_black [of D k] by (auto simp: short_def blacken_id split: if_splits)
  show ?thesis
  proof (cases "col b = 0")
    case b: True
    show ?thesis
    proof (cases "col a = 0")
      case True
      then have "short s' D (Nd k (Nd 1 b y a) x u)" if "rep s' (plug D (Nd k (Nd 1 b y a) x u))" for s'
        using that k h l i b u unfolding short_def by (auto split: if_splits)
      moreover obtain s' where "fixup_right_black x y s = Some (True, x, par D, s')" "rep s' (plug D (Nd k (Nd 1 b y a) x u))"
        using fixup_right_nephews [OF r True b] by blast
      ultimately show ?thesis by (intro disjI1 exI [of _ s'] exI [of _ "Nd k (Nd 1 b y a) x u"]) (simp add: inorder_plug)
    next
      case False
      then obtain p a1 z a2 where a: "a = Nd p a2 z a1" "p = 1" using col_cases [OF i(2)] by (cases a) auto
      have "fixed s' (inorder (plug (Rgt k (Nd 0 b y a) x # D) u))" if "rep s' (plug D (Nd k (Nd 0 b y a2) z (Nd 0 a1 x u)))" for s'
        using that k h i a by (intro fixedI [OF that]) (auto simp: inorder_plug split: if_splits)
      then show ?thesis using fixup_right_inner [OF r [unfolded a(1)] _ b] a by (intro disjI2) auto
    qed
  next
    case False
    then have b: "col b = 1" using col_cases [OF i(3)] by simp
    have "fixed s' (inorder (plug (Rgt k (Nd 0 b y a) x # D) u))" if "rep s' (plug D (Nd k (blacken b) y (Nd 0 a x u)))" for s'
      using that k h i b by (intro fixedI [OF that]) (auto simp: inorder_plug bh_blacken split: if_splits)
    then show ?thesis using fixup_right_outer [OF r False] by (intro disjI2) auto
  qed
qed

text \<open>A whole pass, for a right child.\<close>

lemma pass_right:
  assumes s: "short s (Rgt k w x # D) u" and u: "col u = 0"
  shows "(\<exists>s' E t. fixup_right x s = Some (True, ptr t, par E, s') \<and> short s' E t \<and> (length E \<le> length D \<or> length E = Suc (length D) \<and> col t = 1) \<and>
      inorder (plug E t) = inorder (plug (Rgt k w x # D) u)) \<or>
    (\<exists>s' q. fixup_right x s = Some (False, rb_root s', q, s') \<and> fixed s' (inorder (plug (Rgt k w x # D) u)))"
proof -
  have w: "invc w" "invh w" "bh w = bh u + 1" using s by (simp_all add: short_def)
  then obtain q a y b where W: "w = Nd q b y a" by (cases w) auto
  have r: "rep s (plug D (Nd k (Nd q b y a) x u))" using s W by (simp add: short_def)
  show ?thesis
  proof (cases "q = 1")
    case True
    obtain s1 where s1: "fixup_right x s = fixup_right_black x (ptr a) s1" "rep s1 (plug (Rgt 0 b y # D) (Nd 1 a x u))"
      using fixup_right_red [OF r [unfolded True]] by blast
    have "bh a = bh u + 1" "col a = 0" using w W True by auto
    then obtain a' y' b' where a: "a = Nd 0 b' y' a'" by (cases a) auto
    have "short s1 (Rgt 1 a x # Rgt 0 b y # D) u" using s s1(2) W True a unfolding short_def by (auto split: if_splits)
    from black_pass_right [OF this [unfolded a] u] show ?thesis
    proof (elim disjE exE conjE)
      fix s' t assume "fixup_right_black x y' s1 = Some (True, ptr t, par (Rgt 0 b y # D), s')" "short s' (Rgt 0 b y # D) t" "col t = 1"
        "inorder (plug (Rgt 0 b y # D) t) = inorder (plug (Rgt 1 (Nd 0 b' y' a') x # Rgt 0 b y # D) u)"
      then show ?thesis using s1(1) a W True
        by (intro disjI1 exI [of _ s'] exI [of _ "Rgt 0 b y # D"] exI [of _ t]) (simp add: inorder_plug)
    qed (use s1(1) a W True in \<open>auto simp: inorder_plug\<close>)
  next
    case False
    then have q: "q = 0" using w(1) W by auto
    from black_pass_right [OF s [unfolded W q] u] show ?thesis unfolding fixup_right_black [OF r False] W q by blast
  qed
qed

text \<open>The loop stops at the root and at a red node; it goes on otherwise.\<close>

lemma fixup_stops:
  assumes "short s C u" "C = [] \<or> col u = 1"
  shows "erase_fixup (ptr u) p s = Some (ptr u, s)"
  using assms rep_red [of s C u] by (subst erase_fixup.simps) (auto simp: short_def rep_def)

lemma ctop_in: "ctop C a \<in> insert a (set (before C @ behind C))"
proof (induction C arbitrary: a)
  case (Cons f C)
  show ?case using Cons [of "par (f # C)"] by (cases f) auto
qed simp

lemma fixup_passes:
  assumes s: "short s (f # D) u" and u: "col u = 0"
  defines "x \<equiv> par (f # D)"
  shows "erase_fixup (ptr u) x s = (case f of Lft _ _ _ \<Rightarrow> fixup_left x s | Rgt _ _ _ \<Rightarrow> fixup_right x s) \<bind>
    (\<lambda>(more, child1, parent1, s1). if more then erase_fixup child1 parent1 s1 else Some (child1, s1))"
proof -
  have r: "rep s (plug (f # D) u)" using s by (simp add: short_def)
  have "\<not> rb_is_red (ptr u) s" using rep_red [OF r] u by simp
  moreover have "ptr u \<noteq> rb_root s"
  proof -
    have t: "rb_root s = ctop D x" "x \<in> set (before (f # D) @ behind (f # D))" "x \<noteq> 0" using r par_in [of "f # D"] parent_at [OF r] by (auto simp: rep_plug x_def)
    then have "rb_root s \<in> set (before (f # D) @ behind (f # D))" using ctop_in [of D x] by (cases f) auto
    moreover have "rb_root s \<noteq> 0" using calculation r cholds_nonnull by (auto simp: rep_plug)
    ultimately show ?thesis using r ptr_in [of u] by (cases "u = Lf") (auto simp: rep_plug)
  qed
  moreover obtain q where q: "rb_at x s = Some q" "rb_left q = (case f of Lft c x r \<Rightarrow> ptr u | Rgt c l x \<Rightarrow> ptr l)"
    using parent_at [OF r] by (auto simp: x_def)
  moreover have "ptr u \<noteq> ptr l" if "f = Rgt c l y" for c l y
  proof -
    have "l \<noteq> Lf" using s that by (auto simp: short_def)
    then show ?thesis using ptr_other [of s D c l y u] r that by auto
  qed
  ultimately show ?thesis by (subst erase_fixup.simps) (auto split: frame.splits)
qed

lemma erase_fixup_ok:
  assumes "short s C u"
  shows "\<exists>s' t. (erase_fixup (ptr u) (par C) s \<bind> (\<lambda>(c, s1). rb_paint_child 0 c s1)) = Some s' \<and> rep s' t \<and> red_black t \<and> inorder t = inorder (plug C u)"
  using assms
proof (induction "2 * length C + (if col u = 1 then 0 else 1)" arbitrary: s C u rule: less_induct)
  case less
  show ?case
  proof (cases "C = [] \<or> col u = 1")
    case True
    obtain s' where s': "rb_paint_child 0 (ptr u) s = Some s'" "rep s' (plug C (blacken u))"
      using paint_child_ok [of s C u] less.prems by (auto simp: short_def)
    have "bh (blacken u) = bh u + 1" if "C \<noteq> []" using True that bh_blacken by auto
    then have "red_black (plug C (blacken u))"
      using less.prems by (cases "C = []") (auto simp: short_def red_black_def invc_plug invh_okh col_plug)
    moreover have "inorder (plug C (blacken u)) = inorder (plug C u)" by (simp add: inorder_plug)
    ultimately show ?thesis using fixup_stops [OF less.prems True] s' by auto
  next
    case False
    then have u: "col u = 0" using less.prems by (auto simp: short_def)
    obtain f D where C: "C = f # D" using False by (cases C) auto
    let ?p = "par (f # D)" let ?fix = "case f of Lft _ _ _ \<Rightarrow> fixup_left ?p s | Rgt _ _ _ \<Rightarrow> fixup_right ?p s"
    have "(\<exists>s' E t. ?fix = Some (True, ptr t, par E, s') \<and> short s' E t \<and> (length E \<le> length D \<or> length E = Suc (length D) \<and> col t = 1) \<and>
          inorder (plug E t) = inorder (plug (f # D) u)) \<or>
        (\<exists>s' q. ?fix = Some (False, rb_root s', q, s') \<and> fixed s' (inorder (plug (f # D) u)))"
      using pass_left [of s _ _ _ D u] pass_right [of s _ _ _ D u] less.prems u C by (cases f) simp_all
    then show ?thesis
    proof (elim disjE exE conjE)
      fix s' E t assume p: "?fix = Some (True, ptr t, par E, s')" "short s' E t" "inorder (plug E t) = inorder (plug (f # D) u)"
        "length E \<le> length D"
      have "2 * length E + (if col t = 1 then 0 else 1) < 2 * length C + (if col u = 1 then 0 else 1)" using p(4) C u by auto
      from less.hyps [OF this p(2)] show ?thesis using fixup_passes [OF less.prems [unfolded C] u] p(1,3) C by simp
    next
      fix s' E t assume p: "?fix = Some (True, ptr t, par E, s')" "short s' E t" "inorder (plug E t) = inorder (plug (f # D) u)"
        "length E = Suc (length D)" "col t = 1"
      have "2 * length E + (if col t = 1 then 0 else 1) < 2 * length C + (if col u = 1 then 0 else 1)" using p(4,5) C u by auto
      from less.hyps [OF this p(2)] show ?thesis using fixup_passes [OF less.prems [unfolded C] u] p(1,3) C by simp
    next
      fix s' q assume p: "?fix = Some (False, rb_root s', q, s')" "fixed s' (inorder (plug (f # D) u))"
      then obtain t where t: "rep s' t" "invc (blacken t)" "invh t" "inorder t = inorder (plug (f # D) u)" by (auto simp: fixed_def)
      then have "rb_root s' = ptr t" by (simp add: rep_def)
      moreover obtain s2 where "rb_paint_child 0 (ptr t) s' = Some s2" "rep s2 (blacken t)" using paint_child_ok [of s' "[]" t] t(1) by auto
      ultimately show ?thesis using fixup_passes [OF less.prems [unfolded C] u] p(1) t
        by (intro exI [of _ s2] exI [of _ "blacken t"]) (simp add: red_black_def C)
    qed
  qed
qed

lemma replace_ok:
  assumes r: "rep s (plug C (Nd c l x r))" and u: "u = l \<and> r = Lf \<or> u = r \<and> l = Lf"
  shows "\<exists>s' m. rb_replace_node x (ptr u) s = Some s' \<and> rep s' (plug C u) \<and> rb_at x s' = Some m \<and> rb_parent m = par C \<and> rb_color m = c"
proof -
  let ?h = "rb_nodes s"
  have x: "?h x = \<lparr>rb_parent = par C, rb_left = ptr l, rb_right = ptr r, rb_color = c\<rparr>" "x \<noteq> 0" and ctx: "cholds ?h C x" "rb_root s = ctop C x"
    and hu: "holds ?h x u" and d: "distinct (before C @ inorder u @ behind C)" "x \<notin> set (before C @ inorder u @ behind C)"
    using r u by (auto simp: rep_plug)
  have "distinct (before C @ behind C)" using d(1) by auto
  then obtain s1 where s1: "rb_relink x (par C) (ptr u) s = Some s1" "cholds (rb_nodes s1) C (ptr u)" "rb_root s1 = ctop C (ptr u)"
      "\<And>z. z \<noteq> par C \<or> C = [] \<Longrightarrow> rb_nodes s1 z = ?h z"
    using relink_ok [OF ctx x(2), of "ptr u"] d(2) by auto
  have off: "rb_nodes s1 z = ?h z" if "z \<in> insert x (set (inorder u))" for z using that par_in [of C] d by (intro s1(4)) auto
  have h1: "holds (rb_nodes s1) x u" using hu off holds_cong [of u "rb_nodes s1" ?h] by auto
  show ?thesis
  proof (cases "u = Lf")
    case True
    then show ?thesis using s1 d x off by (simp add: rb_replace_node_def rb_at_def rep_plug)
  next
    case False
    let ?h2 = "(rb_nodes s1)(ptr u := (rb_nodes s1 (ptr u))\<lparr>rb_parent := par C\<rparr>)"
    have p: "ptr u \<noteq> 0" "ptr u \<noteq> x" "ptr u \<in> set (inorder u)" using False hu ptr_zero ptr_in d(2) by auto
    have "holds ?h2 (par C) u" using holds_reparent [OF h1 _ False] d(1) by simp
    moreover have "cholds ?h2 C (ptr u) \<longleftrightarrow> cholds (rb_nodes s1) C (ptr u)" using p(3) d(1) by (intro cholds_cong) auto
    ultimately show ?thesis using s1(1,2,3) d(1) x off p by (simp add: rb_replace_node_def rb_at_def rb_set_def rep_plug)
  qed
qed

text \<open>C28: removal from the red-black tree.  Removing a node that has at most one child follows no null pointer and returns;
  the store then holds a red-black tree again, with the other nodes in the same order.\<close>

theorem rb_erase_correct:
  assumes "rep s (plug C (Nd c l x r))" "red_black (plug C (Nd c l x r))" "l = Lf \<or> r = Lf"
  shows "\<exists>s' t. rb_erase x s = Some s' \<and> rep s' t \<and> red_black t \<and> inorder t = before C @ inorder l @ inorder r @ behind C"
proof -
  define u where "u = (if l = Lf then r else l)"
  have u: "u = l \<and> r = Lf \<or> u = r \<and> l = Lf" "inorder u = inorder l @ inorder r" using assms(3) by (auto simp: u_def)
  obtain s1 m where s1: "rb_replace_node x (ptr u) s = Some s1" "rep s1 (plug C u)" "rb_at x s1 = Some m" "rb_parent m = par C" "rb_color m = c"
    using replace_ok [OF assms(1) u(1)] by blast
  have z: "ptr l = 0 \<longleftrightarrow> l = Lf" "ptr r = 0 \<longleftrightarrow> r = Lf" using assms(1) ptr_zero by (auto simp: rep_plug)
  have e: "rb_erase x s = erase_finish (ptr u) (par C) c s1"
    using rep_at [OF assms(1)] z s1 assms(3) by (auto simp: rb_erase_def erase_one_def u_def)
  have inv: "invc (Nd c l x r)" "okc C c" "invh u" "okh C (bh u + (if c = 0 then 1 else 0))" "C \<noteq> [] \<longrightarrow> fcol (last C) = 0" "invc u"
    using assms(2) u(1) by (auto simp: red_black_def invc_plug invh_okh col_plug)
  have o: "inorder (plug C u) = before C @ inorder l @ inorder r @ behind C" by (simp add: inorder_plug u)
  show ?thesis
  proof (cases "c = 0")
    case True
    then have "short s1 C u" using s1(2) inv col_cases [OF inv(6)] okc_black by (auto simp: short_def)
    from erase_fixup_ok [OF this] show ?thesis using e o True by (auto simp: erase_finish_def)
  next
    case False
    then have c: "C \<noteq> []" "col u = 0" using assms(2) inv(1) u(1) by (auto simp: red_black_def)
    then have "red_black (plug C u)" using inv False okc_black [of C c] by (auto simp: red_black_def invc_plug invh_okh col_plug)
    then show ?thesis using e o False s1(2) by (auto simp: erase_finish_def)
  qed
qed

definition three_nodes :: rb_store where
  "three_nodes = \<lparr>rb_nodes = (\<lambda>_. \<lparr>rb_parent = 0, rb_left = 0, rb_right = 0, rb_color = 0\<rparr>)
     (0x20 := \<lparr>rb_parent = 0, rb_left = 0x10, rb_right = 0x30, rb_color = 0\<rparr>, 0x10 := \<lparr>rb_parent = 0x20, rb_left = 0, rb_right = 0, rb_color = 0\<rparr>,
      0x30 := \<lparr>rb_parent = 0x20, rb_left = 0, rb_right = 0, rb_color = 0\<rparr>), rb_root = 0x20\<rparr>"

theorem rb_erase_correct_witness:
  "\<exists>s' t. rb_erase 0x30 three_nodes = Some s' \<and> rep s' t \<and> red_black t \<and> inorder t = [0x10, 0x20]"
proof -
  have "rep three_nodes (plug [Rgt 0 (Nd 0 Lf 0x10 Lf) 0x20] (Nd 0 Lf 0x30 Lf))" "red_black (plug [Rgt 0 (Nd 0 Lf 0x10 Lf) 0x20] (Nd 0 Lf 0x30 Lf))"
    by (simp_all add: three_nodes_def rep_def red_black_def)
  from rb_erase_correct [OF this] show ?thesis by simp
qed

end
