(* ===== verification/Syscall.thy ===== *)
theory Syscall
  imports Boot Namei Stat Poll Timekeeping
begin

text \<open>
  The system call layer, \<^verbatim>\<open>kernel/sys.c\<close>: the calls of that file, the dispatch of a call to its component, and the way back to
  user mode.  The memory of the process enters as the record \<open>user\<close> of what the copies from it yield at an address (null
  pointers included), and what a call stores there is its \<open>reply\<close>.  The words of signal frames are in \<open>umem\<close>.  A call that has
  to wait ends in \<open>Call_Sleeps\<close>; the definitions of its component say how it goes on.  The field \<open>clear_child_tid\<close> of a task is
  written but never read, and is left out.
\<close>

record user =
  u_str :: "u64 \<Rightarrow> string option"
  u_strs :: "u64 \<Rightarrow> string list option"
  u_bytes :: "u64 \<Rightarrow> u64 \<Rightarrow> u8 list"
  u_iov :: "u64 \<Rightarrow> u64 \<Rightarrow> (u64 \<times> u8 list) list"
  u_word :: "u64 \<Rightarrow> u64 option"
  u_ts :: "u64 \<Rightarrow> (u64 \<times> u64) option"
  u_fds :: "u64 \<Rightarrow> u32 \<Rightarrow> pollfd list"
  u_act :: "u64 \<Rightarrow> sigaction option"
  u_termios :: "u64 \<Rightarrow> user_termios"
  u_int :: "u64 \<Rightarrow> int"

record sysinfo =
  si_uptime :: u64
  si_totalram :: u64
  si_freeram :: u64
  si_procs :: "16 word"
  si_mem_unit :: u32

datatype reply =
    No_Reply
  | Bytes_Reply "u8 list"
  | Text_Reply string
  | Stat_Reply stat
  | Fds_Reply "int \<times> int"
  | Time_Reply "u64 \<times> u64"
  | Mask_Reply u64
  | Action_Reply sigaction
  | Ioctl_Reply ioctl_out
  | Poll_Reply "pollfd list"
  | Status_Reply int
  | Uts_Reply "string list"
  | Info_Reply sysinfo
  | Offset_Reply u64
  | Rtc_Reply u32

datatype call_out = Call_Returns int reply | Call_Sleeps | Call_Exits | Call_Execs | Call_Ends machine

subsection \<open>The calls of the file\<close>

text \<open>The fields of \<open>new_utsname\<close>, 65 characters each.\<close>

definition ksys_uname :: "bool \<Rightarrow> int \<times> reply" where
  "ksys_uname have_buf =
     (if \<not> have_buf then (- EFAULT, No_Reply)
      else (0, Uts_Reply (map (\<lambda>f. f @ replicate (65 - length f) NUL)
                 [''Linux'', ''mini-os'', ''0.0'', ''mini-os'', ''aarch64'', []])))"

definition ksys_set_tid_address :: "nat \<Rightarrow> sched \<Rightarrow> int" where
  "ksys_set_tid_address c s = (let t = get_current c s in if t = 0 then - EINVAL else t_pid (tasks s t))"

definition ksys_sysinfo :: "bool \<Rightarrow> sched \<Rightarrow> int \<times> reply" where
  "ksys_sysinfo have_buf s =
     (if \<not> have_buf then (- EFAULT, No_Reply)
      else
        let total = 128 * 1024 * 1024 div 4096;
            procs = length (filter (\<lambda>t. t_pid (tasks s t) > 0 \<and> t_state (tasks s t) \<noteq> TASK_DEAD) (all_tasks s)) in
        (0, Info_Reply \<lparr>si_uptime = jiffies s div HZ, si_totalram = total, si_freeram = total div 2, si_procs = of_nat procs, si_mem_unit = 4096\<rparr>))"

subsection \<open>Dispatch\<close>

definition int_arg :: "u64 \<Rightarrow> int" where
  "int_arg x = sint (ucast x :: u32)"

definition reply_opt :: "('a \<Rightarrow> reply) \<Rightarrow> 'a option \<Rightarrow> reply" where
  "reply_opt f x = (case x of None \<Rightarrow> No_Reply | Some y \<Rightarrow> f y)"

text \<open>The results of the components as results of the dispatcher.\<close>

definition ret :: "int \<Rightarrow> reply \<Rightarrow> kernel \<Rightarrow> (call_out \<times> kernel) option" where
  "ret r p k = Some (Call_Returns r p, k)"

definition ret_k :: "int \<times> kernel \<Rightarrow> (call_out \<times> kernel) option" where
  "ret_k = (\<lambda>(r, k). ret r No_Reply k)"

definition ret_s :: "kernel \<Rightarrow> int \<times> sched \<Rightarrow> (call_out \<times> kernel) option" where
  "ret_s k = (\<lambda>(r, s). ret r No_Reply (k\<lparr>sch := s\<rparr>))"

definition ret_o :: "(int \<times> kernel) option \<Rightarrow> (call_out \<times> kernel) option" where
  "ret_o x = x \<bind> ret_k"

definition ret_wait :: "int option \<Rightarrow> reply \<Rightarrow> kernel \<Rightarrow> (call_out \<times> kernel) option" where
  "ret_wait r p k = (case r of None \<Rightarrow> Some (Call_Sleeps, k) | Some n \<Rightarrow> ret n p k)"

text \<open>The memory calls work on the address space of the current task.\<close>

definition user_mm :: "nat \<Rightarrow> kernel \<Rightarrow> mm_struct option" where
  "user_mm c k =
     (let t = k_current c k; x = tasks (sch k) t in
      if t = 0 \<or> \<not> t_is_user x \<or> t_mm x = 0 then None else Some (mms k (t_mm x)))"

definition mm_call :: "nat \<Rightarrow> (mm_struct option \<Rightarrow> vmstate \<Rightarrow> int \<times> mm_struct option \<times> vmstate) \<Rightarrow> kernel \<Rightarrow> (call_out \<times> kernel) option" where
  "mm_call c f k =
     (let (r, mm, st) = f (user_mm c k) (k_vm k); k1 = put_vm st k in
      ret r No_Reply (case mm of None \<Rightarrow> k1 | Some m \<Rightarrow> k1\<lparr>mms := (mms k1)(t_mm (tasks (sch k) (k_current c k)) := m)\<rparr>))"

subsection \<open>Call numbers\<close>

abbreviation (input) NR_write :: u64 where "NR_write \<equiv> 64"
abbreviation (input) NR_writev :: u64 where "NR_writev \<equiv> 66"
abbreviation (input) NR_sendfile :: u64 where "NR_sendfile \<equiv> 71"
abbreviation (input) NR_ioctl :: u64 where "NR_ioctl \<equiv> 29"
abbreviation (input) NR_read :: u64 where "NR_read \<equiv> 63"
abbreviation (input) NR_openat :: u64 where "NR_openat \<equiv> 56"
abbreviation (input) NR_mknodat :: u64 where "NR_mknodat \<equiv> 33"
abbreviation (input) NR_mkdirat :: u64 where "NR_mkdirat \<equiv> 34"
abbreviation (input) NR_unlinkat :: u64 where "NR_unlinkat \<equiv> 35"
abbreviation (input) NR_symlinkat :: u64 where "NR_symlinkat \<equiv> 36"
abbreviation (input) NR_readlinkat :: u64 where "NR_readlinkat \<equiv> 78"
abbreviation (input) NR_linkat :: u64 where "NR_linkat \<equiv> 37"
abbreviation (input) NR_renameat :: u64 where "NR_renameat \<equiv> 38"
abbreviation (input) NR_faccessat :: u64 where "NR_faccessat \<equiv> 48"
abbreviation (input) NR_faccessat2 :: u64 where "NR_faccessat2 \<equiv> 439"
abbreviation (input) NR_chdir :: u64 where "NR_chdir \<equiv> 49"
abbreviation (input) NR_fchdir :: u64 where "NR_fchdir \<equiv> 50"
abbreviation (input) NR_fchmod :: u64 where "NR_fchmod \<equiv> 52"
abbreviation (input) NR_fchmodat :: u64 where "NR_fchmodat \<equiv> 53"
abbreviation (input) NR_getcwd :: u64 where "NR_getcwd \<equiv> 17"
abbreviation (input) NR_utimensat :: u64 where "NR_utimensat \<equiv> 88"
abbreviation (input) NR_close :: u64 where "NR_close \<equiv> 57"
abbreviation (input) NR_dup :: u64 where "NR_dup \<equiv> 23"
abbreviation (input) NR_dup3 :: u64 where "NR_dup3 \<equiv> 24"
abbreviation (input) NR_pipe2 :: u64 where "NR_pipe2 \<equiv> 59"
abbreviation (input) NR_ppoll :: u64 where "NR_ppoll \<equiv> 73"
abbreviation (input) NR_fstat :: u64 where "NR_fstat \<equiv> 80"
abbreviation (input) NR_newfstatat :: u64 where "NR_newfstatat \<equiv> 79"
abbreviation (input) NR_getdents64 :: u64 where "NR_getdents64 \<equiv> 61"
abbreviation (input) NR_clone :: u64 where "NR_clone \<equiv> 220"
abbreviation (input) NR_sched_yield :: u64 where "NR_sched_yield \<equiv> 124"
abbreviation (input) NR_exit :: u64 where "NR_exit \<equiv> 93"
abbreviation (input) NR_exit_group :: u64 where "NR_exit_group \<equiv> 94"
abbreviation (input) NR_set_tid_address :: u64 where "NR_set_tid_address \<equiv> 96"
abbreviation (input) NR_uname :: u64 where "NR_uname \<equiv> 160"
abbreviation (input) NR_clock_gettime :: u64 where "NR_clock_gettime \<equiv> 113"
abbreviation (input) NR_nanosleep :: u64 where "NR_nanosleep \<equiv> 101"
abbreviation (input) NR_sysinfo :: u64 where "NR_sysinfo \<equiv> 179"
abbreviation (input) NR_lseek :: u64 where "NR_lseek \<equiv> 62"
abbreviation (input) NR_getuid :: u64 where "NR_getuid \<equiv> 174"
abbreviation (input) NR_geteuid :: u64 where "NR_geteuid \<equiv> 175"
abbreviation (input) NR_getgid :: u64 where "NR_getgid \<equiv> 176"
abbreviation (input) NR_getegid :: u64 where "NR_getegid \<equiv> 177"
abbreviation (input) NR_gettid :: u64 where "NR_gettid \<equiv> 178"
abbreviation (input) NR_getppid :: u64 where "NR_getppid \<equiv> 173"
abbreviation (input) NR_mprotect :: u64 where "NR_mprotect \<equiv> 226"
abbreviation (input) NR_fcntl :: u64 where "NR_fcntl \<equiv> 25"
abbreviation (input) NR_wait4 :: u64 where "NR_wait4 \<equiv> 260"
abbreviation (input) NR_execve :: u64 where "NR_execve \<equiv> 221"
abbreviation (input) NR_brk :: u64 where "NR_brk \<equiv> 214"
abbreviation (input) NR_mmap :: u64 where "NR_mmap \<equiv> 222"
abbreviation (input) NR_munmap :: u64 where "NR_munmap \<equiv> 215"
abbreviation (input) NR_kill :: u64 where "NR_kill \<equiv> 129"
abbreviation (input) NR_rt_sigaction :: u64 where "NR_rt_sigaction \<equiv> 134"
abbreviation (input) NR_rt_sigprocmask :: u64 where "NR_rt_sigprocmask \<equiv> 135"
abbreviation (input) NR_rt_sigpending :: u64 where "NR_rt_sigpending \<equiv> 136"
abbreviation (input) NR_rt_sigsuspend :: u64 where "NR_rt_sigsuspend \<equiv> 133"
abbreviation (input) NR_getpid :: u64 where "NR_getpid \<equiv> 172"
abbreviation (input) NR_getpgid :: u64 where "NR_getpgid \<equiv> 155"
abbreviation (input) NR_setpgid :: u64 where "NR_setpgid \<equiv> 154"
abbreviation (input) NR_getsid :: u64 where "NR_getsid \<equiv> 156"
abbreviation (input) NR_setsid :: u64 where "NR_setsid \<equiv> 157"
abbreviation (input) NR_reboot :: u64 where "NR_reboot \<equiv> 142"
abbreviation (input) NR_clock_settime :: u64 where "NR_clock_settime \<equiv> 112"
abbreviation (input) NR_rt_sigreturn :: u64 where "NR_rt_sigreturn \<equiv> 139"

subsection \<open>The dispatch table\<close>

text \<open>The entries from \<open>clone\<close> on, and the whole table; \<open>e\<close> is the place of a wait queue entry on the kernel stack.\<close>

definition dispatch_process :: "nat \<Rightarrow> user \<Rightarrow> u64 \<Rightarrow> u32 \<Rightarrow> clock \<Rightarrow> pt_regs \<Rightarrow> kernel \<Rightarrow> (call_out \<times> kernel) option" where
  "dispatch_process c u cnt rtc clk regs k =
     (let n = xregs regs 8; x0 = xregs regs 0; x1 = xregs regs 1; x2 = xregs regs 2; x3 = xregs regs 3; x4 = xregs regs 4; t = k_current c k in
      if n = NR_clone then
          (let (r, _, k1) = ksys_fork c regs k in ret r No_Reply k1)
      else if n = NR_sched_yield then
          (let s = ksys_sched_yield c (sch k); k1 = k\<lparr>sch := s\<rparr> in if get_current c s = t then ret 0 No_Reply k1 else Some (Call_Sleeps, k1))
      else if n = NR_exit \<or> n = NR_exit_group then
          ksys_exit c (sint x0) k \<bind> (\<lambda>k1. if t = 0 \<or> \<not> t_is_user (tasks (sch k) t) then ret 0 No_Reply k1 else Some (Call_Exits, k1))
      else if n = NR_set_tid_address then
          ret (ksys_set_tid_address c (sch k)) No_Reply k
      else if n = NR_uname then
          (let (r, p) = ksys_uname (x0 \<noteq> 0) in ret r p k)
      else if n = NR_clock_gettime then
          (let (r, ts) = ksys_clock_gettime (int_arg x0) (x1 \<noteq> 0) cnt rtc clk (sch k) in ret r (reply_opt Time_Reply ts) k)
      else if n = NR_nanosleep then
          (let (r, s) = nanosleep_begin c (u_ts u x0) (sch k) in ret_wait r No_Reply (k\<lparr>sch := s\<rparr>))
      else if n = NR_sysinfo then
          (let (r, p) = ksys_sysinfo (x0 \<noteq> 0) (sch k) in ret r p k)
      else if n = NR_lseek then
          ret_k (ksys_lseek c (unat (ucast x0 :: u32)) x1 (uint (ucast x2 :: u32)) k)
      else if n = NR_getuid \<or> n = NR_geteuid \<or> n = NR_getgid \<or> n = NR_getegid then
          ret 0 No_Reply k
      else if n = NR_gettid then
          ret (ksys_getpid c (sch k)) No_Reply k
      else if n = NR_getppid then
          (let p = t_parent (tasks (sch k) t) in ret (if t = 0 \<or> p = 0 then 0 else t_pid (tasks (sch k) p)) No_Reply k)
      else if n = NR_mprotect then
          mm_call c (ksys_mprotect x0 x1 x2) k
      else if n = NR_fcntl then
          ret_o (ksys_fcntl c (unat x0) (ucast x1) x2 k)
      else if n = NR_wait4 then
          (case ksys_wait4 c (int_arg x0) x2 k of
           (Wait_Done r st, k1) \<Rightarrow> ret r (if x1 = 0 then No_Reply else reply_opt Status_Reply st) k1 | (_, k1) \<Rightarrow> Some (Call_Sleeps, k1))
      else if n = NR_execve then
          ksys_execve c (u_str u x0) (u_strs u x1) (u_strs u x2) k \<bind>
          (\<lambda>(r, k1). case r of Exec_Fails err \<Rightarrow> ret err No_Reply k1 | Exec_Runs \<Rightarrow> Some (Call_Execs, k1))
      else if n = NR_brk then
          mm_call c (ksys_brk x0) k
      else if n = NR_mmap then
          mm_call c (ksys_mmap x0 x1 x2 x3 x4) k
      else if n = NR_munmap then
          mm_call c (ksys_munmap x0 x1) k
      else if n = NR_kill then
          ret_s k (ksys_kill c (int_arg x0) (int_arg x1) (sch k))
      else if n = NR_rt_sigaction then
          (let (r, old, s) = ksys_rt_sigaction c (int_arg x0) (u_act u x1) x3 (sch k) in
           ret r (if x2 = 0 then No_Reply else reply_opt Action_Reply old) (k\<lparr>sch := s\<rparr>))
      else if n = NR_rt_sigprocmask then
          (let (r, old, s) = ksys_rt_sigprocmask c (int_arg x0) (u_word u x1) x3 (sch k) in
           ret r (if x2 = 0 then No_Reply else reply_opt Mask_Reply old) (k\<lparr>sch := s\<rparr>))
      else if n = NR_rt_sigpending then
          (let (r, p) = ksys_rt_sigpending c (x0 \<noteq> 0) x1 (sch k) in ret r (reply_opt Mask_Reply p) k)
      else if n = NR_rt_sigsuspend then
          (case sigsuspend_begin c (u_word u x0) x1 (sch k) of
           (Some r, s) \<Rightarrow> ret r No_Reply (k\<lparr>sch := s\<rparr>)
         | (None, s) \<Rightarrow> let (r, s1) = sigsuspend_pass c s in ret_wait r No_Reply (k\<lparr>sch := s1\<rparr>))
      else if n = NR_getpid then
          ret (ksys_getpid c (sch k)) No_Reply k
      else if n = NR_getpgid then
          ret (if x0 \<noteq> 0 then - EINVAL else ksys_getpgrp c (sch k)) No_Reply k
      else if n = NR_setpgid then
          ret_s k (ksys_setpgid c (int_arg x0) (int_arg x1) (sch k))
      else if n = NR_getsid then
          ret (ksys_getsid c (int_arg x0) (sch k)) No_Reply k
      else if n = NR_setsid then
          ret_s k (ksys_setsid c (sch k))
      else if n = NR_reboot then
          (case ksys_reboot c (ucast x0) (ucast x1) (ucast x2) (sch k) of Runs r \<Rightarrow> ret r No_Reply k | m \<Rightarrow> Some (Call_Ends m, k))
      else ret (- ENOSYS) No_Reply k)"

definition dispatch :: "nat \<Rightarrow> u64 \<Rightarrow> user \<Rightarrow> u64 \<Rightarrow> u32 \<Rightarrow> clock \<Rightarrow> pt_regs \<Rightarrow> kernel \<Rightarrow> (call_out \<times> kernel) option" where
  "dispatch c e u cnt rtc clk regs k =
     (let n = xregs regs 8; x0 = xregs regs 0; x1 = xregs regs 1; x2 = xregs regs 2; x3 = xregs regs 3; x4 = xregs regs 4 in
      if n = NR_write then
          ksys_write c (unat x0) (u_bytes u x1 x2) k \<bind> (\<lambda>(r, k1). ret_wait r No_Reply k1)
      else if n = NR_writev then
          ksys_writev c (unat x0) (x1 \<noteq> 0) (u_iov u x1 x2) k \<bind>
          (\<lambda>(r, k1). case r of Writev_Done n \<Rightarrow> ret n No_Reply k1 | Writev_Waits _ _ \<Rightarrow> Some (Call_Sleeps, k1))
      else if n = NR_sendfile then
          ksys_sendfile c e (unat x0) (unat x1) (u_word u x2) (unat x3) k \<bind>
          (\<lambda>(r, off, k1). case r of Send_Done n \<Rightarrow> ret n (reply_opt Offset_Reply off) k1 | _ \<Rightarrow> Some (Call_Sleeps, k1))
      else if n = NR_ioctl then
          (let (r, out, k1) = ksys_ioctl c (unat x0) (ucast x1) x2 (u_termios u x2) (u_int u x2) k in ret r (Ioctl_Reply out) k1)
      else if n = NR_read then
          (let (r, k1) = ksys_read c e (unat x0) (unat x2) k in ret_wait (map_option fst r) (reply_opt (\<lambda>p. Bytes_Reply (snd p)) r) k1)
      else if n = NR_openat then
          ret_o (ksys_openat c (int_arg x0) (u_str u x1) (ucast x2) (ucast x3) k)
      else if n = NR_mknodat then
          ret_o (ksys_mknodat c (int_arg x0) (u_str u x1) (ucast x2) (ucast x3) k)
      else if n = NR_mkdirat then
          ret_o (ksys_mkdirat c (int_arg x0) (u_str u x1) (ucast x2) k)
      else if n = NR_unlinkat then
          ret_o (ksys_unlinkat c (int_arg x0) (u_str u x1) (ucast x2) k)
      else if n = NR_symlinkat then
          ret_o (ksys_symlinkat c (u_str u x0) (int_arg x1) (u_str u x2) k)
      else if n = NR_readlinkat then
          ksys_readlinkat c (int_arg x0) (u_str u x1) (x2 \<noteq> 0) x3 k \<bind> (\<lambda>(r, bs, k1). ret r (Bytes_Reply bs) k1)
      else if n = NR_linkat then
          ret_o (ksys_linkat c (int_arg x0) (u_str u x1) (int_arg x2) (u_str u x3) (ucast x4) k)
      else if n = NR_renameat then
          ret_o (ksys_renameat c (int_arg x0) (u_str u x1) (int_arg x2) (u_str u x3) k)
      else if n = NR_faccessat then
          ret_o (ksys_faccessat c (int_arg x0) (u_str u x1) (ucast x2) k)
      else if n = NR_faccessat2 then
          ret_o (ksys_faccessat2 c (int_arg x0) (u_str u x1) (ucast x2) (ucast x3) k)
      else if n = NR_chdir then
          ret_k (ksys_chdir c (u_str u x0) k)
      else if n = NR_fchdir then
          ret_k (ksys_fchdir c (unat x0) k)
      else if n = NR_fchmod then
          ret_k (ksys_fchmod c (unat x0) (ucast x1) k)
      else if n = NR_fchmodat then
          ret_o (ksys_fchmodat c (int_arg x0) (u_str u x1) (ucast x2) k)
      else if n = NR_getcwd then
          (case ksys_getcwd c (x0 \<noteq> 0) (unat x1) k of Inl err \<Rightarrow> ret err No_Reply k | Inr p \<Rightarrow> ret (int (length p) + 1) (Text_Reply p) k)
      else if n = NR_utimensat then
          ret_o (ksys_utimensat c (int_arg x0) (u_str u x1) k)
      else if n = NR_close then
          ret_o (ksys_close c (unat x0) k)
      else if n = NR_dup then
          ret_o (ksys_dup c (unat x0) k)
      else if n = NR_dup3 then
          ret_o (ksys_dup3 c (unat x0) (unat x1) (ucast x2) k)
      else if n = NR_pipe2 then
          ksys_pipe2 c (x0 \<noteq> 0) (ucast x1) k \<bind> (\<lambda>(r, fds, k1). ret r (reply_opt Fds_Reply fds) k1)
      else if n = NR_ppoll then
          (case ksys_ppoll c e (u_fds u x0 (ucast x1)) (x0 \<noteq> 0) (u_ts u x2) (u_word u x3) x4 k of
           (Poll_Done r fds, k1) \<Rightarrow> ret r (Poll_Reply fds) k1 | (_, k1) \<Rightarrow> Some (Call_Sleeps, k1))
      else if n = NR_fstat then
          (let (r, st) = ksys_fstat c (unat x0) (x1 \<noteq> 0) k in ret r (reply_opt Stat_Reply st) k)
      else if n = NR_newfstatat then
          ksys_newfstatat c (int_arg x0) (u_str u x1) (x2 \<noteq> 0) (ucast x3) k \<bind> (\<lambda>(r, st, k1). ret r (reply_opt Stat_Reply st) k1)
      else if n = NR_getdents64 then
          ret_k (ksys_getdents64 c (unat x0) x1 x2 k)
      else dispatch_process c u cnt rtc clk regs k)"

text \<open>Setting the clock is the only call that changes it; the value goes to the clock chip as well.\<close>

definition handle_syscall ::
    "nat \<Rightarrow> u64 \<Rightarrow> user \<Rightarrow> u64 \<Rightarrow> u32 \<Rightarrow> clock \<Rightarrow> pt_regs \<Rightarrow> kernel \<Rightarrow> (call_out \<times> clock \<times> kernel) option" where
  "handle_syscall c e u cnt rtc clk regs k =
     (if xregs regs 8 = NR_clock_settime then
        let (r, chip, clk1) = ksys_clock_settime (int_arg (xregs regs 0)) (u_ts u (xregs regs 1)) cnt clk in
        Some (Call_Returns r (reply_opt Rtc_Reply chip), clk1, k)
      else map_option (\<lambda>(out, k1). (out, clk, k1)) (dispatch c e u cnt rtc clk regs k))"

subsection \<open>Entry and return\<close>

text \<open>A mask that a call has put in place for its own time is taken back.\<close>

definition restore_mask :: "u64 \<Rightarrow> sched \<Rightarrow> sched" where
  "restore_mask t s =
     (if t \<noteq> 0 \<and> t_restore_sigmask (tasks s t)
      then upd_task t (\<lambda>x. x\<lparr>t_blocked := t_saved_blocked x AND NOT SIG_UNBLOCKABLE, t_restore_sigmask := False\<rparr>) s else s)"

text \<open>What follows \<open>handle_syscall\<close>, once the result is in \<open>x0\<close>.  If a signal stops or ends the task, that is the outcome.\<close>

definition syscall_return :: "nat \<Rightarrow> mm_struct option \<Rightarrow> pt_regs \<Rightarrow> umem \<Rightarrow> sched \<Rightarrow> sig_outcome \<times> pt_regs \<times> umem \<times> sched" where
  "syscall_return c mm regs m s =
     (case do_signal c mm regs m s of
        (Sig_Return, regs1, m1, s1) \<Rightarrow>
          let t = get_current c s1;
              s2 = (if t \<noteq> 0 then upd_task t (\<lambda>x. x\<lparr>t_in_syscall := False\<rparr>) s1 else s1) in
          (Sig_Return, syscall_exit_restart c s1 regs1, m1, restore_mask t s2)
      | r \<Rightarrow> r)"

datatype sys_out = Sys_User pt_regs umem reply | Sys_Signal sig_outcome | Sys_Call call_out

definition sys_signal :: "reply \<Rightarrow> sig_outcome \<times> pt_regs \<times> umem \<times> sched \<Rightarrow> kernel \<Rightarrow> sys_out \<times> kernel" where
  "sys_signal p = (\<lambda>(out, regs, m, s) k. (case out of Sig_Return \<Rightarrow> Sys_User regs m p | _ \<Rightarrow> Sys_Signal out, k\<lparr>sch := s\<rparr>))"

definition syscall_handler ::
    "nat \<Rightarrow> u64 \<Rightarrow> user \<Rightarrow> u64 \<Rightarrow> u32 \<Rightarrow> clock \<Rightarrow> umem \<Rightarrow> pt_regs \<Rightarrow> kernel \<Rightarrow> (sys_out \<times> clock \<times> kernel) option" where
  "syscall_handler c e u cnt rtc clk m regs k =
     (let t = k_current c k;
          k0 = (if t \<noteq> 0 then k_task t (\<lambda>x. x\<lparr>t_regs := regs\<rparr>) k else k) in
      if xregs regs 8 = NR_rt_sigreturn then
        let mm = user_mm c k0; (err, regs1, s1) = ksys_rt_sigreturn c mm regs m (sch k0) in
        if err < 0 then do { k1 \<leftarrow> do_exit c SIGSEGV (k0\<lparr>sch := s1\<rparr>); Some (Sys_Signal (Sig_Exit SIGSEGV), clk, k1) }
        else
          let (out, regs2, m2, s2) = do_signal c mm regs1 m s1;
              s3 = (if out = Sig_Return then restore_mask (get_current c s2) s2 else s2);
              (r, k1) = sys_signal No_Reply (out, regs2, m2, s3) k0 in
          Some (r, clk, k1)
      else
        let k1 = (if t \<noteq> 0 then k_task t (\<lambda>x. x\<lparr>t_in_syscall := True, t_orig_x0 := xregs regs 0\<rparr>) k0 else k0) in
        do {
          (out, clk1, k2) \<leftarrow> handle_syscall c e u cnt rtc clk regs k1;
          (case out of
             Call_Returns n p \<Rightarrow>
               let regs1 = regs\<lparr>xregs := (xregs regs)(0 := word_of_int n)\<rparr>;
                   (r, k3) = sys_signal p (syscall_return c (user_mm c k2) regs1 m (sch k2)) k2 in
               Some (r, clk1, k3)
           | _ \<Rightarrow> Some (Sys_Call out, clk1, k2)) })"

end
