(* ===== verification/Syscall_Props.thy ===== *)
theory Syscall_Props
  imports Syscall Irq_Props
begin

text \<open>
  The way back from a system call: interrupted calls are restarted or fail with \<open>EINTR\<close>, whether a handler runs in between or
  not, and every register survives.  The restored status register is not checked, so that a process can enter kernel mode.
\<close>

subsection \<open>Restarting\<close>

text \<open>The registers with which the process goes on after a call with result \<open>x0\<close>.\<close>

definition resumed :: "bool \<Rightarrow> u64 \<Rightarrow> pt_regs \<Rightarrow> pt_regs" where
  "resumed restart orig regs =
     (if sint (xregs regs 0) \<noteq> - ERESTARTSYS then regs
      else if restart then regs\<lparr>xregs := (xregs regs)(0 := orig), elr_el1 := elr_el1 regs - 4\<rparr>
      else regs\<lparr>xregs := (xregs regs)(0 := word_of_int (- EINTR))\<rparr>)"

text \<open>What the passes over ignored signals keep.\<close>

definition in_call :: "nat \<Rightarrow> u64 \<Rightarrow> u64 \<Rightarrow> sched \<Rightarrow> bool" where
  "in_call c t orig s \<longleftrightarrow> t \<noteq> 0 \<and> get_current c s = t \<and> t_in_syscall (tasks s t) \<and> t_orig_x0 (tasks s t) = orig"

lemma in_call_upd:
  "(\<And>k. t_in_syscall (f k) = t_in_syscall k) \<Longrightarrow> (\<And>k. t_orig_x0 (f k) = t_orig_x0 k) \<Longrightarrow> in_call c t orig (upd_task u f s) \<longleftrightarrow> in_call c t orig s"
  by (auto simp: in_call_def get_current_def)

lemma apply_resumed: "in_call c t orig s \<Longrightarrow> apply_syscall_restart c restart s regs = resumed restart orig regs"
  by (simp add: in_call_def apply_syscall_restart_def resumed_def Let_def)

lemma do_signal_none:
  assumes "t_pending (tasks s (get_current c s)) = 0"
  shows "do_signal c mm regs m s = (Sig_Return, regs, m, s)"
proof -
  have "next_pending_signal 0 b = 0" for b by (auto simp: next_pending_signal_def find_Some_iff split: option.split)
  then show ?thesis using assms by (subst do_signal.simps) (simp add: Let_def)
qed

text \<open>The signals for which a handler of the task has to run: deliverable, and caught.\<close>

definition caught :: "task_struct \<Rightarrow> int \<Rightarrow> bool" where
  "caught k sig \<longleftrightarrow> deliverable (t_pending k) (t_blocked k) sig \<and>
     sa_handler (t_actions k (nat sig)) \<noteq> SIG_DFL \<and> sa_handler (t_actions k (nat sig)) \<noteq> SIG_IGN"

lemma caught_clear:
  assumes "1 \<le> sig" "sig \<le> 63" "sa_handler (t_actions k (nat sig)) = SIG_DFL \<or> sa_handler (t_actions k (nat sig)) = SIG_IGN"
  shows "caught (k\<lparr>t_pending := t_pending k AND NOT (SIG_BIT sig)\<rparr>) = caught k"
  using assms by (auto simp: fun_eq_iff caught_def deliverable_clear)

lemma next_caught:
  assumes n: "next_pending_signal (t_pending k) (t_blocked k) = sig" and s: "sig \<noteq> 0" "sig \<noteq> SIGKILL" "sig \<noteq> SIGSTOP"
    and h: "sa_handler (t_actions k (nat sig)) \<noteq> SIG_DFL" "sa_handler (t_actions k (nat sig)) \<noteq> SIG_IGN"
  shows "caught k sig" "caught k j \<Longrightarrow> sig \<le> j"
  using next_pending_spec [of "t_pending k" "t_blocked k"] n s h by (auto simp: Let_def caught_def)

text \<open>\<open>do_signal\<close> comes back without a handler exactly if no signal is caught; otherwise it starts the handler of the least one.\<close>

lemma do_signal_returns:
  assumes "in_call c t orig s" "do_signal c mm regs m s = (Sig_Return, regs1, m1, s1)"
  shows "(\<not> t_is_user (tasks s t) \<or> (\<forall>sig. \<not> caught (tasks s t) sig)) \<and> regs1 = regs \<and> m1 = m \<and> in_call c t orig s1 \<or>
    (\<exists>sig s2. t_is_user (tasks s t) \<and> caught (tasks s t) sig \<and> (\<forall>j. caught (tasks s t) j \<longrightarrow> sig \<le> j) \<and>
       in_call c t orig s2 \<and> cpus s2 = cpus s \<and>
       handle_signal c mm (resumed (sa_flags (t_actions (tasks s t) (nat sig)) AND SA_RESTART \<noteq> 0) orig regs) sig
         (t_actions (tasks s t) (nat sig)) m s2 = (Sig_Return, regs1, m1, s1))"
  using assms
proof (induction c mm regs m s rule: do_signal.induct)
  case (1 c mm regs m s)
  let ?k = "tasks s t" let ?sig = "next_pending_signal (t_pending ?k) (t_blocked ?k)"
  let ?s1 = "upd_task t (\<lambda>k. k\<lparr>t_pending := t_pending k AND NOT (SIG_BIT ?sig)\<rparr>) s" let ?ka = "t_actions ?k (nat ?sig)"
  have t: "get_current c s = t" "t \<noteq> 0" using "1.prems"(1) by (auto simp: in_call_def)
  have i: "in_call c t orig ?s1" using "1.prems"(1) by (simp add: in_call_upd)
  show ?case
  proof (cases "\<not> t_is_user ?k \<or> ?sig = 0")
    case True
    then have "do_signal c mm regs m s = (Sig_Return, regs, m, s)"
      using t by (subst do_signal.simps) (cases "t_is_user ?k"; simp)
    moreover have "\<not> t_is_user ?k \<or> (\<forall>sig. \<not> caught ?k sig)"
      using True next_pending_spec [of "t_pending ?k" "t_blocked ?k"] by (auto simp: Let_def caught_def)
    ultimately show ?thesis using "1.prems" by simp
  next
    case False
    note d = "1.prems"(2) [unfolded do_signal.simps [of c mm regs m s] Let_def t(1)]
    have n: "1 \<le> ?sig" "?sig \<le> 63" using next_pending_bit False by auto
    have ks: "?sig \<noteq> SIGKILL" "?sig \<noteq> SIGSTOP" using d False t(2) by (auto split: if_splits)
    show ?thesis
    proof (cases "sa_handler ?ka = SIG_DFL \<or> sa_handler ?ka = SIG_IGN")
      case True
      note cc = caught_clear [OF n True]
      have ds: "do_signal c mm regs m ?s1 = (Sig_Return, regs1, m1, s1)" using d True False ks t(2) by (auto split: if_splits)
      show ?thesis
      proof (cases "sa_handler ?ka = SIG_IGN")
        case True
        then show ?thesis using "1.IH"(1) [OF refl refl _ refl _ refl refl] t False ks i ds by (simp add: cc)
      next
        case ign: False
        then have "sa_handler ?ka = SIG_DFL" "\<not> sig_kernel_stop ?sig"
          "\<not> (t_pid ?k = 1 \<and> (?sig = SIGUSR1 \<or> ?sig = SIGUSR2 \<or> ?sig = SIGTERM))"
          "?sig = SIGCHLD \<or> ?sig = SIGCONT \<or> ?sig = SIGURG \<or> ?sig = SIGWINCH"
          using d True False ks t(2) by (auto split: if_splits)
        then show ?thesis using "1.IH"(2) [OF refl refl _ refl _ refl refl] t False ks ign i ds by (simp add: cc)
      qed
    next
      case run: False
      define s2 where "s2 = (if sa_flags ?ka AND SA_RESETHAND \<noteq> 0
        then upd_task t (\<lambda>k. k\<lparr>t_actions := (t_actions k)(nat ?sig := t_actions k (nat ?sig)\<lparr>sa_handler := SIG_DFL\<rparr>)\<rparr>) ?s1 else ?s1)"
      have s2: "in_call c t orig s2" "cpus s2 = cpus s" using i by (simp_all add: s2_def in_call_upd)
      have "handle_signal c mm (apply_syscall_restart c (sa_flags ?ka AND SA_RESTART \<noteq> 0) s2 regs) ?sig ?ka m s2 = (Sig_Return, regs1, m1, s1)"
        using d run False t(2) ks by (simp add: s2_def split: if_splits)
      then have h: "handle_signal c mm (resumed (sa_flags ?ka AND SA_RESTART \<noteq> 0) orig regs) ?sig ?ka m s2 = (Sig_Return, regs1, m1, s1)"
        using s2(1) by (simp add: apply_resumed)
      have z: "?sig \<noteq> 0" "sa_handler ?ka \<noteq> SIG_DFL" "sa_handler ?ka \<noteq> SIG_IGN" using False run by blast+
      note nc = next_caught [OF refl z(1) ks z(2,3)]
      show ?thesis using s2 False h nc by (intro disjI2 exI [of _ ?sig] exI [of _ s2]) blast
    qed
  qed
qed

lemma handler_started:
  assumes "handle_signal c mm regs sig ka m s = (Sig_Return, regs1, m1, s1)" "sa_handler ka \<noteq> SIG_DFL" "sa_handler ka \<noteq> SIG_IGN"
  shows "xregs regs1 0 = word_of_int sig" "elr_el1 regs1 = sa_handler ka" "get_current c s1 = get_current c s"
    "t_in_syscall (tasks s1 u) = t_in_syscall (tasks s u)"
  using assms by (auto simp: handle_signal_def setup_signal_frame_def Let_def get_current_def write_user_sp_def split: if_splits)

text \<open>Whenever the task calls \<open>rt_sigreturn\<close> with the stack pointer and the frame of \<open>s1\<close> and \<open>m1\<close>, it goes on with these registers.\<close>

definition comes_back :: "nat \<Rightarrow> mm_struct option \<Rightarrow> u64 \<Rightarrow> umem \<Rightarrow> sched \<Rightarrow> pt_regs \<Rightarrow> u64 \<Rightarrow> bool" where
  "comes_back c mm t m1 s1 regs sp \<longleftrightarrow>
     (\<forall>regs2 m2 s2. get_current c s2 = t \<and> sp_el0 (cpus s2 c) = sp_el0 (cpus s1 c) \<and>
        (\<forall>i<35. load_word m2 (sp_el0 (cpus s1 c)) i = load_word m1 (sp_el0 (cpus s1 c)) i) \<longrightarrow>
      (\<exists>regs3 s3. ksys_rt_sigreturn c mm regs2 m2 s2 = (0, regs3, s3) \<and> (\<forall>i<31. xregs regs3 i = xregs regs i) \<and>
         elr_el1 regs3 = elr_el1 regs \<and> spsr_el1 regs3 = spsr_el1 regs \<and> sp_el0 (cpus s3 c) = sp))"

text \<open>C6: interrupted system calls.  Let a call of the current task have ended with a result in \<open>x0\<close>, and let the task
  return to user mode.  If it has no deliverable signal with a handler, it goes on with that result, or, if the result is
  \<open>ERESTARTSYS\<close>, executes the same call instruction again with the original argument in \<open>x0\<close>.  Otherwise the handler installed
  for the least such signal is started with the number of the signal, and its \<open>rt_sigreturn\<close>, with the stack pointer it was
  started with and an unchanged frame, restores the status and every register the call has left, where an interrupted call is
  executed again if this handler was installed with \<open>SA_RESTART\<close> and returns \<open>EINTR\<close> if not.  In both cases the call is over for
  the kernel.\<close>

theorem syscall_restart:
  assumes i: "in_call c t orig s" and r: "syscall_return c mm regs m s = (Sig_Return, regs1, m1, s1)"
  shows "\<not> t_in_syscall (tasks s1 t) \<and>
    (if t_is_user (tasks s t) \<and> (\<exists>sig. caught (tasks s t) sig)
     then \<exists>sig. caught (tasks s t) sig \<and> (\<forall>j. caught (tasks s t) j \<longrightarrow> sig \<le> j) \<and>
       xregs regs1 0 = word_of_int sig \<and> elr_el1 regs1 = sa_handler (t_actions (tasks s t) (nat sig)) \<and>
       comes_back c mm t m1 s1 (resumed (sa_flags (t_actions (tasks s t) (nat sig)) AND SA_RESTART \<noteq> 0) orig regs)
         (sp_el0 (cpus s c))
     else regs1 = resumed True orig regs \<and> m1 = m)"
proof -
  obtain regs0 s0 where d: "do_signal c mm regs m s = (Sig_Return, regs0, m1, s0)"
    and e: "regs1 = syscall_exit_restart c s0 regs0"
      "s1 = restore_mask (get_current c s0) (if get_current c s0 \<noteq> 0 then upd_task (get_current c s0) (\<lambda>x. x\<lparr>t_in_syscall := False\<rparr>) s0 else s0)"
    using r by (auto simp: syscall_return_def Let_def split: prod.splits sig_outcome.splits)
  have s1: "cpus s1 = cpus s0" using e(2) by (simp add: restore_mask_def)
  have over: "\<not> t_in_syscall (tasks s1 t)" if "get_current c s0 = t" using that i e(2) by (simp add: restore_mask_def in_call_def)
  from do_signal_returns [OF i d] show ?thesis
  proof (rule disjE, elim conjE, goal_cases)
    case a: 1
    have i0: "in_call c t orig s0" using a by blast
    show ?thesis using a e(1) over apply_resumed [OF i0] i0 by (auto simp: syscall_exit_restart_def in_call_def)
  next
    case 2
    then obtain sig s2 where u: "t_is_user (tasks s t)" "caught (tasks s t) sig" "\<forall>j. caught (tasks s t) j \<longrightarrow> sig \<le> j"
      and a: "in_call c t orig s2" "cpus s2 = cpus s"
      and h: "handle_signal c mm (resumed (sa_flags (t_actions (tasks s t) (nat sig)) AND SA_RESTART \<noteq> 0) orig regs) sig
        (t_actions (tasks s t) (nat sig)) m s2 = (Sig_Return, regs0, m1, s0)" by blast
    define ka where "ka = t_actions (tasks s t) (nat sig)"
    note h = h [folded ka_def]
    have k: "sa_handler ka \<noteq> SIG_DFL" "sa_handler ka \<noteq> SIG_IGN" "1 \<le> sig" "sig \<le> 63"
      using u(2) by (auto simp: caught_def deliverable_def ka_def)
    note st = handler_started [OF h k(1,2)]
    have t: "get_current c s2 = t" "t \<noteq> 0" using a(1) by (simp_all add: in_call_def)
    have "sint (xregs regs0 0) = sig" using k(3,4) st(1) by (simp add: sint_sbintrunc' signed_take_bit_int_eq_self)
    then have regs1: "regs1 = regs0" using e(1) k(3) by (simp add: syscall_exit_restart_def apply_syscall_restart_def Let_def)
    have "comes_back c mm t m1 s1 (resumed (sa_flags ka AND SA_RESTART \<noteq> 0) orig regs) (sp_el0 (cpus s c))"
      unfolding comes_back_def
    proof (intro allI impI, elim conjE)
      fix regs2 m2 s3 assume "get_current c s3 = t" "sp_el0 (cpus s3 c) = sp_el0 (cpus s1 c)"
        "\<forall>i<35. load_word m2 (sp_el0 (cpus s1 c)) i = load_word m1 (sp_el0 (cpus s1 c)) i"
      then show "\<exists>regs3 s4. ksys_rt_sigreturn c mm regs2 m2 s3 = (0, regs3, s4) \<and>
          (\<forall>i<31. xregs regs3 i = xregs (resumed (sa_flags ka AND SA_RESTART \<noteq> 0) orig regs) i) \<and>
          elr_el1 regs3 = elr_el1 (resumed (sa_flags ka AND SA_RESTART \<noteq> 0) orig regs) \<and>
          spsr_el1 regs3 = spsr_el1 (resumed (sa_flags ka AND SA_RESTART \<noteq> 0) orig regs) \<and> sp_el0 (cpus s4 c) = sp_el0 (cpus s c)"
        using sigreturn_frame [OF h k(1,2), of s3 m2 _ regs2] t s1 a(2) by auto
    qed
    moreover have "\<not> t_in_syscall (tasks s1 t)" "xregs regs1 0 = word_of_int sig" "elr_el1 regs1 = sa_handler ka"
      using over st(1,2,3) t regs1 by simp_all
    ultimately show ?thesis using u unfolding ka_def by auto
  qed
qed

text \<open>An interrupted call without a signal, and one with SIGUSR1 pending and a handler for it.\<close>

definition caller :: sched where
  "caller = upd_task 0x100 (\<lambda>x. x\<lparr>t_in_syscall := True, t_orig_x0 := 7\<rparr>) handler_task"

definition signalled :: sched where
  "signalled = upd_task 0x100 (\<lambda>x. x\<lparr>t_pending := SIG_BIT 10,
     t_actions := (t_actions x)(10 := \<lparr>sa_handler = 0x500, sa_flags = SA_RESTART, sa_restorer = 0x600, sa_mask = 0\<rparr>)\<rparr>) caller"

definition interrupted :: pt_regs where
  "interrupted = \<lparr>xregs = \<lambda>i. if i = 0 then word_of_int (- ERESTARTSYS) else of_nat i, elr_el1 = 0x404, spsr_el1 = 0\<rparr>"

lemma caller_in_call: "in_call 0 0x100 7 caller" "in_call 0 0x100 7 signalled"
  by (simp_all add: in_call_def caller_def signalled_def handler_task_def two_tasks_def get_current_def cpu0_def)

lemma signalled_returns: "fst (syscall_return 0 (Some stack_mm) interrupted (\<lambda>_. 0) signalled) = Sig_Return"
  by code_simp

theorem syscall_restart_witness:
  "(\<exists>s1. syscall_return 0 None interrupted (\<lambda>_. 0) caller
     = (Sig_Return, \<lparr>xregs = \<lambda>i. if i = 0 then 7 else of_nat i, elr_el1 = 0x400, spsr_el1 = 0\<rparr>, \<lambda>_. 0, s1) \<and> \<not> t_in_syscall (tasks s1 0x100)) \<and>
   (\<exists>regs1 m1 s1. syscall_return 0 (Some stack_mm) interrupted (\<lambda>_. 0) signalled = (Sig_Return, regs1, m1, s1) \<and>
     xregs regs1 0 = 10 \<and> elr_el1 regs1 = 0x500 \<and>
     comes_back 0 (Some stack_mm) 0x100 m1 s1 \<lparr>xregs = \<lambda>i. if i = 0 then 7 else of_nat i, elr_el1 = 0x400, spsr_el1 = 0\<rparr> 0x7ffffff0)"
proof -
  have res: "resumed True 7 interrupted = \<lparr>xregs = \<lambda>i. if i = 0 then 7 else of_nat i, elr_el1 = 0x400, spsr_el1 = 0\<rparr>"
    by (auto simp: resumed_def interrupted_def)
  have d: "do_signal 0 None interrupted (\<lambda>_. 0) caller = (Sig_Return, interrupted, \<lambda>_. 0, caller)"
    by (rule do_signal_none) (simp add: caller_def handler_task_def two_tasks_def task0_def get_current_def cpu0_def)
  obtain s1 where r: "syscall_return 0 None interrupted (\<lambda>_. 0) caller = (Sig_Return, resumed True 7 interrupted, \<lambda>_. 0, s1)"
    using apply_resumed [OF caller_in_call(1), of True interrupted] by (simp add: syscall_return_def d syscall_exit_restart_def Let_def)
  moreover from syscall_restart [OF caller_in_call(1) r] have "\<not> t_in_syscall (tasks s1 0x100)" by simp
  moreover obtain regs1 m1 s2 where q: "syscall_return 0 (Some stack_mm) interrupted (\<lambda>_. 0) signalled = (Sig_Return, regs1, m1, s2)"
    using signalled_returns by (metis prod.collapse)
  have k: "t_is_user (tasks signalled 0x100)" "sp_el0 (cpus signalled 0) = 0x7ffffff0"
    "t_actions (tasks signalled 0x100) 10 = \<lparr>sa_handler = 0x500, sa_flags = SA_RESTART, sa_restorer = 0x600, sa_mask = 0\<rparr>"
    by (simp_all add: signalled_def caller_def handler_task_def two_tasks_def task0_def cpu0_def upd_cpu_def)
  have c: "caught (tasks signalled 0x100) j \<longleftrightarrow> j = 10" for j
    using k(3) by (auto simp: caught_def deliverable_def signalled_def caller_def handler_task_def two_tasks_def task0_def bit_SIG_BIT nat_eq_iff)
  have "xregs regs1 0 = 10 \<and> elr_el1 regs1 = 0x500 \<and> comes_back 0 (Some stack_mm) 0x100 m1 s2 (resumed True 7 interrupted) 0x7ffffff0"
    using syscall_restart [OF caller_in_call(2) q] k by (simp add: c)
  ultimately show ?thesis using q unfolding res by blast
qed

subsection \<open>The way into kernel mode\<close>

text \<open>\<open>rt_sigreturn\<close> takes the status register from the frame as it is.  With a frame of its own making, a process returns from the
  call in the exception level, at the address and with the interrupt mask of its choice.\<close>

lemma sigreturn_any_status:
  assumes "xregs regs 8 = NR_rt_sigreturn" "t = k_current c k" "t \<noteq> 0" "t_pending (tasks (sch k) t) = 0"
    and "signal_frame_ok (user_mm c k) (sp_el0 (cpus (sch k) c))"
    and "load_word m (sp_el0 (cpus (sch k) c)) 31 = pc" "load_word m (sp_el0 (cpus (sch k) c)) 32 = status"
  shows "\<exists>regs1 m1 k1. syscall_handler c e u cnt rtc clk m regs k = Some (Sys_User regs1 m1 No_Reply, clk, k1) \<and>
    elr_el1 regs1 = pc \<and> spsr_el1 regs1 = status"
proof -
  define k0 where "k0 = k_task t (\<lambda>x. x\<lparr>t_regs := regs\<rparr>) k"
  let ?sp = "sp_el0 (cpus (sch k) c)"
  have c: "get_current c (write_user_sp c v s) = get_current c s" "get_current c (upd_task v f s) = get_current c s"
    "t_pending (tasks (write_user_sp c v s) x) = t_pending (tasks s x)" for v f s x
    by (simp_all add: write_user_sp_def get_current_def Let_def)
  have k0: "cpus (sch k0) = cpus (sch k)" "k_current c k0 = t" "user_mm c k0 = user_mm c k" "t_pending (tasks (sch k0) t) = 0"
    using assms(2,4) by (simp_all add: k0_def k_task_def user_mm_def Let_def get_current_def)
  obtain regs1 s1 where r: "ksys_rt_sigreturn c (user_mm c k) regs m (sch k0) = (0, regs1, s1)" "elr_el1 regs1 = pc" "spsr_el1 regs1 = status"
      "get_current c s1 = t" "t_pending (tasks s1 t) = 0"
    using assms(3,5,6,7) k0 by (simp add: ksys_rt_sigreturn_def Let_def c)
  have "do_signal c (user_mm c k) regs1 m s1 = (Sig_Return, regs1, m, s1)" using r(4,5) by (intro do_signal_none) simp
  then show ?thesis using assms(1,3) r k0 unfolding syscall_handler_def assms(2) [symmetric] by (simp add: k0_def [symmetric] sys_signal_def)
qed

end
