(* ===== verification/Spec2Isabelle.thy ===== *)
theory Spec2Isabelle
  imports Page_Alloc_Props Slub_Props Mmap_Props Fault_Props Kstring Vsnprintf_Props Sched_Props Signal_Props
    Ramfs_Data Ramfs_Tree Pipe_Props Tty_Props Vfs Stat Poll Exec Process Timekeeping Initramfs_Props
    Files_Props Irq_Props Boot_Props Rbtree_Erase Syscall_Props
begin

text \<open>
  A verification of mini-os, a small SMP kernel for AArch64 that runs Linux programs.  The kernel is modelled as functions on
  explicit states, one theory or pair of theories per component; this theory brings the components together.

  \<^bold>\<open>The program.\<close>  At boot (\<^verbatim>\<open>init/main.c\<close>, \<^verbatim>\<open>kernel/smp.c\<close>) the kernel sets up its devices and CPUs, a buddy allocator of pages
  (\<^verbatim>\<open>mm/page_alloc.c\<close>), a slab allocator on top of it (\<^verbatim>\<open>mm/slub.c\<close>) and a file system in memory (\<^verbatim>\<open>fs/ramfs.c\<close>), into which it
  unpacks an archive (\<^verbatim>\<open>fs/initramfs.c\<close>), and starts the first process.  From then on it runs in two ways.  Interrupts (\<^verbatim>\<open>kernel/irq.c\<close>,
  \<^verbatim>\<open>kernel/time/tick.c\<close>) drive the clock, wake sleepers, feed the terminal (\<^verbatim>\<open>drivers/tty\<close>) and switch tasks
  (\<^verbatim>\<open>kernel/sched/core.c\<close>).  System calls and page faults enter through \<^verbatim>\<open>kernel/sys.c\<close> and \<^verbatim>\<open>mm/mmap.c\<close>: they work on address
  spaces, on open files, which lead to ramfs, procfs, pipes, devices and the terminal, on tasks, and on signals, which are
  delivered on the way back to the process (\<^verbatim>\<open>kernel/signal.c\<close>).

  \<^bold>\<open>States.\<close>  A \<^verbatim>\<open>struct\<close> is a record with the fields that any code reads; a pointer is a 64-bit word and its target is found in a
  function from addresses to records; an intrusive list is a list of addresses.  The states are nested as the code nests
  them: \<open>buddy\<close> (pages) in \<open>kmem\<close> (slabs) in \<open>vmstate\<close> (page tables); \<open>sched\<close> (tasks, CPUs, run queues); \<open>fs\<close> (heap, inodes, ramfs nodes
  and the bytes of memory); and \<open>kernel\<close>, which has all of them and the open files, pipes, directory entries and terminal.

  \<^bold>\<open>Conventions.\<close>  Unsigned longs are \<open>64 word\<close> and wrap; an \<open>int\<close> result is \<open>0\<close>, a count or \<open>- Exxx\<close> as in the code.  A null pointer on
  return is \<open>None\<close> or address \<open>0\<close>.  What is read from or written to a device, to user memory and to the generic timer is an argument or a
  result.  A section under a spin lock is one step.  A call that sleeps is split where it calls \<open>schedule\<close>: one
  definition leads up to there, another one (\<open>..._resume\<close>, \<open>..._end\<close>) goes on from there, and what other CPUs do in between
  is any change of the state.

  \<^bold>\<open>Foundations.\<close>
  \<^item> \<open>Prelude\<close>: types, error numbers, page arithmetic, lemmas on words and aligned blocks.
  \<^item> \<open>Allocator\<close>, \<open>Ring\<close>, \<open>Refcount\<close>: the interfaces \<open>allocator\<close> and \<open>block_allocator\<close> (what memory a client holds), \<open>byte_queue\<close> (a
    bounded queue of bytes) and \<open>ref_table\<close> (counted references in slots), each with the theorems its clients rest on.
    \<open>Page_Alloc_Correct\<close>, \<open>Slub_Correct\<close>, \<open>Pipe_Props\<close>, \<open>Tty_Props\<close> and \<open>Files_Props\<close> interpret them with the kernel's functions.
  \<^item> \<open>Kstring\<close>, \<open>Vsnprintf\<close>, \<open>Vsnprintf_Props\<close>: \<^verbatim>\<open>lib/string.c\<close>, \<^verbatim>\<open>lib/memset.c\<close>, \<^verbatim>\<open>lib/strnlen_user.c\<close>, \<^verbatim>\<open>mm/uaccess.c\<close>,
    \<^verbatim>\<open>lib/vsnprintf.c\<close>; \<open>strscpy\<close> copies the longest prefix that fits, formatted output equals a rendering of the pieces of the format.
  \<^item> \<open>Rbtree\<close>, \<open>Rbtree_Props\<close>, \<open>Rbtree_Erase\<close>: \<^verbatim>\<open>lib/rbtree.c\<close> on a store of nodes.  The store represents a tree; every rotation and
    recolouring acts on a subtree below any context.  Insertion, and removal of a node with at most one child, keep a red-black
    tree and its order; removal of a node with two children makes a cycle.

  \<^bold>\<open>Memory.\<close>
  \<^item> \<open>Page_Alloc\<close>, \<open>Page_Alloc_Correct\<close>, \<open>Page_Alloc_Props\<close>: \<^verbatim>\<open>mm/page_alloc.c\<close>.  The invariant (free lists disjoint, aligned and fully
    coalesced), the exact effect of allocation and release, completeness (no page is refused that is there), round trip,
    and the safety of any history of requests.
  \<^item> \<open>Slub\<close>, \<open>Slub_Correct\<close>, \<open>Slub_Props\<close>: \<^verbatim>\<open>mm/slub.c\<close>.  Objects are disjoint, aligned and inside live slabs, over any history;
    release restores the state; nothing is kept when nothing is used.
  \<^item> \<open>Vma\<close>, \<open>Vma_Correct\<close>, \<open>Pgtable\<close>, \<open>Pgtable_Correct\<close>, \<open>Mmap\<close>, \<open>Mmap_Props\<close>, \<open>Fault_Props\<close>: \<^verbatim>\<open>mm/mmap.c\<close> and the life of address spaces in
    \<^verbatim>\<open>kernel/fork.c\<close>.  Areas stay sorted and disjoint; mapping, unmapping and protection change the rights of exactly their range;
    a page fault is resolved only within the rights and with a private page; the cases where wrapping arithmetic breaks
    the areas are theorems too.

  \<^bold>\<open>Tasks.\<close>
  \<^item> \<open>Sched\<close>, \<open>Sched_Props\<close>: \<^verbatim>\<open>kernel/sched/core.c\<close>, \<^verbatim>\<open>kernel/time/tick.c\<close>, \<^verbatim>\<open>kernel/time/timer.c\<close>.  A step relation over what the CPUs do;
    no task is queued twice, tasks run in turn, registers survive a switch.
  \<^item> \<open>Signal\<close>, \<open>Signal_Props\<close>, \<open>Wait\<close>: \<^verbatim>\<open>kernel/signal.c\<close>, \<^verbatim>\<open>kernel/sched/wait.c\<close>.  Order of delivery, kill, frames, waking.
  \<^item> \<open>Process\<close>, \<open>Exec\<close>: \<^verbatim>\<open>kernel/fork.c\<close>, \<^verbatim>\<open>kernel/pid.c\<close>, \<^verbatim>\<open>kernel/exit.c\<close>, \<^verbatim>\<open>fs/exec.c\<close>, \<^verbatim>\<open>fs/binfmt.c\<close>.
  \<^item> \<open>Irq\<close>, \<open>Irq_Props\<close>: \<^verbatim>\<open>kernel/irq.c\<close> and the timer.  Any interrupts on any CPUs keep the run queues well formed and are completed once.
  \<^item> \<open>Boot\<close>, \<open>Boot_Props\<close>: \<^verbatim>\<open>init/main.c\<close>, \<^verbatim>\<open>kernel/smp.c\<close>, \<^verbatim>\<open>kernel/sched/idle.c\<close>, \<^verbatim>\<open>kernel/reboot.c\<close>.  Start-up ends and establishes the
    invariants that the other theorems assume.
  \<^item> \<open>Syscall\<close>, \<open>Syscall_Props\<close>: \<^verbatim>\<open>kernel/sys.c\<close>.  The dispatch of every call; interrupted calls are restarted or fail as they should.
  \<^item> \<open>Timekeeping\<close>: \<^verbatim>\<open>kernel/time/time.c\<close>, \<^verbatim>\<open>kernel/time/clocksource.c\<close>, \<^verbatim>\<open>drivers/rtc/pl031.c\<close>.  The wall clock is exact.

  \<^bold>\<open>Files.\<close>
  \<^item> \<open>Inode\<close>, \<open>Ramfs\<close>, \<open>Ramfs_Data\<close>, \<open>Ramfs_Tree\<close>: \<^verbatim>\<open>fs/inode.c\<close>, \<^verbatim>\<open>fs/ramfs.c\<close>.  A file refines a byte string; writing ends exactly when its
    end is at most \<open>2 ^ 63\<close>; the path of a directory leads back to it.
  \<^item> \<open>Path\<close>, \<open>Namei\<close>, \<open>Dcache\<close>: \<^verbatim>\<open>fs/namei.c\<close>, \<^verbatim>\<open>fs/dcache.c\<close>.  Resolving a path interprets its components.
  \<^item> \<open>Kernel\<close>, \<open>Files\<close>, \<open>Files_Props\<close>: the joint state, \<^verbatim>\<open>fs/open.c\<close>, \<^verbatim>\<open>fs/char_dev.c\<close> and the device files.  The count of an open file is
    the number of descriptors that name it, over any history of calls, forks and exits.
  \<^item> \<open>Vfs\<close>, \<open>Stat\<close>, \<open>Poll\<close>, \<open>Procfs\<close>: \<^verbatim>\<open>fs/read_write.c\<close>, \<^verbatim>\<open>fs/readdir.c\<close>, \<^verbatim>\<open>fs/stat.c\<close>, \<^verbatim>\<open>fs/poll.c\<close>, \<^verbatim>\<open>fs/procfs.c\<close>.
  \<^item> \<open>Pipe\<close>, \<open>Pipe_Props\<close>, \<open>Tty\<close>, \<open>Tty_Props\<close>: \<^verbatim>\<open>fs/pipe.c\<close>, \<^verbatim>\<open>drivers/tty\<close>.  Both refine queues; the interrupt handler empties the device in
    order; a transfer wakes the other end.
  \<^item> \<open>Initramfs\<close>, \<open>Initramfs_Props\<close>: \<^verbatim>\<open>fs/initramfs.c\<close>.  Unpacking ends on every archive.

  \<^bold>\<open>Bounds and termination.\<close>  There is no fuel.  Loops whose end the code guarantees are recursive functions with a termination proof, the
  bound being one of the code (the orders of the page allocator, the 32 levels of a path, the polls of a device).  Loops that may not
  end (the growth of a file's buffer, the release of a directory tree, string copies, the walks of the red-black tree) are partial functions
  into \<open>option\<close>, and a theorem that they return states that the result is \<open>Some\<close>.  The sizes in hypotheses (\<open>2 ^ 27\<close> bytes for an
  allocation, \<open>2 ^ 34\<close> for what follows an archive) exceed what the machine has: its memory is 128 megabytes.

  \<^bold>\<open>Not modelled.\<close>
  \<^item> Assembly (\<^verbatim>\<open>kernel/head.S\<close>, \<^verbatim>\<open>kernel/entry.S\<close>, \<^verbatim>\<open>hypervisor\<close>) and firmware calls (\<^verbatim>\<open>kernel/psci.c\<close>): no C semantics; the values they
    deliver are arguments.
  \<^item> Spin locks, atomics, barriers and TLB maintenance: a locked section is one step, so that races inside one are outside the model;
    the races between two sections that matter are theorems about explicit interleavings in \<open>Sched_Props\<close> and \<open>Pipe_Props\<close>.
  \<^item> The boot mapping of the kernel in \<^verbatim>\<open>mm/mmap.c\<close>, register writes of a secondary CPU, the debug dump of a run queue.
  \<^item> Text for the console (\<^verbatim>\<open>kernel/printk.c\<close>, \<^verbatim>\<open>mm/fault.c\<close>, the fault report of \<^verbatim>\<open>kernel/sys.c\<close>), the probe of \<^verbatim>\<open>drivers/virtio\<close>: output only.
  \<^item> The programs of \<^verbatim>\<open>initramfs\<close> and \<^verbatim>\<open>tools\<close>: they run on the kernel and are not part of it.
\<close>

end
